(* ===== verification/WI_Prelude.thy ===== *)
theory WI_Prelude
  imports Complex_Main "HOL-Library.AList"
begin

text \<open>
  What every component of the development shares.

  \<^item> JavaScript numbers (\<open>jsnum\<close>): the IEEE special values are kept (\<open>NaN\<close>, the two
    infinities), the finite ones are exact rationals. So a comparison with \<open>NaN\<close> is false,
    \<open>Infinity - Infinity\<close> is \<open>NaN\<close>, and so on, while the rounding of finite results and the
    sign of zero are not modelled.
  \<^item> JavaScript values (\<open>jsval\<close>) for the places where the code takes \<open>unknown\<close>.
  \<^item> Errors as values: \<open>cancel_reason\<close> and \<open>err\<close> mirror \<open>packages/core/src/types/index.ts\<close>;
    a function that may throw returns \<open>err + 'a\<close>. An error keeps the fixed text of its message;
    a number the code interpolates into the text is left out.
  \<^item> Generic plumbing: \<open>bind_res\<close> and \<open>map_res\<close> sequence results that may throw, a JavaScript
    \<open>Map\<close> is an association list in insertion order (\<open>AList.update\<close>, \<open>AList.delete\<close>), and
    \<open>reachable\<close> with the locale \<open>invariant_system\<close> lifts an invariant of the steps of a state
    machine to all its reachable states.
\<close>

named_theorems num_simps \<open>evaluation of the JavaScript number operations\<close>
named_theorems res_simps \<open>inversion of results that may throw\<close>

section \<open>Numbers\<close>

datatype jsnum = Fin rat | PInf | NInf | NaN

instantiation jsnum :: "{zero, one, plus, minus, times, ord}"
begin

definition zero_jsnum :: jsnum where "0 = Fin 0"
definition one_jsnum :: jsnum where "1 = Fin 1"

fun plus_jsnum :: "jsnum \<Rightarrow> jsnum \<Rightarrow> jsnum" where
  "plus_jsnum NaN y = NaN"
| "plus_jsnum x NaN = NaN"
| "plus_jsnum (Fin a) (Fin b) = Fin (a + b)"
| "plus_jsnum PInf NInf = NaN"
| "plus_jsnum NInf PInf = NaN"
| "plus_jsnum PInf y = PInf"
| "plus_jsnum x PInf = PInf"
| "plus_jsnum NInf y = NInf"
| "plus_jsnum x NInf = NInf"

fun js_neg :: "jsnum \<Rightarrow> jsnum" where
  "js_neg (Fin a) = Fin (- a)"
| "js_neg PInf = NInf"
| "js_neg NInf = PInf"
| "js_neg NaN = NaN"

definition minus_jsnum :: "jsnum \<Rightarrow> jsnum \<Rightarrow> jsnum" where
  "minus_jsnum x y = x + js_neg y"

definition js_sign_inf :: "rat \<Rightarrow> jsnum" where
  "js_sign_inf a = (if a = 0 then NaN else if 0 < a then PInf else NInf)"

fun times_jsnum :: "jsnum \<Rightarrow> jsnum \<Rightarrow> jsnum" where
  "times_jsnum NaN y = NaN"
| "times_jsnum x NaN = NaN"
| "times_jsnum (Fin a) (Fin b) = Fin (a * b)"
| "times_jsnum (Fin a) PInf = js_sign_inf a"
| "times_jsnum (Fin a) NInf = js_neg (js_sign_inf a)"
| "times_jsnum PInf (Fin a) = js_sign_inf a"
| "times_jsnum NInf (Fin a) = js_neg (js_sign_inf a)"
| "times_jsnum PInf PInf = PInf"
| "times_jsnum NInf NInf = PInf"
| "times_jsnum PInf NInf = NInf"
| "times_jsnum NInf PInf = NInf"

fun less_eq_jsnum :: "jsnum \<Rightarrow> jsnum \<Rightarrow> bool" where
  "less_eq_jsnum NaN y \<longleftrightarrow> False"
| "less_eq_jsnum x NaN \<longleftrightarrow> False"
| "less_eq_jsnum (Fin a) (Fin b) \<longleftrightarrow> a \<le> b"
| "less_eq_jsnum NInf y \<longleftrightarrow> True"
| "less_eq_jsnum x PInf \<longleftrightarrow> True"
| "less_eq_jsnum PInf y \<longleftrightarrow> False"
| "less_eq_jsnum x NInf \<longleftrightarrow> False"

definition less_jsnum :: "jsnum \<Rightarrow> jsnum \<Rightarrow> bool" where
  "less_jsnum x y \<longleftrightarrow> x \<le> y \<and> \<not> y \<le> x"

instance ..

end

lemma less_jsnum_Fin [simp]: "Fin a < Fin b \<longleftrightarrow> a < b"
  by (simp add: less_jsnum_def less_le_not_le)

lemma less_jsnum_NaN [simp]: "\<not> NaN < x" "\<not> x < NaN"
  by (cases x; simp add: less_jsnum_def)+

lemma minus_jsnum_Fin [simp]: "Fin a - Fin b = Fin (a - b)"
  by (simp add: minus_jsnum_def)

lemma plus_jsnum_Fin_iff [simp]: "x + y = Fin c \<longleftrightarrow> (\<exists>a b. x = Fin a \<and> y = Fin b \<and> c = a + b)"
  by (cases x; cases y) auto

lemma le_jsnum_refl: "x \<noteq> NaN \<Longrightarrow> x \<le> (x :: jsnum)"
  by (cases x) auto

declare zero_jsnum_def [num_simps] one_jsnum_def [num_simps]

text \<open>\<open>Number.isFinite\<close>, \<open>Number.isInteger\<close>, \<open>Number.isSafeInteger\<close>.\<close>

fun is_finite :: "jsnum \<Rightarrow> bool" where
  "is_finite (Fin _) \<longleftrightarrow> True"
| "is_finite _ \<longleftrightarrow> False"

definition integral :: "rat \<Rightarrow> bool" where
  "integral q \<longleftrightarrow> of_int \<lfloor>q\<rfloor> = q"

fun is_integer :: "jsnum \<Rightarrow> bool" where
  "is_integer (Fin q) \<longleftrightarrow> integral q"
| "is_integer _ \<longleftrightarrow> False"

definition max_safe_integer :: nat where
  "max_safe_integer = 9007199254740991"

fun is_safe_integer :: "jsnum \<Rightarrow> bool" where
  "is_safe_integer (Fin q) \<longleftrightarrow> integral q \<and> \<bar>q\<bar> \<le> of_nat max_safe_integer"
| "is_safe_integer _ \<longleftrightarrow> False"

text \<open>\<open>Math.min\<close> and \<open>Math.max\<close>: \<open>NaN\<close> as soon as an argument is.\<close>

definition js_min :: "jsnum \<Rightarrow> jsnum \<Rightarrow> jsnum" where
  "js_min x y = (if x = NaN \<or> y = NaN then NaN else if x \<le> y then x else y)"

definition js_max :: "jsnum \<Rightarrow> jsnum \<Rightarrow> jsnum" where
  "js_max x y = (if x = NaN \<or> y = NaN then NaN else if x \<le> y then y else x)"

lemma js_min_Fin [simp]: "js_min (Fin a) (Fin b) = Fin (min a b)"
  by (simp add: js_min_def min_def)

lemma js_max_Fin [simp]: "js_max (Fin a) (Fin b) = Fin (max a b)"
  by (simp add: js_max_def max_def)

lemma integral_of_nat [simp]: "integral (of_nat n)"
  by (simp add: integral_def)

lemma integral_numeral [simp]: "integral (numeral n)" "integral 0" "integral 1"
  by (simp_all add: integral_def)

lemma integral_nat:
  assumes "integral q" and "0 \<le> q"
  shows "of_nat (nat \<lfloor>q\<rfloor>) = q"
  using assms by (simp add: integral_def of_nat_nat)

text \<open>The value a checked positive count stands for.\<close>

fun num_nat :: "jsnum \<Rightarrow> nat" where
  "num_nat (Fin q) = nat \<lfloor>q\<rfloor>"
| "num_nat _ = 0"

section \<open>Values\<close>

datatype jsval =
    VUndef
  | VNull
  | VBool bool
  | VNum jsnum
  | VStr string
  | VBigInt int
  | VSymbol
  | VFun
  | VDate "string option" \<comment> \<open>the ISO text of \<open>toJSON\<close>; \<open>None\<close> for an invalid date\<close>
  | VErr string string \<comment> \<open>an \<open>Error\<close> instance: name and message\<close>
  | VArr "jsval list"
  | VObj "(string \<times> jsval) list" \<comment> \<open>own enumerable properties, in key order\<close>

section \<open>Cancellation reasons and errors\<close>

text \<open>
  The tagged union \<open>CancelReason\<close> and the error classes of \<open>types/index.ts\<close>. An \<open>Error\<close> of the
  language or of the application is \<open>JsError name message\<close>; anything else that is thrown is
  \<open>Thrown v\<close>. \<open>instanceof\<close> on the branded classes is a brand check, so the subclasses
  \<open>TimeoutError\<close> and \<open>BudgetExceededError\<close> satisfy \<open>is_cancellation\<close>.
\<close>

type_synonym task_id = nat
type_synonym scope_id = nat

datatype cancel_reason =
    RUser "string option"
  | RDeadline jsnum jsnum
  | RTimeout rat
  | RParentFailed err
  | RSiblingFailed task_id err
  | RRaceLost task_id
  | RBudget string rat rat
  | RScopeEnded
  | RManual string "jsval option"
and err =
    CancellationError cancel_reason
  | TimeoutError rat
  | BudgetExceededError string rat rat rat "string option"
  | WorkAggregateError "err list" string
  | JsError string string
  | Thrown jsval
  | ClassifiedCandidateError err string string \<comment> \<open>the original error, disposition and reason code\<close>
  | CandidateCallbackError err

abbreviation RangeError :: "string \<Rightarrow> err" where
  "RangeError m \<equiv> JsError ''RangeError'' m"

abbreviation TypeError :: "string \<Rightarrow> err" where
  "TypeError m \<equiv> JsError ''TypeError'' m"

abbreviation PlainError :: "string \<Rightarrow> err" where
  "PlainError m \<equiv> JsError ''Error'' m"

fun is_cancellation :: "err \<Rightarrow> bool" where
  "is_cancellation (CancellationError _) \<longleftrightarrow> True"
| "is_cancellation (TimeoutError _) \<longleftrightarrow> True"
| "is_cancellation (BudgetExceededError _ _ _ _ _) \<longleftrightarrow> True"
| "is_cancellation _ \<longleftrightarrow> False"

fun is_timeout :: "err \<Rightarrow> bool" where
  "is_timeout (TimeoutError _) \<longleftrightarrow> True"
| "is_timeout _ \<longleftrightarrow> False"

fun is_budget_exceeded :: "err \<Rightarrow> bool" where
  "is_budget_exceeded (BudgetExceededError _ _ _ _ _) \<longleftrightarrow> True"
| "is_budget_exceeded _ \<longleftrightarrow> False"

text \<open>The \<open>reason\<close> field the constructors of the cancellation errors install.\<close>

fun err_reason :: "err \<Rightarrow> cancel_reason option" where
  "err_reason (CancellationError r) = Some r"
| "err_reason (TimeoutError ms) = Some (RTimeout ms)"
| "err_reason (BudgetExceededError k l s _ _) = Some (RBudget k l s)"
| "err_reason _ = None"

lemma err_reason_iff: "(\<exists>r. err_reason e = Some r) \<longleftrightarrow> is_cancellation e"
  by (cases e) auto

section \<open>Results that may throw\<close>

text \<open>The check of an option that has to be a positive integer.\<close>

definition positive_count :: "string \<Rightarrow> jsnum \<Rightarrow> err + nat" where
  "positive_count label n =
     (if \<not> is_integer n \<or> n < Fin 1 then Inl (RangeError (label @ '' must be a positive integer'')) else Inr (num_nat n))"

lemma positive_count_pos: "positive_count label n = Inr k \<Longrightarrow> 1 \<le> k"
  by (cases n) (auto simp: positive_count_def integral_def le_nat_iff split: if_splits)

fun bind_res :: "'e + 'a \<Rightarrow> ('a \<Rightarrow> 'e + 'b) \<Rightarrow> 'e + 'b" where
  "bind_res (Inl e) f = Inl e"
| "bind_res (Inr a) f = f a"

lemma bind_res_Inr [res_simps]: "bind_res m f = Inr b \<longleftrightarrow> (\<exists>a. m = Inr a \<and> f a = Inr b)"
  by (cases m) auto

lemma bind_res_Inl [res_simps]: "bind_res m f = Inl e \<longleftrightarrow> m = Inl e \<or> (\<exists>a. m = Inr a \<and> f a = Inl e)"
  by (cases m) auto

lemma bind_res_cong [fundef_cong]:
  "m = m' \<Longrightarrow> (\<And>a. m' = Inr a \<Longrightarrow> f a = g a) \<Longrightarrow> bind_res m f = bind_res m' g"
  by (cases m') auto

lemma map_sum_Inr: "map_sum id f r = Inr y \<longleftrightarrow> (\<exists>x. r = Inr x \<and> y = f x)"
  by (cases r) auto

text \<open>\<open>xs.map(f)\<close> where \<open>f\<close> may throw: the first exception is the outcome.\<close>

fun map_res :: "('a \<Rightarrow> 'e + 'b) \<Rightarrow> 'a list \<Rightarrow> 'e + 'b list" where
  "map_res f [] = Inr []"
| "map_res f (x # xs) = bind_res (f x) (\<lambda>y. bind_res (map_res f xs) (\<lambda>ys. Inr (y # ys)))"

lemma map_res_cong [fundef_cong]:
  "xs = ys \<Longrightarrow> (\<And>x. x \<in> set ys \<Longrightarrow> f x = g x) \<Longrightarrow> map_res f xs = map_res g ys"
  by (induction ys arbitrary: xs) auto

lemma map_res_Inr [res_simps]: "map_res f xs = Inr ys \<longleftrightarrow> list_all2 (\<lambda>x y. f x = Inr y) xs ys"
  by (induction xs arbitrary: ys) (auto simp: res_simps list_all2_Cons1)

text \<open>A loop that updates a state and may throw.\<close>

fun fold_res :: "('a \<Rightarrow> 's \<Rightarrow> 'e + 's) \<Rightarrow> 'a list \<Rightarrow> 's \<Rightarrow> 'e + 's" where
  "fold_res f [] s = Inr s"
| "fold_res f (x # xs) s = bind_res (f x s) (fold_res f xs)"

lemma fold_res_cong [fundef_cong]:
  "xs = ys \<Longrightarrow> s = t \<Longrightarrow> (\<And>x u. x \<in> set ys \<Longrightarrow> f x u = g x u) \<Longrightarrow> fold_res f xs s = fold_res g ys t"
proof (induction ys arbitrary: xs s t)
  case (Cons y ys)
  then have "fold_res f ys = fold_res g ys" by (intro ext) auto
  with Cons.prems show ?case by simp
qed simp

lemma fold_res_invariant:
  assumes "fold_res f xs s = Inr t" and "I s"
    and "\<And>x u v. x \<in> set xs \<Longrightarrow> I u \<Longrightarrow> f x u = Inr v \<Longrightarrow> I v"
  shows "I t"
  using assms
proof (induction xs arbitrary: s)
  case (Cons x xs)
  then obtain u where "f x s = Inr u" "fold_res f xs u = Inr t" by (auto simp: res_simps)
  with Cons show ?case by (metis list.set_intros)
qed simp

lemma map_res_all_Inr: "(\<And>x. x \<in> set xs \<Longrightarrow> f x = Inr (g x)) \<Longrightarrow> map_res f xs = Inr (map g xs)"
  by (induction xs) auto

text \<open>A computation that does not throw.\<close>

definition succeeds :: "'e + 'a \<Rightarrow> bool" where
  "succeeds r \<longleftrightarrow> (\<exists>a. r = Inr a)"

lemma succeeds_simps [simp]: "succeeds (Inr a)" "\<not> succeeds (Inl e)"
  by (simp_all add: succeeds_def)

lemma succeeds_bind: "succeeds (bind_res m f) \<longleftrightarrow> (\<exists>a. m = Inr a \<and> succeeds (f a))"
  by (cases m) auto

lemma succeeds_map_res: "succeeds (map_res f xs) \<longleftrightarrow> (\<forall>x \<in> set xs. succeeds (f x))"
proof (induction xs)
  case (Cons x xs)
  have "succeeds (map_res f (x # xs)) \<longleftrightarrow> succeeds (f x) \<and> succeeds (map_res f xs)"
    by (cases "f x"; cases "map_res f xs") auto
  with Cons show ?case by simp
qed simp

section \<open>Lists\<close>

lemma list_all2_sum_le:
  fixes f :: "'a \<Rightarrow> 'c :: ordered_comm_monoid_add"
  assumes "list_all2 (\<lambda>x y. f x \<le> g y) xs ys"
  shows "(\<Sum>x\<leftarrow>xs. f x) \<le> (\<Sum>y\<leftarrow>ys. g y)"
  using assms by (induction rule: list_all2_induct) (auto intro: add_mono)

lemma map_filter_simps [simp]:
  "List.map_filter f [] = []"
  "List.map_filter f (x # xs) = (case f x of None \<Rightarrow> List.map_filter f xs | Some y \<Rightarrow> y # List.map_filter f xs)"
  by (auto simp: List.map_filter_def split: option.split)

lemma find_None_filter: "find P xs = None \<longleftrightarrow> filter P xs = []"
  by (auto simp: find_None_iff filter_empty_conv)

section \<open>Reachable states and invariants\<close>

inductive reachable :: "('s \<Rightarrow> bool) \<Rightarrow> ('s \<Rightarrow> 's \<Rightarrow> bool) \<Rightarrow> 's \<Rightarrow> bool" for init step where
  reach_init: "init s \<Longrightarrow> reachable init step s"
| reach_step: "reachable init step s \<Longrightarrow> step s t \<Longrightarrow> reachable init step t"

locale invariant_system =
  fixes init :: "'s \<Rightarrow> bool" and step :: "'s \<Rightarrow> 's \<Rightarrow> bool" and inv :: "'s \<Rightarrow> bool"
  assumes inv_init: "init s \<Longrightarrow> inv s"
    and inv_step: "inv s \<Longrightarrow> step s t \<Longrightarrow> inv t"
begin

lemma reachable_inv: "reachable init step s \<Longrightarrow> inv s"
  by (induction rule: reachable.induct) (blast intro: inv_init inv_step)+

lemma steps_inv: "step\<^sup>*\<^sup>* s t \<Longrightarrow> inv s \<Longrightarrow> inv t"
  by (induction rule: rtranclp_induct) (blast intro: inv_step)+

end

end
