(* ===== verification/Duration.thy ===== *)
theory Duration
  imports WI_Prelude
begin

text \<open>
  The strict duration parser, \<open>packages/core/src/engine/duration.ts\<close>. A duration is a number of
  milliseconds or a text \<open>digits unit\<close>; the regular expression is read off as: a non-empty run
  of ASCII digits followed by exactly one unit and the end of the text. \<open>Number(m[1])\<close> is the
  value of the digits, computed exactly; a text whose rounded value differs from it is far
  above the limit and is rejected either way.
\<close>

datatype duration = DNum jsnum | DStr string

definition MAX_TIMEOUT_MS :: nat where
  "MAX_TIMEOUT_MS = 2147483647"

fun unit_multiplier :: "string \<Rightarrow> nat option" where
  "unit_multiplier u =
     (if u = ''ms'' then Some 1 else if u = ''s'' then Some 1000
      else if u = ''m'' then Some 60000 else if u = ''h'' then Some 3600000 else None)"

definition is_digit :: "char \<Rightarrow> bool" where
  "is_digit c \<longleftrightarrow> 48 \<le> (of_char c :: nat) \<and> (of_char c :: nat) \<le> 57"

definition digit_val :: "char \<Rightarrow> nat" where
  "digit_val c = (of_char c :: nat) - 48"

definition digits_val :: "string \<Rightarrow> nat" where
  "digits_val ds = foldl (\<lambda>acc c. acc * 10 + digit_val c) 0 ds"

definition match_duration :: "string \<Rightarrow> (string \<times> nat) option" where
  "match_duration s =
     (let ds = takeWhile is_digit s; u = dropWhile is_digit s
      in if ds = [] then None else map_option (Pair ds) (unit_multiplier u))"

fun parseDuration :: "duration \<Rightarrow> err + rat" where
  "parseDuration (DNum d) =
     (case d of
        Fin q \<Rightarrow> if q < 0 \<or> of_nat MAX_TIMEOUT_MS < q then Inl (RangeError ''Invalid duration'')
                 else Inr q
      | _ \<Rightarrow> Inl (RangeError ''Invalid duration''))"
| "parseDuration (DStr s) =
     (case match_duration s of
        None \<Rightarrow> Inl (RangeError ''Invalid duration string'')
      | Some (ds, k) \<Rightarrow>
          (let ms = digits_val ds * k
           in if max_safe_integer < ms \<or> MAX_TIMEOUT_MS < ms
              then Inl (RangeError ''Invalid duration string exceeds maximum timeout'')
              else Inr (of_nat ms)))"

lemma unit_no_digit: "unit_multiplier u = Some k \<Longrightarrow> u \<noteq> [] \<and> \<not> is_digit (hd u)"
  by (auto simp: is_digit_def split: if_splits)

lemma match_duration_Some:
  "match_duration s = Some (ds, k) \<longleftrightarrow>
   (\<exists>u. s = ds @ u \<and> ds \<noteq> [] \<and> list_all is_digit ds \<and> unit_multiplier u = Some k)"
  (is "?m \<longleftrightarrow> ?r")
proof
  assume ?m
  then show ?r
    by (intro exI [of _ "dropWhile is_digit s"])
      (auto simp: match_duration_def Let_def list_all_iff simp del: unit_multiplier.simps
        split: if_splits dest: set_takeWhileD)
next
  assume ?r
  then obtain u where u: "s = ds @ u" "ds \<noteq> []" "list_all is_digit ds" "unit_multiplier u = Some k"
    by blast
  have "takeWhile is_digit u = []" "dropWhile is_digit u = u"
    using unit_no_digit [OF u(4)] by (cases u; simp)+
  with u have "takeWhile is_digit s = ds" "dropWhile is_digit s = u"
    by (simp_all add: list_all_iff takeWhile_append dropWhile_append)
  with u show ?m by (simp add: match_duration_def del: unit_multiplier.simps)
qed

text \<open>Every accepted duration lies in the range a timer of the platform accepts.\<close>

lemma parseDuration_range: "parseDuration d = Inr ms \<Longrightarrow> 0 \<le> ms \<and> ms \<le> of_nat MAX_TIMEOUT_MS"
  by (cases d)
    (auto simp: Let_def simp del: of_nat_mult split: jsnum.splits option.splits prod.splits if_splits)

lemma parseDuration_nonneg [intro]: "parseDuration d = Inr ms \<Longrightarrow> 0 \<le> ms"
  using parseDuration_range by blast

lemma parseDuration_error: "parseDuration d = Inl e \<Longrightarrow> \<exists>m. e = RangeError m"
  by (cases d) (auto simp: Let_def split: jsnum.splits option.splits prod.splits if_splits)

text \<open>Numbers: exactly the finite ones of the range are accepted, unchanged.\<close>

lemma parseDuration_number_iff:
  "parseDuration (DNum d) = Inr ms \<longleftrightarrow> d = Fin ms \<and> 0 \<le> ms \<and> ms \<le> of_nat MAX_TIMEOUT_MS"
  by (auto split: jsnum.splits if_splits)

text \<open>the text language the parser accepts, and the value it assigns, are exactly
  "digits followed by one of ms, s, m, h" with a value of at most 2147483647 ms.\<close>

theorem parseDuration_string_iff:
  "parseDuration (DStr s) = Inr ms \<longleftrightarrow>
   (\<exists>ds u k. s = ds @ u \<and> ds \<noteq> [] \<and> list_all is_digit ds \<and> unit_multiplier u = Some k \<and>
      digits_val ds * k \<le> MAX_TIMEOUT_MS \<and> ms = of_nat (digits_val ds * k))"
proof -
  have "max_safe_integer < n \<or> MAX_TIMEOUT_MS < n \<longleftrightarrow> \<not> n \<le> MAX_TIMEOUT_MS" for n
    by (auto simp: max_safe_integer_def MAX_TIMEOUT_MS_def)
  then have "parseDuration (DStr s) = Inr ms \<longleftrightarrow>
      (\<exists>ds k. match_duration s = Some (ds, k) \<and> digits_val ds * k \<le> MAX_TIMEOUT_MS \<and>
         ms = of_nat (digits_val ds * k))"
    by (auto simp: Let_def split: option.splits)
  then show ?thesis
    by (simp only: match_duration_Some) blast
qed

end
