(* ===== verification/Retry.thy ===== *)
theory Retry
  imports Duration
begin

text \<open>
  Retry policies, \<open>packages/core/src/engine/retry.ts\<close> with the option types of
  \<open>types/index.ts\<close>. Attempts are numbered from 1. \<open>Math.random()\<close> is the argument \<open>rnd\<close>, a
  number of the interval from 0 (included) to 1 (excluded). A backoff function of the caller is
  the argument of \<open>Dynamic\<close>. An abort signal is the time at which it fires, with its reason, if
  it ever does.
\<close>

datatype backoff = Fixed | Linear | Exponential | Dynamic "nat \<Rightarrow> duration"

record retry_opts =
  ro_times :: jsnum
  ro_backoff :: "backoff option"
  ro_initialDelay :: "duration option"
  ro_maxDelay :: "duration option"
  ro_jitter :: "bool option"
  ro_retryIf :: "(err \<Rightarrow> nat \<Rightarrow> bool) option"
  ro_retryBudget :: "string option"

datatype retry_arg = RTimes jsnum | ROpts retry_opts

record retry_policy =
  rp_times :: nat
  rp_backoff :: backoff
  rp_initialDelay :: duration
  rp_maxDelay :: duration
  rp_jitter :: bool
  rp_retryIf :: "err \<Rightarrow> nat \<Rightarrow> bool"

definition MAX_RETRY_ATTEMPTS :: nat where
  "MAX_RETRY_ATTEMPTS = 1000"

fun arg_times :: "retry_arg \<Rightarrow> jsnum" where
  "arg_times (RTimes n) = n"
| "arg_times (ROpts opts) = ro_times opts"

fun arg_opts :: "retry_arg \<Rightarrow> retry_opts" where
  "arg_opts (RTimes n) =
     \<lparr>ro_times = n, ro_backoff = None, ro_initialDelay = None, ro_maxDelay = None,
      ro_jitter = None, ro_retryIf = None, ro_retryBudget = None\<rparr>"
| "arg_opts (ROpts opts) = opts"

definition validateRetryPolicy :: "retry_arg \<Rightarrow> err + unit" where
  "validateRetryPolicy opts =
     (let times = arg_times opts
      in if \<not> is_integer times \<or> times < Fin 1 \<or> Fin (of_nat MAX_RETRY_ATTEMPTS) < times
         then Inl (RangeError ''retry attempts must be an integer between 1 and 1000'')
         else Inr ())"

definition or_default :: "'a option \<Rightarrow> 'a \<Rightarrow> 'a" where
  "or_default x d = (case x of None \<Rightarrow> d | Some y \<Rightarrow> y)"

lemma or_default_simps [simp]: "or_default None d = d" "or_default (Some y) d = y"
  by (simp_all add: or_default_def)

definition normalizeRetry :: "retry_arg \<Rightarrow> err + retry_policy" where
  "normalizeRetry opts =
     bind_res (validateRetryPolicy opts) (\<lambda>_.
       let raw = arg_opts opts in
       Inr \<lparr>rp_times = num_nat (ro_times raw),
            rp_backoff = or_default (ro_backoff raw) Exponential,
            rp_initialDelay = or_default (ro_initialDelay raw) (DNum (Fin 100)),
            rp_maxDelay = or_default (ro_maxDelay raw) (DNum (Fin 30000)),
            rp_jitter = or_default (ro_jitter raw) True,
            rp_retryIf = or_default (ro_retryIf raw) (\<lambda>_ _. True)\<rparr>)"

definition computeBackoffDelay :: "nat \<Rightarrow> backoff \<Rightarrow> rat \<Rightarrow> rat \<Rightarrow> bool \<Rightarrow> rat \<Rightarrow> err + rat" where
  "computeBackoffDelay attempt backoff initialMs maxMs jitter rnd =
     bind_res
       (case backoff of
          Dynamic f \<Rightarrow> parseDuration (f attempt)
        | Linear \<Rightarrow> Inr (initialMs * of_nat attempt)
        | Exponential \<Rightarrow> Inr (initialMs * (2 ^ attempt / 2))
        | Fixed \<Rightarrow> Inr initialMs)
       (\<lambda>raw. let delay = min raw maxMs
              in Inr (if jitter then delay * (1/2 + rnd * (1/2)) else delay))"

definition computeRetryDelay :: "nat \<Rightarrow> retry_policy \<Rightarrow> rat \<Rightarrow> err + rat" where
  "computeRetryDelay attempt policy rnd =
     bind_res (parseDuration (rp_initialDelay policy)) (\<lambda>initialMs.
     bind_res (parseDuration (rp_maxDelay policy)) (\<lambda>maxMs.
       computeBackoffDelay attempt (rp_backoff policy) initialMs maxMs (rp_jitter policy) rnd))"

type_synonym signal = "(rat \<times> err) option"

definition aborted_by :: "signal \<Rightarrow> rat \<Rightarrow> bool" where
  "aborted_by sig now = (case sig of None \<Rightarrow> False | Some (ta, _) \<Rightarrow> ta \<le> now)"

text \<open>
  \<open>sleep\<close>: when it settles and how. It rejects at once on an aborted signal, otherwise
  whichever of the timer and the abort listener fires first decides.
\<close>

definition sleep :: "rat \<Rightarrow> signal \<Rightarrow> rat \<Rightarrow> rat \<times> (err + unit)" where
  "sleep ms sig now =
     (case sig of
        None \<Rightarrow> (now + ms, Inr ())
      | Some (ta, reason) \<Rightarrow>
          if ta \<le> now then (now, Inl reason)
          else if ta < now + ms then (ta, Inl reason)
          else (now + ms, Inr ()))"

lemma validateRetryPolicy_ok:
  "validateRetryPolicy opts = Inr () \<longleftrightarrow>
   (\<exists>n. arg_times opts = Fin (of_nat n) \<and> 1 \<le> n \<and> n \<le> MAX_RETRY_ATTEMPTS)"
proof
  assume "validateRetryPolicy opts = Inr ()"
  then obtain q where q: "arg_times opts = Fin q" "integral q" "1 \<le> q" "q \<le> of_nat MAX_RETRY_ATTEMPTS"
    by (cases "arg_times opts") (auto simp: validateRetryPolicy_def Let_def not_less split: if_splits)
  then have "of_nat (nat \<lfloor>q\<rfloor>) = q" by (intro integral_nat) auto
  with q show "\<exists>n. arg_times opts = Fin (of_nat n) \<and> 1 \<le> n \<and> n \<le> MAX_RETRY_ATTEMPTS"
    by (metis of_nat_1 of_nat_le_iff)
qed (auto simp: validateRetryPolicy_def Let_def not_less)

lemma arg_opts_times [simp]: "ro_times (arg_opts opts) = arg_times opts"
  by (cases opts) auto

text \<open>An accepted policy makes between 1 and 1000 attempts, as many as was asked for.\<close>

lemma normalizeRetry_times:
  assumes "normalizeRetry opts = Inr p"
  shows "arg_times opts = Fin (of_nat (rp_times p)) \<and> 1 \<le> rp_times p \<and> rp_times p \<le> MAX_RETRY_ATTEMPTS"
  using assms
  by (auto simp: normalizeRetry_def res_simps Let_def validateRetryPolicy_ok floor_of_nat)

lemma normalizeRetry_error:
  "normalizeRetry opts = Inl e \<Longrightarrow> e = RangeError ''retry attempts must be an integer between 1 and 1000''"
  by (auto simp: normalizeRetry_def res_simps Let_def validateRetryPolicy_def split: if_splits)

lemma raw_backoff_nonneg:
  assumes "0 \<le> initialMs"
    and "(case backoff of
          Dynamic f \<Rightarrow> parseDuration (f attempt)
        | Linear \<Rightarrow> Inr (initialMs * of_nat attempt)
        | Exponential \<Rightarrow> Inr (initialMs * (2 ^ attempt / 2))
        | Fixed \<Rightarrow> Inr initialMs) = Inr raw"
  shows "0 \<le> raw"
  using assms
proof (cases backoff)
  case Exponential
  with assms have "raw = initialMs * (2 ^ attempt / 2)" by simp
  moreover have "0 \<le> initialMs * (2 ^ attempt / 2)"
    using assms(1) by (intro mult_nonneg_nonneg) auto
  ultimately show ?thesis by metis
qed auto

lemma jitter_factor:
  fixes d :: rat
  assumes "0 \<le> d" and "0 \<le> rnd" and "rnd < 1"
  shows "d / 2 \<le> d * (1/2 + rnd * (1/2))" and "d * (1/2 + rnd * (1/2)) \<le> d"
proof -
  have "0 \<le> d * rnd" and "d * rnd \<le> d" using assms by (simp_all add: mult_left_le)
  then show "d / 2 \<le> d * (1/2 + rnd * (1/2))" and "d * (1/2 + rnd * (1/2)) \<le> d"
    by (simp_all add: field_simps)
qed

text \<open>Without jitter the delay is the capped backoff; jitter takes off at most half of it.\<close>

lemma computeBackoffDelay_jitter:
  assumes "computeBackoffDelay n b i m False r = Inr d" and "0 \<le> i" and "0 \<le> m"
    and "0 \<le> rnd" and "rnd < 1"
  shows "\<exists>d'. computeBackoffDelay n b i m True rnd = Inr d' \<and> d / 2 \<le> d' \<and> d' \<le> d"
proof -
  from assms(1) obtain raw where raw: "d = min raw m" "0 \<le> raw"
    and c: "computeBackoffDelay n b i m True rnd = Inr (d * (1/2 + rnd * (1/2)))"
    using raw_backoff_nonneg [OF assms(2), where backoff = b and attempt = n]
    by (auto simp: computeBackoffDelay_def res_simps Let_def)
  from raw assms(3) have "0 \<le> d" by simp
  from c jitter_factor [OF this assms(4,5)] show ?thesis by blast
qed

lemma computeBackoffDelay_range:
  assumes "computeBackoffDelay n b i m j rnd = Inr d" and "0 \<le> i" and "0 \<le> m"
    and "0 \<le> rnd" and "rnd < 1"
  shows "0 \<le> d \<and> d \<le> m"
proof -
  from assms(1) obtain raw where raw: "0 \<le> raw"
    and d: "d = (if j then min raw m * (1/2 + rnd * (1/2)) else min raw m)"
    using raw_backoff_nonneg [OF assms(2), where backoff = b and attempt = n]
    by (auto simp: computeBackoffDelay_def res_simps Let_def)
  with assms(3) have "0 \<le> min raw m" by simp
  from jitter_factor [OF this assms(4,5)] d \<open>0 \<le> min raw m\<close> show ?thesis
    by (auto split: if_splits)
qed

text \<open>whatever the backoff and the random draw, a computed retry delay is never negative and never
  above the parsed \<open>maxDelay\<close> of the policy, nor above what a timer accepts.\<close>

theorem computeRetryDelay_range:
  assumes "computeRetryDelay n p rnd = Inr d" and "0 \<le> rnd" and "rnd < 1"
  shows "\<exists>m. parseDuration (rp_maxDelay p) = Inr m \<and> 0 \<le> d \<and> d \<le> m \<and> d \<le> of_nat MAX_TIMEOUT_MS"
proof -
  from assms(1) obtain i m where i: "parseDuration (rp_initialDelay p) = Inr i"
    and m: "parseDuration (rp_maxDelay p) = Inr m"
    and c: "computeBackoffDelay n (rp_backoff p) i m (rp_jitter p) rnd = Inr d"
    by (auto simp: computeRetryDelay_def res_simps)
  from computeBackoffDelay_range [OF c] i m assms(2,3) parseDuration_range
  have "0 \<le> d \<and> d \<le> m" by blast
  with m parseDuration_range [OF m] show ?thesis by auto
qed

theorem computeRetryDelay_range_witness:
  "\<exists>m. parseDuration (DNum (Fin 30000)) = Inr m \<and> (0::rat) \<le> 300 \<and> 300 \<le> m \<and> 300 \<le> (of_nat MAX_TIMEOUT_MS :: rat)"
proof -
  let ?p = "\<lparr>rp_times = 3, rp_backoff = Exponential, rp_initialDelay = DNum (Fin 100),
    rp_maxDelay = DNum (Fin 30000), rp_jitter = True, rp_retryIf = \<lambda>_ _. True\<rparr>"
  have "computeRetryDelay 3 ?p (1/2) = Inr 300"
    by (simp add: computeRetryDelay_def computeBackoffDelay_def MAX_TIMEOUT_MS_def)
  from computeRetryDelay_range [OF this] show ?thesis by simp
qed

text \<open>Sleeping takes at most the requested time and never goes back; it succeeds exactly when the
  signal has not fired before the timer.\<close>

lemma sleep_bounds:
  "0 \<le> ms \<Longrightarrow> sleep ms sig now = (t, r) \<Longrightarrow> now \<le> t \<and> t \<le> now + ms"
  by (auto simp: sleep_def split: option.splits prod.splits if_splits)

lemma sleep_ok_iff:
  "0 \<le> ms \<Longrightarrow> sleep ms sig now = (t, Inr ()) \<longleftrightarrow>
   t = now + ms \<and> (case sig of None \<Rightarrow> True | Some (ta, _) \<Rightarrow> now < ta \<and> now + ms \<le> ta)"
  by (auto simp: sleep_def split: option.splits)

end
