(* ===== verification/Time_Policy.thy ===== *)
theory Time_Policy
  imports Retry
begin

text \<open>
  The declarative time-policy planner, \<open>packages/core/src/time-policy/index.ts\<close>: the policy
  tree, \<open>planTimePolicy\<close>, \<open>estimateRetry\<close>, \<open>estimateHedge\<close> and every function they call. The
  current time is the argument \<open>clock\<close>. Results are JavaScript numbers, because a deadline is
  not validated and may be infinite or \<open>NaN\<close>; counts that the code has validated as positive
  integers are natural numbers.
\<close>

section \<open>Policies and plans\<close>

datatype policy =
    Attempt duration "string option"
  | Series "policy list"
  | Parallel "policy list"
  | RetryP policy retry_arg
  | Hedge policy duration jsnum
  | Timeout duration policy
  | Deadline jsnum "jsnum option" policy

datatype policy_type = TAttempt | TSeries | TParallel | TRetry | THedge | TTimeout | TDeadline

datatype warning_code =
    Deadline_infeasible
  | Dynamic_backoff_upper_bound
  | Empty_composition
  | Hedge_exceeds_timeout
  | Jitter_upper_bound
  | Retry_budget_exceeded
  | Retry_budget_snapshot_missing
  | Retry_exceeds_timeout
  | Time_exceeds_timeout

record warning =
  w_code :: warning_code
  w_message :: string
  w_estimatedMs :: "jsnum option"
  w_limitMs :: "jsnum option"
  w_budgetKey :: "string option"
  w_requiredRetries :: "nat option"
  w_remainingRetries :: "rat option"

definition mk_warning :: "warning_code \<Rightarrow> string \<Rightarrow> warning" where
  "mk_warning c m =
     \<lparr>w_code = c, w_message = m, w_estimatedMs = None, w_limitMs = None, w_budgetKey = None,
      w_requiredRetries = None, w_remainingRetries = None\<rparr>"

datatype budget_status = Admissible | Exceeded | Unverified

record plan_budget =
  pb_key :: string
  pb_required :: nat
  pb_limit :: "rat option"
  pb_spent :: "rat option"
  pb_remaining :: "rat option"
  pb_status :: budget_status

record time_plan =
  tp_valid :: bool
  upperBoundMs :: jsnum
  criticalPathMs :: jsnum
  parallelWorkMs :: jsnum
  tp_attempts :: nat
  tp_budgets :: "plan_budget list"
  tp_warnings :: "warning list"

record budget_snapshot =
  bs_key :: string
  bs_limit :: jsnum
  bs_spent :: jsnum

definition MAX_POLICY_DEPTH :: nat where
  "MAX_POLICY_DEPTH = 64"

section \<open>Planning\<close>

definition leafPlan :: "rat \<Rightarrow> time_plan" where
  "leafPlan durationMs =
     \<lparr>tp_valid = True, upperBoundMs = Fin durationMs, criticalPathMs = Fin durationMs,
      parallelWorkMs = Fin durationMs, tp_attempts = 1, tp_budgets = [], tp_warnings = []\<rparr>"

definition emptyPlan :: time_plan where
  "emptyPlan =
     \<lparr>tp_valid = True, upperBoundMs = Fin 0, criticalPathMs = Fin 0, parallelWorkMs = Fin 0,
      tp_attempts = 0, tp_budgets = [],
      tp_warnings = [mk_warning Empty_composition ''empty time composition has zero cost'']\<rparr>"

definition js_sum :: "jsnum list \<Rightarrow> jsnum" where
  "js_sum xs = foldl (+) (Fin 0) xs"

definition js_maximum :: "jsnum list \<Rightarrow> jsnum" where
  "js_maximum xs = foldl js_max NInf xs"

definition combineSeries :: "time_plan list \<Rightarrow> time_plan" where
  "combineSeries children =
     \<lparr>tp_valid = list_all tp_valid children,
      upperBoundMs = js_sum (map upperBoundMs children),
      criticalPathMs = js_sum (map criticalPathMs children),
      parallelWorkMs = js_sum (map parallelWorkMs children),
      tp_attempts = sum_list (map tp_attempts children),
      tp_budgets = [],
      tp_warnings = concat (map tp_warnings children)\<rparr>"

definition combineParallel :: "time_plan list \<Rightarrow> time_plan" where
  "combineParallel children =
     \<lparr>tp_valid = list_all tp_valid children,
      upperBoundMs = js_maximum (map upperBoundMs children),
      criticalPathMs = js_maximum (map criticalPathMs children),
      parallelWorkMs = js_sum (map parallelWorkMs children),
      tp_attempts = sum_list (map tp_attempts children),
      tp_budgets = [],
      tp_warnings = concat (map tp_warnings children)\<rparr>"

definition estimateRetryDelay :: "nat \<Rightarrow> retry_policy \<Rightarrow> err + rat \<times> warning list" where
  "estimateRetryDelay attempt policy =
     bind_res (parseDuration (rp_initialDelay policy)) (\<lambda>initialMs.
     bind_res (parseDuration (rp_maxDelay policy)) (\<lambda>maxMs.
       Inr (case rp_backoff policy of
              Dynamic _ \<Rightarrow>
                (maxMs,
                 [(mk_warning Dynamic_backoff_upper_bound
                     ''dynamic retry backoff functions are not executed by the planner; maxDelay is used as an upper bound'')
                  \<lparr>w_estimatedMs := Some (Fin maxMs)\<rparr>])
            | Linear \<Rightarrow> (min (initialMs * of_nat attempt) maxMs, [])
            | Exponential \<Rightarrow> (min (initialMs * (2 ^ attempt / 2)) maxMs, [])
            | Fixed \<Rightarrow> (min initialMs maxMs, []))))"

text \<open>
  \<open>estimateRetryAtDepth\<close> after the attempt has been planned: the loop over the attempts
  \<open>1 ..< times\<close> collects the delays, then the totals are formed.
\<close>

definition retryPlan :: "time_plan \<Rightarrow> retry_arg \<Rightarrow> err + time_plan" where
  "retryPlan attemptPlan arg =
     bind_res (normalizeRetry arg) (\<lambda>retry.
     bind_res (map_res (\<lambda>attempt. estimateRetryDelay attempt retry) [1..<rp_times retry]) (\<lambda>planned.
       let delayMs = sum_list (map fst planned);
           times = Fin (of_nat (rp_times retry));
           upper = upperBoundMs attemptPlan * times + Fin delayMs;
           jitterWarnings =
             (if rp_jitter retry
              then [mk_warning Jitter_upper_bound
                     ''retry jitter is planned with the maximum non-jittered delay as an upper bound'']
              else [])
       in Inr \<lparr>tp_valid = tp_valid attemptPlan, upperBoundMs = upper, criticalPathMs = upper,
               parallelWorkMs = parallelWorkMs attemptPlan * times,
               tp_attempts = tp_attempts attemptPlan * rp_times retry,
               tp_budgets = [],
               tp_warnings = tp_warnings attemptPlan @ concat (map snd planned) @ jitterWarnings\<rparr>))"

text \<open>
  \<open>estimateHedgeAtDepth\<close>: the count is checked before the attempt is planned, the delay is
  parsed after.
\<close>

definition checkHedgeMax :: "jsnum \<Rightarrow> err + unit" where
  "checkHedgeMax n =
     (if \<not> is_integer n \<or> n < Fin 1 then Inl (RangeError ''hedge max must be a positive integer'')
      else Inr ())"

definition hedgePlan :: "time_plan \<Rightarrow> duration \<Rightarrow> jsnum \<Rightarrow> err + time_plan" where
  "hedgePlan attemptPlan after mx =
     bind_res (parseDuration after) (\<lambda>afterMs.
       let upper = upperBoundMs attemptPlan + Fin afterMs * (mx - Fin 1)
       in Inr \<lparr>tp_valid = tp_valid attemptPlan, upperBoundMs = upper, criticalPathMs = upper,
               parallelWorkMs = parallelWorkMs attemptPlan * mx,
               tp_attempts = tp_attempts attemptPlan * num_nat mx,
               tp_budgets = [], tp_warnings = tp_warnings attemptPlan\<rparr>)"

fun collectPolicyTypes :: "policy \<Rightarrow> policy_type set" where
  "collectPolicyTypes (Attempt d l) = {TAttempt}"
| "collectPolicyTypes (Series ps) = insert TSeries (\<Union>p \<in> set ps. collectPolicyTypes p)"
| "collectPolicyTypes (Parallel ps) = insert TParallel (\<Union>p \<in> set ps. collectPolicyTypes p)"
| "collectPolicyTypes (RetryP p r) = insert TRetry (collectPolicyTypes p)"
| "collectPolicyTypes (Hedge p a m) = insert THedge (collectPolicyTypes p)"
| "collectPolicyTypes (Timeout d p) = insert TTimeout (collectPolicyTypes p)"
| "collectPolicyTypes (Deadline a n p) = insert TDeadline (collectPolicyTypes p)"

definition timeoutPlan :: "time_plan \<Rightarrow> duration \<Rightarrow> policy_type set \<Rightarrow> err + time_plan" where
  "timeoutPlan inner timeout containedTypes =
     bind_res (parseDuration timeout) (\<lambda>timeoutMs.
       if upperBoundMs inner \<le> Fin timeoutMs then Inr inner
       else
         let code = (if TRetry \<in> containedTypes then Retry_exceeds_timeout
                     else if THedge \<in> containedTypes then Hedge_exceeds_timeout
                     else Time_exceeds_timeout)
         in Inr (inner\<lparr>upperBoundMs := Fin timeoutMs,
                       criticalPathMs := js_min (criticalPathMs inner) (Fin timeoutMs),
                       tp_warnings := tp_warnings inner @
                         [(mk_warning code
                            ''inner time policy exceeds timeout and will be truncated by runtime cancellation'')
                          \<lparr>w_estimatedMs := Some (upperBoundMs inner),
                           w_limitMs := Some (Fin timeoutMs)\<rparr>]\<rparr>))"

definition deadlinePlan :: "jsnum \<Rightarrow> time_plan \<Rightarrow> jsnum \<Rightarrow> jsnum option \<Rightarrow> time_plan" where
  "deadlinePlan clock inner deadlineAt now =
     (let remainingMs = js_max (Fin 0) (deadlineAt - or_default now clock)
      in if upperBoundMs inner \<le> remainingMs then inner
         else inner\<lparr>tp_valid := False, upperBoundMs := remainingMs,
                    criticalPathMs := js_min (criticalPathMs inner) remainingMs,
                    tp_warnings := tp_warnings inner @
                      [(mk_warning Deadline_infeasible
                         ''inner time policy cannot fit before the declared deadline'')
                       \<lparr>w_estimatedMs := Some (upperBoundMs inner),
                        w_limitMs := Some remainingMs\<rparr>]\<rparr>)"

fun plan :: "jsnum \<Rightarrow> policy \<Rightarrow> nat \<Rightarrow> err + time_plan" where
  "plan clock (Attempt d l) depth =
     (if MAX_POLICY_DEPTH < depth then Inl (RangeError ''time policy depth exceeded'')
      else bind_res (parseDuration d) (\<lambda>ms. Inr (leafPlan ms)))"
| "plan clock (Series ps) depth =
     (if MAX_POLICY_DEPTH < depth then Inl (RangeError ''time policy depth exceeded'')
      else if ps = [] then Inr emptyPlan
      else bind_res (map_res (\<lambda>p. plan clock p (depth + 1)) ps) (\<lambda>cs. Inr (combineSeries cs)))"
| "plan clock (Parallel ps) depth =
     (if MAX_POLICY_DEPTH < depth then Inl (RangeError ''time policy depth exceeded'')
      else if ps = [] then Inr emptyPlan
      else bind_res (map_res (\<lambda>p. plan clock p (depth + 1)) ps) (\<lambda>cs. Inr (combineParallel cs)))"
| "plan clock (RetryP p r) depth =
     (if MAX_POLICY_DEPTH < depth then Inl (RangeError ''time policy depth exceeded'')
      else bind_res (plan clock p (depth + 1)) (\<lambda>c. retryPlan c r))"
| "plan clock (Hedge p after mx) depth =
     (if MAX_POLICY_DEPTH < depth then Inl (RangeError ''time policy depth exceeded'')
      else bind_res (checkHedgeMax mx) (\<lambda>_.
           bind_res (plan clock p (depth + 1)) (\<lambda>c. hedgePlan c after mx)))"
| "plan clock (Timeout d p) depth =
     (if MAX_POLICY_DEPTH < depth then Inl (RangeError ''time policy depth exceeded'')
      else bind_res (plan clock p (depth + 1)) (\<lambda>c. timeoutPlan c d (collectPolicyTypes p)))"
| "plan clock (Deadline deadlineAt now p) depth =
     (if MAX_POLICY_DEPTH < depth then Inl (RangeError ''time policy depth exceeded'')
      else bind_res (plan clock p (depth + 1)) (\<lambda>c. Inr (deadlinePlan clock c deadlineAt now)))"

section \<open>Shared retry budgets\<close>

definition boundedProduct :: "nat \<Rightarrow> nat \<Rightarrow> nat" where
  "boundedProduct l r = min max_safe_integer (l * r)"

type_synonym demand = "(string \<times> nat) list"

definition demand_of :: "demand \<Rightarrow> string \<Rightarrow> nat" where
  "demand_of dm key = (case map_of dm key of None \<Rightarrow> 0 | Some n \<Rightarrow> n)"

definition addRetryDemand :: "demand \<Rightarrow> string \<Rightarrow> nat \<Rightarrow> demand" where
  "addRetryDemand dm key amount = AList.update key (min max_safe_integer (demand_of dm key + amount)) dm"

fun arg_budget :: "retry_arg \<Rightarrow> string option" where
  "arg_budget (RTimes n) = None"
| "arg_budget (ROpts opts) = ro_retryBudget opts"

fun collectRetryBudgetDemand :: "policy \<Rightarrow> nat \<Rightarrow> demand \<Rightarrow> err + demand" where
  "collectRetryBudgetDemand (Attempt d l) m dm = Inr dm"
| "collectRetryBudgetDemand (Series ps) m dm = fold_res (\<lambda>p. collectRetryBudgetDemand p m) ps dm"
| "collectRetryBudgetDemand (Parallel ps) m dm = fold_res (\<lambda>p. collectRetryBudgetDemand p m) ps dm"
| "collectRetryBudgetDemand (RetryP p r) m dm =
     bind_res (normalizeRetry r) (\<lambda>retry.
       let dm' = (case arg_budget r of
                    None \<Rightarrow> dm
                  | Some key \<Rightarrow> addRetryDemand dm key (boundedProduct (rp_times retry - 1) m))
       in collectRetryBudgetDemand p (boundedProduct m (rp_times retry)) dm')"
| "collectRetryBudgetDemand (Hedge p after mx) m dm =
     collectRetryBudgetDemand p (boundedProduct m (num_nat mx)) dm"
| "collectRetryBudgetDemand (Timeout d p) m dm = collectRetryBudgetDemand p m dm"
| "collectRetryBudgetDemand (Deadline a n p) m dm = collectRetryBudgetDemand p m dm"

definition readSnapshot :: "budget_snapshot \<Rightarrow> (string \<times> rat \<times> rat) list \<Rightarrow> err + (string \<times> rat \<times> rat) list" where
  "readSnapshot s result =
     (case (bs_limit s, bs_spent s) of
        (Fin limit, Fin spent) \<Rightarrow>
          if limit < 0 \<or> spent < 0 \<or> limit < spent
          then Inl (RangeError ''retry budget snapshot must have finite non-negative spent <= limit'')
          else if map_of result (bs_key s) \<noteq> None
          then Inl (RangeError (''duplicate retry budget snapshot: '' @ bs_key s))
          else Inr (AList.update (bs_key s) (limit, spent) result)
      | _ \<Rightarrow> Inl (RangeError ''retry budget snapshot must have finite non-negative spent <= limit''))"

definition readRetryBudgetSnapshots :: "budget_snapshot list \<Rightarrow> err + (string \<times> rat \<times> rat) list" where
  "readRetryBudgetSnapshots snapshots = fold_res readSnapshot snapshots []"

text \<open>One turn of the loop over the demanded keys: the entry and the warnings it adds.\<close>

fun budgetEntry :: "(string \<times> rat \<times> rat) list \<Rightarrow> string \<times> nat \<Rightarrow> plan_budget \<times> warning list" where
  "budgetEntry snapshots (key, required) =
     (case map_of snapshots key of
        None \<Rightarrow>
          (\<lparr>pb_key = key, pb_required = required, pb_limit = None, pb_spent = None,
            pb_remaining = None, pb_status = Unverified\<rparr>,
           [(mk_warning Retry_budget_snapshot_missing
               ''retry budget admission cannot be verified without a matching runtime snapshot'')
            \<lparr>w_budgetKey := Some key, w_requiredRetries := Some required\<rparr>])
      | Some (limit, spent) \<Rightarrow>
          (let remaining = limit - spent;
               admissible = (of_nat required \<le> remaining)
           in (\<lparr>pb_key = key, pb_required = required, pb_limit = Some limit, pb_spent = Some spent,
                 pb_remaining = Some remaining,
                 pb_status = (if admissible then Admissible else Exceeded)\<rparr>,
               if admissible then []
               else [(mk_warning Retry_budget_exceeded
                        ''declared retry demand exceeds the remaining shared retry budget'')
                     \<lparr>w_budgetKey := Some key, w_requiredRetries := Some required,
                      w_remainingRetries := Some remaining\<rparr>])))"

definition applyRetryBudgetPlan :: "time_plan \<Rightarrow> policy \<Rightarrow> budget_snapshot list \<Rightarrow> err + time_plan" where
  "applyRetryBudgetPlan base policy opts =
     bind_res (collectRetryBudgetDemand policy 1 []) (\<lambda>demand.
       if demand = [] then Inr base
       else bind_res (readRetryBudgetSnapshots opts) (\<lambda>snapshots.
         let entries = map (budgetEntry snapshots) demand
         in Inr (base\<lparr>tp_valid := tp_valid base \<and> list_all (\<lambda>(b, _). pb_status b = Admissible) entries,
                      tp_budgets := map fst entries,
                      tp_warnings := tp_warnings base @ concat (map snd entries)\<rparr>)))"

section \<open>Entry points\<close>

definition planTimePolicy :: "jsnum \<Rightarrow> policy \<Rightarrow> budget_snapshot list \<Rightarrow> err + time_plan" where
  "planTimePolicy clock policy opts =
     bind_res (plan clock policy 0) (\<lambda>base. applyRetryBudgetPlan base policy opts)"

definition estimateRetry :: "jsnum \<Rightarrow> policy \<Rightarrow> retry_arg \<Rightarrow> budget_snapshot list \<Rightarrow> err + time_plan" where
  "estimateRetry clock attempt retry opts =
     bind_res (bind_res (plan clock attempt 1) (\<lambda>c. retryPlan c retry)) (\<lambda>base.
       applyRetryBudgetPlan base (RetryP attempt retry) opts)"

definition estimateHedge :: "jsnum \<Rightarrow> policy \<Rightarrow> duration \<Rightarrow> jsnum \<Rightarrow> budget_snapshot list \<Rightarrow> err + time_plan" where
  "estimateHedge clock attempt after mx opts =
     bind_res (bind_res (checkHedgeMax mx) (\<lambda>_.
                bind_res (plan clock attempt 1) (\<lambda>c. hedgePlan c after mx))) (\<lambda>base.
       applyRetryBudgetPlan base (Hedge attempt after mx) opts)"

end
