(* ===== verification/Time_Policy_Props.thy ===== *)
theory Time_Policy_Props
  imports Time_Policy
begin

text \<open>
  What the planner of \<open>Time_Policy\<close> guarantees: which policies it accepts, the shape of the
  totals, what an invalid plan reports, and that the saturating retry-budget arithmetic is the
  exact demand, cut off at \<open>Number.MAX_SAFE_INTEGER\<close>.
\<close>

section \<open>Accepted policies\<close>

definition valid_duration :: "duration \<Rightarrow> bool" where
  "valid_duration d \<longleftrightarrow> (\<exists>ms. parseDuration d = Inr ms)"

definition valid_retry :: "retry_arg \<Rightarrow> bool" where
  "valid_retry r \<longleftrightarrow>
     (\<exists>n. arg_times r = Fin (of_nat n) \<and> 1 \<le> n \<and> n \<le> MAX_RETRY_ATTEMPTS \<and>
        (2 \<le> n \<longrightarrow> valid_duration (or_default (ro_initialDelay (arg_opts r)) (DNum (Fin 100))) \<and>
                   valid_duration (or_default (ro_maxDelay (arg_opts r)) (DNum (Fin 30000)))))"

definition valid_hedge :: "jsnum \<Rightarrow> bool" where
  "valid_hedge mx \<longleftrightarrow> (\<exists>n. mx = Fin (of_nat n) \<and> 1 \<le> n)"

fun well_formed :: "policy \<Rightarrow> bool" where
  "well_formed (Attempt d l) \<longleftrightarrow> valid_duration d"
| "well_formed (Series ps) \<longleftrightarrow> (\<forall>p \<in> set ps. well_formed p)"
| "well_formed (Parallel ps) \<longleftrightarrow> (\<forall>p \<in> set ps. well_formed p)"
| "well_formed (RetryP p r) \<longleftrightarrow> well_formed p \<and> valid_retry r"
| "well_formed (Hedge p a mx) \<longleftrightarrow> well_formed p \<and> valid_duration a \<and> valid_hedge mx"
| "well_formed (Timeout d p) \<longleftrightarrow> well_formed p \<and> valid_duration d"
| "well_formed (Deadline a n p) \<longleftrightarrow> well_formed p"

text \<open>All levels of nesting stay within a bound.\<close>

fun fits :: "policy \<Rightarrow> nat \<Rightarrow> bool" where
  "fits (Attempt d l) k \<longleftrightarrow> k \<le> MAX_POLICY_DEPTH"
| "fits (Series ps) k \<longleftrightarrow> k \<le> MAX_POLICY_DEPTH \<and> (\<forall>p \<in> set ps. fits p (k + 1))"
| "fits (Parallel ps) k \<longleftrightarrow> k \<le> MAX_POLICY_DEPTH \<and> (\<forall>p \<in> set ps. fits p (k + 1))"
| "fits (RetryP p r) k \<longleftrightarrow> k \<le> MAX_POLICY_DEPTH \<and> fits p (k + 1)"
| "fits (Hedge p a mx) k \<longleftrightarrow> k \<le> MAX_POLICY_DEPTH \<and> fits p (k + 1)"
| "fits (Timeout d p) k \<longleftrightarrow> k \<le> MAX_POLICY_DEPTH \<and> fits p (k + 1)"
| "fits (Deadline a n p) k \<longleftrightarrow> k \<le> MAX_POLICY_DEPTH \<and> fits p (k + 1)"

lemma succeeds_parse [simp]: "succeeds (parseDuration d) \<longleftrightarrow> valid_duration d"
  by (simp add: succeeds_def valid_duration_def)

lemma normalizeRetry_eq:
  "normalizeRetry r = Inr p \<longleftrightarrow>
   (\<exists>n. arg_times r = Fin (of_nat n) \<and> 1 \<le> n \<and> n \<le> MAX_RETRY_ATTEMPTS \<and>
      p = \<lparr>rp_times = n, rp_backoff = or_default (ro_backoff (arg_opts r)) Exponential,
           rp_initialDelay = or_default (ro_initialDelay (arg_opts r)) (DNum (Fin 100)),
           rp_maxDelay = or_default (ro_maxDelay (arg_opts r)) (DNum (Fin 30000)),
           rp_jitter = or_default (ro_jitter (arg_opts r)) True,
           rp_retryIf = or_default (ro_retryIf (arg_opts r)) (\<lambda>_ _. True)\<rparr>)"
  by (auto simp: normalizeRetry_def res_simps validateRetryPolicy_ok Let_def floor_of_nat)

lemma succeeds_delay:
  "succeeds (estimateRetryDelay n p) \<longleftrightarrow>
   valid_duration (rp_initialDelay p) \<and> valid_duration (rp_maxDelay p)"
  by (auto simp: estimateRetryDelay_def succeeds_bind valid_duration_def)

lemma succeeds_retryPlan [simp]: "succeeds (retryPlan c r) \<longleftrightarrow> valid_retry r"
proof -
  have "succeeds (retryPlan c r) \<longleftrightarrow>
      (\<exists>p. normalizeRetry r = Inr p \<and>
        (2 \<le> rp_times p \<longrightarrow> valid_duration (rp_initialDelay p) \<and> valid_duration (rp_maxDelay p)))"
    by (auto simp: retryPlan_def succeeds_bind Let_def succeeds_def [of "map_res _ _", symmetric]
        succeeds_map_res succeeds_delay)
  also have "\<dots> \<longleftrightarrow> valid_retry r"
    by (auto simp: normalizeRetry_eq valid_retry_def)
  finally show ?thesis .
qed

lemma checkHedgeMax_ok: "checkHedgeMax mx = Inr () \<longleftrightarrow> valid_hedge mx"
proof (cases mx)
  case (Fin q)
  show ?thesis
  proof
    assume "checkHedgeMax mx = Inr ()"
    with Fin have q: "integral q" "1 \<le> q" by (auto simp: checkHedgeMax_def not_less split: if_splits)
    then have "of_nat (nat \<lfloor>q\<rfloor>) = q" by (intro integral_nat) auto
    moreover from this q have "1 \<le> nat \<lfloor>q\<rfloor>" by (metis of_nat_1 of_nat_le_iff)
    ultimately show "valid_hedge mx" using Fin by (metis valid_hedge_def)
  qed (auto simp: valid_hedge_def checkHedgeMax_def)
qed (auto simp: valid_hedge_def checkHedgeMax_def)

lemma succeeds_hedgePlan [simp]: "succeeds (hedgePlan c a mx) \<longleftrightarrow> valid_duration a"
  by (auto simp: hedgePlan_def succeeds_bind Let_def valid_duration_def)

lemma succeeds_timeoutPlan [simp]: "succeeds (timeoutPlan c d ts) \<longleftrightarrow> valid_duration d"
  by (auto simp: timeoutPlan_def succeeds_bind Let_def valid_duration_def)

text \<open>C40: the planner returns a plan exactly for the well-formed policies that nest at most 64
  levels deep; on every other policy it throws.\<close>

theorem plan_succeeds_iff: "(\<exists>tp. plan clock p k = Inr tp) \<longleftrightarrow> well_formed p \<and> fits p k"
proof -
  have "succeeds (plan clock p k) \<longleftrightarrow> well_formed p \<and> fits p k"
  proof (induction clock p k rule: plan.induct)
    case (5 clock p after mx depth)
    then show ?case
      by (auto simp: succeeds_bind checkHedgeMax_ok) (auto simp: succeeds_def)
  qed (auto simp: succeeds_bind succeeds_map_res valid_duration_def
        succeeds_def [of "map_res _ _", symmetric] succeeds_def [of "plan _ _ _", symmetric])
  then show ?thesis by (simp add: succeeds_def)
qed


section \<open>Shape of the totals\<close>

fun finite_deadlines :: "policy \<Rightarrow> bool" where
  "finite_deadlines (Attempt d l) \<longleftrightarrow> True"
| "finite_deadlines (Series ps) \<longleftrightarrow> (\<forall>p \<in> set ps. finite_deadlines p)"
| "finite_deadlines (Parallel ps) \<longleftrightarrow> (\<forall>p \<in> set ps. finite_deadlines p)"
| "finite_deadlines (RetryP p r) \<longleftrightarrow> finite_deadlines p"
| "finite_deadlines (Hedge p a mx) \<longleftrightarrow> finite_deadlines p"
| "finite_deadlines (Timeout d p) \<longleftrightarrow> finite_deadlines p"
| "finite_deadlines (Deadline a n p) \<longleftrightarrow>
     is_finite a \<and> (case n of None \<Rightarrow> True | Some x \<Rightarrow> is_finite x) \<and> finite_deadlines p"

definition plan_shape :: "time_plan \<Rightarrow> rat \<Rightarrow> rat \<Rightarrow> bool" where
  "plan_shape tp u w \<longleftrightarrow> upperBoundMs tp = Fin u \<and> criticalPathMs tp = Fin u \<and>
     parallelWorkMs tp = Fin w \<and> 0 \<le> u \<and> 0 \<le> w"

lemma emptyPlan_shape: "plan_shape emptyPlan 0 0"
  by (simp add: emptyPlan_def plan_shape_def)

lemma js_sum_Fin: "js_sum (map Fin xs) = Fin (sum_list xs)"
proof -
  have "foldl (+) (Fin a) (map Fin xs) = Fin (a + sum_list xs)" for a
    by (induction xs arbitrary: a) (simp_all add: add.assoc)
  then show ?thesis by (simp add: js_sum_def)
qed

lemma js_maximum_Fin: "xs \<noteq> [] \<Longrightarrow> js_maximum (map Fin xs) = Fin (Max (set xs))"
proof -
  have *: "foldl js_max (Fin a) (map Fin ys) = Fin (Max (insert a (set ys)))" for a ys
  proof (induction ys arbitrary: a)
    case (Cons y ys)
    then show ?case by (cases "ys = []") (auto simp: Max_insert insert_commute max.assoc [symmetric])
  qed simp
  assume "xs \<noteq> []"
  then obtain y ys where "xs = y # ys" by (cases xs) auto
  then show ?thesis by (simp add: js_maximum_def js_max_def *)
qed

lemma plan_shape_list:
  assumes "list_all2 (\<lambda>p c. \<exists>u w. plan_shape c u w) ps cs"
  obtains us ws where "map upperBoundMs cs = map Fin us" "map criticalPathMs cs = map Fin us"
    "map parallelWorkMs cs = map Fin ws" "\<forall>u \<in> set us. 0 \<le> u" "\<forall>w \<in> set ws. 0 \<le> w"
    "length us = length cs"
proof -
  have "\<forall>c \<in> set cs. \<exists>u w. plan_shape c u w"
    using assms by (auto simp: list_all2_conv_all_nth in_set_conv_nth)
  then obtain f g where fg: "\<forall>c \<in> set cs. plan_shape c (f c) (g c)" by metis
  show ?thesis
    by (rule that [of "map f cs" "map g cs"]) (use fg in \<open>auto simp: plan_shape_def\<close>)
qed

lemma sum_list_nonneg_rat: "\<forall>u \<in> set us. (0::rat) \<le> u \<Longrightarrow> 0 \<le> sum_list us"
  by (induction us) auto

lemma combineSeries_shape:
  assumes "list_all2 (\<lambda>p c. \<exists>u w. plan_shape c u w) ps cs"
  shows "\<exists>u w. plan_shape (combineSeries cs) u w"
proof -
  obtain us ws where "map upperBoundMs cs = map Fin us" "map criticalPathMs cs = map Fin us"
    "map parallelWorkMs cs = map Fin ws" "\<forall>u \<in> set us. 0 \<le> u" "\<forall>w \<in> set ws. 0 \<le> w"
    using plan_shape_list [OF assms] by metis
  then have "plan_shape (combineSeries cs) (sum_list us) (sum_list ws)"
    by (simp add: plan_shape_def combineSeries_def js_sum_Fin sum_list_nonneg_rat)
  then show ?thesis by blast
qed

lemma combineParallel_shape:
  assumes "list_all2 (\<lambda>p c. \<exists>u w. plan_shape c u w) ps cs" and "ps \<noteq> []"
  shows "\<exists>u w. plan_shape (combineParallel cs) u w"
proof -
  obtain us ws where us: "map upperBoundMs cs = map Fin us" "map criticalPathMs cs = map Fin us"
    "map parallelWorkMs cs = map Fin ws" "\<forall>u \<in> set us. 0 \<le> u" "\<forall>w \<in> set ws. 0 \<le> w"
    "length us = length cs"
    using plan_shape_list [OF assms(1)] by metis
  have "us \<noteq> []" using us(6) assms by (auto dest: list_all2_lengthD)
  moreover from this us(4) have "0 \<le> Max (set us)" by simp
  ultimately have "plan_shape (combineParallel cs) (Max (set us)) (sum_list ws)"
    using us by (simp add: plan_shape_def combineParallel_def js_sum_Fin js_maximum_Fin sum_list_nonneg_rat)
  then show ?thesis by blast
qed

lemma estimateRetryDelay_nonneg:
  assumes "estimateRetryDelay n p = Inr (d, w)"
  shows "0 \<le> d"
proof -
  from assms obtain i m where "parseDuration (rp_initialDelay p) = Inr i"
    "parseDuration (rp_maxDelay p) = Inr m"
    by (auto simp: estimateRetryDelay_def res_simps)
  moreover from this have "0 \<le> i" "0 \<le> m" by blast+
  ultimately show ?thesis
    using assms by (cases "rp_backoff p") (auto simp: estimateRetryDelay_def)
qed

lemma retryPlan_shape:
  assumes "retryPlan c r = Inr tp" and "plan_shape c u w"
  shows "\<exists>u w. plan_shape tp u w"
proof -
  from assms(1) obtain p ds where p: "normalizeRetry r = Inr p"
    and ds: "map_res (\<lambda>n. estimateRetryDelay n p) [1..<rp_times p] = Inr ds"
    and ub: "upperBoundMs tp = upperBoundMs c * Fin (of_nat (rp_times p)) + Fin (sum_list (map fst ds))"
    and cp: "criticalPathMs tp = upperBoundMs tp"
    and pw: "parallelWorkMs tp = parallelWorkMs c * Fin (of_nat (rp_times p))"
    by (auto simp: retryPlan_def res_simps(1,2) Let_def)
  from ds have "\<forall>d \<in> set ds. 0 \<le> fst d"
    by (auto simp: res_simps list_all2_conv_all_nth in_set_conv_nth intro: estimateRetryDelay_nonneg)
      (metis estimateRetryDelay_nonneg fst_conv nth_upt prod.collapse)
  then have "0 \<le> sum_list (map fst ds)" by (intro sum_list_nonneg_rat) auto
  with assms(2) ub cp pw
  have "plan_shape tp (u * of_nat (rp_times p) + sum_list (map fst ds)) (w * of_nat (rp_times p))"
    by (auto simp: plan_shape_def)
  then show ?thesis by blast
qed

lemma hedgePlan_shape:
  assumes "hedgePlan c a mx = Inr tp" and "plan_shape c u w" and "valid_hedge mx"
  shows "\<exists>u w. plan_shape tp u w"
proof -
  from assms(3) obtain n where n: "mx = Fin (of_nat n)" "1 \<le> n" by (auto simp: valid_hedge_def)
  from assms(1) obtain ms where ms: "parseDuration a = Inr ms"
    and ub: "upperBoundMs tp = upperBoundMs c + Fin ms * (mx - Fin 1)"
    and cp: "criticalPathMs tp = upperBoundMs tp" and pw: "parallelWorkMs tp = parallelWorkMs c * mx"
    by (auto simp: hedgePlan_def res_simps Let_def)
  have "0 \<le> ms * (of_nat n - 1)"
    using parseDuration_nonneg [OF ms] n by simp
  with assms(2) ub cp pw n have "plan_shape tp (u + ms * (of_nat n - 1)) (w * of_nat n)"
    by (auto simp: plan_shape_def)
  then show ?thesis by blast
qed

lemma timeoutPlan_shape:
  assumes "timeoutPlan c d ts = Inr tp" and "plan_shape c u w"
  shows "\<exists>u w. plan_shape tp u w"
proof -
  from assms(1) obtain ms where ms: "parseDuration d = Inr ms"
    by (auto simp: timeoutPlan_def res_simps(1))
  show ?thesis
  proof (cases "upperBoundMs c \<le> Fin ms")
    case True
    with assms ms show ?thesis by (auto simp: timeoutPlan_def)
  next
    case False
    with assms ms parseDuration_nonneg [OF ms] have "plan_shape tp ms w"
      by (auto simp: timeoutPlan_def plan_shape_def Let_def min_def)
    then show ?thesis by blast
  qed
qed

lemma deadlinePlan_shape:
  assumes "plan_shape c u w" and "deadlineAt = Fin a" and "or_default now clock = Fin n"
  shows "\<exists>u w. plan_shape (deadlinePlan clock c deadlineAt now) u w"
proof -
  have "plan_shape (deadlinePlan clock c deadlineAt now) (min u (max 0 (a - n))) w"
    using assms by (auto simp: deadlinePlan_def plan_shape_def Let_def min_def)
  then show ?thesis by blast
qed

lemma list_all2_mono_shape:
  assumes "list_all2 (\<lambda>p c. f p = Inr c) ps cs"
    and "\<And>p c. p \<in> set ps \<Longrightarrow> f p = Inr c \<Longrightarrow> P c"
  shows "list_all2 (\<lambda>p c. P c) ps cs"
  using assms by (auto simp: list_all2_conv_all_nth) (metis nth_mem)

lemma plan_has_shape:
  assumes "plan (Fin now) p k = Inr tp" and "finite_deadlines p"
  shows "\<exists>u w. plan_shape tp u w"
  using assms
proof (induction "Fin now" p k arbitrary: tp rule: plan.induct)
  case (1 d l k)
  then obtain ms where "parseDuration d = Inr ms" "tp = leafPlan ms"
    by (auto simp: res_simps split: if_splits)
  then have "plan_shape tp ms ms" by (auto simp: leafPlan_def plan_shape_def)
  then show ?case by blast
next
  case (2 ps k)
  show ?case
  proof (cases "ps = []")
    case False
    with 2 obtain cs where cs: "map_res (\<lambda>p. plan (Fin now) p (k + 1)) ps = Inr cs"
      "tp = combineSeries cs" by (auto simp: res_simps(1) split: if_splits)
    have "list_all2 (\<lambda>p c. \<exists>u w. plan_shape c u w) ps cs"
      by (rule list_all2_mono_shape [OF cs(1) [unfolded res_simps]]) (use 2 False in \<open>auto split: if_splits\<close>)
    with cs(2) combineSeries_shape show ?thesis by blast
  qed (use 2 emptyPlan_shape in \<open>auto split: if_splits\<close>)
next
  case (3 ps k)
  show ?case
  proof (cases "ps = []")
    case False
    with 3 obtain cs where cs: "map_res (\<lambda>p. plan (Fin now) p (k + 1)) ps = Inr cs"
      "tp = combineParallel cs" by (auto simp: res_simps(1) split: if_splits)
    have "list_all2 (\<lambda>p c. \<exists>u w. plan_shape c u w) ps cs"
      by (rule list_all2_mono_shape [OF cs(1) [unfolded res_simps]]) (use 3 False in \<open>auto split: if_splits\<close>)
    with cs(2) combineParallel_shape False show ?thesis by blast
  qed (use 3 emptyPlan_shape in \<open>auto split: if_splits\<close>)
next
  case (4 p r k)
  then show ?case by (auto simp: res_simps(1) split: if_splits) (metis retryPlan_shape)
next
  case (5 p a mx k)
  then show ?case
    by (auto simp: res_simps(1) checkHedgeMax_ok split: if_splits) (metis hedgePlan_shape)
next
  case (6 d p k)
  then show ?case by (auto simp: res_simps(1) split: if_splits) (metis timeoutPlan_shape)
next
  case (7 a n p k)
  then obtain x y where "a = Fin x" "or_default n (Fin now) = Fin y"
    by (cases a; cases n) (auto elim: is_finite.elims)
  with 7 show ?case by (auto simp: res_simps(1) split: if_splits) (metis deadlinePlan_shape)
qed


text \<open>for policies with finite deadlines the planner's totals are finite and non-negative, and the
  critical path it reports is the upper bound itself: every combinator moves the two together.\<close>

theorem plan_totals:
  assumes "plan (Fin now) p k = Inr tp" and "finite_deadlines p"
  shows "\<exists>u w. upperBoundMs tp = Fin u \<and> criticalPathMs tp = Fin u \<and> parallelWorkMs tp = Fin w \<and>
           0 \<le> u \<and> 0 \<le> w"
  using plan_has_shape [OF assms] by (simp add: plan_shape_def)

theorem plan_totals_witness:
  "\<exists>tp u w. plan (Fin 0) (Deadline (Fin 500) None (RetryP (Attempt (DStr ''1s'') None) (RTimes (Fin 3)))) 0 = Inr tp \<and>
     upperBoundMs tp = Fin u \<and> criticalPathMs tp = Fin u \<and> parallelWorkMs tp = Fin w \<and> 0 \<le> u \<and> 0 \<le> w"
proof -
  let ?p = "Deadline (Fin 500) None (RetryP (Attempt (DStr ''1s'') None) (RTimes (Fin 3)))"
  have d: "valid_duration (DStr ''1s'')" "valid_duration (DNum (Fin 100))" "valid_duration (DNum (Fin 30000))"
    by (auto simp: valid_duration_def match_duration_def is_digit_def digits_val_def digit_val_def
        max_safe_integer_def MAX_TIMEOUT_MS_def)
  have "valid_retry (RTimes (Fin 3))"
    unfolding valid_retry_def using d by (intro exI [of _ 3]) (simp add: MAX_RETRY_ATTEMPTS_def)
  with d have "well_formed ?p \<and> fits ?p 0" by (simp add: MAX_POLICY_DEPTH_def)
  then obtain tp where "plan (Fin 0) ?p 0 = Inr tp" using plan_succeeds_iff by blast
  with plan_totals [OF this] show ?thesis by simp
qed

section \<open>Validity is what the warnings say\<close>

definition blocking :: "warning_code set" where
  "blocking = {Deadline_infeasible, Retry_budget_exceeded, Retry_budget_snapshot_missing}"

definition reported :: "time_plan \<Rightarrow> bool" where
  "reported tp \<longleftrightarrow> (tp_valid tp \<longleftrightarrow> (\<forall>w \<in> set (tp_warnings tp). w_code w \<notin> blocking))"

lemma w_code_mk [simp]: "w_code (mk_warning c m) = c"
  by (simp add: mk_warning_def)

lemma delay_warnings_harmless:
  "estimateRetryDelay n p = Inr (d, ws) \<Longrightarrow> w \<in> set ws \<Longrightarrow> w_code w \<notin> blocking"
  by (cases "rp_backoff p") (auto simp: estimateRetryDelay_def res_simps blocking_def)

lemma leafPlan_reported: "reported (leafPlan ms)" and emptyPlan_reported: "reported emptyPlan"
  by (simp_all add: leafPlan_def emptyPlan_def reported_def blocking_def)

lemma retryPlan_reported: "retryPlan c r = Inr tp \<Longrightarrow> reported c \<Longrightarrow> reported tp"
proof -
  assume r: "retryPlan c r = Inr tp" and c: "reported c"
  from r obtain p ds where ds: "map_res (\<lambda>n. estimateRetryDelay n p) [1..<rp_times p] = Inr ds"
    and v: "tp_valid tp = tp_valid c"
    and w: "tp_warnings tp = tp_warnings c @ concat (map snd ds) @
      (if rp_jitter p then [mk_warning Jitter_upper_bound
         ''retry jitter is planned with the maximum non-jittered delay as an upper bound''] else [])"
    by (auto simp: retryPlan_def res_simps(1,2) Let_def)
  from ds have "\<forall>d \<in> set ds. \<forall>w \<in> set (snd d). w_code w \<notin> blocking"
    by (auto simp: res_simps list_all2_conv_all_nth in_set_conv_nth)
      (metis delay_warnings_harmless nth_mem nth_upt prod.collapse)
  with c v w show "reported tp" by (auto simp: reported_def blocking_def)
qed

lemma hedgePlan_reported: "hedgePlan c a mx = Inr tp \<Longrightarrow> reported c \<Longrightarrow> reported tp"
  by (auto simp: hedgePlan_def res_simps Let_def reported_def)

lemma timeoutPlan_reported: "timeoutPlan c d ts = Inr tp \<Longrightarrow> reported c \<Longrightarrow> reported tp"
  by (auto simp: timeoutPlan_def res_simps Let_def reported_def blocking_def split: if_splits)

lemma deadlinePlan_reported: "reported c \<Longrightarrow> reported (deadlinePlan clock c a n)"
  by (auto simp: deadlinePlan_def Let_def reported_def blocking_def)

lemma combine_reported:
  assumes "\<forall>c \<in> set cs. reported c"
  shows "reported (combineSeries cs)" and "reported (combineParallel cs)"
  using assms by (auto simp: combineSeries_def combineParallel_def reported_def list_all_iff)

lemma plan_list_reported:
  assumes "map_res f ps = Inr cs" and "\<And>p c. p \<in> set ps \<Longrightarrow> f p = Inr c \<Longrightarrow> reported c"
  shows "\<forall>c \<in> set cs. reported c"
  using assms by (auto simp: res_simps list_all2_conv_all_nth in_set_conv_nth) (metis nth_mem)

lemma plan_reported: "plan clock p k = Inr tp \<Longrightarrow> reported tp"
proof (induction clock p k arbitrary: tp rule: plan.induct)
  case (2 clock ps depth)
  show ?case
  proof (cases "ps = []")
    case False
    with 2 obtain cs where cs: "map_res (\<lambda>p. plan clock p (depth + 1)) ps = Inr cs" "tp = combineSeries cs"
      by (auto simp: res_simps(1) split: if_splits)
    with plan_list_reported [OF cs(1)] 2 False combine_reported show ?thesis by (auto split: if_splits)
  qed (use 2 emptyPlan_reported in \<open>auto split: if_splits\<close>)
next
  case (3 clock ps depth)
  show ?case
  proof (cases "ps = []")
    case False
    with 3 obtain cs where cs: "map_res (\<lambda>p. plan clock p (depth + 1)) ps = Inr cs" "tp = combineParallel cs"
      by (auto simp: res_simps(1) split: if_splits)
    with plan_list_reported [OF cs(1)] 3 False combine_reported show ?thesis by (auto split: if_splits)
  qed (use 3 emptyPlan_reported in \<open>auto split: if_splits\<close>)
qed (auto simp: res_simps(1) leafPlan_reported intro: retryPlan_reported hedgePlan_reported timeoutPlan_reported deadlinePlan_reported split: if_splits)

lemma budgetEntry_reported:
  "pb_status (fst (budgetEntry ss kr)) = Admissible \<longleftrightarrow> (\<forall>w \<in> set (snd (budgetEntry ss kr)). w_code w \<notin> blocking)"
  by (cases kr) (auto simp: blocking_def Let_def split: option.splits)

lemma applyRetryBudgetPlan_reported:
  assumes "applyRetryBudgetPlan base p ss = Inr tp" and "reported base"
  shows "reported tp"
proof -
  from assms(1) obtain dm where dm: "collectRetryBudgetDemand p 1 [] = Inr dm"
    by (auto simp: applyRetryBudgetPlan_def res_simps(1))
  show ?thesis
  proof (cases "dm = []")
    case True
    with assms dm show ?thesis by (simp add: applyRetryBudgetPlan_def)
  next
    case False
    with assms(1) dm obtain rs where "readRetryBudgetSnapshots ss = Inr rs"
      by (auto simp: applyRetryBudgetPlan_def res_simps(1))
    with assms(1) dm False have
      v: "tp_valid tp = (tp_valid base \<and> (\<forall>kr \<in> set dm. pb_status (fst (budgetEntry rs kr)) = Admissible))" and
      w: "tp_warnings tp = tp_warnings base @ concat (map (\<lambda>kr. snd (budgetEntry rs kr)) dm)"
      by (auto simp: applyRetryBudgetPlan_def Let_def list_all_iff case_prod_unfold comp_def
          simp del: budgetEntry.simps)
    from assms(2) show ?thesis
      unfolding reported_def v w budgetEntry_reported set_append set_concat by fastforce
  qed
qed

text \<open>a plan is invalid exactly when it carries a warning that blocks it: an infeasible deadline, a
  retry budget that is exceeded, or one that cannot be verified.\<close>

theorem planTimePolicy_valid_iff:
  assumes "planTimePolicy clock p ss = Inr tp"
  shows "tp_valid tp \<longleftrightarrow> (\<forall>w \<in> set (tp_warnings tp).
    w_code w \<notin> {Deadline_infeasible, Retry_budget_exceeded, Retry_budget_snapshot_missing})"
proof -
  from assms obtain base where "plan clock p 0 = Inr base" "applyRetryBudgetPlan base p ss = Inr tp"
    by (auto simp: planTimePolicy_def res_simps)
  with plan_reported applyRetryBudgetPlan_reported have "reported tp" by blast
  then show ?thesis by (simp add: reported_def blocking_def)
qed


text \<open>The witness: an infeasible deadline.\<close>

theorem planTimePolicy_valid_iff_witness:
  "\<exists>tp. planTimePolicy (Fin 0) (Deadline (Fin 500) None (Attempt (DNum (Fin 900)) None)) [] = Inr tp \<and>
     \<not> tp_valid tp \<and>
     (tp_valid tp \<longleftrightarrow> (\<forall>w \<in> set (tp_warnings tp).
       w_code w \<notin> {Deadline_infeasible, Retry_budget_exceeded, Retry_budget_snapshot_missing}))"
proof -
  let ?p = "Deadline (Fin 500) None (Attempt (DNum (Fin 900)) None)"
  let ?tp = "deadlinePlan (Fin 0) (leafPlan 900) (Fin 500) None"
  have r: "planTimePolicy (Fin 0) ?p [] = Inr ?tp"
    by (simp add: planTimePolicy_def applyRetryBudgetPlan_def MAX_POLICY_DEPTH_def MAX_TIMEOUT_MS_def)
  moreover have "\<not> tp_valid ?tp" by (simp add: deadlinePlan_def leafPlan_def Let_def)
  ultimately show ?thesis using planTimePolicy_valid_iff [OF r] by blast
qed

section \<open>Retry budgets: the saturating arithmetic\<close>

text \<open>
  The exact number of extra attempts a policy may charge to a budget key, with \<open>m\<close> runs of the
  policy: the specification the saturating collection is compared with.
\<close>

definition rt :: "retry_arg \<Rightarrow> nat" where
  "rt r = num_nat (arg_times r)"

fun exact_demand :: "string \<Rightarrow> policy \<Rightarrow> nat \<Rightarrow> nat" where
  "exact_demand key (Attempt d l) m = 0"
| "exact_demand key (Series ps) m = sum_list (map (\<lambda>p. exact_demand key p m) ps)"
| "exact_demand key (Parallel ps) m = sum_list (map (\<lambda>p. exact_demand key p m) ps)"
| "exact_demand key (RetryP p r) m =
     (if arg_budget r = Some key then (rt r - 1) * m else 0) + exact_demand key p (m * rt r)"
| "exact_demand key (Hedge p a mx) m = exact_demand key p (m * num_nat mx)"
| "exact_demand key (Timeout d p) m = exact_demand key p m"
| "exact_demand key (Deadline a n p) m = exact_demand key p m"

lemma min_mult_cap: "min M (a * min M b) = min M (a * b)" for a b M :: nat
proof (cases "a = 0 \<or> b \<le> M")
  case False
  then have "M \<le> a * M" and "a * M \<le> a * b" by auto
  then have "M \<le> a * b" by (rule order_trans)
  with False \<open>M \<le> a * M\<close> show ?thesis by (simp add: min_def)
qed (auto simp: min_def)

lemma min_mult_cap': "min M (min M a * b) = min M (a * b)" for a b M :: nat
  using min_mult_cap [of M b a] by (simp add: mult.commute)

lemma demand_of_add:
  "demand_of (addRetryDemand dm k n) key =
   (if key = k then min max_safe_integer (demand_of dm k + n) else demand_of dm key)"
  by (auto simp: addRetryDemand_def demand_of_def update_conv')

lemma fold_demand:
  assumes "fold_res (\<lambda>p. collectRetryBudgetDemand p m) ps dm = Inr dm'"
    and "demand_of dm key = min max_safe_integer D"
    and "\<And>p dm D dm'. p \<in> set ps \<Longrightarrow> collectRetryBudgetDemand p m dm = Inr dm' \<Longrightarrow>
       demand_of dm key = min max_safe_integer D \<Longrightarrow>
       demand_of dm' key = min max_safe_integer (D + f p)"
  shows "demand_of dm' key = min max_safe_integer (D + sum_list (map f ps))"
  using assms
proof (induction ps arbitrary: dm D)
  case (Cons p ps)
  from Cons.prems(1) obtain d where d: "collectRetryBudgetDemand p m dm = Inr d"
    "fold_res (\<lambda>p. collectRetryBudgetDemand p m) ps d = Inr dm'"
    by (auto simp: res_simps(1))
  have "demand_of d key = min max_safe_integer (D + f p)"
    by (rule Cons.prems(3) [OF _ d(1) Cons.prems(2)]) simp
  from Cons.IH [OF d(2) this] Cons.prems(3) show ?case by (simp add: add.assoc)
qed simp

lemma collect_exact:
  assumes "collectRetryBudgetDemand p (min max_safe_integer m) dm = Inr dm'"
    and "demand_of dm key = min max_safe_integer D"
  shows "demand_of dm' key = min max_safe_integer (D + exact_demand key p m)"
  using assms
proof (induction p arbitrary: m dm D dm')
  case (Series ps)
  from Series.prems show ?case
    by (simp del: fold_res.simps) (rule fold_demand; (assumption | blast intro: Series.IH))
next
  case (Parallel ps)
  from Parallel.prems show ?case
    by (simp del: fold_res.simps) (rule fold_demand; (assumption | blast intro: Parallel.IH))
next
  case (RetryP p r)
  from RetryP.prems(1) obtain q where q: "normalizeRetry r = Inr q"
    by (auto simp: res_simps(1))
  then have t: "rp_times q = rt r"
    using normalizeRetry_times [OF q] by (simp add: rt_def floor_of_nat)
  have c: "collectRetryBudgetDemand p (min max_safe_integer (m * rt r))
      (case arg_budget r of None \<Rightarrow> dm
       | Some k \<Rightarrow> addRetryDemand dm k (min max_safe_integer ((rt r - 1) * m))) = Inr dm'"
    using RetryP.prems(1) q by (simp add: Let_def t boundedProduct_def min_mult_cap min_mult_cap' cong: option.case_cong)
  let ?D = "D + (if arg_budget r = Some key then (rt r - 1) * m else 0)"
  have "demand_of (case arg_budget r of None \<Rightarrow> dm
       | Some k \<Rightarrow> addRetryDemand dm k (min max_safe_integer ((rt r - 1) * m))) key = min max_safe_integer ?D"
    using RetryP.prems(2) by (auto simp: demand_of_add split: option.splits)
  from RetryP.IH [OF c this] show ?case by (simp add: add.assoc)
next
  case (Hedge p a mx)
  from Hedge.prems(1) have
    c: "collectRetryBudgetDemand p (min max_safe_integer (m * num_nat mx)) dm = Inr dm'"
    by (simp add: boundedProduct_def min_mult_cap')
  from Hedge.IH [OF c Hedge.prems(2)] show ?case by simp
qed auto


text \<open>for every budget key, the demand the planner collects with saturating products and sums is the
  exact number of extra attempts of the policy, cut off once at \<open>Number.MAX_SAFE_INTEGER\<close>.\<close>

theorem retry_demand_saturates:
  assumes "collectRetryBudgetDemand p 1 [] = Inr dm"
  shows "demand_of dm key = min max_safe_integer (exact_demand key p 1)"
proof -
  have "collectRetryBudgetDemand p (min max_safe_integer 1) [] = Inr dm"
    using assms by (simp add: max_safe_integer_def)
  from collect_exact [OF this, of key 0] show ?thesis by (simp add: demand_of_def)
qed

definition budgeted :: "jsnum \<Rightarrow> string \<Rightarrow> retry_arg" where
  "budgeted n key = ROpts \<lparr>ro_times = n, ro_backoff = None, ro_initialDelay = None, ro_maxDelay = None,
     ro_jitter = None, ro_retryIf = None, ro_retryBudget = Some key\<rparr>"

lemma budgeted_simps [simp]: "arg_budget (budgeted n key) = Some key" "arg_times (budgeted n key) = n"
  by (simp_all add: budgeted_def)

text \<open>A retry inside a very wide hedge inside a retry: the exact demand leaves the safe range.\<close>

theorem retry_demand_saturates_witness:
  "\<exists>dm. collectRetryBudgetDemand
      (RetryP (Hedge (RetryP (Attempt (DNum (Fin 1)) None) (budgeted (Fin 5) ''b'')) (DNum (Fin 1)) (Fin 9007199254740991))
        (budgeted (Fin 3) ''b'')) 1 [] = Inr dm \<and>
    demand_of dm ''b'' = min max_safe_integer (2 + 4 * (3 * 9007199254740991))"
proof -
  let ?p = "RetryP (Hedge (RetryP (Attempt (DNum (Fin 1)) None) (budgeted (Fin 5) ''b'')) (DNum (Fin 1))
    (Fin 9007199254740991)) (budgeted (Fin 3) ''b'')"
  have n: "\<exists>q. normalizeRetry (budgeted (Fin 5) k) = Inr q" "\<exists>q. normalizeRetry (budgeted (Fin 3) k) = Inr q" for k
    by (auto simp: normalizeRetry_def validateRetryPolicy_def budgeted_def MAX_RETRY_ATTEMPTS_def Let_def)
  then obtain q5 q3 where "normalizeRetry (budgeted (Fin 5) ''b'') = Inr q5"
    "normalizeRetry (budgeted (Fin 3) ''b'') = Inr q3" by blast
  then have "\<exists>dm. collectRetryBudgetDemand ?p 1 [] = Inr dm" by (simp add: Let_def)
  then obtain dm where dm: "collectRetryBudgetDemand ?p 1 [] = Inr dm" by blast
  have "exact_demand ''b'' ?p 1 = 2 + 4 * (3 * 9007199254740991)"
    by (simp add: rt_def budgeted_def)
  with retry_demand_saturates [OF dm, of "''b''"] dm show ?thesis by metis
qed


section \<open>Admission\<close>

lemma readSnapshot_step:
  assumes "readSnapshot s rs = Inr rs'"
  shows "\<exists>l x. bs_limit s = Fin l \<and> bs_spent s = Fin x \<and> 0 \<le> x \<and> x \<le> l \<and>
    map_of rs' = (map_of rs)(bs_key s \<mapsto> (l, x))"
  using assms
  by (auto simp: readSnapshot_def update_conv not_less split: jsnum.splits if_splits)

lemma readRetryBudgetSnapshots_sound:
  assumes "readRetryBudgetSnapshots ss = Inr rs" and "map_of rs key = Some (l, x)"
  shows "\<exists>s \<in> set ss. bs_key s = key \<and> bs_limit s = Fin l \<and> bs_spent s = Fin x \<and> 0 \<le> x \<and> x \<le> l"
proof -
  let ?I = "\<lambda>rs. \<forall>key l x. map_of rs key = Some (l, x) \<longrightarrow>
    (\<exists>s \<in> set ss. bs_key s = key \<and> bs_limit s = Fin l \<and> bs_spent s = Fin x \<and> 0 \<le> x \<and> x \<le> l)"
  have "?I rs"
    by (rule fold_res_invariant [OF assms(1) [unfolded readRetryBudgetSnapshots_def]])
      (auto dest!: readSnapshot_step split: if_splits)
  with assms(2) show ?thesis by blast
qed

lemma demand_of_pos: "0 < demand_of dm key \<Longrightarrow> (key, demand_of dm key) \<in> set dm"
  by (auto simp: demand_of_def split: option.splits dest: map_of_SomeD)

text \<open>a valid plan never over-admits a shared retry budget: for every key the policy may charge there
  is a runtime snapshot whose remaining amount covers the exact demand (cut off at the largest
  safe integer).\<close>

theorem planTimePolicy_admission:
  assumes "planTimePolicy clock p ss = Inr tp" and "tp_valid tp" and "0 < exact_demand key p 1"
  shows "\<exists>s \<in> set ss. \<exists>l x. bs_key s = key \<and> bs_limit s = Fin l \<and> bs_spent s = Fin x \<and>
    of_nat (min max_safe_integer (exact_demand key p 1)) \<le> l - x"
proof -
  from assms(1) obtain base dm where base: "applyRetryBudgetPlan base p ss = Inr tp"
    and dm: "collectRetryBudgetDemand p 1 [] = Inr dm"
    by (auto simp: planTimePolicy_def applyRetryBudgetPlan_def res_simps(1))
  have "collectRetryBudgetDemand p (min max_safe_integer 1) [] = Inr dm"
    using dm by (simp add: max_safe_integer_def)
  from collect_exact [OF this, of key 0]
  have n: "demand_of dm key = min max_safe_integer (exact_demand key p 1)"
    by (simp add: demand_of_def)
  with assms(3) have k: "(key, demand_of dm key) \<in> set dm"
    by (intro demand_of_pos) (simp add: max_safe_integer_def)
  then have "dm \<noteq> []" by auto
  with base dm obtain rs where rs: "readRetryBudgetSnapshots ss = Inr rs"
    by (auto simp: applyRetryBudgetPlan_def res_simps(1))
  with base dm \<open>dm \<noteq> []\<close> assms(2) k have "pb_status (fst (budgetEntry rs (key, demand_of dm key))) = Admissible"
    by (auto simp: applyRetryBudgetPlan_def Let_def list_all_iff case_prod_unfold simp del: budgetEntry.simps)
  then obtain l x where lx: "map_of rs key = Some (l, x)" "of_nat (demand_of dm key) \<le> l - x"
    by (auto simp: Let_def split: option.splits if_splits)
  with readRetryBudgetSnapshots_sound [OF rs lx(1)] n show ?thesis by metis
qed

theorem planTimePolicy_admission_witness:
  "\<exists>s \<in> {\<lparr>bs_key = ''b'', bs_limit = Fin 5, bs_spent = Fin 3\<rparr>}. \<exists>l x. bs_key s = ''b'' \<and>
    bs_limit s = Fin l \<and> bs_spent s = Fin x \<and> (2::rat) \<le> l - x"
proof -
  let ?p = "RetryP (Attempt (DNum (Fin 1)) None) (budgeted (Fin 3) ''b'')"
  let ?s = "\<lparr>bs_key = ''b'', bs_limit = Fin 5, bs_spent = Fin 3\<rparr>"
  have [simp]: "normalizeRetry (budgeted (Fin 3) ''b'') = Inr \<lparr>rp_times = 3, rp_backoff = Exponential,
      rp_initialDelay = DNum (Fin 100), rp_maxDelay = DNum (Fin 30000), rp_jitter = True, rp_retryIf = \<lambda>_ _. True\<rparr>"
    by (simp add: normalizeRetry_def validateRetryPolicy_def budgeted_def MAX_RETRY_ATTEMPTS_def Let_def)
  have "succeeds (retryPlan (leafPlan 1) (budgeted (Fin 3) ''b''))"
    by (auto simp: succeeds_retryPlan valid_retry_def budgeted_def valid_duration_def MAX_RETRY_ATTEMPTS_def
        MAX_TIMEOUT_MS_def intro!: exI [of _ 3])
  then obtain base where b: "retryPlan (leafPlan 1) (budgeted (Fin 3) ''b'') = Inr base"
    by (auto simp: succeeds_def)
  then have base: "plan (Fin 0) ?p 0 = Inr base" "tp_valid base"
    by (simp add: MAX_POLICY_DEPTH_def MAX_TIMEOUT_MS_def)
      (use b in \<open>auto simp: retryPlan_def res_simps(1,2) Let_def leafPlan_def\<close>)
  have "collectRetryBudgetDemand ?p 1 [] = Inr [(''b'', 2)]"
    by (simp add: Let_def boundedProduct_def addRetryDemand_def demand_of_def max_safe_integer_def)
  with base have "\<exists>tp. planTimePolicy (Fin 0) ?p [?s] = Inr tp \<and> tp_valid tp"
    by (simp add: planTimePolicy_def applyRetryBudgetPlan_def readRetryBudgetSnapshots_def readSnapshot_def Let_def)
  then obtain tp where "planTimePolicy (Fin 0) ?p [?s] = Inr tp" "tp_valid tp" by blast
  from planTimePolicy_admission [OF this, of "''b''"] show ?thesis
    by (simp add: rt_def budgeted_def max_safe_integer_def)
qed

section \<open>Planned delays cover the computed ones\<close>

lemma planned_delay_covers:
  assumes "estimateRetryDelay n p = Inr (d, w)" and "computeRetryDelay n p rnd = Inr d'"
    and "0 \<le> rnd" and "rnd < 1"
  shows "0 \<le> d' \<and> d' \<le> d"
proof -
  from assms(2) obtain i m where i: "parseDuration (rp_initialDelay p) = Inr i"
    and m: "parseDuration (rp_maxDelay p) = Inr m"
    and c: "computeBackoffDelay n (rp_backoff p) i m (rp_jitter p) rnd = Inr d'"
    by (auto simp: computeRetryDelay_def res_simps)
  have pos: "0 \<le> i" "0 \<le> m" using i m by blast+
  from computeBackoffDelay_range [OF c pos assms(3,4)] have r: "0 \<le> d'" "d' \<le> m" by auto
  show ?thesis
  proof (cases "rp_backoff p")
    case (Dynamic f)
    with assms(1) i m r show ?thesis by (auto simp: estimateRetryDelay_def)
  next
    case Fixed
    then have "computeBackoffDelay n (rp_backoff p) i m False rnd = Inr d"
      using assms(1) i m by (simp add: estimateRetryDelay_def computeBackoffDelay_def)
    from computeBackoffDelay_jitter [OF this pos assms(3,4)] c this r show ?thesis
      by (cases "rp_jitter p") auto
  next
    case Linear
    then have "computeBackoffDelay n (rp_backoff p) i m False rnd = Inr d"
      using assms(1) i m by (simp add: estimateRetryDelay_def computeBackoffDelay_def)
    from computeBackoffDelay_jitter [OF this pos assms(3,4)] c this r show ?thesis
      by (cases "rp_jitter p") auto
  next
    case Exponential
    then have "computeBackoffDelay n (rp_backoff p) i m False rnd = Inr d"
      using assms(1) i m by (simp add: estimateRetryDelay_def computeBackoffDelay_def)
    from computeBackoffDelay_jitter [OF this pos assms(3,4)] c this r show ?thesis
      by (cases "rp_jitter p") auto
  qed
qed

end
