(* ===== verification/Channel.thy ===== *)
theory Channel
  imports WI_Prelude "HOL-Library.Multiset"
begin

text \<open>
  The bounded channel, \<open>packages/core/src/channel/index.ts\<close>. An operation runs to completion
  before any other (JavaScript runs one job at a time), so each operation is a function on the
  state. A promise an operation returns is a number handed out in call order; its settlement is
  appended to \<open>settled\<close>, the history of all settlements. An abort signal is a number; \<open>aborted\<close>
  records the signals that have fired with their reasons, and a queue entry remembers the signal
  whose listener is installed for it. Firing a signal runs the listeners of the entries that are
  still queued, because an entry's listener is removed as soon as it leaves its queue.
\<close>

type_synonym promise = nat
type_synonym signal_id = nat

datatype 'v settlement =
    Sent 'v
  | SendRejected err
  | SendClosed "err option" \<comment> \<open>rejected with a \<open>ChannelClosedError\<close> that carries the reason\<close>
  | Received 'v
  | ReceivedDone "err option"
  | ReceiveRejected err

record 'v sender =
  snd_id :: promise
  snd_value :: 'v
  snd_signal :: "signal_id option"

record receiver =
  rcv_id :: promise
  rcv_signal :: "signal_id option"

record 'v channel =
  capacity :: nat
  buffer :: "'v list"
  senders :: "'v sender list"
  receivers :: "receiver list"
  closeReason :: "err option"
  isClosed :: bool
  aborted :: "signal_id \<rightharpoonup> err"
  next_promise :: promise
  settled :: "(promise \<times> 'v settlement) list"

definition DEFAULT_CAPACITY :: jsnum where
  "DEFAULT_CAPACITY = Fin 1"

definition createChannel :: "jsnum option \<Rightarrow> err + 'v channel" where
  "createChannel opt_capacity =
     (let cap = (case opt_capacity of None \<Rightarrow> DEFAULT_CAPACITY | Some c \<Rightarrow> c)
      in if \<not> is_integer cap \<or> cap \<le> Fin 0
         then Inl (RangeError ''channel capacity positive integer'')
         else Inr \<lparr>capacity = num_nat cap, buffer = [], senders = [], receivers = [],
                   closeReason = None, isClosed = False, aborted = Map.empty, next_promise = 0,
                   settled = []\<rparr>)"

definition settle :: "promise \<Rightarrow> 'v settlement \<Rightarrow> 'v channel \<Rightarrow> 'v channel" where
  "settle p o' c = c\<lparr>settled := settled c @ [(p, o')]\<rparr>"

text \<open>A new promise, settled at once.\<close>

definition settle_new :: "'v settlement \<Rightarrow> 'v channel \<Rightarrow> 'v channel" where
  "settle_new o' c = settle (next_promise c) o' (c\<lparr>next_promise := next_promise c + 1\<rparr>)"

section \<open>The three loops of pump\<close>

function pump_buffered :: "'v channel \<Rightarrow> 'v channel" where
  "pump_buffered c =
     (case (receivers c, buffer c) of
        (r # rs, v # vs) \<Rightarrow>
          pump_buffered (settle (rcv_id r) (Received v) (c\<lparr>receivers := rs, buffer := vs\<rparr>))
      | _ \<Rightarrow> c)"
  by pat_completeness auto
termination
  by (relation "measure (\<lambda>c. length (receivers c))") (auto simp: settle_def, metis length_Cons lessI)

function pump_senders :: "'v channel \<Rightarrow> 'v channel" where
  "pump_senders c =
     (if isClosed c then c
      else case senders c of
        [] \<Rightarrow> c
      | s # ss \<Rightarrow>
          (case receivers c of
             r # rs \<Rightarrow>
               pump_senders (settle (snd_id s) (Sent (snd_value s))
                 (settle (rcv_id r) (Received (snd_value s)) (c\<lparr>senders := ss, receivers := rs\<rparr>)))
           | [] \<Rightarrow>
               if length (buffer c) < capacity c
               then pump_senders (settle (snd_id s) (Sent (snd_value s))
                      (c\<lparr>senders := ss, buffer := buffer c @ [snd_value s]\<rparr>))
               else c))"
  by pat_completeness auto
termination
  by (relation "measure (\<lambda>c. length (senders c))") (auto simp: settle_def)

function pump_done :: "'v channel \<Rightarrow> 'v channel" where
  "pump_done c =
     (if isClosed c \<and> buffer c = [] then
        (case receivers c of
           [] \<Rightarrow> c
         | r # rs \<Rightarrow> pump_done (settle (rcv_id r) (ReceivedDone (closeReason c)) (c\<lparr>receivers := rs\<rparr>)))
      else c)"
  by pat_completeness auto
termination
  by (relation "measure (\<lambda>c. length (receivers c))") (auto simp: settle_def)

declare pump_buffered.simps [simp del] pump_senders.simps [simp del] pump_done.simps [simp del]

definition pump :: "'v channel \<Rightarrow> 'v channel" where
  "pump c = pump_done (pump_senders (pump_buffered c))"

section \<open>Operations\<close>

definition signal_reason :: "signal_id option \<Rightarrow> 'v channel \<Rightarrow> err option" where
  "signal_reason sig c = Option.bind sig (aborted c)"

definition send :: "'v \<Rightarrow> signal_id option \<Rightarrow> 'v channel \<Rightarrow> 'v channel" where
  "send v sig c =
     (if isClosed c then settle_new (SendClosed (closeReason c)) c
      else case signal_reason sig c of
        Some reason \<Rightarrow> settle_new (SendRejected reason) c
      | None \<Rightarrow>
          pump (c\<lparr>senders := senders c @ [\<lparr>snd_id = next_promise c, snd_value = v, snd_signal = sig\<rparr>],
                  next_promise := next_promise c + 1\<rparr>))"

definition receive :: "signal_id option \<Rightarrow> 'v channel \<Rightarrow> 'v channel" where
  "receive sig c =
     (case signal_reason sig c of
        Some reason \<Rightarrow> settle_new (ReceiveRejected reason) c
      | None \<Rightarrow>
          pump (c\<lparr>receivers := receivers c @ [\<lparr>rcv_id = next_promise c, rcv_signal = sig\<rparr>],
                  next_promise := next_promise c + 1\<rparr>))"

text \<open>The rejection of every queued sender when the channel closes.\<close>

fun reject_senders :: "err option \<Rightarrow> 'v sender list \<Rightarrow> 'v channel \<Rightarrow> 'v channel" where
  "reject_senders reason [] c = c"
| "reject_senders reason (s # ss) c =
     reject_senders reason ss (settle (snd_id s) (SendClosed reason) (c\<lparr>senders := ss\<rparr>))"

definition close :: "err option \<Rightarrow> 'v channel \<Rightarrow> 'v channel" where
  "close reason c =
     (if isClosed c then c
      else pump (reject_senders reason (senders c) (c\<lparr>isClosed := True, closeReason := reason\<rparr>)))"

text \<open>
  A signal fires: each listener removes its entry from the queue and rejects its promise. A
  signal fires at most once. When a receiver waits there is no waiting sender, so listing the
  senders first keeps the registration order of the listeners.
\<close>

definition fire_abort :: "signal_id \<Rightarrow> err \<Rightarrow> 'v channel \<Rightarrow> 'v channel" where
  "fire_abort sig reason c =
     (if aborted c sig \<noteq> None then c
      else c\<lparr>aborted := (aborted c)(sig \<mapsto> reason),
             senders := filter (\<lambda>s. snd_signal s \<noteq> Some sig) (senders c),
             receivers := filter (\<lambda>r. rcv_signal r \<noteq> Some sig) (receivers c),
             settled := settled c
               @ map (\<lambda>s. (snd_id s, SendRejected reason)) (filter (\<lambda>s. snd_signal s = Some sig) (senders c))
               @ map (\<lambda>r. (rcv_id r, ReceiveRejected reason)) (filter (\<lambda>r. rcv_signal r = Some sig) (receivers c))\<rparr>)"

datatype 'v chan_op =
    OpSend 'v "signal_id option"
  | OpReceive "signal_id option"
  | OpClose "err option"
  | OpAbort signal_id err

fun channel_op :: "'v chan_op \<Rightarrow> 'v channel \<Rightarrow> 'v channel" where
  "channel_op (OpSend v sig) c = send v sig c"
| "channel_op (OpReceive sig) c = receive sig c"
| "channel_op (OpClose reason) c = close reason c"
| "channel_op (OpAbort sig reason) c = fire_abort sig reason c"

definition channel_step :: "'v channel \<Rightarrow> 'v channel \<Rightarrow> bool" where
  "channel_step c c' \<longleftrightarrow> (\<exists>x. c' = channel_op x c)"

definition channel_init :: "'v channel \<Rightarrow> bool" where
  "channel_init c \<longleftrightarrow> (\<exists>cap. createChannel cap = Inr c)"

section \<open>Invariant\<close>

text \<open>
  The queues: the buffer respects the capacity; receivers wait only on an open, empty channel
  without senders; senders wait only on an open channel whose buffer is full.
\<close>

definition queues_ok :: "'v channel \<Rightarrow> bool" where
  "queues_ok c \<longleftrightarrow> 1 \<le> capacity c \<and> length (buffer c) \<le> capacity c \<and>
     (receivers c \<noteq> [] \<longrightarrow> buffer c = [] \<and> \<not> isClosed c \<and> senders c = []) \<and>
     (senders c \<noteq> [] \<longrightarrow> length (buffer c) = capacity c \<and> \<not> isClosed c)"

text \<open>What has been accepted from senders and delivered to receivers, in order.\<close>

fun sent_value :: "promise \<times> 'v settlement \<Rightarrow> 'v option" where
  "sent_value (p, Sent v) = Some v"
| "sent_value _ = None"

fun received_value :: "promise \<times> 'v settlement \<Rightarrow> 'v option" where
  "received_value (p, Received v) = Some v"
| "received_value _ = None"

definition accepted :: "'v channel \<Rightarrow> 'v list" where
  "accepted c = List.map_filter sent_value (settled c)"

definition delivered :: "'v channel \<Rightarrow> 'v list" where
  "delivered c = List.map_filter received_value (settled c)"

definition fifo :: "'v channel \<Rightarrow> bool" where
  "fifo c \<longleftrightarrow> accepted c = delivered c @ buffer c"

text \<open>Every promise handed out is settled exactly once or waits in exactly one queue entry.\<close>

definition open_promises :: "'v channel \<Rightarrow> promise list" where
  "open_promises c = map snd_id (senders c) @ map rcv_id (receivers c)"

definition promises_ok :: "'v channel \<Rightarrow> bool" where
  "promises_ok c \<longleftrightarrow> distinct (open_promises c @ map fst (settled c)) \<and>
     set (open_promises c @ map fst (settled c)) = {..<next_promise c}"

definition channel_inv :: "'v channel \<Rightarrow> bool" where
  "channel_inv c \<longleftrightarrow> queues_ok c \<and> fifo c \<and> promises_ok c"


lemma channel_init_inv: "channel_init c \<Longrightarrow> channel_inv c"
proof -
  assume "channel_init c"
  then obtain q where q: "integral q" "0 < q" and cap: "capacity c = nat \<lfloor>q\<rfloor>"
    and c: "buffer c = []" "senders c = []" "receivers c = []" "settled c = []" "next_promise c = 0"
    unfolding channel_init_def
  proof (elim exE, goal_cases)
    case (1 opt)
    let ?cap = "case opt of None \<Rightarrow> DEFAULT_CAPACITY | Some c \<Rightarrow> c"
    obtain q where "?cap = Fin q" "integral q" "0 < q"
      using 1 by (cases ?cap) (auto simp: createChannel_def Let_def split: if_splits)
    with 1 show ?case by (auto simp: createChannel_def Let_def)
  qed
  have "of_nat (nat \<lfloor>q\<rfloor>) = q" using q by (intro integral_nat) auto
  with q cap have "1 \<le> capacity c" by (cases "nat \<lfloor>q\<rfloor>") auto
  with c show ?thesis
    by (simp add: channel_inv_def queues_ok_def fifo_def accepted_def delivered_def promises_ok_def
        open_promises_def List.map_filter_simps)
qed

lemma settle_simps [simp]:
  "capacity (settle p o' c) = capacity c" "buffer (settle p o' c) = buffer c"
  "senders (settle p o' c) = senders c" "receivers (settle p o' c) = receivers c"
  "isClosed (settle p o' c) = isClosed c" "closeReason (settle p o' c) = closeReason c"
  "next_promise (settle p o' c) = next_promise c" "aborted (settle p o' c) = aborted c"
  "settled (settle p o' c) = settled c @ [(p, o')]"
  by (simp_all add: settle_def)

lemma map_filter_append: "List.map_filter f (xs @ ys) = List.map_filter f xs @ List.map_filter f ys"
  by (induction xs) (auto simp: List.map_filter_simps split: option.splits)

lemma accepted_settle [simp]:
  "accepted (settle p o' c) = accepted c @ (case o' of Sent v \<Rightarrow> [v] | _ \<Rightarrow> [])"
  by (cases o') (simp_all add: accepted_def map_filter_append List.map_filter_simps)

lemma delivered_settle [simp]:
  "delivered (settle p o' c) = delivered c @ (case o' of Received v \<Rightarrow> [v] | _ \<Rightarrow> [])"
  by (cases o') (simp_all add: delivered_def map_filter_append List.map_filter_simps)

text \<open>The weak invariant that holds in the middle of an operation, and each loop of the pump.\<close>

definition mid_inv :: "'v channel \<Rightarrow> bool" where
  "mid_inv c \<longleftrightarrow> 1 \<le> capacity c \<and> length (buffer c) \<le> capacity c \<and> fifo c \<and> promises_ok c"

lemma mid_inv_settle_receiver:
  assumes "mid_inv c" "receivers c = r # rs"
  shows "buffer c = v # vs \<Longrightarrow>
      mid_inv (settle (rcv_id r) (Received v) (c\<lparr>receivers := rs, buffer := vs\<rparr>))"
    and "mid_inv (settle (rcv_id r) (ReceivedDone e) (c\<lparr>receivers := rs\<rparr>))"
    and "buffer c = [] \<Longrightarrow> senders c = s # ss \<Longrightarrow>
      mid_inv (settle (snd_id s) (Sent (snd_value s))
        (settle (rcv_id r) (Received (snd_value s)) (c\<lparr>senders := ss, receivers := rs\<rparr>)))"
  using assms
  by (auto simp: mid_inv_def fifo_def promises_ok_def open_promises_def accepted_def delivered_def
      map_filter_append List.map_filter_simps)

lemma mid_inv_settle_sender:
  assumes "mid_inv c" "senders c = s # ss"
  shows "length (buffer c) < capacity c \<Longrightarrow>
      mid_inv (settle (snd_id s) (Sent (snd_value s))
        (c\<lparr>senders := ss, buffer := buffer c @ [snd_value s]\<rparr>))"
    and "mid_inv (settle (snd_id s) (SendClosed e) (c\<lparr>senders := ss\<rparr>))"
  using assms
  by (auto simp: mid_inv_def fifo_def promises_ok_def open_promises_def accepted_def delivered_def
      map_filter_append List.map_filter_simps)

lemma pump_buffered_inv:
  "mid_inv c \<Longrightarrow> mid_inv (pump_buffered c) \<and>
     (receivers (pump_buffered c) = [] \<or> buffer (pump_buffered c) = []) \<and>
     senders (pump_buffered c) = senders c \<and> isClosed (pump_buffered c) = isClosed c"
proof (induction c rule: pump_buffered.induct)
  case (1 c)
  show ?case
  proof (cases "receivers c = [] \<or> buffer c = []")
    case True
    then have "pump_buffered c = c"
      by (subst pump_buffered.simps) (auto split: list.splits)
    with True "1.prems" show ?thesis by simp
  next
    case False
    then obtain r rs v vs where rv: "receivers c = r # rs" "buffer c = v # vs"
      by (meson neq_Nil_conv)
    have "pump_buffered c =
        pump_buffered (settle (rcv_id r) (Received v) (c\<lparr>receivers := rs, buffer := vs\<rparr>))"
      by (subst pump_buffered.simps) (simp add: rv)
    with "1.IH" [OF refl rv mid_inv_settle_receiver(1) [OF "1.prems" rv]]
    show ?thesis by simp
  qed
qed

lemma pump_senders_inv:
  "mid_inv c \<Longrightarrow> receivers c = [] \<or> buffer c = [] \<Longrightarrow> mid_inv (pump_senders c) \<and>
     (receivers (pump_senders c) = [] \<or> buffer (pump_senders c) = []) \<and>
     isClosed (pump_senders c) = isClosed c \<and>
     (if isClosed c then pump_senders c = c
      else senders (pump_senders c) = [] \<or>
        receivers (pump_senders c) = [] \<and>
          length (buffer (pump_senders c)) = capacity (pump_senders c))"
proof (induction c rule: pump_senders.induct)
  case (1 c)
  show ?case
  proof (cases "isClosed c \<or> senders c = []")
    case True
    then have "pump_senders c = c" by (subst pump_senders.simps) auto
    with True "1.prems" show ?thesis by auto
  next
    case False
    then obtain s ss where s: "senders c = s # ss" and o': "\<not> isClosed c" by (meson neq_Nil_conv)
    show ?thesis
    proof (cases "receivers c")
      case (Cons r rs)
      with "1.prems" have b: "buffer c = []" by simp
      have "pump_senders c = pump_senders (settle (snd_id s) (Sent (snd_value s))
          (settle (rcv_id r) (Received (snd_value s)) (c\<lparr>senders := ss, receivers := rs\<rparr>)))"
        by (subst pump_senders.simps) (simp add: s o' Cons)
      with "1.IH"(2) [OF o' s Cons mid_inv_settle_receiver(3) [OF "1.prems"(1) Cons b s]] b
      show ?thesis by (simp add: o')
    next
      case Nil
      show ?thesis
      proof (cases "length (buffer c) < capacity c")
        case True
        have "pump_senders c = pump_senders (settle (snd_id s) (Sent (snd_value s))
            (c\<lparr>senders := ss, buffer := buffer c @ [snd_value s]\<rparr>))"
          by (subst pump_senders.simps) (simp add: s o' Nil True)
        with "1.IH"(1) [OF o' s Nil True mid_inv_settle_sender(1) [OF "1.prems"(1) s True]] Nil
        show ?thesis by (simp add: o')
      next
        case False
        then have "pump_senders c = c" by (subst pump_senders.simps) (simp add: s o' Nil)
        with False "1.prems" Nil o' show ?thesis by (auto simp: mid_inv_def)
      qed
    qed
  qed
qed

lemma pump_done_inv:
  "mid_inv c \<Longrightarrow> mid_inv (pump_done c) \<and>
     senders (pump_done c) = senders c \<and> isClosed (pump_done c) = isClosed c \<and>
     buffer (pump_done c) = buffer c \<and> capacity (pump_done c) = capacity c \<and>
     receivers (pump_done c) = (if isClosed c \<and> buffer c = [] then [] else receivers c)"
proof (induction c rule: pump_done.induct)
  case (1 c)
  show ?case
  proof (cases "isClosed c \<and> buffer c = [] \<and> receivers c \<noteq> []")
    case False
    then have "pump_done c = c" by (subst pump_done.simps) (auto split: list.splits)
    with False "1.prems" show ?thesis by auto
  next
    case True
    then obtain r rs where r: "receivers c = r # rs" by (meson neq_Nil_conv)
    have "pump_done c =
        pump_done (settle (rcv_id r) (ReceivedDone (closeReason c)) (c\<lparr>receivers := rs\<rparr>))"
      by (subst pump_done.simps) (simp add: True r)
    moreover have "isClosed c \<and> buffer c = []" using True by simp
    ultimately show ?thesis
      using "1.IH" [OF _ r mid_inv_settle_receiver(2) [OF "1.prems" r]] by simp
  qed
qed

lemma pump_inv:
  assumes "mid_inv c" and "isClosed c \<longrightarrow> senders c = []"
  shows "channel_inv (pump c)"
proof -
  let ?b = "pump_buffered c" and ?s = "pump_senders (pump_buffered c)"
  have b: "mid_inv ?b" "receivers ?b = [] \<or> buffer ?b = []" "senders ?b = senders c"
      "isClosed ?b = isClosed c"
    using pump_buffered_inv [OF assms(1)] by auto
  have s: "mid_inv ?s" "receivers ?s = [] \<or> buffer ?s = []" "isClosed ?s = isClosed c"
      "isClosed c \<Longrightarrow> ?s = ?b" "\<not> isClosed c \<Longrightarrow> senders ?s = [] \<or>
        receivers ?s = [] \<and> length (buffer ?s) = capacity ?s"
    using pump_senders_inv [OF b(1,2)] b(4) by auto
  show ?thesis
    using pump_done_inv [OF s(1)] s assms(2) b(3)
    by (cases "isClosed c") (auto simp: channel_inv_def queues_ok_def pump_def mid_inv_def)
qed

section \<open>Every operation preserves the invariant\<close>

lemma channel_inv_mid: "channel_inv c \<Longrightarrow> mid_inv c"
  by (simp add: channel_inv_def mid_inv_def queues_ok_def)

lemma channel_inv_settle_new:
  assumes "channel_inv c" and "\<And>v. o' \<noteq> Sent v" "\<And>v. o' \<noteq> Received v"
  shows "channel_inv (settle_new o' c)"
  using assms
  by (cases o') (auto simp: channel_inv_def queues_ok_def fifo_def promises_ok_def open_promises_def
      settle_new_def accepted_def delivered_def map_filter_append List.map_filter_simps)

lemma send_inv: "channel_inv c \<Longrightarrow> channel_inv (send v sig c)"
  by (auto simp: send_def split: option.split intro!: channel_inv_settle_new pump_inv)
     (auto simp: channel_inv_def mid_inv_def queues_ok_def fifo_def promises_ok_def
        open_promises_def accepted_def delivered_def)

lemma receive_inv: "channel_inv c \<Longrightarrow> channel_inv (receive sig c)"
  by (auto simp: receive_def split: option.split intro!: channel_inv_settle_new pump_inv)
     (auto simp: channel_inv_def mid_inv_def queues_ok_def fifo_def promises_ok_def
        open_promises_def accepted_def delivered_def)

lemma reject_senders_inv:
  "mid_inv c \<Longrightarrow> senders c = ss \<Longrightarrow> mid_inv (reject_senders e ss c) \<and> senders (reject_senders e ss c) = []"
proof (induction e ss c rule: reject_senders.induct)
  case (2 e s ss c)
  with mid_inv_settle_sender(2) [OF "2.prems"] show ?case by simp
qed simp

lemma close_inv: "channel_inv c \<Longrightarrow> channel_inv (close e c)"
proof (cases "isClosed c")
  case False
  assume "channel_inv c"
  then have "mid_inv (c\<lparr>isClosed := True, closeReason := e\<rparr>)"
    by (auto simp: channel_inv_def mid_inv_def queues_ok_def fifo_def promises_ok_def
        open_promises_def accepted_def delivered_def)
  with reject_senders_inv [of "c\<lparr>isClosed := True, closeReason := e\<rparr>" "senders c" e]
  have "channel_inv (pump (reject_senders e (senders c) (c\<lparr>isClosed := True, closeReason := e\<rparr>)))"
    by (intro pump_inv) auto
  with False show ?thesis by (simp add: close_def)
qed (simp add: close_def)

lemma map_filter_rejections [simp]:
  "List.map_filter sent_value (map (\<lambda>s. (f s, SendRejected e)) ss) = []"
  "List.map_filter sent_value (map (\<lambda>s. (f s, ReceiveRejected e)) ss) = []"
  "List.map_filter received_value (map (\<lambda>s. (f s, SendRejected e)) ss) = []"
  "List.map_filter received_value (map (\<lambda>s. (f s, ReceiveRejected e)) ss) = []"
  by (induction ss) (auto simp: List.map_filter_simps)

lemma promises_ok_mset:
  assumes "promises_ok c" and "next_promise d = next_promise c"
    and "mset (open_promises d @ map fst (settled d)) = mset (open_promises c @ map fst (settled c))"
  shows "promises_ok d"
  using assms mset_eq_imp_distinct_iff [OF assms(3)] mset_eq_setD [OF assms(3)]
  by (simp add: promises_ok_def)

lemma mset_map_partition:
  "mset (map f (filter (\<lambda>x. \<not> P x) xs)) + mset (map f (filter P xs)) = mset (map f xs)"
  by (induction xs) auto

lemma fire_abort_inv:
  assumes "channel_inv c"
  shows "channel_inv (fire_abort sig e c)"
proof (cases "aborted c sig = None")
  case True
  let ?d = "fire_abort sig e c"
  have "queues_ok ?d" using assms True by (auto simp: channel_inv_def queues_ok_def fire_abort_def)
  moreover have "fifo ?d"
    using assms True
    by (simp add: channel_inv_def fifo_def fire_abort_def accepted_def delivered_def map_filter_append)
  moreover have "promises_ok ?d"
  proof (rule promises_ok_mset)
    show "mset (open_promises ?d @ map fst (settled ?d)) = mset (open_promises c @ map fst (settled c))"
      using True mset_map_partition [of snd_id "\<lambda>s. snd_signal s = Some sig" "senders c"]
        mset_map_partition [of rcv_id "\<lambda>r. rcv_signal r = Some sig" "receivers c"]
      by (simp add: fire_abort_def open_promises_def comp_def ac_simps)
  qed (use assms True in \<open>simp_all add: channel_inv_def fire_abort_def\<close>)
  ultimately show ?thesis by (simp add: channel_inv_def)
qed (use assms in \<open>auto simp: fire_abort_def\<close>)

lemma channel_op_inv: "channel_inv c \<Longrightarrow> channel_inv (channel_op x c)"
  by (cases x) (simp_all add: send_inv receive_inv close_inv fire_abort_inv)

interpretation chan: invariant_system channel_init channel_step channel_inv
  by unfold_locales (auto simp: channel_step_def channel_init_inv channel_op_inv)

lemma reachable_channel_inv: "reachable channel_init channel_step c \<Longrightarrow> channel_inv c"
  by (rule chan.reachable_inv)

section \<open>Draining and hand-off\<close>

lemmas pump_loops = pump_buffered.simps pump_senders.simps pump_done.simps

lemma receive_closed:
  assumes "channel_inv c" and "isClosed c"
  shows "settled (receive None c) = settled c @
      [(next_promise c, case buffer c of [] \<Rightarrow> ReceivedDone (closeReason c) | v # _ \<Rightarrow> Received v)]"
    and "buffer (receive None c) = tl (buffer c)"
    and "next_promise (receive None c) = Suc (next_promise c)"
    and "isClosed (receive None c)" and "closeReason (receive None c) = closeReason c"
proof -
  have q: "receivers c = []" "senders c = []" using assms by (auto simp: channel_inv_def queues_ok_def)
  have *: "receive None c = (case buffer c of
      [] \<Rightarrow> settle (next_promise c) (ReceivedDone (closeReason c))
              (c\<lparr>receivers := [], next_promise := Suc (next_promise c)\<rparr>)
    | v # vs \<Rightarrow> settle (next_promise c) (Received v)
              (c\<lparr>receivers := [], buffer := vs, next_promise := Suc (next_promise c)\<rparr>))"
    using q assms(2)
    by (cases "buffer c") (simp_all add: receive_def signal_reason_def pump_def pump_loops)
  show "settled (receive None c) = settled c @
      [(next_promise c, case buffer c of [] \<Rightarrow> ReceivedDone (closeReason c) | v # _ \<Rightarrow> Received v)]"
    and "buffer (receive None c) = tl (buffer c)"
    and "next_promise (receive None c) = Suc (next_promise c)"
    and "isClosed (receive None c)" and "closeReason (receive None c) = closeReason c"
    using assms(2) by (simp_all add: * split: list.split)
qed

lemma drain_closed:
  "channel_inv c \<Longrightarrow> isClosed c \<Longrightarrow>
   map snd (settled ((receive None ^^ n) c)) = map snd (settled c) @ map Received (take n (buffer c))
     @ replicate (n - length (buffer c)) (ReceivedDone (closeReason c))"
proof (induction n arbitrary: c)
  case (Suc n)
  have "map snd (settled ((receive None ^^ Suc n) c))
      = map snd (settled ((receive None ^^ n) (receive None c)))"
    by (simp add: funpow_Suc_right del: funpow.simps)
  also note Suc.IH [OF receive_inv [OF Suc.prems(1)] receive_closed(4) [OF Suc.prems]]
  finally show ?case
    by (cases "buffer c") (simp_all add: receive_closed [OF Suc.prems])
qed simp

text \<open>
  C27: No value is lost, duplicated or reordered: on every reachable channel, the values whose
  send was acknowledged are, in order, those already delivered to receivers followed by those
  still in the buffer.
\<close>

theorem channel_fifo:
  assumes "reachable channel_init channel_step c"
  shows "accepted c = delivered c @ buffer c"
  using chan.reachable_inv [OF assms] by (simp add: channel_inv_def fifo_def)

definition example_channel :: "nat channel" where
  "example_channel = channel_op (OpReceive None) (channel_op (OpSend 8 None) (channel_op (OpSend 7 None)
     \<lparr>capacity = 1, buffer = [], senders = [], receivers = [], closeReason = None, isClosed = False,
      aborted = Map.empty, next_promise = 0, settled = []\<rparr>))"

lemma reachable_channel_op:
  "reachable channel_init channel_step c \<Longrightarrow> reachable channel_init channel_step (channel_op x c)"
  by (erule reach_step) (auto simp: channel_step_def)

lemma example_channel_reachable: "reachable channel_init channel_step example_channel"
  unfolding example_channel_def
  by (intro reachable_channel_op reach_init)
     (simp add: channel_init_def createChannel_def DEFAULT_CAPACITY_def Let_def exI [of _ None])

lemma example_channel_eval:
  "example_channel = \<lparr>capacity = 1, buffer = [8], senders = [], receivers = [], closeReason = None,
     isClosed = False, aborted = Map.empty, next_promise = 3,
     settled = [(0, Sent 7), (2, Received 7), (1, Sent 8)]\<rparr>"
  by (simp add: example_channel_def send_def receive_def pump_def pump_loops signal_reason_def settle_def)

lemma channel_fifo_witness: "accepted example_channel = delivered example_channel @ [8]"
  using channel_fifo [OF example_channel_reachable] by (simp add: example_channel_eval)

text \<open>
  Backpressure: a reachable channel never buffers more than its capacity, a sender waits only
  when the channel is open and the buffer exactly full, and a receiver waits only when the
  channel is open, nothing is buffered and no sender waits.
\<close>

theorem channel_backpressure:
  assumes "reachable channel_init channel_step c"
  shows "length (buffer c) \<le> capacity c
    \<and> (senders c = [] \<or> length (buffer c) = capacity c \<and> \<not> isClosed c)
    \<and> (receivers c = [] \<or> buffer c = [] \<and> senders c = [] \<and> \<not> isClosed c)"
  using chan.reachable_inv [OF assms] by (auto simp: channel_inv_def queues_ok_def)

lemma channel_backpressure_witness: "length (buffer example_channel) \<le> 1"
  using channel_backpressure [OF example_channel_reachable] by (simp add: example_channel_eval)

text \<open>
  Every promise a reachable channel has handed out is settled at most once, and is not settled
  exactly when it waits in a queue; so no send or receive is ever forgotten or answered twice.
\<close>

theorem channel_promises_settle_once:
  assumes "reachable channel_init channel_step c"
  shows "distinct (map fst (settled c))
    \<and> set (open_promises c) = {..<next_promise c} - set (map fst (settled c))"
  using chan.reachable_inv [OF assms] by (auto simp: channel_inv_def promises_ok_def)

lemma channel_promises_settle_once_witness:
  "set (open_promises example_channel) = {..<3} - {0, 2, 1}"
  using channel_promises_settle_once [OF example_channel_reachable]
  by (simp add: example_channel_eval)

text \<open>
  Closing drains: once a reachable channel is closed, the next n receives deliver its buffered
  values in order and, when these run out, report the end with the reason of the close.
\<close>

theorem channel_close_drains:
  assumes "reachable channel_init channel_step c" and "isClosed c"
  shows "map snd (settled ((receive None ^^ n) c)) = map snd (settled c) @ map Received (take n (buffer c))
     @ replicate (n - length (buffer c)) (ReceivedDone (closeReason c))"
  by (rule drain_closed [OF chan.reachable_inv [OF assms(1)] assms(2)])

lemma channel_close_drains_witness:
  "map snd (settled ((receive None ^^ Suc (Suc (Suc 0))) (close None example_channel)))
     = [Sent 7, Received 7, Sent 8, Received 8, ReceivedDone None, ReceivedDone None]"
proof -
  have r: "reachable channel_init channel_step (close None example_channel)"
    using reachable_channel_op [OF example_channel_reachable, of "OpClose None"] by simp
  have e: "isClosed (close None example_channel)" "buffer (close None example_channel) = [8]"
      "settled (close None example_channel) = [(0, Sent 7), (2, Received 7), (1, Sent 8)]"
      "closeReason (close None example_channel) = None"
    by (simp_all add: example_channel_eval close_def pump_def pump_loops)
  show ?thesis
    using channel_close_drains [OF r e(1), of "Suc (Suc (Suc 0))"]
    by (simp add: e del: funpow.simps)
qed

text \<open>
  Hand-off under backpressure: when a receiver arrives at a reachable open channel with
  buffered values and a waiting sender, it gets the oldest buffered value, the oldest waiting
  sender's value takes the freed place at the back, and exactly these two promises settle.
\<close>

theorem channel_handoff:
  assumes "reachable channel_init channel_step c"
    and "buffer c = v # vs" and "senders c = s # ss"
  shows "buffer (receive None c) = vs @ [snd_value s]
    \<and> senders (receive None c) = ss
    \<and> settled (receive None c)
        = settled c @ [(next_promise c, Received v), (snd_id s, Sent (snd_value s))]"
proof -
  have q: "receivers c = []" "\<not> isClosed c" "capacity c = Suc (length vs)"
    using chan.reachable_inv [OF assms(1)] assms(2,3) by (auto simp: channel_inv_def queues_ok_def)
  then show ?thesis
    using assms(2,3)
    by (cases ss) (simp_all add: receive_def signal_reason_def pump_def pump_loops)
qed

lemma channel_handoff_witness:
  "buffer (receive None (send 9 None example_channel)) = [9]"
proof -
  have r: "reachable channel_init channel_step (send 9 None example_channel)"
    using reachable_channel_op [OF example_channel_reachable, of "OpSend 9 None"] by simp
  show ?thesis
    using channel_handoff [OF r, of 8 "[]" "\<lparr>snd_id = 3, snd_value = 9, snd_signal = None\<rparr>" "[]"]
    by (simp add: example_channel_eval send_def signal_reason_def pump_def pump_loops)
qed

end
