(* ===== verification/Context_Bag.thy ===== *)
theory Context_Bag
  imports WI_Prelude
begin

text \<open>
  The scope context, \<open>packages/core/src/engine/context.ts\<close>, with the built-in budget keys of
  \<open>types/index.ts\<close>.

  A bag is the list of its overlays, innermost first: the \<open>parent\<close> pointer of a
  \<open>ContextBagImpl\<close> never changes, so the chain is a list. A budget is stored in a cell that all
  bags which see it share and that the accounting path mutates; a cell is therefore a number, the
  index of its state in an explicit store, and two bags hold the same budget exactly when they
  hold the same number (the object identity \<open>budgetIdentity\<close> returns). A value the application
  passes in is \<open>CBudget\<close> when it is budget-shaped (\<open>limit\<close> and \<open>spent\<close> are numbers),
  \<open>CCell\<close> when it has the shape of an internal cell, and \<open>CPlain\<close> otherwise; a \<open>CCell\<close> is
  taken over as it is, without validation, as the code does. An application object of that
  shape is assumed not to be installed twice.
\<close>

record budget_state =
  bud_limit :: jsnum
  bud_spent :: jsnum
  bud_unit :: "string option"

record context_key =
  key_name :: string
  key_default :: "jsval option"
  key_unit :: "string option"

datatype ctx_value = CPlain jsval | CBudget budget_state | CCell budget_state

datatype stored = SPlain jsval | SCell nat

type_synonym cells = "budget_state list"
type_synonym bag = "(string \<times> stored) list list"

definition MAX_CONTEXT_KEY_NAME_LENGTH :: nat where
  "MAX_CONTEXT_KEY_NAME_LENGTH = 128"

definition MAX_BUDGET_UNIT_LENGTH :: nat where
  "MAX_BUDGET_UNIT_LENGTH = 32"

section \<open>Keys\<close>

definition assertContextKeyName :: "string \<Rightarrow> err + unit" where
  "assertContextKeyName name =
     (if name = [] \<or> length name > MAX_CONTEXT_KEY_NAME_LENGTH
      then Inl (RangeError ''Context key name invalid'')
      else if name = ''__proto__'' \<or> name = ''constructor'' \<or> name = ''prototype''
      then Inl (RangeError ''Context key name is reserved'')
      else Inr ())"

definition assertBudgetUnit :: "string \<Rightarrow> err + unit" where
  "assertBudgetUnit unit =
     (if unit = [] \<or> length unit > MAX_BUDGET_UNIT_LENGTH then Inl (RangeError ''Budget unit invalid'')
      else Inr ())"

definition createContextKey :: "string \<Rightarrow> jsval option \<Rightarrow> err + context_key" where
  "createContextKey name dflt =
     bind_res (assertContextKeyName name) (\<lambda>_.
       Inr \<lparr>key_name = name, key_default = dflt, key_unit = None\<rparr>)"

definition createBudget :: "string \<Rightarrow> string option \<Rightarrow> err + context_key" where
  "createBudget name unit =
     bind_res (assertContextKeyName name) (\<lambda>_.
     bind_res (case unit of None \<Rightarrow> Inr () | Some u \<Rightarrow> assertBudgetUnit u) (\<lambda>_.
       Inr \<lparr>key_name = name, key_default = None, key_unit = unit\<rparr>))"

definition TelemetryBudget :: context_key where
  "TelemetryBudget = \<lparr>key_name = ''TelemetryBudget'', key_default = None, key_unit = Some ''events''\<rparr>"

definition CostBudget :: context_key where
  "CostBudget = \<lparr>key_name = ''CostBudget'', key_default = None, key_unit = None\<rparr>"

definition TokenBudget :: context_key where
  "TokenBudget = \<lparr>key_name = ''TokenBudget'', key_default = None, key_unit = Some ''tokens''\<rparr>"

definition LatencyBudget :: context_key where
  "LatencyBudget = \<lparr>key_name = ''LatencyBudget'', key_default = None, key_unit = Some ''ms''\<rparr>"

section \<open>Budget cells\<close>

definition assertFiniteNonNegative :: "string \<Rightarrow> jsnum \<Rightarrow> err + unit" where
  "assertFiniteNonNegative label x =
     (if \<not> is_finite x \<or> x < Fin 0
      then Inl (RangeError (label @ '' must be a finite non-negative number'')) else Inr ())"

definition validateBudgetState :: "budget_state \<Rightarrow> err + unit" where
  "validateBudgetState s =
     bind_res (assertFiniteNonNegative ''budget.limit'' (bud_limit s)) (\<lambda>_.
     bind_res (assertFiniteNonNegative ''budget.spent'' (bud_spent s)) (\<lambda>_.
       if bud_limit s < bud_spent s then Inl (RangeError ''spent cannot exceed'')
       else case bud_unit s of None \<Rightarrow> Inr () | Some u \<Rightarrow> assertBudgetUnit u))"

definition toStoredValue :: "ctx_value \<Rightarrow> cells \<Rightarrow> err + stored \<times> cells" where
  "toStoredValue v cs =
     (case v of
        CPlain x \<Rightarrow> Inr (SPlain x, cs)
      | CCell s \<Rightarrow> Inr (SCell (length cs), cs @ [s])
      | CBudget s \<Rightarrow> bind_res (validateBudgetState s) (\<lambda>_. Inr (SCell (length cs), cs @ [s])))"

fun toPublicValue :: "cells \<Rightarrow> stored \<Rightarrow> ctx_value" where
  "toPublicValue cs (SPlain x) = CPlain x"
| "toPublicValue cs (SCell i) = CBudget (cs ! i)"

section \<open>The bag\<close>

fun bag_find :: "bag \<Rightarrow> string \<Rightarrow> stored option" where
  "bag_find [] name = None"
| "bag_find (overlay # b) name =
     (case map_of overlay name of Some v \<Rightarrow> Some v | None \<Rightarrow> bag_find b name)"

definition bag_get :: "cells \<Rightarrow> bag \<Rightarrow> context_key \<Rightarrow> ctx_value option" where
  "bag_get cs b k =
     (case bag_find b (key_name k) of
        Some v \<Rightarrow> Some (toPublicValue cs v)
      | None \<Rightarrow> map_option CPlain (key_default k))"

definition getOrThrow :: "cells \<Rightarrow> bag \<Rightarrow> context_key \<Rightarrow> err + ctx_value" where
  "getOrThrow cs b k =
     (case bag_get cs b k of
        None \<Rightarrow> Inl (PlainError (''Context key '' @ key_name k @ '' not set in scope''))
      | Some v \<Rightarrow> if v = CPlain VUndef
                  then Inl (PlainError (''Context key '' @ key_name k @ '' not set in scope''))
                  else Inr v)"

definition bag_with :: "cells \<Rightarrow> bag \<Rightarrow> context_key \<Rightarrow> ctx_value \<Rightarrow> err + bag \<times> cells" where
  "bag_with cs b k v = bind_res (toStoredValue v cs) (\<lambda>(sv, cs'). Inr ([(key_name k, sv)] # b, cs'))"

definition bag_has :: "bag \<Rightarrow> context_key \<Rightarrow> bool" where
  "bag_has b k \<longleftrightarrow> bag_find b (key_name k) \<noteq> None"

text \<open>
  The flattening loop walks the lineage from the root; \<open>Map.set\<close> keeps the place of a key that
  is already there, as \<open>AList.update\<close> does.
\<close>

definition flatten_bag :: "bag \<Rightarrow> (string \<times> stored) list" where
  "flatten_bag b = foldl (\<lambda>m overlay. foldl (\<lambda>m (k, v). AList.update k v m) m overlay) [] (rev b)"

definition entriesSnapshot :: "cells \<Rightarrow> bag \<Rightarrow> (string \<times> ctx_value) list" where
  "entriesSnapshot cs b = map (\<lambda>(k, v). (k, toPublicValue cs v)) (flatten_bag b)"

definition budgetIdentity :: "bag \<Rightarrow> context_key \<Rightarrow> nat option" where
  "budgetIdentity b k = (case bag_find b (key_name k) of Some (SCell i) \<Rightarrow> Some i | _ \<Rightarrow> None)"

definition getMutableBudget :: "cells \<Rightarrow> bag \<Rightarrow> context_key \<Rightarrow> budget_state option" where
  "getMutableBudget cs b k = map_option ((!) cs) (budgetIdentity b k)"

text \<open>\<open>listVisibleBudgets\<close> of the scope engine reads the snapshot of the bag.\<close>

definition listVisibleBudgets :: "cells \<Rightarrow> bag \<Rightarrow> (string \<times> budget_state) list" where
  "listVisibleBudgets cs b =
     List.map_filter (\<lambda>(k, v). case v of CBudget s \<Rightarrow> Some (k, s) | _ \<Rightarrow> None) (entriesSnapshot cs b)"

section \<open>Well-formed bags and cells\<close>

definition budget_valid :: "budget_state \<Rightarrow> bool" where
  "budget_valid s \<longleftrightarrow> (\<exists>l x. bud_limit s = Fin l \<and> bud_spent s = Fin x \<and> 0 \<le> x \<and> x \<le> l)
     \<and> (\<forall>u. bud_unit s = Some u \<longrightarrow> u \<noteq> [] \<and> length u \<le> MAX_BUDGET_UNIT_LENGTH)"

lemma validateBudgetState_iff: "validateBudgetState s = Inr () \<longleftrightarrow> budget_valid s"
  by (cases "bud_limit s"; cases "bud_spent s")
     (auto simp: validateBudgetState_def assertFiniteNonNegative_def assertBudgetUnit_def
       budget_valid_def res_simps not_less split: option.splits if_splits)

definition bag_ok :: "cells \<Rightarrow> bag \<Rightarrow> bool" where
  "bag_ok cs b \<longleftrightarrow> (\<forall>overlay \<in> set b. distinct (map fst overlay)
     \<and> (\<forall>(k, v) \<in> set overlay. case v of SCell i \<Rightarrow> i < length cs | SPlain x \<Rightarrow> True))"

lemma bag_ok_Nil [simp]: "bag_ok cs []"
  by (simp add: bag_ok_def)

lemma bag_ok_mono: "bag_ok cs b \<Longrightarrow> length cs \<le> length cs' \<Longrightarrow> bag_ok cs' b"
  by (fastforce simp: bag_ok_def split: stored.splits)

lemma bag_find_cell: "bag_ok cs b \<Longrightarrow> bag_find b name = Some (SCell i) \<Longrightarrow> i < length cs"
  by (induction b) (fastforce simp: bag_ok_def split: option.splits dest!: map_of_SomeD)+

lemma budgetIdentity_bound: "bag_ok cs b \<Longrightarrow> budgetIdentity b k = Some i \<Longrightarrow> i < length cs"
  by (auto simp: budgetIdentity_def split: option.splits stored.splits dest: bag_find_cell)

lemma bag_with_ok:
  assumes "bag_with cs b k v = Inr (b', cs')" and "bag_ok cs b"
  shows "bag_ok cs' b'" and "length cs \<le> length cs'" and "\<And>i. i < length cs \<Longrightarrow> cs' ! i = cs ! i"
  using assms
  by (auto simp: bag_with_def toStoredValue_def bag_ok_def res_simps nth_append
      split: ctx_value.splits stored.splits; fastforce)+

section \<open>The interface of a keyed store\<close>

text \<open>
  What the engine relies on when it looks a key up after one was set: the law of a store that
  maps a key to its latest value. Overlaying a bag and updating the flattened map both obey it.
\<close>

locale keyed_store =
  fixes lookup :: "'s \<Rightarrow> 'k \<Rightarrow> 'v option" and put :: "'s \<Rightarrow> 'k \<Rightarrow> 'v \<Rightarrow> 's"
  assumes lookup_put: "lookup (put s k v) k' = (if k' = k then Some v else lookup s k')"
begin

lemma put_shadow: "lookup (put (put s k v) k w) = lookup (put s k w)"
  by (rule ext) (simp add: lookup_put)

lemma put_all:
  "lookup (foldl (\<lambda>s (k, v). put s k v) s kvs) k =
     (case map_of (rev kvs) k of Some v \<Rightarrow> Some v | None \<Rightarrow> lookup s k)"
  by (induction kvs arbitrary: s) (auto simp: lookup_put map_add_def split: option.splits)

end

definition overlay_bag :: "bag \<Rightarrow> string \<Rightarrow> stored \<Rightarrow> bag" where
  "overlay_bag b k v = [(k, v)] # b"

interpretation bag_store: keyed_store bag_find overlay_bag
  by unfold_locales (simp add: overlay_bag_def)

interpretation flat_store: keyed_store map_of "\<lambda>m k v. AList.update k v m"
  by unfold_locales (simp add: update_conv')

lemma map_of_rev_distinct: "distinct (map fst kvs) \<Longrightarrow> map_of (rev kvs) = map_of kvs"
  by (rule map_of_inject_set [THEN iffD2]) (auto simp: rev_map [symmetric])

lemma distinct_update_all:
  "distinct (map fst m) \<Longrightarrow> distinct (map fst (foldl (\<lambda>m (k, v). AList.update k v m) m kvs))"
  by (induction kvs arbitrary: m) (auto simp: distinct_update)

lemma flatten_bag_Cons:
  "flatten_bag (overlay # b) = foldl (\<lambda>m (k, v). AList.update k v m) (flatten_bag b) overlay"
  by (simp add: flatten_bag_def)

lemma map_of_flatten: "bag_ok cs b \<Longrightarrow> map_of (flatten_bag b) k = bag_find b k"
proof (induction b)
  case (Cons overlay b)
  then show ?case
    by (simp add: flatten_bag_Cons flat_store.put_all map_of_rev_distinct bag_ok_def split: option.split)
qed (simp add: flatten_bag_def)

lemma distinct_flatten: "distinct (map fst (flatten_bag b))"
  by (induction b) (simp_all add: flatten_bag_Cons distinct_update_all, simp add: flatten_bag_def)

lemma map_of_map_snd: "map_of (map (\<lambda>(k, v). (k, f v)) kvs) k = map_option f (map_of kvs k)"
  by (induction kvs) auto

lemma bag_get_find:
  "bag_get cs b k = (case bag_find b (key_name k) of
      Some v \<Rightarrow> Some (toPublicValue cs v) | None \<Rightarrow> map_option CPlain (key_default k))"
  by (simp add: bag_get_def)

section \<open>Properties\<close>

definition public_value :: "ctx_value \<Rightarrow> ctx_value" where
  "public_value v = (case v of CCell s \<Rightarrow> CBudget s | _ \<Rightarrow> v)"

text \<open>
  Contexts are immutable overlays: after a value is installed under a key, the new bag reads
  that value (a budget as a copy of its cell) for this key and what the old bag reads for every
  other key, while the old bag still reads what it did before.
\<close>

theorem bag_with_get:
  assumes "bag_ok cs b" and "bag_with cs b k v = Inr (b', cs')"
  shows "bag_get cs' b' k' = (if key_name k' = key_name k then Some (public_value v) else bag_get cs b k')
    \<and> bag_get cs' b k' = bag_get cs b k'"
proof -
  have old: "bag_get cs' b k' = bag_get cs b k'"
    using bag_with_ok(3) [OF assms(2,1)] bag_find_cell [OF assms(1)]
    by (auto simp: bag_get_find split: option.split) (metis stored.exhaust toPublicValue.simps)
  obtain sv where sv: "b' = overlay_bag b (key_name k) sv" "toPublicValue cs' sv = public_value v"
    using assms(2)
    by (auto simp: bag_with_def toStoredValue_def overlay_bag_def public_value_def res_simps
        split: ctx_value.splits)
  have "bag_get cs' b' k' = (if key_name k' = key_name k then Some (public_value v) else bag_get cs' b k')"
    by (simp add: bag_get_find sv bag_store.lookup_put)
  with old show ?thesis by simp
qed

lemma bag_with_get_witness:
  "\<exists>b' cs'. bag_with [] [] CostBudget (CBudget \<lparr>bud_limit = Fin 5, bud_spent = Fin 0, bud_unit = None\<rparr>) = Inr (b', cs')
     \<and> bag_get cs' b' CostBudget = Some (CBudget \<lparr>bud_limit = Fin 5, bud_spent = Fin 0, bud_unit = None\<rparr>)
     \<and> bag_get cs' b' TokenBudget = None"
proof -
  let ?s = "\<lparr>bud_limit = Fin 5, bud_spent = Fin 0, bud_unit = None\<rparr>"
  have w: "bag_with [] [] CostBudget (CBudget ?s) = Inr ([[(''CostBudget'', SCell 0)]], [?s])"
    by (simp add: bag_with_def toStoredValue_def validateBudgetState_def assertFiniteNonNegative_def
        CostBudget_def)
  show ?thesis
    using bag_with_get [OF _ w, of CostBudget] bag_with_get [OF _ w, of TokenBudget] w
    by (simp add: CostBudget_def TokenBudget_def bag_get_def public_value_def)
qed

text \<open>
  The inspection snapshot of a context is the reading path: it lists every key once, with
  exactly the value \<open>get\<close> finds for it, and omits the keys that are not installed.
\<close>

theorem entriesSnapshot_agrees:
  assumes "bag_ok cs b"
  shows "distinct (map fst (entriesSnapshot cs b))
    \<and> map_of (entriesSnapshot cs b) name = map_option (toPublicValue cs) (bag_find b name)"
proof
  have "map fst (entriesSnapshot cs b) = map fst (flatten_bag b)"
    by (auto simp: entriesSnapshot_def)
  then show "distinct (map fst (entriesSnapshot cs b))" by (simp add: distinct_flatten)
  show "map_of (entriesSnapshot cs b) name = map_option (toPublicValue cs) (bag_find b name)"
    unfolding entriesSnapshot_def map_of_map_snd map_of_flatten [OF assms] ..
qed

lemma entriesSnapshot_agrees_witness:
  "map_of (entriesSnapshot [] [[(''a'', SPlain VNull)], [(''a'', SPlain VUndef), (''b'', SPlain VNull)]]) ''a''
     = Some (CPlain VNull)"
  using entriesSnapshot_agrees
    [of "[]" "[[(''a'', SPlain VNull)], [(''a'', SPlain VUndef), (''b'', SPlain VNull)]]" "''a''"]
  by (simp add: bag_ok_def)

end
