(* ===== verification/Events.thy ===== *)
theory Events
  imports WI_Prelude
begin

text \<open>
  The event and snapshot types of \<open>packages/core/src/types/index.ts\<close>. Task and scope identifiers
  are numbers (the code's \<open>task-n\<close> and \<open>scope-n\<close>, drawn from one counter that starts at 1); the
  number 0 stands for the synthetic identifier \<open>telemetry-bus\<close>. Times are rationals.
\<close>

datatype task_kind = IO | LLM | Tool | CPU | Custom
datatype task_status = Pending | Running | Succeeded | Failed | Cancelled
datatype scope_status = ScRunning | ScCancelling | ScClosed
datatype closing_reason = Completed | Errored | WasCancelled
datatype attempt_outcome = AttemptSucceeded | AttemptFailed | AttemptCancelled

definition telemetry_bus_id :: task_id where
  "telemetry_bus_id = 0"

record progress_report =
  pr_pct :: "rat option"
  pr_message :: "string option"
  pr_data :: "jsval option"

datatype task_event =
    TaskStarted task_id scope_id string task_kind rat
  | TaskAttempt task_id nat rat attempt_outcome rat
  | TaskRetrying task_id nat err rat rat
  | TaskProgress task_id progress_report rat
  | TaskCleanupFailed task_id err rat
  | TaskCleanupTimeout task_id rat rat
  | TaskSucceeded task_id rat rat
  | TaskFailed task_id err rat rat
  | TaskCancelled task_id cancel_reason rat rat
  | ScopeOpened scope_id "scope_id option" rat
  | ScopeCleanupFailed scope_id err rat
  | ScopeCleanupTimeout scope_id rat rat
  | ScopeClosing scope_id closing_reason rat
  | ScopeClosed scope_id rat "nat option" rat

text \<open>Task and scope snapshots.\<close>

record task_snapshot =
  ts_id :: task_id
  ts_name :: string
  ts_kind :: task_kind
  ts_status :: task_status
  ts_attempt :: nat
  ts_startedAt :: rat
  ts_durationMs :: "rat option"
  ts_progress :: "progress_report option"
  ts_meta :: "(string \<times> jsval) list option"

datatype scope_snapshot = Snapshot
  (ss_id: scope_id) (ss_name: "string option") (ss_status: scope_status) (ss_startedAt: rat)
  (ss_deadlineAt: "rat option") (ss_pending: nat) (ss_completed: nat) (ss_failed: nat)
  (ss_cancelled: nat) (ss_tasks: "task_snapshot list") (ss_scopes: "scope_snapshot list")

text \<open>A scope and everything below it.\<close>

primrec all_scopes :: "scope_snapshot \<Rightarrow> scope_snapshot list" where
  "all_scopes (Snapshot i n st t0 d pending completed failed cancelled tasks scopes) =
     Snapshot i n st t0 d pending completed failed cancelled tasks scopes # concat (map all_scopes scopes)"

text \<open>The settlement of a task in the collecting APIs.\<close>

datatype 'a settled = Fulfilled 'a | Rejected err | SCancelled cancel_reason

text \<open>The identifiers an event carries, and which events end a task.\<close>

fun event_task :: "task_event \<Rightarrow> task_id option" where
  "event_task (TaskStarted t _ _ _ _) = Some t"
| "event_task (TaskAttempt t _ _ _ _) = Some t"
| "event_task (TaskRetrying t _ _ _ _) = Some t"
| "event_task (TaskProgress t _ _) = Some t"
| "event_task (TaskCleanupFailed t _ _) = Some t"
| "event_task (TaskCleanupTimeout t _ _) = Some t"
| "event_task (TaskSucceeded t _ _) = Some t"
| "event_task (TaskFailed t _ _ _) = Some t"
| "event_task (TaskCancelled t _ _ _) = Some t"
| "event_task _ = None"

fun is_terminal :: "task_event \<Rightarrow> bool" where
  "is_terminal (TaskSucceeded _ _ _) \<longleftrightarrow> True"
| "is_terminal (TaskFailed _ _ _ _) \<longleftrightarrow> True"
| "is_terminal (TaskCancelled _ _ _ _) \<longleftrightarrow> True"
| "is_terminal _ \<longleftrightarrow> False"

fun is_closed_event :: "task_event \<Rightarrow> bool" where
  "is_closed_event (ScopeClosed _ _ _ _) \<longleftrightarrow> True"
| "is_closed_event _ \<longleftrightarrow> False"

end
