(* ===== verification/Event_Bus.thy ===== *)
theory Event_Bus
  imports Context_Bag Events
begin

text \<open>
  The event bus, \<open>packages/core/src/engine/event-bus.ts\<close>. A bus belongs to one scope and carries
  that scope's number; \<open>bus_ancestors\<close> lists the buses its \<open>parent\<close> pointers lead to, nearest
  first (the pointer never changes). A handler is a number, and an observer: what it does is not
  modelled beyond the fact that \<open>dispatch\<close> swallows its exceptions, and every call of a handler
  is appended to \<open>observed\<close> with the bus it was registered on.
\<close>

type_synonym handler_id = nat

record bus =
  handlers :: "handler_id list"
  bus_ancestors :: "scope_id list"
  droppedCount :: nat
  overrunWarned :: bool

record bus_world =
  buses :: "scope_id \<Rightarrow> bus"
  budgets :: cells
  observed :: "(scope_id \<times> handler_id \<times> task_event) list"

definition MAX_EVENT_HANDLERS :: nat where
  "MAX_EVENT_HANDLERS = 10000"

definition new_bus :: "scope_id list \<Rightarrow> bus" where
  "new_bus ancestors = \<lparr>handlers = [], bus_ancestors = ancestors, droppedCount = 0, overrunWarned = False\<rparr>"

definition update_bus :: "scope_id \<Rightarrow> (bus \<Rightarrow> bus) \<Rightarrow> 'a bus_world_scheme \<Rightarrow> 'a bus_world_scheme" where
  "update_bus b f w = w\<lparr>buses := (buses w)(b := f (buses w b))\<rparr>"

definition bus_on :: "scope_id \<Rightarrow> handler_id \<Rightarrow> 'a bus_world_scheme \<Rightarrow> err + 'a bus_world_scheme" where
  "bus_on b h w =
     (if MAX_EVENT_HANDLERS \<le> length (handlers (buses w b))
      then Inl (RangeError ''EventBus cannot register more than handlers'')
      else Inr (update_bus b (\<lambda>u. u\<lparr>handlers := List.insert h (handlers u)\<rparr>) w))"

definition bus_off :: "scope_id \<Rightarrow> handler_id \<Rightarrow> 'a bus_world_scheme \<Rightarrow> 'a bus_world_scheme" where
  "bus_off b h = update_bus b (\<lambda>u. u\<lparr>handlers := removeAll h (handlers u)\<rparr>)"

text \<open>The buses an event of bus \<open>b\<close> reaches, and the handler calls it causes.\<close>

definition bus_chain :: "scope_id \<Rightarrow> 'a bus_world_scheme \<Rightarrow> scope_id list" where
  "bus_chain b w = b # bus_ancestors (buses w b)"

definition deliveries :: "scope_id \<Rightarrow> 'a bus_world_scheme \<Rightarrow> task_event \<Rightarrow> (scope_id \<times> handler_id \<times> task_event) list" where
  "deliveries b w e = concat (map (\<lambda>c. map (\<lambda>h. (c, h, e)) (handlers (buses w c))) (bus_chain b w))"

definition dispatch :: "scope_id \<Rightarrow> task_event \<Rightarrow> 'a bus_world_scheme \<Rightarrow> 'a bus_world_scheme" where
  "dispatch b e w = w\<lparr>observed := observed w @ deliveries b w e\<rparr>"

definition has_listener :: "scope_id \<Rightarrow> 'a bus_world_scheme \<Rightarrow> bool" where
  "has_listener b w \<longleftrightarrow> (\<exists>c \<in> set (bus_chain b w). handlers (buses w c) \<noteq> [])"

definition overrun_warning :: "budget_state \<Rightarrow> rat \<Rightarrow> task_event" where
  "overrun_warning s now = TaskProgress telemetry_bus_id
     \<lparr>pr_pct = None, pr_message = Some ''telemetry budget exceeded'',
      pr_data = Some (VObj [(''telemetry_budget_exceeded'', VBool True),
                            (''limit'', VNum (bud_limit s)), (''spent'', VNum (bud_spent s))])\<rparr> now"

text \<open>The telemetry budget the context shows, as the cell it is kept in.\<close>

definition getTelemetryBudget :: "bag \<Rightarrow> nat option" where
  "getTelemetryBudget ctx = budgetIdentity ctx TelemetryBudget"

definition with_dropped :: "nat \<Rightarrow> task_event \<Rightarrow> task_event" where
  "with_dropped n e =
     (case e of ScopeClosed s d k ta \<Rightarrow> ScopeClosed s d (Some (max (case k of None \<Rightarrow> 0 | Some j \<Rightarrow> j) n)) ta
      | _ \<Rightarrow> e)"

definition emit :: "scope_id \<Rightarrow> task_event \<Rightarrow> bag option \<Rightarrow> rat \<Rightarrow> 'a bus_world_scheme \<Rightarrow> 'a bus_world_scheme" where
  "emit b e ctx now w =
     (if \<not> has_listener b w then w
      else case Option.bind ctx getTelemetryBudget of
        None \<Rightarrow> dispatch b e w
      | Some i \<Rightarrow>
          let s = budgets w ! i in
          if bud_limit s \<le> bud_spent s
          then if is_closed_event e
               then dispatch b (with_dropped (droppedCount (buses w b)) e) w
               else let w1 = (if overrunWarned (buses w b) then w
                              else dispatch b (overrun_warning s now)
                                     (update_bus b (\<lambda>u. u\<lparr>overrunWarned := True\<rparr>) w))
                    in update_bus b (\<lambda>u. u\<lparr>droppedCount :=
                         (if droppedCount u < max_safe_integer then droppedCount u + 1 else droppedCount u)\<rparr>) w1
          else dispatch b e (w\<lparr>budgets := (budgets w)[i := s\<lparr>bud_spent := bud_spent s + 1\<rparr>]\<rparr>))"

section \<open>What emitting leaves alone\<close>

lemma update_bus_simps [simp]:
  "budgets (update_bus b f w) = budgets w" "observed (update_bus b f w) = observed w"
  "bus_world.more (update_bus b f w) = bus_world.more w"
  "buses (update_bus b f w) c = (if c = b then f (buses w b) else buses w c)"
  by (simp_all add: update_bus_def)

lemma dispatch_simps [simp]:
  "buses (dispatch b e w) = buses w" "budgets (dispatch b e w) = budgets w"
  "bus_world.more (dispatch b e w) = bus_world.more w"
  "observed (dispatch b e w) = observed w @ deliveries b w e"
  by (simp_all add: dispatch_def)

text \<open>Two worlds with the same wiring have the same handlers in the same places.\<close>

definition same_wiring :: "'a bus_world_scheme \<Rightarrow> 'b bus_world_scheme \<Rightarrow> bool" where
  "same_wiring w v \<longleftrightarrow> (\<forall>c. handlers (buses v c) = handlers (buses w c) \<and>
     bus_ancestors (buses v c) = bus_ancestors (buses w c))"

lemma same_wiring_refl [simp]: "same_wiring w w"
  by (simp add: same_wiring_def)

lemma same_wiring_trans: "same_wiring w v \<Longrightarrow> same_wiring v u \<Longrightarrow> same_wiring w u"
  by (simp add: same_wiring_def)

lemma same_wiring_deliveries:
  "same_wiring w v \<Longrightarrow> deliveries b v = deliveries b w"
  "same_wiring w v \<Longrightarrow> has_listener b v = has_listener b w"
  by (auto simp: same_wiring_def deliveries_def has_listener_def bus_chain_def)

lemma emit_wiring: "same_wiring w (emit b e ctx now w)"
  by (auto simp: emit_def same_wiring_def Let_def split: option.split)

lemma emit_more [simp]: "bus_world.more (emit b e ctx now w) = bus_world.more w"
  by (auto simp: emit_def Let_def split: option.split)

lemma emit_budgets_length [simp]: "length (budgets (emit b e ctx now w)) = length (budgets w)"
  by (auto simp: emit_def Let_def split: option.split)

lemma emit_other_cells:
  "Option.bind ctx getTelemetryBudget \<noteq> Some i \<Longrightarrow> budgets (emit b e ctx now w) ! i = budgets w ! i"
  by (auto simp: emit_def Let_def split: option.split)

section \<open>The telemetry budget gate\<close>

fun emits :: "scope_id \<Rightarrow> bag option \<Rightarrow> rat \<Rightarrow> task_event list \<Rightarrow> bus_world \<Rightarrow> bus_world" where
  "emits b ctx now [] w = w"
| "emits b ctx now (e # es) w = emits b ctx now es (emit b e ctx now w)"

text \<open>The state of the cell and the bus that decides the gate.\<close>

definition gate :: "scope_id \<Rightarrow> nat \<Rightarrow> rat \<Rightarrow> rat \<Rightarrow> 'a bus_world_scheme \<Rightarrow> bool" where
  "gate b i l x w \<longleftrightarrow> i < length (budgets w) \<and> bud_limit (budgets w ! i) = Fin l \<and>
     bud_spent (budgets w ! i) = Fin x \<and> has_listener b w"

lemma emit_admitted:
  assumes "gate b i l x w" and "getTelemetryBudget ctx = Some i" and "x < l"
  shows "observed (emit b e (Some ctx) now w) = observed w @ deliveries b w e"
    and "gate b i l (x + 1) (emit b e (Some ctx) now w)"
    and "buses (emit b e (Some ctx) now w) = buses w"
proof -
  have e: "emit b e (Some ctx) now w =
      dispatch b e (w\<lparr>budgets := (budgets w)[i := (budgets w ! i)\<lparr>bud_spent := Fin (x + 1)\<rparr>]\<rparr>)"
    using assms by (simp add: gate_def emit_def num_simps)
  have d: "same_wiring w (w\<lparr>budgets := cs\<rparr>)" for cs by (simp add: same_wiring_def)
  show "observed (emit b e (Some ctx) now w) = observed w @ deliveries b w e"
    by (simp add: e same_wiring_deliveries [OF d])
  show "buses (emit b e (Some ctx) now w) = buses w" by (simp add: e)
  show "gate b i l (x + 1) (emit b e (Some ctx) now w)"
    using assms(1) same_wiring_deliveries(2) [OF emit_wiring [of w b e "Some ctx" now]]
    by (simp add: gate_def) (simp add: e)
qed

lemma emit_dropped:
  assumes "gate b i l x w" and "getTelemetryBudget ctx = Some i" and "l \<le> x" and "\<not> is_closed_event e"
  shows "observed (emit b e (Some ctx) now w) = observed w @
           (if overrunWarned (buses w b) then [] else deliveries b w (overrun_warning (budgets w ! i) now))"
    and "gate b i l x (emit b e (Some ctx) now w)"
    and "budgets (emit b e (Some ctx) now w) = budgets w"
    and "overrunWarned (buses (emit b e (Some ctx) now w) b)"
    and "droppedCount (buses (emit b e (Some ctx) now w) b) =
           (if droppedCount (buses w b) < max_safe_integer then droppedCount (buses w b) + 1
            else droppedCount (buses w b))"
proof -
  have d: "same_wiring w (update_bus b (\<lambda>u. u\<lparr>overrunWarned := True\<rparr>) w)"
    by (simp add: same_wiring_def)
  have g: "has_listener b w" "bud_limit (budgets w ! i) \<le> bud_spent (budgets w ! i)"
    using assms by (simp_all add: gate_def)
  show o': "observed (emit b e (Some ctx) now w) = observed w @
        (if overrunWarned (buses w b) then [] else deliveries b w (overrun_warning (budgets w ! i) now))"
    and b: "budgets (emit b e (Some ctx) now w) = budgets w"
    and "overrunWarned (buses (emit b e (Some ctx) now w) b)"
    and "droppedCount (buses (emit b e (Some ctx) now w) b) =
           (if droppedCount (buses w b) < max_safe_integer then droppedCount (buses w b) + 1
            else droppedCount (buses w b))"
    using g assms(2,4) by (simp_all add: emit_def Let_def same_wiring_deliveries [OF d])
  show "gate b i l x (emit b e (Some ctx) now w)"
    using assms(1) same_wiring_deliveries(2) [OF emit_wiring [of w b e "Some ctx" now]]
    by (simp add: gate_def b)
qed

lemma emits_exhausted:
  assumes "gate b i l x w" and "getTelemetryBudget ctx = Some i" and "l \<le> x"
    and "\<forall>e \<in> set es. \<not> is_closed_event e" and "overrunWarned (buses w b)"
    and "droppedCount (buses w b) + length es \<le> max_safe_integer"
  shows "observed (emits b (Some ctx) now es w) = observed w \<and>
    droppedCount (buses (emits b (Some ctx) now es w) b) = droppedCount (buses w b) + length es"
  using assms
proof (induction es arbitrary: w)
  case (Cons e es)
  then have e: "\<not> is_closed_event e" by simp
  note d = emit_dropped [OF Cons.prems(1-3) e]
  show ?case
    using Cons.IH [OF d(2) Cons.prems(2,3) _ d(4)] Cons.prems d(1,5) by simp
qed simp

lemma emits_overrun:
  assumes "gate b i l x w" and "getTelemetryBudget ctx = Some i" and "l \<le> x"
    and "\<forall>e \<in> set es. \<not> is_closed_event e" and "\<not> overrunWarned (buses w b)"
    and "droppedCount (buses w b) + length es \<le> max_safe_integer"
  shows "observed (emits b (Some ctx) now es w) = observed w @
      (if es = [] then [] else deliveries b w (overrun_warning (budgets w ! i) now)) \<and>
    droppedCount (buses (emits b (Some ctx) now es w) b) = droppedCount (buses w b) + length es"
proof (cases es)
  case (Cons e es')
  then have e: "\<not> is_closed_event e" using assms(4) by simp
  note d = emit_dropped [OF assms(1-3) e, of now]
  show ?thesis
    using emits_exhausted [OF d(2) assms(2,3) _ d(4), of es' now] assms d(1,5) Cons by simp
qed simp


definition example_bus_world :: bus_world where
  "example_bus_world = \<lparr>buses = (\<lambda>c. if c = 2 then new_bus [1] else (new_bus [])\<lparr>handlers := [7]\<rparr>),
     budgets = [\<lparr>bud_limit = Fin 2, bud_spent = Fin 1, bud_unit = None\<rparr>], observed = []\<rparr>"


end
