(* ===== verification/Scope.thy ===== *)
theory Scope
  imports Event_Bus Duration
begin

text \<open>
  The scope engine, \<open>packages/core/src/engine/scope.ts\<close>.

  The world holds every scope and task the engine has created, under their numbers. JavaScript
  runs one job at a time, so each synchronous stretch of the engine's code is a function on the
  world: an operation a caller invokes (\<open>spawn\<close>, \<open>cancel\<close>, \<open>deadline\<close>, \<open>defer\<close>, \<open>close\<close>,
  \<open>consumeBudget\<close>), or the continuation after an \<open>await\<close> (a task body settles, a cleanup
  finishes or times out, the promises \<open>close()\<close> waits for are all settled, a timer fires). What
  the environment decides (the outcome of a body or a cleanup, when it comes, the time) is an
  argument, and \<open>engine_step\<close> collects every interleaving.

  An operation that may throw returns the error or its value beside the world, because some
  operations have changed the world before they throw. Cleanup callbacks and handlers are
  numbers. \<open>history\<close> records every event the engine emits, before the telemetry gate of the bus.
  \<open>AbortSignal.any\<close> is modelled by its effect: a signal is the reason it was aborted with, and
  aborting a scope aborts, with the same reason, the signals of its descendants and of their
  tasks that are not aborted yet; a task's signal is created on demand in the code, which cannot
  be told apart from creating it at once.
\<close>

type_synonym cleanup = "nat \<times> rat" \<comment> \<open>the callback and its time limit\<close>

datatype cleanup_result = CleanupDone | CleanupTimedOut | CleanupThrew err

datatype task_phase =
    TBody \<comment> \<open>the body has not settled\<close>
  | TCleaning cleanup \<comment> \<open>a cleanup of the task runs\<close>
  | TDone \<comment> \<open>the handle's promise is settled\<close>

datatype close_phase =
    CIdle \<comment> \<open>\<open>close()\<close> was not called\<close>
  | CWaiting "task_id list" "scope_id list" \<comment> \<open>the promises of the current round\<close>
  | CCleaning cleanup
  | CDone

record task =
  t_scope :: scope_id
  t_name :: string
  t_kind :: task_kind
  t_status :: task_status
  t_attempt :: nat
  t_startedAt :: rat
  t_endedAt :: "rat option"
  t_background :: bool
  t_meta :: "(string \<times> jsval) list option"
  t_key :: "string option"
  t_cleanupTimeout :: rat
  t_defers :: "cleanup list"
  t_outcome :: "(err + jsval) option"
  t_phase :: task_phase
  t_signal :: "err option"

record scope =
  sc_ancestors :: "scope_id list" \<comment> \<open>the chain of \<open>parent\<close>, nearest first\<close>
  sc_name :: "string option"
  sc_context :: bag
  sc_cleanupTimeout :: rat
  sc_signal :: "err option"
  sc_tasks :: "task_id list"
  sc_children :: "scope_id list"
  sc_idempotency :: "(string \<times> task_id) list"
  sc_defers :: "cleanup list"
  sc_cancelHandlers :: "handler_id list"
  sc_state :: scope_status
  sc_startedAt :: rat
  sc_deadlineAt :: "rat option"
  sc_timer :: "rat option"
  sc_failure :: "err option"
  sc_closingEmitted :: bool
  sc_phase :: close_phase

record world = bus_world +
  next_id :: nat
  clock :: rat
  scopes :: "scope_id \<rightharpoonup> scope"
  tasks :: "task_id \<rightharpoonup> task"
  history :: "(scope_id \<times> task_event) list"
  cancel_calls :: "(scope_id \<times> handler_id \<times> cancel_reason) list"

record scope_opts =
  so_name :: "string option"
  so_deadline :: "duration option"
  so_context :: "bag option"
  so_cleanupTimeout :: "duration option"

record task_opts =
  to_name :: "string option"
  to_kind :: "task_kind option"
  to_meta :: "(string \<times> jsval) list option"
  to_key :: "string option"
  to_cleanupTimeout :: "duration option"
  to_shortcut :: bool \<comment> \<open>one of the names \<open>retry\<close>, \<open>timeout\<close>, \<open>deadline\<close> occurs in the object\<close>

datatype cancel_arg = Tag string | Reason cancel_reason

definition MAX_TASK_NAME_LENGTH :: nat where "MAX_TASK_NAME_LENGTH = 128"
definition MAX_IDEMPOTENCY_KEY_LENGTH :: nat where "MAX_IDEMPOTENCY_KEY_LENGTH = 512"
definition MAX_DEFERS_PER_OWNER :: nat where "MAX_DEFERS_PER_OWNER = 10000"
definition DEFAULT_CLEANUP_TIMEOUT_MS :: rat where "DEFAULT_CLEANUP_TIMEOUT_MS = 30000"

section \<open>Reading and updating the world\<close>

definition upd_scope :: "scope_id \<Rightarrow> (scope \<Rightarrow> scope) \<Rightarrow> world \<Rightarrow> world" where
  "upd_scope s f w = w\<lparr>scopes := (scopes w)(s := map_option f (scopes w s))\<rparr>"

definition upd_task :: "task_id \<Rightarrow> (task \<Rightarrow> task) \<Rightarrow> world \<Rightarrow> world" where
  "upd_task t f w = w\<lparr>tasks := (tasks w)(t := map_option f (tasks w t))\<rparr>"

definition scope_of :: "world \<Rightarrow> scope_id \<Rightarrow> scope" where
  "scope_of w s = the (scopes w s)"

definition task_of :: "world \<Rightarrow> task_id \<Rightarrow> task" where
  "task_of w t = the (tasks w t)"

definition sc_emit :: "scope_id \<Rightarrow> task_event \<Rightarrow> world \<Rightarrow> world" where
  "sc_emit s e w =
     (emit s e (Some (sc_context (scope_of w s))) (clock w) w)\<lparr>history := history w @ [(s, e)]\<rparr>"

section \<open>Guards\<close>

definition assertBoundedString :: "string \<Rightarrow> string \<Rightarrow> nat \<Rightarrow> err option" where
  "assertBoundedString label v mx =
     (if v = [] \<or> length v > mx then Some (RangeError (label @ '' must be bounded characters'')) else None)"

definition assertCanAddDefer :: "nat \<Rightarrow> err option" where
  "assertCanAddDefer n =
     (if MAX_DEFERS_PER_OWNER \<le> n
      then Some (RangeError ''A task or scope cannot register more cleanup callbacks'') else None)"

text \<open>\<open>opts.cleanupTimeout !== undefined ? parseDuration(...) : default\<close>.\<close>

definition duration_or :: "duration option \<Rightarrow> rat \<Rightarrow> err + rat" where
  "duration_or d dflt = (case d of None \<Rightarrow> Inr dflt | Some x \<Rightarrow> parseDuration x)"

text \<open>A thrown \<open>undefined\<close> cannot be told from no failure.\<close>

definition defined_error :: "err \<Rightarrow> err option" where
  "defined_error e = (if e = Thrown VUndef then None else Some e)"

section \<open>Cancellation\<close>

text \<open>Aborting the controller of scope \<open>s\<close>.\<close>

definition below :: "scope_id \<Rightarrow> scope_id \<Rightarrow> scope \<Rightarrow> bool" where
  "below s d sc \<longleftrightarrow> d = s \<or> s \<in> set (sc_ancestors sc)"

definition below_id :: "world \<Rightarrow> scope_id \<Rightarrow> scope_id \<Rightarrow> bool" where
  "below_id w s d = (case scopes w d of None \<Rightarrow> d = s | Some sc \<Rightarrow> below s d sc)"

definition first_abort :: "err \<Rightarrow> err option \<Rightarrow> err option" where
  "first_abort e sig = (case sig of None \<Rightarrow> Some e | Some e' \<Rightarrow> Some e')"

definition abort_scope :: "scope_id \<Rightarrow> err \<Rightarrow> world \<Rightarrow> world" where
  "abort_scope s e w = w\<lparr>
     scopes := (\<lambda>d. map_option (\<lambda>sc. if below s d sc then sc\<lparr>sc_signal := first_abort e (sc_signal sc)\<rparr> else sc)
                 (scopes w d)),
     tasks := (\<lambda>t. map_option (\<lambda>tk. if below_id w s (t_scope tk)
                     then tk\<lparr>t_signal := first_abort e (t_signal tk)\<rparr> else tk) (tasks w t))\<rparr>"

fun classifyClosingReason :: "cancel_reason \<Rightarrow> closing_reason" where
  "classifyClosingReason (RParentFailed _) = Errored"
| "classifyClosingReason (RSiblingFailed _ _) = Errored"
| "classifyClosingReason (RBudget _ _ _) = Errored"
| "classifyClosingReason _ = WasCancelled"

definition closeEvent :: "scope_id \<Rightarrow> closing_reason \<Rightarrow> world \<Rightarrow> world" where
  "closeEvent s reason w =
     (if sc_closingEmitted (scope_of w s) then w
      else sc_emit s (ScopeClosing s reason (clock w))
             (upd_scope s (\<lambda>sc. sc\<lparr>sc_closingEmitted := True, sc_timer := None\<rparr>) w))"

definition cancel_reasoned :: "scope_id \<Rightarrow> cancel_reason \<Rightarrow> world \<Rightarrow> world" where
  "cancel_reasoned s r w =
     (if sc_state (scope_of w s) \<noteq> ScRunning then w
      else let w1 = abort_scope s (CancellationError r) (upd_scope s (\<lambda>sc. sc\<lparr>sc_state := ScCancelling\<rparr>) w);
               w2 = w1\<lparr>cancel_calls := cancel_calls w1 @
                       map (\<lambda>h. (s, h, r)) (sc_cancelHandlers (scope_of w1 s))\<rparr>
           in closeEvent s (classifyClosingReason r) w2)"

definition tag_check :: "cancel_arg \<Rightarrow> err option" where
  "tag_check a = (case a of Tag t \<Rightarrow> assertBoundedString ''manual cancel tag'' t MAX_TASK_NAME_LENGTH
                          | Reason _ \<Rightarrow> None)"

definition arg_reason :: "cancel_arg \<Rightarrow> cancel_reason" where
  "arg_reason a = (case a of Tag t \<Rightarrow> RManual t None | Reason r \<Rightarrow> r)"

definition cancel :: "scope_id \<Rightarrow> cancel_arg \<Rightarrow> world \<Rightarrow> (err + unit) \<times> world" where
  "cancel s a w =
     (if sc_state (scope_of w s) \<noteq> ScRunning then (Inr (), w)
      else case tag_check a of Some e \<Rightarrow> (Inl e, w)
      | None \<Rightarrow> (Inr (), cancel_reasoned s (arg_reason a) w))"

text \<open>\<open>handle.cancel\<close> of a task.\<close>

definition cancel_task :: "task_id \<Rightarrow> cancel_arg \<Rightarrow> world \<Rightarrow> (err + unit) \<times> world" where
  "cancel_task t a w =
     (case tag_check a of Some e \<Rightarrow> (Inl e, w)
      | None \<Rightarrow> (Inr (), upd_task t (\<lambda>tk. tk\<lparr>t_signal :=
                   first_abort (CancellationError (arg_reason a)) (t_signal tk)\<rparr>) w))"

section \<open>Deadlines and defers\<close>

definition deadline :: "scope_id \<Rightarrow> duration \<Rightarrow> world \<Rightarrow> (err + unit) \<times> world" where
  "deadline s d w =
     (case parseDuration d of Inl e \<Rightarrow> (Inl e, w)
      | Inr ms \<Rightarrow>
          let ta = clock w + ms in
          if (case sc_deadlineAt (scope_of w s) of None \<Rightarrow> False | Some x \<Rightarrow> x \<le> ta) then (Inr (), w)
          else (Inr (), upd_scope s (\<lambda>sc. sc\<lparr>sc_deadlineAt := Some ta, sc_timer := Some ta\<rparr>) w))"

text \<open>The timer fires (not before its time).\<close>

definition deadline_timer :: "scope_id \<Rightarrow> world \<Rightarrow> world" where
  "deadline_timer s w =
     (case sc_timer (scope_of w s) of
        None \<Rightarrow> w
      | Some ta \<Rightarrow>
          if clock w < ta then w
          else cancel_reasoned s
                 (RDeadline (Fin (the (sc_deadlineAt (scope_of w s))))
                            (Fin (max 0 (clock w - sc_startedAt (scope_of w s)))))
                 (upd_scope s (\<lambda>sc. sc\<lparr>sc_timer := None\<rparr>) w))"

definition earliest :: "rat option \<Rightarrow> rat option \<Rightarrow> rat option" where
  "earliest a d = (case d of None \<Rightarrow> a | Some y \<Rightarrow> (case a of None \<Rightarrow> Some y | Some x \<Rightarrow> if y < x then Some y else Some x))"

text \<open>\<open>ctx.deadlineAt\<close>: the earliest deadline of the scope and its ancestors.\<close>

definition visible_deadline :: "world \<Rightarrow> scope_id \<Rightarrow> rat option" where
  "visible_deadline w s =
     foldl earliest None (map (\<lambda>d. sc_deadlineAt (scope_of w d)) (s # sc_ancestors (scope_of w s)))"

definition defer_scope :: "scope_id \<Rightarrow> nat \<Rightarrow> duration option \<Rightarrow> world \<Rightarrow> (err + unit) \<times> world" where
  "defer_scope s c d w =
     (case assertCanAddDefer (length (sc_defers (scope_of w s))) of Some e \<Rightarrow> (Inl e, w)
      | None \<Rightarrow>
          (case duration_or d (sc_cleanupTimeout (scope_of w s)) of Inl e \<Rightarrow> (Inl e, w)
           | Inr ms \<Rightarrow> (Inr (), upd_scope s (\<lambda>sc. sc\<lparr>sc_defers := sc_defers sc @ [(c, ms)]\<rparr>) w)))"

definition defer_task :: "task_id \<Rightarrow> nat \<Rightarrow> duration option \<Rightarrow> world \<Rightarrow> (err + unit) \<times> world" where
  "defer_task t c d w =
     (case assertCanAddDefer (length (t_defers (task_of w t))) of Some e \<Rightarrow> (Inl e, w)
      | None \<Rightarrow>
          (case duration_or d (t_cleanupTimeout (task_of w t)) of Inl e \<Rightarrow> (Inl e, w)
           | Inr ms \<Rightarrow> (Inr (), upd_task t (\<lambda>tk. tk\<lparr>t_defers := t_defers tk @ [(c, ms)]\<rparr>) w)))"

section \<open>The constructor\<close>

text \<open>JavaScript truthiness of a duration: \<open>if (opts.deadline)\<close> skips 0, \<open>NaN\<close> and the empty text.\<close>

fun truthy_duration :: "duration option \<Rightarrow> bool" where
  "truthy_duration None \<longleftrightarrow> False"
| "truthy_duration (Some (DNum x)) \<longleftrightarrow> x \<noteq> Fin 0 \<and> x \<noteq> NaN"
| "truthy_duration (Some (DStr s)) \<longleftrightarrow> s \<noteq> []"

definition parent_scope :: "world \<Rightarrow> scope_id option \<Rightarrow> scope option" where
  "parent_scope w p = Option.bind p (scopes w)"

definition new_scope :: "scope_id option \<Rightarrow> scope_opts \<Rightarrow> rat \<Rightarrow> world \<Rightarrow> scope" where
  "new_scope p opts ms w = \<lparr>
     sc_ancestors = (case p of None \<Rightarrow> [] | Some q \<Rightarrow> q # sc_ancestors (scope_of w q)),
     sc_name = so_name opts,
     sc_context = (case so_context opts of Some b \<Rightarrow> b
        | None \<Rightarrow> (case p of None \<Rightarrow> [] | Some q \<Rightarrow> sc_context (scope_of w q))),
     sc_cleanupTimeout = ms,
     sc_signal = (case p of None \<Rightarrow> None | Some q \<Rightarrow> sc_signal (scope_of w q)),
     sc_tasks = [], sc_children = [], sc_idempotency = [], sc_defers = [], sc_cancelHandlers = [],
     sc_state = ScRunning, sc_startedAt = clock w, sc_deadlineAt = None, sc_timer = None,
     sc_failure = None, sc_closingEmitted = False, sc_phase = CIdle\<rparr>"

text \<open>
  The parent has the new scope among its children before the deadline is parsed; when that throws,
  the parent keeps it. The number is drawn first of all.
\<close>

definition open_scope :: "scope_id option \<Rightarrow> scope_opts \<Rightarrow> world \<Rightarrow> (err + scope_id) \<times> world" where
  "open_scope p opts w0 =
     (let s = next_id w0 + 1;
          w = w0\<lparr>next_id := s\<rparr>
      in case duration_or (so_cleanupTimeout opts)
                (case p of None \<Rightarrow> DEFAULT_CLEANUP_TIMEOUT_MS | Some q \<Rightarrow> sc_cleanupTimeout (scope_of w q)) of
        Inl e \<Rightarrow> (Inl e, w)
      | Inr ms \<Rightarrow>
          let w1 = w\<lparr>scopes := (scopes w)(s \<mapsto> new_scope p opts ms w)\<rparr>;
              w2 = update_bus s (\<lambda>_. new_bus (sc_ancestors (new_scope p opts ms w))) w1;
              w3 = (case p of None \<Rightarrow> w2
                    | Some q \<Rightarrow> upd_scope q (\<lambda>sc. sc\<lparr>sc_children := sc_children sc @ [s]\<rparr>) w2);
              (r, w4) = (if truthy_duration (so_deadline opts) then deadline s (the (so_deadline opts)) w3
                         else (Inr (), w3))
          in case r of Inl e \<Rightarrow> (Inl e, w4)
             | Inr _ \<Rightarrow> (Inr s, sc_emit s (ScopeOpened s p (clock w4)) w4))"

section \<open>Tasks\<close>

definition terminal_event :: "task_id \<Rightarrow> task \<Rightarrow> task_event" where
  "terminal_event t tk =
     (let ended = the (t_endedAt tk); d = ended - t_startedAt tk
      in case the (t_outcome tk) of
        Inr _ \<Rightarrow> TaskSucceeded t d ended
      | Inl e \<Rightarrow> (case t_status tk of Cancelled \<Rightarrow> TaskCancelled t (the (err_reason e)) d ended
                  | _ \<Rightarrow> TaskFailed t e d ended))"

text \<open>
  After the body, and after each cleanup: the next defer, last registered first, or the end of the
  task (its idempotency key is released, the terminal event emitted, the promise settled).
\<close>

definition finish_task :: "task_id \<Rightarrow> world \<Rightarrow> world" where
  "finish_task t w =
     (let tk = task_of w t; s = t_scope tk;
          w1 = (case t_key tk of None \<Rightarrow> w
                | Some k \<Rightarrow> upd_scope s (\<lambda>sc. sc\<lparr>sc_idempotency := AList.delete k (sc_idempotency sc)\<rparr>) w)
      in sc_emit s (terminal_event t tk) (upd_task t (\<lambda>tk. tk\<lparr>t_phase := TDone\<rparr>) w1))"

definition next_task_cleanup :: "task_id \<Rightarrow> world \<Rightarrow> world" where
  "next_task_cleanup t w =
     (let ds = t_defers (task_of w t) in
      if ds = [] then finish_task t w
      else upd_task t (\<lambda>tk. tk\<lparr>t_defers := butlast ds, t_phase := TCleaning (last ds)\<rparr>) w)"

definition body_status :: "err + jsval \<Rightarrow> task_status" where
  "body_status r = (case r of Inr _ \<Rightarrow> Succeeded
     | Inl e \<Rightarrow> if is_cancellation e \<and> \<not> is_timeout e then Cancelled else Failed)"

text \<open>The body of a task settles.\<close>

definition settle_body :: "task_id \<Rightarrow> err + jsval \<Rightarrow> world \<Rightarrow> world" where
  "settle_body t r w =
     (let s = t_scope (task_of w t);
          w1 = upd_task t (\<lambda>tk. tk\<lparr>t_status := body_status r, t_endedAt := Some (clock w), t_outcome := Some r\<rparr>) w;
          w2 = (case r of Inr _ \<Rightarrow> w1
                | Inl e \<Rightarrow>
                    if body_status r = Failed \<and> \<not> t_background (task_of w t) \<and> sc_failure (scope_of w s) = None
                    then cancel_reasoned s (RSiblingFailed t e) (upd_scope s (\<lambda>sc. sc\<lparr>sc_failure := defined_error e\<rparr>) w1)
                    else w1)
      in next_task_cleanup t w2)"

definition task_cleanup :: "task_id \<Rightarrow> cleanup_result \<Rightarrow> world \<Rightarrow> world" where
  "task_cleanup t r w =
     (case t_phase (task_of w t) of
        TCleaning (c, ms) \<Rightarrow>
          let s = t_scope (task_of w t) in
          next_task_cleanup t
            (case r of CleanupDone \<Rightarrow> w
             | CleanupTimedOut \<Rightarrow> sc_emit s (TaskCleanupTimeout t ms (clock w)) w
             | CleanupThrew e \<Rightarrow> sc_emit s (TaskCleanupFailed t e (clock w)) w)
      | _ \<Rightarrow> w)"

definition new_task :: "scope_id \<Rightarrow> task_opts \<Rightarrow> bool \<Rightarrow> rat \<Rightarrow> world \<Rightarrow> task" where
  "new_task s opts bg ms w = \<lparr>t_scope = s,
     t_name = (case to_name opts of None \<Rightarrow> ''anonymous'' | Some n \<Rightarrow> n),
     t_kind = (case to_kind opts of None \<Rightarrow> IO | Some k \<Rightarrow> k),
     t_status = Running, t_attempt = 1, t_startedAt = clock w, t_endedAt = None, t_background = bg,
     t_meta = to_meta opts, t_key = to_key opts, t_cleanupTimeout = ms, t_defers = [],
     t_outcome = None, t_phase = TBody, t_signal = sc_signal (scope_of w s)\<rparr>"

text \<open>The synchronous checks of \<open>spawn\<close>, in order; \<open>Inr (Some t)\<close> is the coalesced handle.\<close>

definition spawn_checks :: "scope_id \<Rightarrow> task_opts \<Rightarrow> world \<Rightarrow> err + task_id option" where
  "spawn_checks s opts w =
     (let sc = scope_of w s in
      if sc_state sc \<noteq> ScRunning then Inl (PlainError ''Cannot spawn on a scope that is not running'')
      else case Option.bind (to_name opts) (\<lambda>n. assertBoundedString ''task name'' n MAX_TASK_NAME_LENGTH) of
        Some e \<Rightarrow> Inl e
      | None \<Rightarrow>
          (case Option.bind (to_key opts) (\<lambda>k. assertBoundedString ''idempotency key'' k MAX_IDEMPOTENCY_KEY_LENGTH) of
             Some e \<Rightarrow> Inl e
           | None \<Rightarrow>
               (case Option.bind (to_key opts) (map_of (sc_idempotency sc)) of
                  Some t \<Rightarrow> Inr (Some t)
                | None \<Rightarrow> if to_shortcut opts then Inl (PlainError ''must use run.retry'') else Inr None)))"

text \<open>
  \<open>spawn\<close>. The body starts at once; \<open>sync\<close> is the error it throws before its first \<open>await\<close>, if
  it does: then it settles inside \<open>spawn\<close>, before the idempotency key is registered.
\<close>

definition spawn :: "scope_id \<Rightarrow> task_opts \<Rightarrow> bool \<Rightarrow> err option \<Rightarrow> world \<Rightarrow> (err + task_id) \<times> world" where
  "spawn s opts bg sync w0 =
     (case spawn_checks s opts w0 of
        Inl e \<Rightarrow> (Inl e, w0)
      | Inr (Some t) \<Rightarrow> (Inr t, w0)
      | Inr None \<Rightarrow>
          let t = next_id w0 + 1;
              w = w0\<lparr>next_id := t\<rparr>
          in case duration_or (to_cleanupTimeout opts) (sc_cleanupTimeout (scope_of w s)) of
               Inl e \<Rightarrow> (Inl e, w)
             | Inr ms \<Rightarrow>
                 let tk = new_task s opts bg ms w;
                     w1 = upd_scope s (\<lambda>sc. sc\<lparr>sc_tasks := sc_tasks sc @ [t]\<rparr>) (w\<lparr>tasks := (tasks w)(t \<mapsto> tk)\<rparr>);
                     w2 = sc_emit s (TaskStarted t s (t_name tk) (t_kind tk) (clock w)) w1;
                     w3 = (case sync of None \<Rightarrow> w2 | Some e \<Rightarrow> settle_body t (Inl e) w2);
                     w4 = (case to_key opts of None \<Rightarrow> w3
                           | Some k \<Rightarrow> upd_scope s (\<lambda>sc. sc\<lparr>sc_idempotency := AList.update k t (sc_idempotency sc)\<rparr>) w3)
                 in (Inr t, w4))"

section \<open>Close\<close>

text \<open>The end of \<open>close()\<close>, after the last cleanup.\<close>

definition finish_close :: "scope_id \<Rightarrow> world \<Rightarrow> world" where
  "finish_close s w =
     (let w1 = (case sc_ancestors (scope_of w s) of [] \<Rightarrow> w
                | p # _ \<Rightarrow> upd_scope p (\<lambda>sc. sc\<lparr>sc_children := removeAll s (sc_children sc)\<rparr>) w);
          w2 = closeEvent s (if sc_failure (scope_of w s) = None then Completed else Errored) w1;
          w3 = upd_scope s (\<lambda>sc. sc\<lparr>sc_state := ScClosed, sc_phase := CDone\<rparr>) w2
      in sc_emit s (ScopeClosed s (clock w3 - sc_startedAt (scope_of w3 s))
           (Some (droppedCount (buses w3 s))) (clock w3)) w3)"

definition next_scope_cleanup :: "scope_id \<Rightarrow> world \<Rightarrow> world" where
  "next_scope_cleanup s w =
     (let ds = sc_defers (scope_of w s) in
      if ds = [] then finish_close s w
      else upd_scope s (\<lambda>sc. sc\<lparr>sc_defers := butlast ds, sc_phase := CCleaning (last ds)\<rparr>) w)"

text \<open>One turn of the waiting loop.\<close>

definition close_round :: "scope_id \<Rightarrow> world \<Rightarrow> world" where
  "close_round s w =
     (let sc = scope_of w s in
      if sc_tasks sc = [] \<and> sc_children sc = [] then next_scope_cleanup s w
      else upd_scope s (\<lambda>sc. sc\<lparr>sc_phase := CWaiting (sc_tasks sc) (sc_children sc)\<rparr>) w)"

definition close_scope :: "scope_id \<Rightarrow> world \<Rightarrow> world" where
  "close_scope s w = (if sc_phase (scope_of w s) = CIdle then close_round s w else w)"

definition settled_status :: "task_status \<Rightarrow> bool" where
  "settled_status st \<longleftrightarrow> st \<noteq> Pending \<and> st \<noteq> Running"

text \<open>All promises of the round are settled: drop the settled records and look again.\<close>

definition round_over :: "scope_id \<Rightarrow> world \<Rightarrow> bool" where
  "round_over s w =
     (case sc_phase (scope_of w s) of
        CWaiting ts ss \<Rightarrow> list_all (\<lambda>t. t_phase (task_of w t) = TDone) ts \<and>
                          list_all (\<lambda>d. sc_phase (scope_of w d) = CDone) ss
      | _ \<Rightarrow> False)"

definition close_drained :: "scope_id \<Rightarrow> world \<Rightarrow> world" where
  "close_drained s w =
     (if round_over s w
      then close_round s (upd_scope s (\<lambda>sc. sc\<lparr>sc_tasks :=
             filter (\<lambda>t. \<not> settled_status (t_status (task_of w t))) (sc_tasks sc)\<rparr>) w)
      else w)"

definition scope_cleanup :: "scope_id \<Rightarrow> cleanup_result \<Rightarrow> world \<Rightarrow> world" where
  "scope_cleanup s r w =
     (case sc_phase (scope_of w s) of
        CCleaning (c, ms) \<Rightarrow>
          next_scope_cleanup s
            (case r of CleanupDone \<Rightarrow> w
             | CleanupTimedOut \<Rightarrow> sc_emit s (ScopeCleanupTimeout s ms (clock w)) w
             | CleanupThrew e \<Rightarrow> sc_emit s (ScopeCleanupFailed s e (clock w)) w)
      | _ \<Rightarrow> w)"

section \<open>Budgets\<close>

text \<open>\<open>Number(value.toFixed(12))\<close>: the nearest multiple of \<open>10 ^ -12\<close>, ties away from zero.\<close>

definition to_fixed_12 :: "rat \<Rightarrow> rat" where
  "to_fixed_12 x =
     (if 10 ^ 21 \<le> \<bar>x\<bar> then x
      else if x < 0 then - (of_int \<lfloor>- x * 10 ^ 12 + 1 / 2\<rfloor> / 10 ^ 12)
      else of_int \<lfloor>x * 10 ^ 12 + 1 / 2\<rfloor> / 10 ^ 12)"

fun normalizeBudgetAmount :: "jsnum \<Rightarrow> jsnum" where
  "normalizeBudgetAmount (Fin x) = Fin (to_fixed_12 x)"
| "normalizeBudgetAmount x = x"

text \<open>The innermost scope of the chain that owns the visible budget.\<close>

fun budget_owner_in :: "nat option \<Rightarrow> context_key \<Rightarrow> world \<Rightarrow> scope_id list \<Rightarrow> scope_id option" where
  "budget_owner_in visible k w [] = None"
| "budget_owner_in visible k w (cur # rest) =
     (let b = sc_context (scope_of w cur);
          parentIdentity = (case rest of [] \<Rightarrow> None | p # _ \<Rightarrow> budgetIdentity (sc_context (scope_of w p)) k)
      in if (bag_has b k \<and> budgetIdentity b k = visible) \<and> parentIdentity \<noteq> visible then Some cur
         else budget_owner_in visible k w rest)"

definition findBudgetOwner :: "scope_id \<Rightarrow> context_key \<Rightarrow> world \<Rightarrow> scope_id option" where
  "findBudgetOwner s k w =
     budget_owner_in (budgetIdentity (sc_context (scope_of w s)) k) k w (s # sc_ancestors (scope_of w s))"

definition num_rat :: "jsnum \<Rightarrow> rat" where
  "num_rat x = (case x of Fin q \<Rightarrow> q | _ \<Rightarrow> 0)"

definition consumeBudget :: "scope_id \<Rightarrow> context_key \<Rightarrow> jsnum \<Rightarrow> world \<Rightarrow> (err + unit) \<times> world" where
  "consumeBudget s k amount w =
     (if \<not> is_finite amount \<or> amount < Fin 0 then (Inl (RangeError ''finite non-negative''), w)
      else case budgetIdentity (sc_context (scope_of w s)) k of
        None \<Rightarrow> (Inl (PlainError (''Budget '' @ key_name k @ '' not set in scope'')), w)
      | Some i \<Rightarrow>
          let st = budgets w ! i;
              nextSpent = normalizeBudgetAmount (bud_spent st + amount)
          in if bud_limit st < nextSpent
             then let e = BudgetExceededError (key_name k) (num_rat (bud_limit st)) (num_rat nextSpent)
                            (num_rat amount) (case bud_unit st of None \<Rightarrow> key_unit k | Some u \<Rightarrow> Some u);
                      owner = (case findBudgetOwner s k w of None \<Rightarrow> s | Some d \<Rightarrow> d)
                  in (Inl e, cancel_reasoned owner (the (err_reason e)) w)
             else (Inr (), w\<lparr>budgets := (budgets w)[i := st\<lparr>bud_spent := nextSpent\<rparr>]\<rparr>))"

section \<open>Events of a task context, and subscriptions\<close>

definition report_progress :: "task_id \<Rightarrow> progress_report \<Rightarrow> world \<Rightarrow> world" where
  "report_progress t p w =
     (let s = t_scope (task_of w t) in
      sc_emit s (TaskProgress t p (clock w)) w)"

datatype log_level = Debug | Info | Warn | LogError

fun level_name :: "log_level \<Rightarrow> string" where
  "level_name Debug = ''debug''"
| "level_name Info = ''info''"
| "level_name Warn = ''warn''"
| "level_name LogError = ''error''"

definition log_event :: "task_id \<Rightarrow> log_level \<Rightarrow> string \<Rightarrow> (string \<times> jsval) list option \<Rightarrow> world \<Rightarrow> world" where
  "log_event t lv msg fs w =
     report_progress t \<lparr>pr_pct = None, pr_message = Some msg,
       pr_data = Some (VObj ((''logLevel'', VStr (level_name lv)) #
         (case fs of None \<Rightarrow> [] | Some xs \<Rightarrow> [(''fields'', VObj xs)])))\<rparr> w"

definition setAttempt :: "task_id \<Rightarrow> nat \<Rightarrow> world \<Rightarrow> world" where
  "setAttempt t n = upd_task t (\<lambda>tk. tk\<lparr>t_attempt := n\<rparr>)"

definition emitRetry :: "task_id \<Rightarrow> nat \<Rightarrow> err \<Rightarrow> rat \<Rightarrow> world \<Rightarrow> world" where
  "emitRetry t n e d w = sc_emit (t_scope (task_of w t)) (TaskRetrying t n e d (clock w)) w"

definition emitAttempt :: "task_id \<Rightarrow> nat \<Rightarrow> rat \<Rightarrow> attempt_outcome \<Rightarrow> world \<Rightarrow> world" where
  "emitAttempt t n started oc w =
     sc_emit (t_scope (task_of w t)) (TaskAttempt t n (clock w - started) oc (clock w)) w"

definition on_cancel :: "scope_id \<Rightarrow> handler_id \<Rightarrow> world \<Rightarrow> world" where
  "on_cancel s h = upd_scope s (\<lambda>sc. sc\<lparr>sc_cancelHandlers := List.insert h (sc_cancelHandlers sc)\<rparr>)"

definition off_cancel :: "scope_id \<Rightarrow> handler_id \<Rightarrow> world \<Rightarrow> world" where
  "off_cancel s h = upd_scope s (\<lambda>sc. sc\<lparr>sc_cancelHandlers := removeAll h (sc_cancelHandlers sc)\<rparr>)"

section \<open>Status\<close>

definition task_snapshot_of :: "world \<Rightarrow> task_id \<Rightarrow> task_snapshot" where
  "task_snapshot_of w t =
     (let tk = task_of w t in
      \<lparr>ts_id = t, ts_name = t_name tk, ts_kind = t_kind tk, ts_status = t_status tk,
       ts_attempt = t_attempt tk, ts_startedAt = t_startedAt tk,
       ts_durationMs = map_option (\<lambda>e. e - t_startedAt tk) (t_endedAt tk),
       ts_progress = None, ts_meta = t_meta tk\<rparr>)"

definition count_status :: "world \<Rightarrow> task_status set \<Rightarrow> task_id list \<Rightarrow> nat" where
  "count_status w S ts = length (filter (\<lambda>t. t_status (task_of w t) \<in> S) ts)"

text \<open>The fuel bounds the depth of the tree; the number of scopes created so far is enough.\<close>

fun scope_status_tree :: "nat \<Rightarrow> world \<Rightarrow> scope_id \<Rightarrow> scope_snapshot option" where
  "scope_status_tree 0 w s = None"
| "scope_status_tree (Suc n) w s =
     (let sc = scope_of w s; subs = map (scope_status_tree n w) (sc_children sc)
      in if None \<in> set subs then None
         else Some (Snapshot s (sc_name sc) (sc_state sc) (sc_startedAt sc) (sc_deadlineAt sc)
           (count_status w {Pending, Running} (sc_tasks sc)) (count_status w {Succeeded} (sc_tasks sc))
           (count_status w {Failed} (sc_tasks sc)) (count_status w {Cancelled} (sc_tasks sc))
           (map (task_snapshot_of w) (sc_tasks sc)) (map the subs)))"

definition status :: "world \<Rightarrow> scope_id \<Rightarrow> scope_snapshot option" where
  "status w s = scope_status_tree (next_id w + 1) w s"

section \<open>group\<close>

text \<open>The body of \<open>group\<close> fails: cancel the scope unless the error is itself a cancellation.\<close>

definition group_body_failed :: "scope_id \<Rightarrow> err \<Rightarrow> world \<Rightarrow> world" where
  "group_body_failed s e w =
     (if \<not> is_cancellation e \<or> is_timeout e then cancel_reasoned s (RParentFailed e) w else w)"

text \<open>The result after \<open>close()\<close>; a body that threw \<open>undefined\<close> counts as a body that returned it.\<close>

definition group_result :: "err + jsval \<Rightarrow> err option \<Rightarrow> err + jsval" where
  "group_result body failure =
     (case (case body of Inl e \<Rightarrow> defined_error e | Inr _ \<Rightarrow> None) of
        Some e \<Rightarrow> Inl e
      | None \<Rightarrow> (case failure of Some e \<Rightarrow> Inl e
                 | None \<Rightarrow> Inr (case body of Inr v \<Rightarrow> v | Inl _ \<Rightarrow> VUndef)))"

section \<open>All interleavings\<close>

datatype engine_op =
    OpOpen "scope_id option" scope_opts
  | OpInstall bag context_key ctx_value \<comment> \<open>\<open>bag.with(key, value)\<close>\<close>
  | OpSpawn scope_id task_opts bool "err option"
  | OpBody task_id "err + jsval"
  | OpTaskCleanup task_id cleanup_result
  | OpTaskDefer task_id nat "duration option"
  | OpTaskCancel task_id cancel_arg
  | OpReport task_id progress_report
  | OpAttempt task_id nat
  | OpRetrying task_id nat err rat
  | OpAttemptDone task_id nat rat attempt_outcome
  | OpCancel scope_id cancel_arg
  | OpDeadline scope_id duration
  | OpTimer scope_id
  | OpDefer scope_id nat "duration option"
  | OpConsume scope_id context_key jsnum
  | OpClose scope_id
  | OpDrained scope_id
  | OpScopeCleanup scope_id cleanup_result
  | OpGroupFailed scope_id err
  | OpOn scope_id handler_id
  | OpOff scope_id handler_id
  | OpOnCancel scope_id handler_id
  | OpOffCancel scope_id handler_id
  | OpTick rat

text \<open>What the operation needs to exist, and when the environment may make it happen.\<close>

fun op_enabled :: "engine_op \<Rightarrow> world \<Rightarrow> bool" where
  "op_enabled (OpOpen p opts) w \<longleftrightarrow>
     (case p of None \<Rightarrow> True | Some q \<Rightarrow> scopes w q \<noteq> None) \<and>
     (case so_context opts of None \<Rightarrow> True | Some b \<Rightarrow> bag_ok (budgets w) b)"
| "op_enabled (OpInstall b k v) w \<longleftrightarrow> bag_ok (budgets w) b"
| "op_enabled (OpBody t r) w \<longleftrightarrow> tasks w t \<noteq> None \<and> t_phase (task_of w t) = TBody \<and> t_outcome (task_of w t) = None"
| "op_enabled (OpTaskCleanup t r) w \<longleftrightarrow> tasks w t \<noteq> None"
| "op_enabled (OpTaskDefer t c d) w \<longleftrightarrow> tasks w t \<noteq> None"
| "op_enabled (OpTaskCancel t a) w \<longleftrightarrow> tasks w t \<noteq> None"
| "op_enabled (OpReport t p) w \<longleftrightarrow> tasks w t \<noteq> None"
| "op_enabled (OpAttempt t n) w \<longleftrightarrow> tasks w t \<noteq> None"
| "op_enabled (OpRetrying t n e d) w \<longleftrightarrow> tasks w t \<noteq> None"
| "op_enabled (OpAttemptDone t n x oc) w \<longleftrightarrow> tasks w t \<noteq> None"
| "op_enabled (OpSpawn s opts bg sync) w \<longleftrightarrow> scopes w s \<noteq> None"
| "op_enabled (OpCancel s a) w \<longleftrightarrow> scopes w s \<noteq> None"
| "op_enabled (OpDeadline s d) w \<longleftrightarrow> scopes w s \<noteq> None"
| "op_enabled (OpTimer s) w \<longleftrightarrow> scopes w s \<noteq> None"
| "op_enabled (OpDefer s c d) w \<longleftrightarrow> scopes w s \<noteq> None"
| "op_enabled (OpConsume s k x) w \<longleftrightarrow> scopes w s \<noteq> None"
| "op_enabled (OpClose s) w \<longleftrightarrow> scopes w s \<noteq> None"
| "op_enabled (OpDrained s) w \<longleftrightarrow> scopes w s \<noteq> None"
| "op_enabled (OpScopeCleanup s r) w \<longleftrightarrow> scopes w s \<noteq> None"
| "op_enabled (OpGroupFailed s e) w \<longleftrightarrow> scopes w s \<noteq> None"
| "op_enabled (OpOn s h) w \<longleftrightarrow> scopes w s \<noteq> None"
| "op_enabled (OpOff s h) w \<longleftrightarrow> scopes w s \<noteq> None"
| "op_enabled (OpOnCancel s h) w \<longleftrightarrow> scopes w s \<noteq> None"
| "op_enabled (OpOffCancel s h) w \<longleftrightarrow> scopes w s \<noteq> None"
| "op_enabled (OpTick d) w \<longleftrightarrow> 0 \<le> d"

fun apply_op :: "engine_op \<Rightarrow> world \<Rightarrow> world" where
  "apply_op (OpOpen p opts) w = snd (open_scope p opts w)"
| "apply_op (OpInstall b k v) w = (case bag_with (budgets w) b k v of Inl _ \<Rightarrow> w | Inr (_, cs) \<Rightarrow> w\<lparr>budgets := cs\<rparr>)"
| "apply_op (OpSpawn s opts bg sync) w = snd (spawn s opts bg sync w)"
| "apply_op (OpBody t r) w = settle_body t r w"
| "apply_op (OpTaskCleanup t r) w = task_cleanup t r w"
| "apply_op (OpTaskDefer t c d) w = snd (defer_task t c d w)"
| "apply_op (OpTaskCancel t a) w = snd (cancel_task t a w)"
| "apply_op (OpReport t p) w = report_progress t p w"
| "apply_op (OpAttempt t n) w = setAttempt t n w"
| "apply_op (OpRetrying t n e d) w = emitRetry t n e d w"
| "apply_op (OpAttemptDone t n x oc) w = emitAttempt t n x oc w"
| "apply_op (OpCancel s a) w = snd (cancel s a w)"
| "apply_op (OpDeadline s d) w = snd (deadline s d w)"
| "apply_op (OpTimer s) w = deadline_timer s w"
| "apply_op (OpDefer s c d) w = snd (defer_scope s c d w)"
| "apply_op (OpConsume s k x) w = snd (consumeBudget s k x w)"
| "apply_op (OpClose s) w = close_scope s w"
| "apply_op (OpDrained s) w = close_drained s w"
| "apply_op (OpScopeCleanup s r) w = scope_cleanup s r w"
| "apply_op (OpGroupFailed s e) w = group_body_failed s e w"
| "apply_op (OpOn s h) w = (case bus_on s h w of Inl _ \<Rightarrow> w | Inr v \<Rightarrow> v)"
| "apply_op (OpOff s h) w = bus_off s h w"
| "apply_op (OpOnCancel s h) w = on_cancel s h w"
| "apply_op (OpOffCancel s h) w = off_cancel s h w"
| "apply_op (OpTick d) w = w\<lparr>clock := clock w + d\<rparr>"

definition empty_world :: world where
  "empty_world = \<lparr>buses = (\<lambda>_. new_bus []), budgets = [], observed = [], next_id = 0, clock = 0,
     scopes = Map.empty, tasks = Map.empty, history = [], cancel_calls = []\<rparr>"

definition engine_init :: "world \<Rightarrow> bool" where
  "engine_init w \<longleftrightarrow> w = empty_world"

definition engine_step :: "world \<Rightarrow> world \<Rightarrow> bool" where
  "engine_step w w' \<longleftrightarrow> (\<exists>x. op_enabled x w \<and> w' = apply_op x w)"

text \<open>Runs of a list of operations, for concrete executions.\<close>

fun run_ops :: "engine_op list \<Rightarrow> world \<Rightarrow> world option" where
  "run_ops [] w = Some w"
| "run_ops (x # xs) w = (if op_enabled x w then run_ops xs (apply_op x w) else None)"

end
