(* ===== verification/Scope_Inv.thy ===== *)
theory Scope_Inv
  imports Scope
begin

text \<open>
  The invariant of the scope engine. \<open>scope_inv\<close> and \<open>task_inv\<close> say what holds of every scope and
  every task of a reachable world; the primitive transitions the operations are composed of
  (emitting an event, updating a record, cancelling, opening, spawning, settling, finishing) each
  preserve it, and the interpretation of \<open>invariant_system\<close> at the end lifts it to all
  reachable worlds.
\<close>

section \<open>What the primitives change\<close>

lemma world_more_eq:
  "bus_world.more w = bus_world.more v \<Longrightarrow>
   next_id w = next_id v \<and> clock w = clock v \<and> scopes w = scopes v \<and> tasks w = tasks v \<and>
   history w = history v \<and> cancel_calls w = cancel_calls v"
  by (cases w; cases v) simp

lemmas emit_world = world_more_eq [OF emit_more, THEN conjunct1]
  world_more_eq [OF emit_more, THEN conjunct2, THEN conjunct1]
  world_more_eq [OF emit_more, THEN conjunct2, THEN conjunct2, THEN conjunct1]
  world_more_eq [OF emit_more, THEN conjunct2, THEN conjunct2, THEN conjunct2, THEN conjunct1]
  world_more_eq [OF emit_more, THEN conjunct2, THEN conjunct2, THEN conjunct2, THEN conjunct2, THEN conjunct1]

lemmas update_bus_world =
  world_more_eq [OF update_bus_simps(3), THEN conjunct1]
  world_more_eq [OF update_bus_simps(3), THEN conjunct2, THEN conjunct1]
  world_more_eq [OF update_bus_simps(3), THEN conjunct2, THEN conjunct2, THEN conjunct1]
  world_more_eq [OF update_bus_simps(3), THEN conjunct2, THEN conjunct2, THEN conjunct2, THEN conjunct1]
  world_more_eq [OF update_bus_simps(3), THEN conjunct2, THEN conjunct2, THEN conjunct2, THEN conjunct2, THEN conjunct1]

declare emit_world [simp] update_bus_world [simp]

lemma sc_emit_simps [simp]:
  "next_id (sc_emit s e w) = next_id w" "clock (sc_emit s e w) = clock w"
  "scopes (sc_emit s e w) = scopes w" "tasks (sc_emit s e w) = tasks w"
  "history (sc_emit s e w) = history w @ [(s, e)]"
  "scope_of (sc_emit s e w) = scope_of w" "task_of (sc_emit s e w) = task_of w"
  by (simp_all add: sc_emit_def scope_of_def task_of_def fun_eq_iff)

lemma upd_scope_simps [simp]:
  "next_id (upd_scope s f w) = next_id w" "clock (upd_scope s f w) = clock w"
  "scopes (upd_scope s f w) = (scopes w)(s := map_option f (scopes w s))"
  "tasks (upd_scope s f w) = tasks w" "history (upd_scope s f w) = history w"
  "task_of (upd_scope s f w) = task_of w" "budgets (upd_scope s f w) = budgets w"
  "buses (upd_scope s f w) = buses w"
  by (simp_all add: upd_scope_def task_of_def fun_eq_iff)

lemma upd_task_simps [simp]:
  "next_id (upd_task t f w) = next_id w" "clock (upd_task t f w) = clock w"
  "scopes (upd_task t f w) = scopes w" "tasks (upd_task t f w) = (tasks w)(t := map_option f (tasks w t))"
  "history (upd_task t f w) = history w" "scope_of (upd_task t f w) = scope_of w"
  "budgets (upd_task t f w) = budgets w" "buses (upd_task t f w) = buses w"
  by (simp_all add: upd_task_def scope_of_def fun_eq_iff)

lemma scope_of_upd [simp]:
  "scopes w s \<noteq> None \<Longrightarrow> scope_of (upd_scope s f w) d = (if d = s then f (scope_of w s) else scope_of w d)"
  by (auto simp: scope_of_def upd_scope_def)

lemma task_of_upd [simp]:
  "tasks w t \<noteq> None \<Longrightarrow> task_of (upd_task t f w) u = (if u = t then f (task_of w t) else task_of w u)"
  by (auto simp: task_of_def upd_task_def)

lemma scope_of_Some [simp]: "scopes w s = Some sc \<Longrightarrow> scope_of w s = sc"
  by (simp add: scope_of_def)

lemma task_of_Some [simp]: "tasks w t = Some tk \<Longrightarrow> task_of w t = tk"
  by (simp add: task_of_def)

section \<open>The invariant\<close>

fun is_closing_of :: "scope_id \<Rightarrow> scope_id \<times> task_event \<Rightarrow> bool" where
  "is_closing_of s (d, ScopeClosing _ _ _) \<longleftrightarrow> d = s"
| "is_closing_of s _ \<longleftrightarrow> False"

fun is_closed_of :: "scope_id \<Rightarrow> scope_id \<times> task_event \<Rightarrow> bool" where
  "is_closed_of s (d, ScopeClosed _ _ _ _) \<longleftrightarrow> d = s"
| "is_closed_of s _ \<longleftrightarrow> False"

definition is_terminal_of :: "task_id \<Rightarrow> scope_id \<times> task_event \<Rightarrow> bool" where
  "is_terminal_of t x \<longleftrightarrow> is_terminal (snd x) \<and> event_task (snd x) = Some t"

definition occurrences :: "('a \<Rightarrow> bool) \<Rightarrow> 'a list \<Rightarrow> nat" where
  "occurrences P xs = length (filter P xs)"

lemma occurrences_simps [simp]:
  "occurrences P [] = 0" "occurrences P (xs @ ys) = occurrences P xs + occurrences P ys"
  "occurrences P (x # xs) = (if P x then 1 else 0) + occurrences P xs"
  by (simp_all add: occurrences_def)

lemma occurrences_0: "\<forall>x \<in> set xs. \<not> P x \<Longrightarrow> occurrences P xs = 0"
  by (simp add: occurrences_def)

definition lifecycle :: "task_event \<Rightarrow> bool" where
  "lifecycle e \<longleftrightarrow> is_terminal e \<or> is_closed_event e \<or> (\<exists>s r ta. e = ScopeClosing s r ta)"

definition parent_inv :: "scope_id \<Rightarrow> scope \<Rightarrow> scope_id \<Rightarrow> scope_id list \<Rightarrow> scope \<Rightarrow> bool" where
  "parent_inv s sc p ps psc \<longleftrightarrow> sc_ancestors psc = ps \<and> p < s \<and>
     (sc_signal psc \<noteq> None \<longrightarrow> sc_signal sc \<noteq> None) \<and>
     (sc_phase sc \<noteq> CDone \<longrightarrow> s \<in> set (sc_children psc))"

definition scope_local :: "scope \<Rightarrow> bool" where
  "scope_local sc \<longleftrightarrow>
     (sc_state sc = ScCancelling \<longrightarrow> sc_signal sc \<noteq> None) \<and>
     (sc_failure sc \<noteq> None \<longrightarrow> sc_state sc \<noteq> ScRunning) \<and>
     (sc_closingEmitted sc \<longleftrightarrow> sc_state sc \<noteq> ScRunning) \<and>
     (sc_state sc = ScClosed \<longleftrightarrow> sc_phase sc = CDone)"

definition scope_counts :: "world \<Rightarrow> scope_id \<Rightarrow> scope \<Rightarrow> bool" where
  "scope_counts w s sc \<longleftrightarrow>
     occurrences (is_closing_of s) (history w) = (if sc_closingEmitted sc then 1 else 0) \<and>
     occurrences (is_closed_of s) (history w) = (if sc_phase sc = CDone then 1 else 0)"

definition scope_inv :: "world \<Rightarrow> scope_id \<Rightarrow> scope \<Rightarrow> bool" where
  "scope_inv w s sc \<longleftrightarrow> 1 \<le> s \<and> s \<le> next_id w \<and> tasks w s = None \<and> scope_local sc \<and> scope_counts w s sc \<and>
     (\<forall>p ps. sc_ancestors sc = p # ps \<longrightarrow> (\<exists>psc. scopes w p = Some psc \<and> parent_inv s sc p ps psc)) \<and>
     (\<forall>t \<in> set (sc_tasks sc). \<exists>tk. tasks w t = Some tk \<and> t_scope tk = s) \<and>
     (\<forall>c \<in> set (sc_children sc). \<exists>csc. scopes w c = Some csc \<and> sc_ancestors csc = s # sc_ancestors sc)"

definition task_local :: "task \<Rightarrow> bool" where
  "task_local tk \<longleftrightarrow>
     (t_outcome tk = None \<longrightarrow> t_status tk = Running \<and> t_endedAt tk = None \<and> t_phase tk = TBody) \<and>
     (\<forall>r. t_outcome tk = Some r \<longrightarrow> t_status tk = body_status r \<and> t_endedAt tk \<noteq> None)"

definition task_inv :: "world \<Rightarrow> task_id \<Rightarrow> task \<Rightarrow> bool" where
  "task_inv w t tk \<longleftrightarrow> 1 \<le> t \<and> t \<le> next_id w \<and> task_local tk \<and>
     occurrences (is_terminal_of t) (history w) = (if t_phase tk = TDone then 1 else 0) \<and>
     (\<exists>sc. scopes w (t_scope tk) = Some sc \<and>
        (sc_signal sc \<noteq> None \<longrightarrow> t_signal tk \<noteq> None) \<and>
        (t_outcome tk = None \<longrightarrow> t \<in> set (sc_tasks sc)))"

lemma task_inv_scopeE:
  assumes "task_inv w t tk"
  obtains k where "scopes w (t_scope tk) = Some k" and "sc_signal k \<noteq> None \<longrightarrow> t_signal tk \<noteq> None"
    and "t_outcome tk = None \<longrightarrow> t \<in> set (sc_tasks k)"
  using assms unfolding task_inv_def by metis

definition history_inv :: "world \<Rightarrow> bool" where
  "history_inv w \<longleftrightarrow> (\<forall>(d, e) \<in> set (history w). d \<le> next_id w \<and>
     (\<forall>t. event_task e = Some t \<longrightarrow> t \<le> next_id w))"

definition engine_inv :: "world \<Rightarrow> bool" where
  "engine_inv w \<longleftrightarrow> history_inv w \<and> (\<forall>s sc. scopes w s = Some sc \<longrightarrow> scope_inv w s sc) \<and>
     (\<forall>t tk. tasks w t = Some tk \<longrightarrow> task_inv w t tk)"

lemma engine_invD:
  "engine_inv w \<Longrightarrow> scopes w s = Some sc \<Longrightarrow> scope_inv w s sc"
  "engine_inv w \<Longrightarrow> tasks w t = Some tk \<Longrightarrow> task_inv w t tk"
  "engine_inv w \<Longrightarrow> history_inv w"
  by (auto simp: engine_inv_def)

lemma engine_init_inv: "engine_init w \<Longrightarrow> engine_inv w"
  by (simp add: engine_init_def empty_world_def engine_inv_def history_inv_def)

section \<open>Emitting and updating\<close>

text \<open>The invariant reads only these components of the world.\<close>

lemma engine_inv_cong:
  "scopes v = scopes w \<Longrightarrow> tasks v = tasks w \<Longrightarrow> history v = history w \<Longrightarrow> next_id v = next_id w \<Longrightarrow>
   engine_inv v = engine_inv w"
  by (simp add: engine_inv_def history_inv_def scope_inv_def task_inv_def scope_counts_def parent_inv_def)

lemma not_lifecycle:
  "\<not> lifecycle e \<Longrightarrow> \<not> is_terminal_of t (s, e) \<and> \<not> is_closing_of d (s, e) \<and> \<not> is_closed_of d (s, e)"
  by (cases e) (auto simp: lifecycle_def is_terminal_of_def)

lemma emit_inv:
  assumes "engine_inv w" and "scopes w s \<noteq> None" and "\<not> lifecycle e"
    and "\<And>t. event_task e = Some t \<Longrightarrow> tasks w t \<noteq> None"
  shows "engine_inv (sc_emit s e w)"
proof -
  from assms(2) obtain sc where sc: "scopes w s = Some sc" by blast
  have s: "s \<le> next_id w" using engine_invD(1) [OF assms(1) sc] by (simp add: scope_inv_def)
  have t: "t \<le> next_id w" if "event_task e = Some t" for t
    using assms(4) [OF that] engine_invD(2) [OF assms(1)] by (auto simp: task_inv_def)
  from assms(1) show ?thesis
    using not_lifecycle [OF assms(3)] s t
    by (auto simp: engine_inv_def history_inv_def scope_inv_def task_inv_def scope_counts_def
        parent_inv_def)
qed

text \<open>
  One scope record changes and the scope emits events that end no task: the new record needs its
  local invariant, and it may drop tasks whose body has settled and children that are closed.
\<close>

lemma scope_update_inv:
  assumes inv: "engine_inv w" and sc: "scopes w s = Some sc"
    and v: "scopes v = (scopes w)(s \<mapsto> sc')" "tasks v = tasks w" "next_id v = next_id w"
      "history v = history w @ map (Pair s) es"
    and es: "\<forall>e \<in> set es. \<not> is_terminal e \<and> (\<forall>t. event_task e = Some t \<longrightarrow> t \<le> next_id w)"
    and same: "sc_ancestors sc' = sc_ancestors sc" "sc_signal sc' = None \<longleftrightarrow> sc_signal sc = None"
      "sc_phase sc = CDone \<Longrightarrow> sc_phase sc' = CDone"
    and ts: "set (sc_tasks sc') \<subseteq> set (sc_tasks sc)"
      "\<And>t. t \<in> set (sc_tasks sc) - set (sc_tasks sc') \<Longrightarrow> t_outcome (task_of w t) \<noteq> None"
    and cs: "set (sc_children sc') \<subseteq> set (sc_children sc)"
      "\<And>c. c \<in> set (sc_children sc) - set (sc_children sc') \<Longrightarrow> sc_phase (scope_of w c) = CDone"
    and new: "scope_local sc'" "scope_counts v s sc'"
  shows "engine_inv v"
proof -
  have s: "scope_inv w s sc" by (rule engine_invD(1) [OF inv sc])
  have other: "is_closing_of d (s, e) \<Longrightarrow> d = s" "is_closed_of d (s, e) \<Longrightarrow> d = s" for d e
    by (cases e; simp)+
  have counts: "scope_counts v d k = scope_counts w d k" if "d \<noteq> s" for d k
  proof -
    have "occurrences (is_closing_of d) (map (Pair s) es) = 0"
      "occurrences (is_closed_of d) (map (Pair s) es) = 0"
      using that by (auto intro!: occurrences_0 dest: other)
    then show ?thesis by (simp add: scope_counts_def v)
  qed
  have ends: "occurrences (is_terminal_of t) (map (Pair s) es) = 0" for t
    using es by (simp add: occurrences_0 is_terminal_of_def)
  have S: "scope_inv v d k" if k: "scopes v d = Some k" for d k
  proof -
    obtain k0 where k0: "scopes w d = Some k0" "if d = s then k = sc' \<and> k0 = sc else k = k0"
      using k sc by (cases "d = s") (auto simp: v)
    from engine_invD(1) [OF inv k0(1)] have i: "scope_inv w d k0" .
    have anc: "sc_ancestors k = sc_ancestors k0" using k0(2) same(1) by (auto split: if_splits)
    have "\<exists>psc. scopes v p = Some psc \<and> parent_inv d k p ps psc" if p: "sc_ancestors k = p # ps" for p ps
    proof -
      from i p anc obtain psc where psc: "scopes w p = Some psc" "parent_inv d k0 p ps psc"
        by (auto simp: scope_inv_def)
      have "parent_inv d k p ps (if p = s then sc' else psc)"
      proof (cases "p = s")
        case True
        then have ps: "psc = sc" "d \<noteq> s" "k = k0" using psc sc k0(2) by (auto simp: parent_inv_def)
        have "sc_phase k \<noteq> CDone \<Longrightarrow> d \<in> set (sc_children sc')"
          using psc(2) cs(2) [of d] k0(1) by (auto simp: parent_inv_def ps)
        with psc(2) True show ?thesis by (simp add: parent_inv_def ps same)
      next
        case False
        with psc(2) k0(2) same show ?thesis by (auto simp: parent_inv_def split: if_splits)
      qed
      then show ?thesis using psc(1) by (auto simp: v)
    qed
    moreover have "\<forall>t \<in> set (sc_tasks k). \<exists>tk. tasks v t = Some tk \<and> t_scope tk = d"
      using i k0(2) ts(1) by (auto simp: scope_inv_def v split: if_splits)
    moreover have "\<exists>csc. scopes v c = Some csc \<and> sc_ancestors csc = d # sc_ancestors k"
      if c: "c \<in> set (sc_children k)" for c
    proof -
      have "c \<in> set (sc_children k0)" using c k0(2) cs(1) by (auto split: if_splits)
      then obtain csc where "scopes w c = Some csc" "sc_ancestors csc = d # sc_ancestors k0"
        using i by (auto simp: scope_inv_def)
      then show ?thesis using same(1) sc by (auto simp: v anc)
    qed
    moreover have "scope_local k" "scope_counts v d k"
      using i k0(2) new counts by (auto simp: scope_inv_def split: if_splits)
    ultimately show ?thesis using i by (simp add: scope_inv_def v)
  qed
  have T: "task_inv v t tk" if tk: "tasks v t = Some tk" for t tk
  proof -
    from tk have tw: "tasks w t = Some tk" by (simp add: v)
    have i: "task_inv w t tk" by (rule engine_invD(2) [OF inv tw])
    then obtain k where k: "scopes w (t_scope tk) = Some k"
        "sc_signal k \<noteq> None \<longrightarrow> t_signal tk \<noteq> None"
        "t_outcome tk = None \<longrightarrow> t \<in> set (sc_tasks k)"
      by (rule task_inv_scopeE)
    let ?k = "if t_scope tk = s then sc' else k"
    have "scopes v (t_scope tk) = Some ?k" using k(1) by (simp add: v)
    moreover have "sc_signal ?k \<noteq> None \<longrightarrow> t_signal tk \<noteq> None" using k(1,2) sc same(2) by auto
    moreover have "t_outcome tk = None \<longrightarrow> t \<in> set (sc_tasks ?k)"
      using k(1,3) sc ts(2) [of t] tw by (cases "t \<in> set (sc_tasks sc')") auto
    ultimately show ?thesis using i by (simp add: task_inv_def ends v)
  qed
  have "history_inv v"
    using engine_invD(3) [OF inv] s es by (auto simp: history_inv_def v scope_inv_def)
  with S T show ?thesis by (simp add: engine_inv_def)
qed

text \<open>Updates that leave the fields the invariant reads as they are.\<close>

definition quiet_scope :: "(scope \<Rightarrow> scope) \<Rightarrow> bool" where
  "quiet_scope f \<longleftrightarrow> (\<forall>sc. sc_ancestors (f sc) = sc_ancestors sc \<and> sc_signal (f sc) = sc_signal sc \<and>
     sc_tasks (f sc) = sc_tasks sc \<and> sc_children (f sc) = sc_children sc \<and> sc_state (f sc) = sc_state sc \<and>
     sc_failure (f sc) = sc_failure sc \<and> sc_closingEmitted (f sc) = sc_closingEmitted sc \<and>
     (sc_phase (f sc) = CDone \<longleftrightarrow> sc_phase sc = CDone))"

lemma upd_scope_None: "scopes w s = None \<Longrightarrow> engine_inv (upd_scope s f w) = engine_inv w"
  by (rule engine_inv_cong) (simp_all add: fun_upd_idem)

lemma upd_scope_inv:
  assumes "engine_inv w" and "quiet_scope f"
  shows "engine_inv (upd_scope s f w)"
proof (cases "scopes w s")
  case (Some sc)
  from engine_invD(1) [OF assms(1) Some] have "scope_inv w s sc" .
  then show ?thesis
    using assms(2)
    by (intro scope_update_inv [OF assms(1) Some, where sc' = "f sc" and es = "[]"])
       (auto simp: Some quiet_scope_def scope_inv_def scope_local_def scope_counts_def)
qed (use assms(1) upd_scope_None in blast)

text \<open>One task record changes and its scope emits events that close no scope.\<close>

lemma task_update_inv:
  assumes inv: "engine_inv w" and tk: "tasks w t = Some tk"
    and v: "tasks v = (tasks w)(t \<mapsto> tk')" "scopes v = scopes w" "next_id v = next_id w"
      "history v = history w @ map (Pair (t_scope tk)) es"
    and es: "\<forall>e \<in> set es. event_task e = Some t"
    and same: "t_scope tk' = t_scope tk"
    and new: "task_inv v t tk'"
  shows "engine_inv v"
proof -
  obtain sc where sc: "scopes w (t_scope tk) = Some sc" "t \<le> next_id w"
    using engine_invD(2) [OF inv tk] by (auto simp: task_inv_def)
  have hist: "history_inv v"
    using engine_invD(3) [OF inv] engine_invD(1) [OF inv sc(1)] sc(2) es
    by (auto simp: history_inv_def v scope_inv_def)
  have "\<not> is_closing_of d (s, e) \<and> \<not> is_closed_of d (s, e)" if "e \<in> set es" for d s e
    using es that by (cases e) auto
  then have counts: "scope_counts v d k = scope_counts w d k" for d k
    by (simp add: scope_counts_def v occurrences_0)
  have S: "scope_inv v d k" if k: "scopes v d = Some k" for d k
  proof -
    have i: "scope_inv w d k" using k engine_invD(1) [OF inv] by (simp add: v)
    have "tasks v d = None" using i tk by (auto simp: v scope_inv_def)
    moreover have "\<forall>u \<in> set (sc_tasks k). \<exists>uk. tasks v u = Some uk \<and> t_scope uk = d"
      using i tk same by (auto simp: v scope_inv_def)
    ultimately show ?thesis using i by (simp add: scope_inv_def v counts)
  qed
  have T: "task_inv v u uk" if u: "tasks v u = Some uk" for u uk
  proof (cases "u = t")
    case True
    with u new show ?thesis by (simp add: v)
  next
    case False
    with u have "task_inv w u uk" using engine_invD(2) [OF inv] by (simp add: v)
    moreover have "occurrences (is_terminal_of u) (history v) = occurrences (is_terminal_of u) (history w)"
      using es False by (auto simp: v occurrences_0 is_terminal_of_def)
    ultimately show ?thesis by (simp add: task_inv_def v)
  qed
  from S T hist show ?thesis by (simp add: engine_inv_def)
qed

definition quiet_task :: "(task \<Rightarrow> task) \<Rightarrow> bool" where
  "quiet_task f \<longleftrightarrow> (\<forall>tk. t_scope (f tk) = t_scope tk \<and> t_status (f tk) = t_status tk \<and>
     t_endedAt (f tk) = t_endedAt tk \<and> t_phase (f tk) = t_phase tk \<and> t_outcome (f tk) = t_outcome tk \<and>
     (t_signal tk \<noteq> None \<longrightarrow> t_signal (f tk) \<noteq> None))"

lemma upd_task_None: "tasks w t = None \<Longrightarrow> engine_inv (upd_task t f w) = engine_inv w"
  by (rule engine_inv_cong) (simp_all add: fun_upd_idem)

lemma upd_task_inv':
  assumes "engine_inv w" and "tasks w t = Some tk" and "t_scope (f tk) = t_scope tk"
    and "task_inv w t (f tk)"
  shows "engine_inv (upd_task t f w)"
  using assms(3,4)
  by (intro task_update_inv [OF assms(1,2), where tk' = "f tk" and es = "[]"])
     (auto simp: assms(2) task_inv_def)

lemma upd_task_inv:
  assumes "engine_inv w" and "quiet_task f"
  shows "engine_inv (upd_task t f w)"
proof (cases "tasks w t")
  case (Some tk)
  from engine_invD(2) [OF assms(1) Some] have "task_inv w t tk" .
  moreover have "task_local (f tk) = task_local tk"
    using assms(2) by (simp add: quiet_task_def task_local_def split: option.split)
  ultimately have "task_inv w t (f tk)" "t_scope (f tk) = t_scope tk"
    using assms(2) by (auto simp: task_inv_def quiet_task_def)
  with upd_task_inv' [OF assms(1) Some] show ?thesis by simp
qed (use assms(1) upd_task_None in blast)

section \<open>Cancellation\<close>

lemma abort_scopes:
  "scopes (abort_scope s e w) d = map_option (\<lambda>sc. if below s d sc
     then sc\<lparr>sc_signal := first_abort e (sc_signal sc)\<rparr> else sc) (scopes w d)"
  "tasks (abort_scope s e w) t = map_option (\<lambda>tk. if below_id w s (t_scope tk)
     then tk\<lparr>t_signal := first_abort e (t_signal tk)\<rparr> else tk) (tasks w t)"
  "history (abort_scope s e w) = history w" "next_id (abort_scope s e w) = next_id w"
  "clock (abort_scope s e w) = clock w"
  by (simp_all add: abort_scope_def)

lemma first_abort_some [simp]: "first_abort e sig = None \<longleftrightarrow> False" "\<exists>x. first_abort e sig = Some x"
  by (simp_all add: first_abort_def split: option.split)

lemma abort_inv:
  assumes inv: "engine_inv w"
  shows "engine_inv (abort_scope s e w)" (is "engine_inv ?v")
proof -
  have S: "scope_inv ?v d sc'" if v: "scopes ?v d = Some sc'" for d sc'
  proof -
    obtain sc where sc: "scopes w d = Some sc"
      and sc': "sc' = (if below s d sc then sc\<lparr>sc_signal := first_abort e (sc_signal sc)\<rparr> else sc)"
      using v by (auto simp: abort_scopes)
    have i: "scope_inv w d sc" by (rule engine_invD(1) [OF inv sc])
    have eq: "sc_ancestors sc' = sc_ancestors sc" "sc_children sc' = sc_children sc"
        "sc_tasks sc' = sc_tasks sc" "sc_phase sc' = sc_phase sc"
        "scope_counts ?v d sc' = scope_counts w d sc"
      by (simp_all add: sc' scope_counts_def abort_scopes)
    have "scope_local sc'" using i by (auto simp: sc' scope_inv_def scope_local_def)
    moreover have "\<exists>psc. scopes ?v p = Some psc \<and> parent_inv d sc' p ps psc"
      if p: "sc_ancestors sc' = p # ps" for p ps
    proof -
      obtain psc where psc: "scopes w p = Some psc" "parent_inv d sc p ps psc"
        using i p by (auto simp: scope_inv_def eq)
      have "below s p psc \<Longrightarrow> below s d sc" using p psc(2) by (auto simp: below_def parent_inv_def eq)
      with psc show ?thesis by (auto simp: abort_scopes parent_inv_def sc')
    qed
    moreover have "\<exists>csc. scopes ?v c = Some csc \<and> sc_ancestors csc = d # sc_ancestors sc'"
      if c: "c \<in> set (sc_children sc')" for c
    proof -
      obtain csc where "scopes w c = Some csc" "sc_ancestors csc = d # sc_ancestors sc"
        using i c by (auto simp: scope_inv_def eq)
      then show ?thesis by (auto simp: abort_scopes eq)
    qed
    moreover have "\<exists>tk. tasks ?v t = Some tk \<and> t_scope tk = d" if t: "t \<in> set (sc_tasks sc')" for t
    proof -
      obtain tk where "tasks w t = Some tk" "t_scope tk = d" using i t by (auto simp: scope_inv_def eq)
      then show ?thesis by (simp add: abort_scopes)
    qed
    ultimately show ?thesis using i by (simp add: scope_inv_def abort_scopes eq)
  qed
  have T: "task_inv ?v t tk'" if v: "tasks ?v t = Some tk'" for t tk'
  proof -
    obtain tk where tk: "tasks w t = Some tk"
      and tk': "tk' = (if below_id w s (t_scope tk) then tk\<lparr>t_signal := first_abort e (t_signal tk)\<rparr> else tk)"
      using v by (auto simp: abort_scopes)
    have i: "task_inv w t tk" by (rule engine_invD(2) [OF inv tk])
    obtain sc where sc: "scopes w (t_scope tk) = Some sc" "sc_signal sc \<noteq> None \<longrightarrow> t_signal tk \<noteq> None"
      "t_outcome tk = None \<longrightarrow> t \<in> set (sc_tasks sc)"
      using i by (rule task_inv_scopeE)
    have "below_id w s (t_scope tk) = below s (t_scope tk) sc" by (simp add: below_id_def sc(1))
    then show ?thesis
      using i sc by (auto simp: task_inv_def tk' abort_scopes task_local_def)
  qed
  show ?thesis using S T inv by (simp add: engine_inv_def history_inv_def abort_scopes)
qed

text \<open>The first cancellation, as an abort followed by the closing transition of the scope itself.\<close>

definition mark_cancelling :: "scope \<Rightarrow> scope" where
  "mark_cancelling sc = sc\<lparr>sc_state := ScCancelling, sc_closingEmitted := True, sc_timer := None\<rparr>"

lemma cancel_reasoned_eq:
  assumes "scopes w s = Some sc" and "sc_state sc = ScRunning" and "\<not> sc_closingEmitted sc"
  shows "scopes (cancel_reasoned s r w) =
           (scopes (abort_scope s (CancellationError r) w))(s \<mapsto>
              mark_cancelling (sc\<lparr>sc_signal := first_abort (CancellationError r) (sc_signal sc)\<rparr>))"
    and "tasks (cancel_reasoned s r w) = tasks (abort_scope s (CancellationError r) w)"
    and "history (cancel_reasoned s r w) = history w @ [(s, ScopeClosing s (classifyClosingReason r) (clock w))]"
    and "next_id (cancel_reasoned s r w) = next_id w" and "clock (cancel_reasoned s r w) = clock w"
proof -
  let ?w1 = "abort_scope s (CancellationError r) (upd_scope s (\<lambda>sc. sc\<lparr>sc_state := ScCancelling\<rparr>) w)"
  let ?w2 = "?w1\<lparr>cancel_calls := cancel_calls ?w1 @ map (\<lambda>h. (s, h, r)) (sc_cancelHandlers (scope_of ?w1 s))\<rparr>"
  have st: "scope_of w s = sc" using assms(1) by simp
  have c: "cancel_reasoned s r w = closeEvent s (classifyClosingReason r) ?w2"
    by (simp add: cancel_reasoned_def st assms(2) Let_def)
  have s2: "scopes ?w2 s = Some (sc\<lparr>sc_state := ScCancelling, sc_signal := first_abort (CancellationError r) (sc_signal sc)\<rparr>)"
    using assms(1) by (simp add: abort_scopes below_def)
  have "scope_of ?w2 s = sc\<lparr>sc_state := ScCancelling, sc_signal := first_abort (CancellationError r) (sc_signal sc)\<rparr>"
    using s2 by (simp add: scope_of_def)
  then have e: "cancel_reasoned s r w = sc_emit s (ScopeClosing s (classifyClosingReason r) (clock ?w2))
      (upd_scope s (\<lambda>sc. sc\<lparr>sc_closingEmitted := True, sc_timer := None\<rparr>) ?w2)"
    by (simp add: c closeEvent_def assms(3))
  show "scopes (cancel_reasoned s r w) = (scopes (abort_scope s (CancellationError r) w))(s \<mapsto>
      mark_cancelling (sc\<lparr>sc_signal := first_abort (CancellationError r) (sc_signal sc)\<rparr>))"
    using assms(1) by (auto simp: e fun_eq_iff abort_scopes mark_cancelling_def below_def)
  show "tasks (cancel_reasoned s r w) = tasks (abort_scope s (CancellationError r) w)"
    using assms(1) by (auto simp: e fun_eq_iff abort_scopes below_id_def below_def
        intro!: map_option_cong split: option.split)
  show "history (cancel_reasoned s r w) = history w @ [(s, ScopeClosing s (classifyClosingReason r) (clock w))]"
    and "next_id (cancel_reasoned s r w) = next_id w" and "clock (cancel_reasoned s r w) = clock w"
    by (simp_all add: e abort_scopes)
qed

lemma cancel_reasoned_idle: "sc_state (scope_of w s) \<noteq> ScRunning \<Longrightarrow> cancel_reasoned s r w = w"
  by (simp add: cancel_reasoned_def)

definition only_failure :: "(scope \<Rightarrow> scope) \<Rightarrow> bool" where
  "only_failure g \<longleftrightarrow> (\<forall>sc. g sc = sc\<lparr>sc_failure := sc_failure (g sc), sc_timer := sc_timer (g sc)\<rparr>)"

lemma only_failure_id [simp]: "only_failure (\<lambda>sc. sc)"
  "only_failure (\<lambda>sc. sc\<lparr>sc_failure := x\<rparr>)" "only_failure (\<lambda>sc. sc\<lparr>sc_timer := y\<rparr>)"
  by (simp_all add: only_failure_def)

lemma abort_failure:
  assumes "only_failure g"
  shows "scopes (abort_scope s e (upd_scope s g w)) d =
      (if d = s then map_option (\<lambda>sc. (g sc)\<lparr>sc_signal := first_abort e (sc_signal sc)\<rparr>) (scopes w s)
       else scopes (abort_scope s e w) d)"
    and "tasks (abort_scope s e (upd_scope s g w)) = tasks (abort_scope s e w)"
proof -
  have g: "g sc = sc\<lparr>sc_failure := sc_failure (g sc), sc_timer := sc_timer (g sc)\<rparr>" for sc
    using assms unfolding only_failure_def by blast
  have anc: "sc_ancestors (g sc) = sc_ancestors sc" "sc_signal (g sc) = sc_signal sc" for sc
    by (subst g, simp)+
  show "scopes (abort_scope s e (upd_scope s g w)) d =
      (if d = s then map_option (\<lambda>sc. (g sc)\<lparr>sc_signal := first_abort e (sc_signal sc)\<rparr>) (scopes w s)
       else scopes (abort_scope s e w) d)"
    by (cases "scopes w s") (simp_all add: abort_scopes below_def anc)
  show "tasks (abort_scope s e (upd_scope s g w)) = tasks (abort_scope s e w)"
    by (auto simp: fun_eq_iff abort_scopes below_id_def below_def anc
        intro!: map_option_cong split: option.split)
qed

lemma cancel_reasoned_inv:
  assumes inv: "engine_inv w" and sc: "scopes w s = Some sc" and run: "sc_state sc = ScRunning"
    and g: "only_failure g"
  shows "engine_inv (cancel_reasoned s r (upd_scope s g w))"
proof -
  let ?e = "CancellationError r" and ?v = "cancel_reasoned s r (upd_scope s g w)"
  let ?sc1 = "sc\<lparr>sc_signal := first_abort ?e (sc_signal sc)\<rparr>"
  let ?sc2 = "mark_cancelling ((g sc)\<lparr>sc_signal := first_abort ?e (sc_signal sc)\<rparr>)"
  have i: "scope_inv w s sc" by (rule engine_invD(1) [OF inv sc])
  have gsc: "g sc = sc\<lparr>sc_failure := sc_failure (g sc), sc_timer := sc_timer (g sc)\<rparr>"
    using g unfolding only_failure_def by blast
  have gf: "sc_state (g sc) = ScRunning" "sc_closingEmitted (g sc) = sc_closingEmitted sc"
      "sc_signal (g sc) = sc_signal sc" "sc_ancestors (g sc) = sc_ancestors sc"
      "sc_phase (g sc) = sc_phase sc" "sc_tasks (g sc) = sc_tasks sc" "sc_children (g sc) = sc_children sc"
    using run by (subst gsc, simp)+
  have ne: "\<not> sc_closingEmitted sc" using i run by (auto simp: scope_inv_def scope_local_def)
  have w1: "scopes (upd_scope s g w) s = Some (g sc)" by (simp add: sc)
  note eq = cancel_reasoned_eq [OF w1 gf(1), of r, unfolded gf, OF ne]
  have a: "engine_inv (abort_scope s ?e w)" by (rule abort_inv [OF inv])
  have asc: "scopes (abort_scope s ?e w) s = Some ?sc1" by (simp add: abort_scopes below_def sc)
  show ?thesis
  proof (rule scope_update_inv [OF a asc, where sc' = ?sc2 and es = "[ScopeClosing s (classifyClosingReason r) (clock w)]"])
    show "scopes ?v = (scopes (abort_scope s ?e w))(s \<mapsto> ?sc2)"
      using sc by (auto simp: eq(1) fun_eq_iff abort_failure [OF g])
    show "tasks ?v = tasks (abort_scope s ?e w)" by (simp add: eq(2) abort_failure [OF g])
    show "scope_local ?sc2" using i run
      by (auto simp: scope_inv_def scope_local_def mark_cancelling_def gf)
    show "scope_counts ?v s ?sc2" using i ne
      by (simp add: scope_inv_def scope_counts_def eq(3) mark_cancelling_def gf)
  qed (simp_all add: eq abort_scopes mark_cancelling_def gf)
qed

lemma cancel_inv: "engine_inv w \<Longrightarrow> scopes w s \<noteq> None \<Longrightarrow> engine_inv (cancel_reasoned s r w)"
proof (cases "sc_state (scope_of w s) = ScRunning")
  case True
  assume inv: "engine_inv w" and "scopes w s \<noteq> None"
  then obtain sc where sc: "scopes w s = Some sc" by blast
  have "upd_scope s (\<lambda>sc. sc) w = w" by (simp add: upd_scope_def option.map_ident)
  with cancel_reasoned_inv [OF inv sc _ only_failure_id(1)] True sc show ?thesis by simp
qed (simp add: cancel_reasoned_idle)

lemma fail_scope_inv:
  assumes inv: "engine_inv w" and sc: "scopes w s = Some sc"
  shows "engine_inv (cancel_reasoned s r (upd_scope s (\<lambda>sc. sc\<lparr>sc_failure := x\<rparr>) w))"
proof (cases "sc_state sc = ScRunning")
  case True
  then show ?thesis by (rule cancel_reasoned_inv [OF inv sc _ only_failure_id(2)])
next
  case False
  have i: "scope_inv w s sc" by (rule engine_invD(1) [OF inv sc])
  let ?sc' = "sc\<lparr>sc_failure := x\<rparr>"
  have "engine_inv (upd_scope s (\<lambda>sc. sc\<lparr>sc_failure := x\<rparr>) w)"
    using i False
    by (intro scope_update_inv [OF inv sc, where sc' = ?sc' and es = "[]"])
       (auto simp: sc scope_inv_def scope_local_def scope_counts_def)
  then show ?thesis using False sc by (simp add: cancel_reasoned_idle)
qed

section \<open>Opening a scope\<close>

lemma history_fresh:
  assumes "history_inv w" and "next_id w < n"
  shows "occurrences (is_closing_of n) (history w) = 0" and "occurrences (is_closed_of n) (history w) = 0"
    and "occurrences (is_terminal_of n) (history w) = 0"
proof -
  have h: "d \<noteq> n \<and> event_task e \<noteq> Some n" if "(d, e) \<in> set (history w)" for d e
    using assms that by (fastforce simp: history_inv_def)
  have "\<not> is_closing_of n (d, e) \<and> \<not> is_closed_of n (d, e)" if "d \<noteq> n" for d e
    using that by (cases e) auto
  with h show "occurrences (is_closing_of n) (history w) = 0" "occurrences (is_closed_of n) (history w) = 0"
    "occurrences (is_terminal_of n) (history w) = 0"
    by (auto intro!: occurrences_0 simp: is_terminal_of_def)
qed

lemma engine_ids:
  assumes "engine_inv w" and "next_id w < n"
  shows "scopes w n = None" and "tasks w n = None"
proof -
  have "scopes w n \<noteq> Some sc" for sc
    using engine_invD(1) [OF assms(1), of n sc] assms(2) by (auto simp: scope_inv_def)
  then show "scopes w n = None" by (cases "scopes w n") auto
  have "tasks w n \<noteq> Some tk" for tk
    using engine_invD(2) [OF assms(1), of n tk] assms(2) by (auto simp: task_inv_def)
  then show "tasks w n = None" by (cases "tasks w n") auto
qed

lemma next_id_inv: "engine_inv w \<Longrightarrow> next_id w \<le> n \<Longrightarrow> engine_inv (w\<lparr>next_id := n\<rparr>)"
  by (fastforce simp: engine_inv_def history_inv_def scope_inv_def task_inv_def scope_counts_def)

text \<open>A fresh scope record enters the world, as the last child of its parent.\<close>

lemma new_scope_inv:
  assumes inv: "engine_inv w" and fresh: "next_id w < n"
    and sc': "scope_local sc'" "sc_phase sc' \<noteq> CDone" "\<not> sc_closingEmitted sc'"
      "sc_tasks sc' = []" "sc_children sc' = []"
    and p: "case p of None \<Rightarrow> sc_ancestors sc' = []
      | Some q \<Rightarrow> \<exists>psc. scopes w q = Some psc \<and> sc_ancestors sc' = q # sc_ancestors psc \<and> sc_signal sc' = sc_signal psc"
    and v: "scopes v = (case p of None \<Rightarrow> (scopes w)(n \<mapsto> sc')
        | Some q \<Rightarrow> (scopes w)(n \<mapsto> sc', q \<mapsto> (scope_of w q)\<lparr>sc_children := sc_children (scope_of w q) @ [n]\<rparr>))"
      "tasks v = tasks w" "history v = history w" "next_id v = n"
  shows "engine_inv v"
proof -
  note ids = engine_ids [OF inv fresh]
  let ?ch = "\<lambda>d sc. if Some d = p then sc\<lparr>sc_children := sc_children sc @ [n]\<rparr> else sc"
  have lookup: "scopes v d = (if d = n then Some sc' else map_option (?ch d) (scopes w d))" for d
    using p ids(1) by (cases p) (auto simp: v option.map_ident)
  have chf: "sc_ancestors (?ch d sc) = sc_ancestors sc" "sc_signal (?ch d sc) = sc_signal sc"
    "sc_phase (?ch d sc) = sc_phase sc" "sc_tasks (?ch d sc) = sc_tasks sc"
    "scope_local (?ch d sc) = scope_local sc" "scope_counts v d (?ch d sc) = scope_counts w d sc" for d sc
    by (simp_all add: scope_local_def scope_counts_def v)
  have S: "scope_inv v d k" if k: "scopes v d = Some k" for d k
  proof (cases "d = n")
    case True
    with k have kn: "k = sc'" by (simp add: lookup)
    have "\<exists>psc. scopes v q = Some psc \<and> parent_inv n sc' q ps psc" if q: "sc_ancestors sc' = q # ps" for q ps
    proof -
      from q p obtain psc where psc: "p = Some q" "scopes w q = Some psc" "ps = sc_ancestors psc"
          "sc_signal sc' = sc_signal psc"
        by (auto split: option.splits)
      have "q < n" using engine_invD(1) [OF inv psc(2)] fresh by (simp add: scope_inv_def)
      then show ?thesis using psc by (simp add: lookup parent_inv_def)
    qed
    then show ?thesis using sc' ids fresh history_fresh [OF engine_invD(3) [OF inv] fresh]
      by (simp add: scope_inv_def True kn v scope_counts_def)
  next
    case False
    with k obtain k0 where k0: "scopes w d = Some k0" "k = ?ch d k0" by (auto simp: lookup)
    have i: "scope_inv w d k0" by (rule engine_invD(1) [OF inv k0(1)])
    have "\<exists>psc. scopes v q = Some psc \<and> parent_inv d k q ps psc" if q: "sc_ancestors k = q # ps" for q ps
    proof -
      from q i obtain psc where psc: "scopes w q = Some psc" "parent_inv d k0 q ps psc"
        by (auto simp: scope_inv_def k0(2) chf)
      have "q \<noteq> n" using psc(1) ids(1) by auto
      then show ?thesis using psc by (auto simp: lookup parent_inv_def k0(2) chf)
    qed
    moreover have "\<exists>csc. scopes v c = Some csc \<and> sc_ancestors csc = d # sc_ancestors k"
      if c: "c \<in> set (sc_children k)" for c
    proof (cases "c = n")
      case True
      have "n \<notin> set (sc_children k0)" using i ids(1) by (auto simp: scope_inv_def)
      with c True k0(2) have "p = Some d" by (auto split: if_splits)
      with p k0(1) True show ?thesis by (auto simp: lookup k0(2) chf)
    next
      case False
      then have "c \<in> set (sc_children k0)" using c k0(2) by (auto split: if_splits)
      then obtain csc where "scopes w c = Some csc" "sc_ancestors csc = d # sc_ancestors k0"
        using i by (auto simp: scope_inv_def)
      then show ?thesis using False by (simp add: lookup chf k0(2))
    qed
    ultimately show ?thesis using i fresh by (simp add: scope_inv_def k0(2) chf v)
  qed
  have T: "task_inv v t tk" if tk: "tasks v t = Some tk" for t tk
  proof -
    have i: "task_inv w t tk" using tk engine_invD(2) [OF inv] by (simp add: v)
    then obtain sc where sc: "scopes w (t_scope tk) = Some sc" "sc_signal sc \<noteq> None \<longrightarrow> t_signal tk \<noteq> None"
      "t_outcome tk = None \<longrightarrow> t \<in> set (sc_tasks sc)" by (rule task_inv_scopeE)
    have "t_scope tk \<noteq> n" using sc(1) ids(1) by auto
    with sc i fresh show ?thesis by (simp add: task_inv_def v(2-) lookup chf)
  qed
  have "history_inv v" using engine_invD(3) [OF inv] fresh by (fastforce simp: history_inv_def v)
  with S T show ?thesis by (simp add: engine_inv_def)
qed

lemma scopes_open:
  assumes "engine_inv w" and "case p of None \<Rightarrow> True | Some q \<Rightarrow> scopes w q \<noteq> None"
    and "scopes w' = scopes w"
  shows "engine_inv ((case p of None \<Rightarrow> update_bus n f (w\<lparr>next_id := next_id w + 1,
             scopes := (scopes w)(next_id w + 1 \<mapsto> new_scope p opts ms w')\<rparr>)
         | Some q \<Rightarrow> upd_scope q (\<lambda>sc. sc\<lparr>sc_children := sc_children sc @ [next_id w + 1]\<rparr>)
             (update_bus n f (w\<lparr>next_id := next_id w + 1,
               scopes := (scopes w)(next_id w + 1 \<mapsto> new_scope p opts ms w')\<rparr>))))"
proof (rule new_scope_inv [OF assms(1), of "next_id w + 1" "new_scope p opts ms w'" p])
  have so: "scope_of w' = scope_of w" using assms(3) by (simp add: scope_of_def fun_eq_iff)
  show "case p of None \<Rightarrow> sc_ancestors (new_scope p opts ms w') = []
      | Some q \<Rightarrow> \<exists>psc. scopes w q = Some psc \<and> sc_ancestors (new_scope p opts ms w') = q # sc_ancestors psc
          \<and> sc_signal (new_scope p opts ms w') = sc_signal psc"
    using assms(2) by (auto simp: new_scope_def so split: option.splits)
  have fresh: "scopes w (Suc (next_id w)) = None" using engine_ids(1) [OF assms(1)] by simp
  show "scopes (case p of None \<Rightarrow> update_bus n f (w\<lparr>next_id := next_id w + 1,
             scopes := (scopes w)(next_id w + 1 \<mapsto> new_scope p opts ms w')\<rparr>)
         | Some q \<Rightarrow> upd_scope q (\<lambda>sc. sc\<lparr>sc_children := sc_children sc @ [next_id w + 1]\<rparr>)
             (update_bus n f (w\<lparr>next_id := next_id w + 1,
               scopes := (scopes w)(next_id w + 1 \<mapsto> new_scope p opts ms w')\<rparr>)))
    = (case p of None \<Rightarrow> (scopes w)(next_id w + 1 \<mapsto> new_scope p opts ms w')
        | Some q \<Rightarrow> (scopes w)(next_id w + 1 \<mapsto> new_scope p opts ms w',
            q \<mapsto> (scope_of w q)\<lparr>sc_children := sc_children (scope_of w q) @ [next_id w + 1]\<rparr>))"
    using assms(2) fresh by (cases p) (auto simp: fun_eq_iff)
qed (auto simp: new_scope_def scope_local_def split: option.split)

lemma deadline_quiet: "engine_inv w \<Longrightarrow> engine_inv (snd (deadline s d w))"
  by (auto simp: deadline_def Let_def quiet_scope_def intro!: upd_scope_inv split: sum.split)

lemma deadline_scopes: "scopes w s \<noteq> None \<Longrightarrow> scopes (snd (deadline s d w)) s \<noteq> None"
  by (auto simp: deadline_def Let_def split: sum.split)

lemma open_scope_inv:
  assumes inv: "engine_inv w" and p: "case p of None \<Rightarrow> True | Some q \<Rightarrow> scopes w q \<noteq> None"
  shows "engine_inv (snd (open_scope p opts w))"
proof -
  let ?s = "next_id w + 1"
  let ?w = "w\<lparr>next_id := ?s\<rparr>"
  show ?thesis
  proof (cases "duration_or (so_cleanupTimeout opts)
      (case p of None \<Rightarrow> DEFAULT_CLEANUP_TIMEOUT_MS | Some q \<Rightarrow> sc_cleanupTimeout (scope_of ?w q))")
    case (Inl e)
    have "open_scope p opts w = (Inl e, ?w)"
      unfolding open_scope_def Let_def Inl by simp
    then show ?thesis using next_id_inv [OF inv, of ?s] by simp
  next
    case (Inr ms)
    let ?w1 = "?w\<lparr>scopes := (scopes ?w)(?s \<mapsto> new_scope p opts ms ?w)\<rparr>"
    let ?w2 = "update_bus ?s (\<lambda>_. new_bus (sc_ancestors (new_scope p opts ms ?w))) ?w1"
    let ?w3 = "case p of None \<Rightarrow> ?w2
      | Some q \<Rightarrow> upd_scope q (\<lambda>sc. sc\<lparr>sc_children := sc_children sc @ [?s]\<rparr>) ?w2"
    have w3: "engine_inv ?w3"
      using scopes_open [OF inv p, of ?w ?s "\<lambda>_. new_bus (sc_ancestors (new_scope p opts ms ?w))" opts ms]
      by (simp cong: option.case_cong)
    have s3: "scopes ?w3 ?s \<noteq> None" by (cases p) auto
    define d where "d = (if truthy_duration (so_deadline opts) then deadline ?s (the (so_deadline opts)) ?w3
        else (Inr (), ?w3))"
    have d: "engine_inv (snd d)" "scopes (snd d) ?s \<noteq> None"
      using w3 s3 deadline_quiet [OF w3] deadline_scopes [OF s3] by (auto simp: d_def)
    have o': "open_scope p opts w = (case d of (r, w4) \<Rightarrow>
        (case r of Inl e \<Rightarrow> (Inl e, w4) | Inr _ \<Rightarrow> (Inr ?s, sc_emit ?s (ScopeOpened ?s p (clock w4)) w4)))"
      unfolding open_scope_def Let_def d_def Inr sum.case ..
    have "engine_inv (sc_emit ?s (ScopeOpened ?s p (clock (snd d))) (snd d))"
      by (rule emit_inv [OF d]) (simp_all add: lifecycle_def)
    with d(1) show ?thesis unfolding o' by (cases d; cases "fst d") auto
  qed
qed

section \<open>Tasks\<close>

lemma task_scope_exists:
  "engine_inv w \<Longrightarrow> tasks w t = Some tk \<Longrightarrow> \<exists>sc. scopes w (t_scope tk) = Some sc"
  by (auto dest!: engine_invD(2) simp: task_inv_def)

lemma task_ids: "engine_inv w \<Longrightarrow> tasks w t \<noteq> None \<Longrightarrow> t \<le> next_id w"
  by (auto dest!: engine_invD(2) simp: task_inv_def)

lemma terminal_event_task [simp]:
  "event_task (terminal_event t tk) = Some t" "is_terminal (terminal_event t tk)"
  by (auto simp: terminal_event_def Let_def split: sum.split task_status.split)

lemma finish_task_inv:
  assumes inv: "engine_inv w" and tk: "tasks w t = Some tk"
    and dn: "t_outcome tk \<noteq> None" "t_phase tk \<noteq> TDone"
  shows "engine_inv (finish_task t w)"
proof -
  let ?rel = "\<lambda>k. upd_scope (t_scope tk) (\<lambda>sc. sc\<lparr>sc_idempotency := AList.delete k (sc_idempotency sc)\<rparr>) w"
  let ?w1 = "case t_key tk of None \<Rightarrow> w | Some k \<Rightarrow> ?rel k"
  have w1: "engine_inv ?w1"
    using inv by (auto intro!: upd_scope_inv simp: quiet_scope_def split: option.split)
  have tk1: "tasks ?w1 t = Some tk" using tk by (simp split: option.split)
  have i: "task_inv ?w1 t tk" by (rule engine_invD(2) [OF w1 tk1])
  let ?e = "terminal_event t tk" and ?tk' = "tk\<lparr>t_phase := TDone\<rparr>"
  let ?v = "sc_emit (t_scope tk) ?e (upd_task t (\<lambda>tk. tk\<lparr>t_phase := TDone\<rparr>) ?w1)"
  have v: "finish_task t w = ?v" using tk by (simp add: finish_task_def Let_def)
  have "engine_inv ?v"
  proof (rule task_update_inv [OF w1 tk1, where tk' = ?tk' and es = "[?e]"])
    show "task_inv ?v t ?tk'"
      using i dn by (auto simp: task_inv_def task_local_def is_terminal_of_def)
  qed (simp_all add: tk1)
  then show ?thesis by (simp add: v)
qed

lemma next_task_cleanup_inv:
  assumes inv: "engine_inv w" and tk: "tasks w t = Some tk"
    and dn: "t_outcome tk \<noteq> None" "t_phase tk \<noteq> TDone"
  shows "engine_inv (next_task_cleanup t w)"
proof (cases "t_defers tk = []")
  case True
  then show ?thesis using finish_task_inv [OF assms] tk by (simp add: next_task_cleanup_def Let_def)
next
  case False
  have i: "task_inv w t tk" by (rule engine_invD(2) [OF inv tk])
  have "engine_inv (upd_task t (\<lambda>tk'. tk'\<lparr>t_defers := butlast (t_defers tk), t_phase := TCleaning (last (t_defers tk))\<rparr>) w)"
    using i dn by (intro upd_task_inv' [OF inv tk]) (auto simp: task_inv_def task_local_def)
  then show ?thesis using tk False by (simp add: next_task_cleanup_def Let_def)
qed

lemma cancel_tasks:
  "tasks w t = Some tk \<Longrightarrow> \<exists>sig. tasks (cancel_reasoned s r w) t = Some (tk\<lparr>t_signal := sig\<rparr>)"
proof (cases "sc_state (scope_of w s) = ScRunning")
  case True
  assume tk: "tasks w t = Some tk"
  have "tk = tk\<lparr>t_signal := t_signal tk\<rparr>" by simp
  moreover have "tasks (cancel_reasoned s r w) t = Some (tk\<lparr>t_signal := first_abort (CancellationError r) (t_signal tk)\<rparr>)
      \<or> tasks (cancel_reasoned s r w) t = Some tk"
    using tk True by (auto simp: cancel_reasoned_def Let_def closeEvent_def abort_scopes)
  ultimately show ?thesis by metis
qed (auto simp: cancel_reasoned_idle intro: exI [of _ "t_signal tk"])

lemma settle_body_inv:
  assumes inv: "engine_inv w" and tk: "tasks w t = Some tk" and body: "t_outcome tk = None"
  shows "engine_inv (settle_body t r w)"
proof -
  let ?tk1 = "tk\<lparr>t_status := body_status r, t_endedAt := Some (clock w), t_outcome := Some r\<rparr>"
  let ?w1 = "upd_task t (\<lambda>tk. tk\<lparr>t_status := body_status r, t_endedAt := Some (clock w), t_outcome := Some r\<rparr>) w"
  let ?s = "t_scope tk"
  let ?fail = "\<lambda>e. cancel_reasoned ?s (RSiblingFailed t e)
      (upd_scope ?s (\<lambda>sc. sc\<lparr>sc_failure := defined_error e\<rparr>) ?w1)"
  let ?w2 = "case r of Inr _ \<Rightarrow> ?w1 | Inl e \<Rightarrow>
      if body_status r = Failed \<and> \<not> t_background tk \<and> sc_failure (scope_of w ?s) = None then ?fail e else ?w1"
  have i: "task_inv w t tk" by (rule engine_invD(2) [OF inv tk])
  have phase: "t_phase tk = TBody" using i body by (simp add: task_inv_def task_local_def)
  have w1: "engine_inv ?w1"
    using i phase by (intro upd_task_inv' [OF inv tk]) (auto simp: task_inv_def task_local_def)
  obtain sc where sc: "scopes w ?s = Some sc" using task_scope_exists [OF inv tk] by blast
  have w2: "engine_inv ?w2"
    using w1 fail_scope_inv [OF w1] sc by (auto split: sum.split)
  have t1: "tasks ?w1 t = Some ?tk1" using tk by simp
  have "\<exists>sig. tasks ?w2 t = Some (?tk1\<lparr>t_signal := sig\<rparr>)"
  proof -
    have "tasks (upd_scope ?s f ?w1) t = Some ?tk1" for f using t1 by simp
    from cancel_tasks [OF this] t1 show ?thesis
      by (auto split: sum.split intro: exI [of _ "t_signal tk"])
  qed
  then obtain tk2 where "tasks ?w2 t = Some tk2" "t_outcome tk2 \<noteq> None" "t_phase tk2 \<noteq> TDone"
    using phase by auto
  from next_task_cleanup_inv [OF w2 this] show ?thesis
    using tk by (simp add: settle_body_def Let_def cong: sum.case_cong)
qed

lemma task_cleanup_inv:
  assumes inv: "engine_inv w" and tk: "tasks w t = Some tk"
  shows "engine_inv (task_cleanup t r w)"
proof (cases "t_phase tk")
  case (TCleaning c)
  obtain n ms where c: "c = (n, ms)" by (cases c)
  have i: "task_inv w t tk" by (rule engine_invD(2) [OF inv tk])
  obtain sc where sc: "scopes w (t_scope tk) = Some sc" using task_scope_exists [OF inv tk] by blast
  have em: "engine_inv (sc_emit (t_scope tk) e w)" if "event_task e = Some t" "\<not> lifecycle e" for e
    using that sc tk by (intro emit_inv [OF inv]) auto
  let ?w1 = "case r of CleanupDone \<Rightarrow> w
     | CleanupTimedOut \<Rightarrow> sc_emit (t_scope tk) (TaskCleanupTimeout t ms (clock w)) w
     | CleanupThrew e \<Rightarrow> sc_emit (t_scope tk) (TaskCleanupFailed t e (clock w)) w"
  have w1: "engine_inv ?w1" using inv by (auto intro!: em simp: lifecycle_def split: cleanup_result.split)
  have t1: "tasks ?w1 t = Some tk" using tk by (simp split: cleanup_result.split)
  have "t_outcome tk \<noteq> None" using i TCleaning by (auto simp: task_inv_def task_local_def)
  from next_task_cleanup_inv [OF w1 t1 this] TCleaning tk show ?thesis
    by (simp add: task_cleanup_def c Let_def)
qed (use inv tk in \<open>simp_all add: task_cleanup_def\<close>)

lemma new_task_inv:
  assumes inv: "engine_inv w" and sc: "scopes w s = Some sc" and fresh: "next_id w < n"
    and tk: "t_scope tk = s" "task_local tk" "t_phase tk = TBody" "t_signal tk = sc_signal sc"
    and v: "scopes v = (scopes w)(s \<mapsto> sc\<lparr>sc_tasks := sc_tasks sc @ [n]\<rparr>)"
      "tasks v = (tasks w)(n \<mapsto> tk)" "history v = history w" "next_id v = n"
  shows "engine_inv v"
proof -
  note ids = engine_ids [OF inv fresh]
  let ?ch = "\<lambda>d k. if d = s then k\<lparr>sc_tasks := sc_tasks k @ [n]\<rparr> else k"
  have lookup: "scopes v d = map_option (?ch d) (scopes w d)" for d
    using sc by (auto simp: v option.map_ident)
  have S: "scope_inv v d k" if k: "scopes v d = Some k" for d k
  proof -
    from k obtain k0 where k0: "scopes w d = Some k0" "k = ?ch d k0" by (auto simp: lookup)
    have i: "scope_inv w d k0" by (rule engine_invD(1) [OF inv k0(1)])
    have eq: "sc_ancestors k = sc_ancestors k0" "sc_children k = sc_children k0" "scope_local k = scope_local k0"
        "scope_counts v d k = scope_counts w d k0" "sc_phase k = sc_phase k0" "sc_signal k = sc_signal k0"
      by (simp_all add: k0(2) scope_local_def scope_counts_def v)
    have "\<exists>psc. scopes v q = Some psc \<and> parent_inv d k q ps psc" if q: "sc_ancestors k = q # ps" for q ps
    proof -
      from q i obtain psc where "scopes w q = Some psc" "parent_inv d k0 q ps psc"
        by (auto simp: scope_inv_def eq)
      then show ?thesis by (auto simp: lookup parent_inv_def eq)
    qed
    moreover have "\<exists>csc. scopes v c = Some csc \<and> sc_ancestors csc = d # sc_ancestors k"
      if c: "c \<in> set (sc_children k)" for c
    proof -
      from c i obtain csc where "scopes w c = Some csc" "sc_ancestors csc = d # sc_ancestors k0"
        by (auto simp: scope_inv_def eq)
      then show ?thesis by (simp add: lookup eq)
    qed
    moreover have "\<forall>t \<in> set (sc_tasks k). \<exists>uk. tasks v t = Some uk \<and> t_scope uk = d"
      using i tk(1) ids(2) by (auto simp: scope_inv_def k0(2) v)
    moreover have "d \<noteq> n" using k0(1) ids(1) by auto
    ultimately show ?thesis using i fresh by (simp add: scope_inv_def eq v)
  qed
  have T: "task_inv v t uk" if u: "tasks v t = Some uk" for t uk
  proof (cases "t = n")
    case True
    with u have "uk = tk" by (simp add: v)
    with tk fresh sc True history_fresh(3) [OF engine_invD(3) [OF inv] fresh]
    show ?thesis by (simp add: task_inv_def v)
  next
    case False
    with u have i: "task_inv w t uk" using engine_invD(2) [OF inv] by (simp add: v)
    then obtain k where k: "scopes w (t_scope uk) = Some k" "sc_signal k \<noteq> None \<longrightarrow> t_signal uk \<noteq> None"
      "t_outcome uk = None \<longrightarrow> t \<in> set (sc_tasks k)" by (rule task_inv_scopeE)
    then show ?thesis using i fresh by (simp add: task_inv_def v(3,4) lookup)
  qed
  have "history_inv v" using engine_invD(3) [OF inv] fresh by (fastforce simp: history_inv_def v)
  with S T show ?thesis by (simp add: engine_inv_def)
qed

lemma spawn_inv:
  assumes inv: "engine_inv w" and s: "scopes w s \<noteq> None"
  shows "engine_inv (snd (spawn s opts bg sync w))"
proof -
  obtain sc where sc: "scopes w s = Some sc" using s by blast
  let ?t = "next_id w + 1"
  let ?w = "w\<lparr>next_id := ?t\<rparr>"
  show ?thesis
  proof (cases "spawn_checks s opts w = Inr None")
    case False
    then show ?thesis using inv by (auto simp: spawn_def split: sum.split option.split)
  next
    case True
    show ?thesis
    proof (cases "duration_or (to_cleanupTimeout opts) (sc_cleanupTimeout (scope_of ?w s))")
      case (Inl e)
      then have "spawn s opts bg sync w = (Inl e, ?w)"
        unfolding spawn_def True Let_def Inl by simp
      then show ?thesis using next_id_inv [OF inv, of ?t] by simp
    next
      case (Inr ms)
      let ?tk = "new_task s opts bg ms ?w"
      let ?w1 = "upd_scope s (\<lambda>sc. sc\<lparr>sc_tasks := sc_tasks sc @ [?t]\<rparr>) (?w\<lparr>tasks := (tasks ?w)(?t \<mapsto> ?tk)\<rparr>)"
      let ?w2 = "sc_emit s (TaskStarted ?t s (t_name ?tk) (t_kind ?tk) (clock ?w)) ?w1"
      let ?w3 = "case sync of None \<Rightarrow> ?w2 | Some e \<Rightarrow> settle_body ?t (Inl e) ?w2"
      let ?w4 = "case to_key opts of None \<Rightarrow> ?w3
         | Some k \<Rightarrow> upd_scope s (\<lambda>sc. sc\<lparr>sc_idempotency := AList.update k ?t (sc_idempotency sc)\<rparr>) ?w3"
      have e: "spawn s opts bg sync w = (Inr ?t, ?w4)"
        unfolding spawn_def True Let_def Inr sum.case option.case by (rule refl)
      have w1: "engine_inv ?w1"
        by (rule new_task_inv [OF inv sc, of ?t ?tk])
           (simp_all add: new_task_def task_local_def sc scope_of_def)
      have w2: "engine_inv ?w2"
        by (rule emit_inv [OF w1]) (auto simp: sc lifecycle_def)
      have t2: "tasks ?w2 ?t = Some ?tk" by simp
      have w3: "engine_inv ?w3"
        using w2 settle_body_inv [OF w2 t2] by (auto simp: new_task_def split: option.split)
      have "engine_inv ?w4"
        using w3 by (auto intro!: upd_scope_inv simp: quiet_scope_def split: option.split)
      then show ?thesis by (simp only: e snd_conv)
    qed
  qed
qed

section \<open>Closing\<close>

definition closed_record :: "scope \<Rightarrow> scope" where
  "closed_record sc = sc\<lparr>sc_closingEmitted := True,
     sc_timer := (if sc_closingEmitted sc then sc_timer sc else None), sc_state := ScClosed, sc_phase := CDone\<rparr>"

lemma finish_close_eq:
  assumes sc: "scopes w s = Some sc" and p: "\<forall>p ps. sc_ancestors sc = p # ps \<longrightarrow> p \<noteq> s"
  shows "scopes (finish_close s w) = (case sc_ancestors sc of [] \<Rightarrow> (scopes w)(s \<mapsto> closed_record sc)
      | p # _ \<Rightarrow> (scopes w)(s \<mapsto> closed_record sc,
          p := map_option (\<lambda>k. k\<lparr>sc_children := removeAll s (sc_children k)\<rparr>) (scopes w p)))"
    and "tasks (finish_close s w) = tasks w" and "next_id (finish_close s w) = next_id w"
    and "\<exists>d n. history (finish_close s w) = history w @
      (if sc_closingEmitted sc then [] else [(s, ScopeClosing s (if sc_failure sc = None then Completed else Errored) (clock w))])
      @ [(s, ScopeClosed s d n (clock w))]"
proof -
  have "s \<noteq> p" if "sc_ancestors sc = p # ps" for p ps using p that by blast
  then show "scopes (finish_close s w) = (case sc_ancestors sc of [] \<Rightarrow> (scopes w)(s \<mapsto> closed_record sc)
      | p # _ \<Rightarrow> (scopes w)(s \<mapsto> closed_record sc,
          p := map_option (\<lambda>k. k\<lparr>sc_children := removeAll s (sc_children k)\<rparr>) (scopes w p)))"
    and "tasks (finish_close s w) = tasks w" and "next_id (finish_close s w) = next_id w"
    and "\<exists>d n. history (finish_close s w) = history w @
      (if sc_closingEmitted sc then [] else [(s, ScopeClosing s (if sc_failure sc = None then Completed else Errored) (clock w))])
      @ [(s, ScopeClosed s d n (clock w))]"
    using sc
    by (cases "sc_ancestors sc"; auto simp: finish_close_def Let_def closeEvent_def closed_record_def
        fun_eq_iff scope_of_def)+
qed

lemma finish_close_inv:
  assumes inv: "engine_inv w" and sc: "scopes w s = Some sc" and ph: "sc_phase sc \<noteq> CDone"
  shows "engine_inv (finish_close s w)"
proof -
  have i: "scope_inv w s sc" by (rule engine_invD(1) [OF inv sc])
  have ps: "p \<noteq> s" if "sc_ancestors sc = p # ps" for p ps
    using i that by (auto simp: scope_inv_def parent_inv_def)
  then have "\<forall>p ps. sc_ancestors sc = p # ps \<longrightarrow> p \<noteq> s" by blast
  note eq = finish_close_eq [OF sc this]
  obtain d n where h: "history (finish_close s w) = history w @ map (Pair s)
      ((if sc_closingEmitted sc then [] else [ScopeClosing s (if sc_failure sc = None then Completed else Errored) (clock w)])
       @ [ScopeClosed s d n (clock w)])"
    using eq(4) by (cases "sc_closingEmitted sc") auto
  let ?u = "w\<lparr>scopes := (scopes w)(s \<mapsto> closed_record sc), history := history (finish_close s w)\<rparr>"
  have u: "engine_inv ?u"
  proof (rule scope_update_inv [OF inv sc, where sc' = "closed_record sc" and es =
      "(if sc_closingEmitted sc then [] else [ScopeClosing s (if sc_failure sc = None then Completed else Errored) (clock w)])
       @ [ScopeClosed s d n (clock w)]"])
    show "scope_local (closed_record sc)"
      using i by (auto simp: scope_inv_def scope_local_def closed_record_def)
    show "scope_counts ?u s (closed_record sc)"
      using i ph by (auto simp: scope_inv_def scope_counts_def h closed_record_def)
  qed (simp_all add: h closed_record_def)
  show ?thesis
  proof (cases "sc_ancestors sc")
    case Nil
    then have "engine_inv (finish_close s w) = engine_inv ?u"
      by (intro engine_inv_cong) (simp_all add: eq)
    with u show ?thesis by simp
  next
    case (Cons p ps')
    obtain psc where psc: "scopes w p = Some psc" using i Cons by (auto simp: scope_inv_def)
    let ?psc = "psc\<lparr>sc_children := removeAll s (sc_children psc)\<rparr>"
    have pu: "scopes ?u p = Some psc" using psc ps [OF Cons] by simp
    have j: "scope_inv ?u p psc" by (rule engine_invD(1) [OF u pu])
    show ?thesis
    proof (rule scope_update_inv [OF u pu, where sc' = ?psc and es = "[]"])
      show "scopes (finish_close s w) = (scopes ?u)(p \<mapsto> ?psc)"
        using psc by (simp add: eq Cons)
      show "scope_local ?psc" "scope_counts (finish_close s w) p ?psc"
        using j by (simp_all add: scope_inv_def scope_local_def scope_counts_def)
    qed (auto simp: eq closed_record_def scope_of_def)
  qed
qed

lemma next_scope_cleanup_inv:
  assumes inv: "engine_inv w" and sc: "scopes w s = Some sc" and ph: "sc_phase sc \<noteq> CDone"
  shows "engine_inv (next_scope_cleanup s w)"
proof (cases "sc_defers sc = []")
  case True
  then show ?thesis using finish_close_inv [OF assms] sc by (simp add: next_scope_cleanup_def Let_def)
next
  case False
  have i: "scope_inv w s sc" by (rule engine_invD(1) [OF inv sc])
  let ?f = "\<lambda>k. k\<lparr>sc_defers := butlast (sc_defers sc), sc_phase := CCleaning (last (sc_defers sc))\<rparr>"
  have "engine_inv (upd_scope s ?f w)"
    using i ph by (intro scope_update_inv [OF inv sc, where sc' = "?f sc" and es = "[]"])
      (auto simp: sc scope_inv_def scope_local_def scope_counts_def)
  then show ?thesis using sc False by (simp add: next_scope_cleanup_def Let_def)
qed

lemma close_round_inv:
  assumes inv: "engine_inv w" and sc: "scopes w s = Some sc" and ph: "sc_phase sc \<noteq> CDone"
  shows "engine_inv (close_round s w)"
proof (cases "sc_tasks sc = [] \<and> sc_children sc = []")
  case True
  then show ?thesis using next_scope_cleanup_inv [OF assms] sc by (simp add: close_round_def)
next
  case False
  have i: "scope_inv w s sc" by (rule engine_invD(1) [OF inv sc])
  let ?f = "\<lambda>sc. sc\<lparr>sc_phase := CWaiting (sc_tasks sc) (sc_children sc)\<rparr>"
  have "engine_inv (upd_scope s ?f w)"
    using i ph by (intro scope_update_inv [OF inv sc, where sc' = "?f sc" and es = "[]"])
      (auto simp: sc scope_inv_def scope_local_def scope_counts_def)
  then show ?thesis using sc False by (auto simp: close_round_def Let_def)
qed

lemma close_scope_inv: "engine_inv w \<Longrightarrow> scopes w s \<noteq> None \<Longrightarrow> engine_inv (close_scope s w)"
  using close_round_inv by (auto simp: close_scope_def)

lemma round_over_phase: "round_over s w \<Longrightarrow> sc_phase (scope_of w s) \<noteq> CDone"
  by (auto simp: round_over_def)

lemma unsettled_running:
  "engine_inv w \<Longrightarrow> tasks w t = Some tk \<Longrightarrow> settled_status (t_status tk) \<longleftrightarrow> t_outcome tk \<noteq> None"
  by (drule (1) engine_invD(2))
     (cases "t_outcome tk"; auto simp: task_inv_def task_local_def settled_status_def body_status_def
       split: sum.splits)

definition drop_settled :: "scope_id \<Rightarrow> world \<Rightarrow> world" where
  "drop_settled s w = upd_scope s (\<lambda>sc. sc\<lparr>sc_tasks :=
     filter (\<lambda>t. \<not> settled_status (t_status (task_of w t))) (sc_tasks sc)\<rparr>) w"

lemma drop_settled_inv:
  assumes inv: "engine_inv w" and sc: "scopes w s = Some sc"
  shows "engine_inv (drop_settled s w)"
proof -
  have i: "scope_inv w s sc" by (rule engine_invD(1) [OF inv sc])
  let ?f = "\<lambda>sc. sc\<lparr>sc_tasks := filter (\<lambda>t. \<not> settled_status (t_status (task_of w t))) (sc_tasks sc)\<rparr>"
  have drop: "t_outcome (task_of w t) \<noteq> None"
    if t: "t \<in> set (sc_tasks sc)" "settled_status (t_status (task_of w t))" for t
  proof -
    obtain tk where tk: "tasks w t = Some tk" using i t(1) by (auto simp: scope_inv_def)
    with unsettled_running [OF inv tk] t(2) show ?thesis by simp
  qed
  show ?thesis unfolding drop_settled_def
  proof (rule scope_update_inv [OF inv sc, where sc' = "?f sc" and es = "[]"])
    show "\<And>t. t \<in> set (sc_tasks sc) - set (sc_tasks (?f sc)) \<Longrightarrow> t_outcome (task_of w t) \<noteq> None"
      using drop by simp
    show "scope_local (?f sc)" "scope_counts (upd_scope s ?f w) s (?f sc)"
      using i by (simp_all add: scope_inv_def scope_local_def scope_counts_def)
  qed (auto simp: sc)
qed

lemma close_drained_inv:
  assumes inv: "engine_inv w" and s: "scopes w s \<noteq> None"
  shows "engine_inv (close_drained s w)"
proof (cases "round_over s w")
  case True
  obtain sc where sc: "scopes w s = Some sc" using s by blast
  have ph: "sc_phase sc \<noteq> CDone" using round_over_phase [OF True] sc by simp
  have "scopes (drop_settled s w) s = Some (sc\<lparr>sc_tasks :=
      filter (\<lambda>t. \<not> settled_status (t_status (task_of w t))) (sc_tasks sc)\<rparr>)"
    using sc by (simp add: drop_settled_def)
  from close_round_inv [OF drop_settled_inv [OF inv sc] this] ph show ?thesis
    by (simp add: close_drained_def True drop_settled_def)
qed (use inv in \<open>simp add: close_drained_def\<close>)

lemma scope_cleanup_inv:
  assumes inv: "engine_inv w" and s: "scopes w s \<noteq> None"
  shows "engine_inv (scope_cleanup s r w)"
proof -
  obtain sc where sc: "scopes w s = Some sc" using s by blast
  show ?thesis
  proof (cases "sc_phase sc")
    case (CCleaning c)
    obtain n ms where c: "c = (n, ms)" by (cases c)
    have em: "engine_inv (sc_emit s e w)" if "event_task e = None" "\<not> lifecycle e" for e
      using that s by (intro emit_inv [OF inv]) auto
    let ?w1 = "case r of CleanupDone \<Rightarrow> w
       | CleanupTimedOut \<Rightarrow> sc_emit s (ScopeCleanupTimeout s ms (clock w)) w
       | CleanupThrew e \<Rightarrow> sc_emit s (ScopeCleanupFailed s e (clock w)) w"
    have w1: "engine_inv ?w1" using inv by (auto intro!: em simp: lifecycle_def split: cleanup_result.split)
    have s1: "scopes ?w1 s = Some sc" using sc by (simp split: cleanup_result.split)
    from next_scope_cleanup_inv [OF w1 s1] CCleaning sc show ?thesis
      by (simp add: scope_cleanup_def c)
  qed (use inv sc in \<open>simp_all add: scope_cleanup_def\<close>)
qed

section \<open>Every operation\<close>

lemma budget_owner_exists:
  "budget_owner_in v k w ds = Some d \<Longrightarrow> d \<in> set ds"
  by (induction ds) (auto simp: Let_def split: if_splits)

lemma ancestors_exist:
  "engine_inv w \<Longrightarrow> scopes w s = Some sc \<Longrightarrow> d \<in> set (sc_ancestors sc) \<Longrightarrow>
   \<exists>k. scopes w d = Some k \<and> d < s \<and> (sc_signal k \<noteq> None \<longrightarrow> sc_signal sc \<noteq> None)"
proof (induction "sc_ancestors sc" arbitrary: s sc)
  case (Cons p ps)
  from engine_invD(1) [OF Cons.prems(1,2)] Cons.hyps(2) [symmetric] obtain psc where
    psc: "scopes w p = Some psc" "parent_inv s sc p ps psc" by (auto simp: scope_inv_def)
  show ?case
  proof (cases "d = p")
    case True
    with psc show ?thesis by (auto simp: parent_inv_def)
  next
    case False
    then have "d \<in> set (sc_ancestors psc)" using Cons.prems(3) Cons.hyps(2) [symmetric] psc(2)
      by (auto simp: parent_inv_def)
    with Cons.hyps(1) [OF _ Cons.prems(1) psc(1)] psc(2) show ?thesis
      by (fastforce simp: parent_inv_def)
  qed
qed simp

lemma consumeBudget_inv:
  assumes inv: "engine_inv w" and s: "scopes w s \<noteq> None"
  shows "engine_inv (snd (consumeBudget s k x w))"
proof -
  obtain sc where sc: "scopes w s = Some sc" using s by blast
  have "scopes w d \<noteq> None" if "findBudgetOwner s k w = Some d" for d
    using budget_owner_exists [OF that [unfolded findBudgetOwner_def]] sc ancestors_exist [OF inv sc, of d]
    by auto
  then have "engine_inv (cancel_reasoned (case findBudgetOwner s k w of None \<Rightarrow> s | Some d \<Rightarrow> d) r w)" for r
    using s by (intro cancel_inv [OF inv]) (auto split: option.split)
  moreover have "engine_inv (w\<lparr>budgets := cs\<rparr>) = engine_inv w" for cs
    by (rule engine_inv_cong) simp_all
  ultimately show ?thesis
    using inv by (auto simp: consumeBudget_def Let_def split: option.split)
qed

lemma bus_inv: "engine_inv (update_bus b f w) = engine_inv w"
  by (rule engine_inv_cong) simp_all

lemma op_inv:
  assumes inv: "engine_inv w" and en: "op_enabled x w"
  shows "engine_inv (apply_op x w)"
proof -
  have emit: "engine_inv (sc_emit (t_scope (task_of w t)) e w)"
    if "tasks w t \<noteq> None" "\<not> lifecycle e" "event_task e = Some t" for t e
    using that task_scope_exists [OF inv] by (intro emit_inv [OF inv]) auto
  have cells: "engine_inv (w\<lparr>budgets := cs\<rparr>) = engine_inv w" for cs
    by (rule engine_inv_cong) simp_all
  have clk: "engine_inv (w\<lparr>clock := c\<rparr>) = engine_inv w" for c
    by (rule engine_inv_cong) simp_all
  show ?thesis
  proof (cases x)
    case (OpOpen p opts)
    with en open_scope_inv [OF inv] show ?thesis by simp
  next
    case (OpTimer s)
    then obtain sc where sc: "scopes w s = Some sc" using en by auto
    have t: "engine_inv (upd_scope s (\<lambda>sc. sc\<lparr>sc_timer := None\<rparr>) w)"
      using inv by (intro upd_scope_inv) (auto simp: quiet_scope_def)
    show ?thesis
      using inv sc cancel_inv [OF t] by (auto simp: OpTimer deadline_timer_def split: option.split)
  next
    case (OpBody t r)
    with en settle_body_inv [OF inv] show ?thesis by auto
  next
    case (OpTaskCleanup t r)
    with en task_cleanup_inv [OF inv] show ?thesis by auto
  qed (use inv en in \<open>auto simp: cells clk bus_inv bus_on_def bus_off_def cancel_def defer_scope_def defer_task_def
      cancel_task_def report_progress_def setAttempt_def emitRetry_def emitAttempt_def on_cancel_def
      off_cancel_def group_body_failed_def lifecycle_def quiet_scope_def quiet_task_def
      intro!: spawn_inv upd_scope_inv upd_task_inv cancel_inv deadline_quiet close_scope_inv
        close_drained_inv scope_cleanup_inv consumeBudget_inv emit
      split: sum.split option.split\<close>)
qed

interpretation engine: invariant_system engine_init engine_step engine_inv
  by unfold_locales (auto simp: engine_step_def engine_init_inv op_inv)

end
