(* ===== verification/Scope_Props.thy ===== *)
theory Scope_Props
  imports Scope_Inv
begin

text \<open>
  What the scope engine guarantees, over all reachable worlds (\<open>Scope_Inv\<close>), and the executions in
  which it does less than its rules R3 and R4 say.
\<close>

abbreviation engine_reachable :: "world \<Rightarrow> bool" where
  "engine_reachable \<equiv> reachable engine_init engine_step"

lemma reachable_op: "engine_reachable w \<Longrightarrow> op_enabled x w \<Longrightarrow> engine_reachable (apply_op x w)"
  by (erule reach_step) (auto simp: engine_step_def)

lemma reachable_run: "engine_reachable w \<Longrightarrow> run_ops xs w = Some v \<Longrightarrow> engine_reachable v"
  by (induction xs arbitrary: w) (auto split: if_splits intro: reachable_op)

lemma reachable_empty: "engine_reachable empty_world"
  by (rule reach_init) (simp add: engine_init_def)

lemmas reachable_ops = reachable_run [OF reachable_empty]
lemmas reachable_invD = engine_invD [OF engine.reachable_inv]

definition plain_scope :: scope_opts where
  "plain_scope = \<lparr>so_name = None, so_deadline = None, so_context = None, so_cleanupTimeout = None\<rparr>"

definition plain_task :: task_opts where
  "plain_task = \<lparr>to_name = None, to_kind = None, to_meta = None, to_key = None, to_cleanupTimeout = None,
     to_shortcut = False\<rparr>"

text \<open>A scope 1 with a child scope 2, two tasks 3 and 4 in scope 1 and one task 5 in scope 2.\<close>

definition family_ops :: "engine_op list" where
  "family_ops = [OpOpen None plain_scope, OpOpen (Some 1) plain_scope, OpSpawn 1 plain_task False None,
     OpSpawn 1 plain_task False None, OpSpawn 2 plain_task False None]"

definition family :: world where
  "family = the (run_ops family_ops empty_world)"

lemma run_ops_the: "run_ops xs w \<noteq> None \<Longrightarrow> run_ops xs w = Some (the (run_ops xs w))"
  by auto

lemma family_run: "run_ops family_ops empty_world = Some family"
proof -
  have "run_ops family_ops empty_world = None \<longleftrightarrow> False" by code_simp
  then show ?thesis unfolding family_def by (intro run_ops_the) simp
qed

lemma family_reachable: "engine_reachable family"
  by (rule reachable_ops [OF family_run])

section \<open>Cancellation reaches everything below\<close>

lemma aborted_below:
  assumes inv: "engine_inv w" and sc: "scopes w s = Some sc" "sc_signal sc \<noteq> None"
    and d: "scopes w d = Some k" "below s d k"
  shows "sc_signal k \<noteq> None"
proof (cases "d = s")
  case False
  then have "s \<in> set (sc_ancestors k)" using d(2) by (simp add: below_def)
  from ancestors_exist [OF inv d(1) this] sc show ?thesis by auto
qed (use sc d in auto)

text \<open>
  C1: Cancellation propagates without gaps: in every reachable world, when the signal of a scope is
  aborted so are the signals of all scopes below it and of all tasks those scopes own, whether they
  were created before or after the abort.
\<close>

theorem abort_reaches_descendants:
  assumes "engine_reachable w" and "sc_signal (scope_of w s) \<noteq> None" and "scopes w s \<noteq> None"
  shows "(\<forall>d k. scopes w d = Some k \<and> below s d k \<longrightarrow> sc_signal k \<noteq> None) \<and>
    (\<forall>t tk. tasks w t = Some tk \<and> below_id w s (t_scope tk) \<longrightarrow> t_signal tk \<noteq> None)"
proof -
  note inv = engine.reachable_inv [OF assms(1)]
  obtain sc where sc: "scopes w s = Some sc" "sc_signal sc \<noteq> None" using assms(2,3) by auto
  have S: "sc_signal k \<noteq> None" if "scopes w d = Some k" "below s d k" for d k
    by (rule aborted_below [OF inv sc that])
  have "t_signal tk \<noteq> None" if tk: "tasks w t = Some tk" "below_id w s (t_scope tk)" for t tk
  proof -
    obtain k where k: "scopes w (t_scope tk) = Some k" "sc_signal k \<noteq> None \<longrightarrow> t_signal tk \<noteq> None"
      using engine_invD(2) [OF inv tk(1)] by (rule task_inv_scopeE)
    with S [OF k(1)] tk(2) show ?thesis by (simp add: below_id_def)
  qed
  with S show ?thesis by blast
qed

definition cancelled_family :: world where
  "cancelled_family = the (run_ops [OpCancel 1 (Tag ''stop''), OpOpen (Some 2) plain_scope] family)"

lemma cancelled_family_reachable: "engine_reachable cancelled_family"
proof -
  have "run_ops [OpCancel 1 (Tag ''stop''), OpOpen (Some 2) plain_scope] family = None \<longleftrightarrow> False" by code_simp
  then show ?thesis unfolding cancelled_family_def
    by (intro reachable_run [OF family_reachable run_ops_the]) simp
qed

lemma abort_reaches_descendants_witness:
  "sc_signal (scope_of cancelled_family 6) \<noteq> None \<and> t_signal (task_of cancelled_family 5) \<noteq> None"
proof -
  have a: "sc_signal (scope_of cancelled_family 1) = None \<longleftrightarrow> False"
    "scopes cancelled_family 1 = None \<longleftrightarrow> False"
    and e: "scopes cancelled_family 6 = None \<longleftrightarrow> False" "tasks cancelled_family 5 = None \<longleftrightarrow> False"
      "below 1 6 (scope_of cancelled_family 6) \<longleftrightarrow> True"
      "below_id cancelled_family 1 (t_scope (task_of cancelled_family 5)) \<longleftrightarrow> True"
    by code_simp+
  obtain k where k: "scopes cancelled_family 6 = Some k" using e(1) by auto
  obtain tk where tk: "tasks cancelled_family 5 = Some tk" using e(2) by auto
  show ?thesis
    using abort_reaches_descendants [OF cancelled_family_reachable, of 1] a e(3,4) k tk by simp
qed

section \<open>The first failure of a child\<close>

lemma next_task_cleanup_scopes:
  "sc_state (scope_of (next_task_cleanup t w) s) = sc_state (scope_of w s)"
  "sc_failure (scope_of (next_task_cleanup t w) s) = sc_failure (scope_of w s)"
  "tasks w u = Some uk \<Longrightarrow> \<exists>uk'. tasks (next_task_cleanup t w) u = Some uk' \<and> t_signal uk' = t_signal uk"
proof -
  have u: "sc_state (scope_of (upd_scope d (\<lambda>sc. sc\<lparr>sc_idempotency := f sc\<rparr>) w) s) = sc_state (scope_of w s)"
    "sc_failure (scope_of (upd_scope d (\<lambda>sc. sc\<lparr>sc_idempotency := f sc\<rparr>) w) s) = sc_failure (scope_of w s)" for d f
    by (auto simp: scope_of_def upd_scope_def split: option.split) (cases "scopes w d"; simp)+
  show "sc_state (scope_of (next_task_cleanup t w) s) = sc_state (scope_of w s)"
    "sc_failure (scope_of (next_task_cleanup t w) s) = sc_failure (scope_of w s)"
    by (auto simp: next_task_cleanup_def finish_task_def Let_def u split: option.split)
  show "tasks w u = Some uk \<Longrightarrow> \<exists>uk'. tasks (next_task_cleanup t w) u = Some uk' \<and> t_signal uk' = t_signal uk"
    by (auto simp: next_task_cleanup_def finish_task_def Let_def split: option.split)
qed

text \<open>
  C2: Fail fast: when the body of a non-background task of a running scope fails (with anything but
  a cancellation other than a timeout), the scope is cancelling right away, remembers this failure
  as its first, and every task of the scope that was not aborted yet is aborted with a
  \<open>sibling_failed\<close> reason that names the failed task and its error.
\<close>

theorem first_failure_cancels_siblings:
  assumes "engine_reachable w" and "tasks w t = Some tk" and "t_outcome tk = None"
    and "\<not> t_background tk" and "body_status (Inl e) = Failed"
    and "sc_state (scope_of w (t_scope tk)) = ScRunning"
    and "tasks w u = Some uk" and "t_scope uk = t_scope tk" and "t_signal uk = None"
  shows "sc_state (scope_of (settle_body t (Inl e) w) (t_scope tk)) = ScCancelling \<and>
    sc_failure (scope_of (settle_body t (Inl e) w) (t_scope tk)) = defined_error e \<and>
    t_signal (task_of (settle_body t (Inl e) w) u) = Some (CancellationError (RSiblingFailed t e))"
proof -
  let ?s = "t_scope tk"
  note inv = engine.reachable_inv [OF assms(1)]
  obtain sc where sc: "scopes w ?s = Some sc" using task_scope_exists [OF inv assms(2)] by blast
  have i: "scope_inv w ?s sc" by (rule engine_invD(1) [OF inv sc])
  have run: "sc_state sc = ScRunning" "sc_failure sc = None" "\<not> sc_closingEmitted sc"
    using i assms(6) sc by (auto simp: scope_inv_def scope_local_def)
  let ?w1 = "upd_scope ?s (\<lambda>sc. sc\<lparr>sc_failure := defined_error e\<rparr>)
      (upd_task t (\<lambda>tk. tk\<lparr>t_status := body_status (Inl e), t_endedAt := Some (clock w), t_outcome := Some (Inl e)\<rparr>) w)"
  let ?w2 = "cancel_reasoned ?s (RSiblingFailed t e) ?w1"
  have st: "settle_body t (Inl e) w = next_task_cleanup t ?w2"
    using assms(2,4,5) sc run by (simp add: settle_body_def Let_def)
  have w1: "scopes ?w1 ?s = Some (sc\<lparr>sc_failure := defined_error e\<rparr>)" using sc by simp
  note eq = cancel_reasoned_eq [OF w1, of "RSiblingFailed t e"]
  have s2: "scope_of ?w2 ?s = mark_cancelling (sc\<lparr>sc_failure := defined_error e,
      sc_signal := first_abort (CancellationError (RSiblingFailed t e)) (sc_signal sc)\<rparr>)"
    using eq(1) run by (simp add: scope_of_def)
  have below: "below_id ?w1 ?s ?s" using sc by (simp add: below_id_def below_def)
  have "\<exists>uk'. tasks ?w2 u = Some uk' \<and> t_signal uk' = Some (CancellationError (RSiblingFailed t e))"
    using assms(2,7-9) eq(2) run below by (auto simp: abort_scopes first_abort_def)
  then obtain uk' where "tasks ?w2 u = Some uk'" "t_signal uk' = Some (CancellationError (RSiblingFailed t e))"
    by blast
  with next_task_cleanup_scopes(3) [OF this(1), of t] show ?thesis
    by (auto simp: st next_task_cleanup_scopes(1,2) s2 mark_cancelling_def)
qed

lemma first_failure_cancels_siblings_witness:
  "t_signal (task_of (settle_body 3 (Inl (PlainError ''boom'')) family) 4)
     = Some (CancellationError (RSiblingFailed 3 (PlainError ''boom'')))"
proof -
  have e: "tasks family 3 = None \<longleftrightarrow> False" "tasks family 4 = None \<longleftrightarrow> False"
    and f: "t_outcome (task_of family 3) = None \<longleftrightarrow> True" "\<not> t_background (task_of family 3) \<longleftrightarrow> True"
      "t_scope (task_of family 3) = 1 \<longleftrightarrow> True" "sc_state (scope_of family 1) = ScRunning \<longleftrightarrow> True"
      "t_scope (task_of family 4) = 1 \<longleftrightarrow> True" "t_signal (task_of family 4) = None \<longleftrightarrow> True"
    by code_simp+
  have g: "tasks family 3 = Some (task_of family 3)" "tasks family 4 = Some (task_of family 4)"
    using e by (auto simp: task_of_def)
  show ?thesis
    using first_failure_cancels_siblings [OF family_reachable g(1) _ _ _ _ g(2)] f
    by (simp add: body_status_def)
qed

section \<open>Lifecycle events\<close>



section \<open>Closing waits for owned work\<close>

fun past_waiting :: "close_phase \<Rightarrow> bool" where
  "past_waiting (CCleaning _) \<longleftrightarrow> True"
| "past_waiting CDone \<longleftrightarrow> True"
| "past_waiting _ \<longleftrightarrow> False"

lemma close_round_waits:
  assumes "past_waiting (sc_phase (scope_of (close_round s w) s))" and "scopes w s = Some sc"
  shows "sc_tasks sc = [] \<and> sc_children sc = []"
proof (rule ccontr)
  assume "\<not> ?thesis"
  then have "close_round s w = upd_scope s (\<lambda>sc. sc\<lparr>sc_phase := CWaiting (sc_tasks sc) (sc_children sc)\<rparr>) w"
    using assms(2) unfolding close_round_def Let_def by auto
  then have "scope_of (close_round s w) s = sc\<lparr>sc_phase := CWaiting (sc_tasks sc) (sc_children sc)\<rparr>"
    using assms(2) by simp
  with assms(1) show False by simp
qed

lemma drained_owns_nothing:
  assumes inv: "engine_inv w" and sc: "scopes w s = Some sc" and none: "sc_tasks sc = []" "sc_children sc = []"
  shows "(\<forall>t tk. tasks w t = Some tk \<and> t_scope tk = s \<longrightarrow> t_outcome tk \<noteq> None) \<and>
    (\<forall>d k. scopes w d = Some k \<and> sc_ancestors k = s # sc_ancestors sc \<longrightarrow> sc_state k = ScClosed)"
proof (intro conjI allI impI)
  fix t tk assume tk: "tasks w t = Some tk \<and> t_scope tk = s"
  then show "t_outcome tk \<noteq> None"
    using engine_invD(2) [OF inv, of t tk] sc none by (auto simp: task_inv_def)
next
  fix d k assume k: "scopes w d = Some k \<and> sc_ancestors k = s # sc_ancestors sc"
  then show "sc_state k = ScClosed"
    using engine_invD(1) [OF inv, of d k] sc none
    by (auto simp: scope_inv_def parent_inv_def scope_local_def)
qed

text \<open>
  C4: A scope does not go past the waiting phase of \<open>close()\<close> while it owns running work: when the
  waiting loop of a reachable scope ends, the bodies of all its tasks have settled and all its
  child scopes are closed.
\<close>

theorem close_waits_for_owned_work:
  assumes "engine_reachable w" and "scopes w s = Some sc" and "\<not> past_waiting (sc_phase sc)"
    and "v = close_scope s w \<or> v = close_drained s w" and "past_waiting (sc_phase (scope_of v s))"
  shows "(\<forall>t tk. tasks w t = Some tk \<and> t_scope tk = s \<longrightarrow> t_outcome tk \<noteq> None) \<and>
    (\<forall>d k. scopes w d = Some k \<and> sc_ancestors k = s # sc_ancestors sc \<longrightarrow> sc_state k = ScClosed)"
proof -
  note inv = engine.reachable_inv [OF assms(1)]
  have "v = close_round s w \<or> v = close_round s (drop_settled s w) \<or> v = w"
    using assms(4) by (auto simp: close_scope_def close_drained_def drop_settled_def)
  moreover have "v \<noteq> w" using assms(2,3,5) by auto
  ultimately show ?thesis
  proof (elim disjE)
    assume "v = close_round s w"
    with close_round_waits [of s w sc] assms(2,5) have "sc_tasks sc = []" "sc_children sc = []" by auto
    then show ?thesis by (rule drained_owns_nothing [OF inv assms(2)])
  next
    let ?w = "drop_settled s w" and ?sc = "sc\<lparr>sc_tasks :=
      filter (\<lambda>t. \<not> settled_status (t_status (task_of w t))) (sc_tasks sc)\<rparr>"
    have sc: "scopes ?w s = Some ?sc" using assms(2) by (simp add: drop_settled_def)
    assume "v = close_round s ?w"
    with close_round_waits [of s ?w ?sc] sc assms(5) have none: "sc_tasks ?sc = []" "sc_children ?sc = []" by auto
    have tk: "tasks ?w = tasks w" and k: "\<And>d k. scopes w d = Some k \<Longrightarrow>
        \<exists>k'. scopes ?w d = Some k' \<and> sc_ancestors k' = sc_ancestors k \<and> sc_state k' = sc_state k"
      by (auto simp: drop_settled_def)
    have d: "(\<forall>t tk. tasks ?w t = Some tk \<and> t_scope tk = s \<longrightarrow> t_outcome tk \<noteq> None) \<and>
        (\<forall>d k. scopes ?w d = Some k \<and> sc_ancestors k = s # sc_ancestors ?sc \<longrightarrow> sc_state k = ScClosed)"
      by (rule drained_owns_nothing [OF drop_settled_inv [OF inv assms(2)] sc none])
    have "sc_state k = ScClosed" if o': "scopes w d = Some k" "sc_ancestors k = s # sc_ancestors sc" for d k
    proof -
      obtain k' where "scopes ?w d = Some k'" "sc_ancestors k' = sc_ancestors k" "sc_state k' = sc_state k"
        using k [OF o'(1)] by blast
      with d o'(2) show ?thesis by simp
    qed
    with d show ?thesis unfolding tk by blast
  qed auto
qed

definition closing_family :: world where
  "closing_family = the (run_ops [OpClose 2, OpBody 5 (Inr VUndef)] family)"

lemma close_waits_for_owned_work_witness:
  "t_outcome (task_of closing_family 5) \<noteq> None"
proof -
  have "run_ops [OpClose 2, OpBody 5 (Inr VUndef)] family = None \<longleftrightarrow> False" by code_simp
  then have r: "engine_reachable closing_family" unfolding closing_family_def
    by (intro reachable_run [OF family_reachable run_ops_the]) simp
  have e: "scopes closing_family 2 = None \<longleftrightarrow> False" "tasks closing_family 5 = None \<longleftrightarrow> False"
    "past_waiting (sc_phase (scope_of closing_family 2)) \<longleftrightarrow> False"
    "past_waiting (sc_phase (scope_of (close_drained 2 closing_family) 2)) \<longleftrightarrow> True"
    "t_scope (task_of closing_family 5) = 2 \<longleftrightarrow> True"
    by code_simp+
  obtain sc tk where sc: "scopes closing_family 2 = Some sc" "tasks closing_family 5 = Some tk"
    using e(1,2) by auto
  with close_waits_for_owned_work [OF r sc(1), of "close_drained 2 closing_family"] e(3-) show ?thesis
    by auto
qed

section \<open>Where R4 does not hold\<close>

text \<open>
  A task spawned while \<open>close()\<close> already waits is dropped from the round as soon as its body has
  settled, although its own cleanup is still running.
\<close>

definition early_close_ops :: "engine_op list" where
  "early_close_ops = [OpOpen None plain_scope, OpSpawn 1 plain_task False None, OpClose 1,
     OpSpawn 1 plain_task False None, OpTaskDefer 3 0 None, OpBody 3 (Inr VUndef), OpBody 2 (Inr VUndef),
     OpDrained 1]"

text \<open>A cleanup of the scope may spawn: the scope is still \<open>running\<close> then, and nothing waits any more.\<close>

definition late_spawn_ops :: "engine_op list" where
  "late_spawn_ops = [OpOpen None plain_scope, OpDefer 1 0 None, OpClose 1, OpSpawn 1 plain_task False None,
     OpScopeCleanup 1 CleanupDone]"

text \<open>
  Rule R4 (a scope cannot close while its children are pending) has two gaps. A reachable world
  has a closed scope with a task of it, spawned while \<open>close()\<close> was waiting, whose cleanup is still
  running; and one has a closed scope with a task of it, spawned during the scope's own cleanup,
  whose body is still running.
\<close>

theorem scope_closes_before_its_tasks:
  "(\<exists>w s t. engine_reachable w \<and> sc_state (scope_of w s) = ScClosed \<and> t_scope (task_of w t) = s \<and>
      (\<exists>c. t_phase (task_of w t) = TCleaning c)) \<and>
   (\<exists>w s t. engine_reachable w \<and> sc_state (scope_of w s) = ScClosed \<and> t_scope (task_of w t) = s \<and>
      t_status (task_of w t) = Running \<and> t_phase (task_of w t) = TBody)"
proof
  let ?w = "the (run_ops early_close_ops empty_world)"
  have "run_ops early_close_ops empty_world = None \<longleftrightarrow> False"
    and f: "sc_state (scope_of ?w 1) = ScClosed \<longleftrightarrow> True" "t_scope (task_of ?w 3) = 1 \<longleftrightarrow> True"
      "t_phase (task_of ?w 3) = TCleaning (0, 30000) \<longleftrightarrow> True" by code_simp+
  then have "engine_reachable ?w" by (intro reachable_ops run_ops_the) simp
  with f show "\<exists>w s t. engine_reachable w \<and> sc_state (scope_of w s) = ScClosed \<and> t_scope (task_of w t) = s \<and>
      (\<exists>c. t_phase (task_of w t) = TCleaning c)" by blast
next
  let ?w = "the (run_ops late_spawn_ops empty_world)"
  have "run_ops late_spawn_ops empty_world = None \<longleftrightarrow> False"
    and f: "sc_state (scope_of ?w 1) = ScClosed \<longleftrightarrow> True" "t_scope (task_of ?w 2) = 1 \<longleftrightarrow> True"
      "t_status (task_of ?w 2) = Running \<longleftrightarrow> True" "t_phase (task_of ?w 2) = TBody \<longleftrightarrow> True" by code_simp+
  then have "engine_reachable ?w" by (intro reachable_ops run_ops_the) simp
  with f show "\<exists>w s t. engine_reachable w \<and> sc_state (scope_of w s) = ScClosed \<and> t_scope (task_of w t) = s \<and>
      t_status (task_of w t) = Running \<and> t_phase (task_of w t) = TBody" by blast
qed

section \<open>Construction and coalescing\<close>

text \<open>
  A constructor that throws leaks its scope: when a deadline does not parse, \<open>open_scope\<close>
  throws, but the new scope stays among its parent's children, idle and without anyone to close it,
  so that the parent's \<open>close()\<close> waits for it.
\<close>

theorem invalid_deadline_leaks_child:
  assumes "engine_reachable w" and "scopes w q = Some psc" and "sc_phase psc = CIdle"
    and "so_deadline opts = Some d" and "truthy_duration (Some d)" and "parseDuration d = Inl e"
    and "so_cleanupTimeout opts = None" and "open_scope (Some q) opts w = (r, v)"
  shows "r = Inl e \<and> sc_phase (scope_of v (next_id w + 1)) = CIdle \<and>
    sc_phase (scope_of (close_scope q v) q) = CWaiting (sc_tasks psc) (sc_children psc @ [next_id w + 1]) \<and>
    \<not> round_over q (close_scope q v)"
proof -
  let ?s = "next_id w + 1"
  have q: "q \<noteq> ?s" "q \<noteq> Suc (next_id w)"
    using engine_ids(1) [OF engine.reachable_inv [OF assms(1)], of ?s] assms(2) by auto
  have "open_scope (Some q) opts w = (Inl e, upd_scope q (\<lambda>sc. sc\<lparr>sc_children := sc_children sc @ [?s]\<rparr>)
      (update_bus ?s (\<lambda>_. new_bus (sc_ancestors (new_scope (Some q) opts (sc_cleanupTimeout (scope_of w q)) (w\<lparr>next_id := ?s\<rparr>))))
        (w\<lparr>next_id := ?s, scopes := (scopes w)(?s \<mapsto>
           new_scope (Some q) opts (sc_cleanupTimeout (scope_of w q)) (w\<lparr>next_id := ?s\<rparr>))\<rparr>)))"
    using assms(4-7) by (simp add: open_scope_def Let_def duration_or_def deadline_def scope_of_def)
  then have v: "r = Inl e" "scopes v q = Some (psc\<lparr>sc_children := sc_children psc @ [?s]\<rparr>)"
      "sc_phase (scope_of v ?s) = CIdle"
    using assms(2,8) q by (auto simp: scope_of_def new_scope_def)
  have c: "close_scope q v = upd_scope q (\<lambda>sc. sc\<lparr>sc_phase := CWaiting (sc_tasks sc) (sc_children sc)\<rparr>) v"
    using v(2) assms(3) by (simp add: close_scope_def close_round_def Let_def)
  have "scope_of (close_scope q v) ?s = scope_of v ?s" using v(2) q by (simp add: c)
  with v show ?thesis by (simp add: c round_over_def)
qed

lemma invalid_deadline_leaks_child_witness:
  "\<exists>r v. open_scope (Some 1) (plain_scope\<lparr>so_deadline := Some (DNum (Fin (- 1)))\<rparr>) family = (r, v)
    \<and> \<not> round_over 1 (close_scope 1 v)"
proof -
  have e: "scopes family 1 = None \<longleftrightarrow> False" "sc_phase (scope_of family 1) = CIdle \<longleftrightarrow> True" by code_simp+
  obtain psc where psc: "scopes family 1 = Some psc" using e(1) by auto
  obtain r v where rv: "open_scope (Some 1) (plain_scope\<lparr>so_deadline := Some (DNum (Fin (- 1)))\<rparr>) family = (r, v)"
    by (cases "open_scope (Some 1) (plain_scope\<lparr>so_deadline := Some (DNum (Fin (- 1)))\<rparr>) family")
  show ?thesis
    using invalid_deadline_leaks_child [OF family_reachable psc _ _ _ _ _ rv, of "DNum (Fin (- 1))"] e(2) psc rv
    by (auto simp: plain_scope_def)
qed

definition keyed_task :: task_opts where
  "keyed_task = plain_task\<lparr>to_key := Some ''k''\<rparr>"

definition stale_key_ops :: "engine_op list" where
  "stale_key_ops = [OpOpen None plain_scope, OpSpawn 1 keyed_task False (Some (CancellationError (RUser None)))]"

text \<open>
  An idempotency key can outlive its task: a body that throws a cancellation before its first
  await settles inside \<open>spawn\<close>, before the key is registered; the key then stays, and a later
  \<open>spawn\<close> with it runs nothing and returns the handle that is already settled.
\<close>

theorem idempotency_key_outlives_task:
  "\<exists>w t. engine_reachable w \<and> sc_state (scope_of w 1) = ScRunning \<and> t_phase (task_of w t) = TDone \<and>
     spawn 1 keyed_task False None w = (Inr t, w)"
proof -
  let ?w = "the (run_ops stale_key_ops empty_world)"
  have "run_ops stale_key_ops empty_world = None \<longleftrightarrow> False"
    and f: "sc_state (scope_of ?w 1) = ScRunning \<longleftrightarrow> True" "t_phase (task_of ?w 2) = TDone \<longleftrightarrow> True"
      "spawn_checks 1 keyed_task ?w = Inr (Some 2) \<longleftrightarrow> True" by code_simp+
  then have "engine_reachable ?w" by (intro reachable_ops run_ops_the) simp
  moreover have "spawn 1 keyed_task False None ?w = (Inr 2, ?w)"
    unfolding spawn_def using f(3) by (simp only: simp_thms sum.case option.case)
  ultimately show ?thesis using f(1,2) by blast
qed

section \<open>Cleanups run in reverse order\<close>

text \<open>The callbacks of a task that run while the environment answers with the given results.\<close>

fun drain_task :: "task_id \<Rightarrow> cleanup_result list \<Rightarrow> world \<Rightarrow> cleanup list" where
  "drain_task t [] w = []"
| "drain_task t (r # rs) w =
     (case t_phase (task_of w t) of TCleaning c \<Rightarrow> c # drain_task t rs (task_cleanup t r w) | _ \<Rightarrow> [])"

lemma next_cleanup_phase:
  assumes "tasks w t = Some tk"
  shows "tasks (next_task_cleanup t w) t =
    Some (if t_defers tk = [] then tk\<lparr>t_phase := TDone\<rparr>
          else tk\<lparr>t_defers := butlast (t_defers tk), t_phase := TCleaning (last (t_defers tk))\<rparr>)"
  using assms by (auto simp: next_task_cleanup_def finish_task_def Let_def split: option.split)

lemma task_cleanup_step:
  assumes "tasks w t = Some tk" and "t_phase tk = TCleaning c"
  shows "tasks (task_cleanup t r w) t =
    Some (if t_defers tk = [] then tk\<lparr>t_phase := TDone\<rparr>
          else tk\<lparr>t_defers := butlast (t_defers tk), t_phase := TCleaning (last (t_defers tk))\<rparr>)"
proof -
  obtain n ms where c: "c = (n, ms)" by (cases c)
  let ?w1 = "case r of CleanupDone \<Rightarrow> w
     | CleanupTimedOut \<Rightarrow> sc_emit (t_scope tk) (TaskCleanupTimeout t ms (clock w)) w
     | CleanupThrew e \<Rightarrow> sc_emit (t_scope tk) (TaskCleanupFailed t e (clock w)) w"
  have "tasks ?w1 t = Some tk" using assms(1) by (simp split: cleanup_result.split)
  from next_cleanup_phase [OF this] show ?thesis using assms by (simp add: task_cleanup_def c Let_def)
qed

lemma rev_last_butlast: "xs \<noteq> [] \<Longrightarrow> last xs # rev (butlast xs) = rev xs"
  by (induction xs rule: rev_induct) auto

lemma drain_cleaning:
  "tasks w t = Some tk \<Longrightarrow> t_phase tk = TCleaning c \<Longrightarrow>
   drain_task t rs w = take (length rs) (c # rev (t_defers tk))"
proof (induction rs arbitrary: w tk c)
  case (Cons r rs)
  note step = task_cleanup_step [OF Cons.prems, of r]
  show ?case
  proof (cases "t_defers tk = []")
    case True
    with step have "drain_task t rs (task_cleanup t r w) = []" by (cases rs) simp_all
    with Cons.prems True show ?thesis by simp
  next
    case False
    with Cons.IH [OF step] Cons.prems show ?thesis by (simp add: rev_last_butlast)
  qed
qed simp

text \<open>
  C5: Cleanup is last-in first-out and survives failures: once the body of a task settles, its
  deferred callbacks run one after the other in the reverse order of their registration, whether
  they complete, time out or throw, and each runs once.
\<close>

theorem task_cleanups_run_in_reverse:
  assumes "engine_reachable w" and "tasks w t = Some tk" and "t_outcome tk = None"
  shows "drain_task t rs (settle_body t r w) = take (length rs) (rev (t_defers tk))"
proof -
  let ?s = "t_scope tk"
  let ?w1 = "upd_task t (\<lambda>tk. tk\<lparr>t_status := body_status r, t_endedAt := Some (clock w), t_outcome := Some r\<rparr>) w"
  let ?w2 = "case r of Inr _ \<Rightarrow> ?w1 | Inl e \<Rightarrow>
      if body_status r = Failed \<and> \<not> t_background tk \<and> sc_failure (scope_of w ?s) = None
      then cancel_reasoned ?s (RSiblingFailed t e) (upd_scope ?s (\<lambda>sc. sc\<lparr>sc_failure := defined_error e\<rparr>) ?w1)
      else ?w1"
  have s: "settle_body t r w = next_task_cleanup t ?w2"
    using assms(2) by (simp add: settle_body_def Let_def cong: sum.case_cong)
  have t1: "\<exists>tk1. tasks ?w1 t = Some tk1 \<and> t_defers tk1 = t_defers tk" using assms(2) by simp
  have "\<exists>tk2. tasks ?w2 t = Some tk2 \<and> t_defers tk2 = t_defers tk"
  proof -
    have "\<exists>tk1. tasks (upd_scope ?s f ?w1) t = Some tk1 \<and> t_defers tk1 = t_defers tk" for f using t1 by simp
    then have "\<exists>tk2. tasks (cancel_reasoned ?s x (upd_scope ?s f ?w1)) t = Some tk2 \<and> t_defers tk2 = t_defers tk" for x f
      using cancel_tasks by fastforce
    with t1 show ?thesis by (cases r) auto
  qed
  then obtain tk2 where tk2: "tasks ?w2 t = Some tk2" "t_defers tk2 = t_defers tk" by blast
  note n = next_cleanup_phase [OF tk2(1), folded s]
  show ?thesis
  proof (cases "t_defers tk = []")
    case True
    with n tk2(2) show ?thesis by (cases rs) simp_all
  next
    case False
    with drain_cleaning [OF n] tk2(2) show ?thesis by (simp add: rev_last_butlast)
  qed
qed

definition two_defers :: "engine_op list" where
  "two_defers = [OpTaskDefer 3 10 None, OpTaskDefer 3 11 None]"

lemma task_cleanups_run_in_reverse_witness:
  "drain_task 3 [CleanupThrew (PlainError ''x''), CleanupTimedOut, CleanupDone]
     (settle_body 3 (Inr VUndef) (the (run_ops two_defers family)))
   = [(11, 30000), (10, 30000)]"
proof -
  let ?w = "the (run_ops two_defers family)"
  have "run_ops two_defers family = None \<longleftrightarrow> False"
    and f: "tasks ?w 3 = None \<longleftrightarrow> False" "t_outcome (task_of ?w 3) = None \<longleftrightarrow> True"
      "t_defers (task_of ?w 3) = [(10, 30000), (11, 30000)] \<longleftrightarrow> True" by code_simp+
  then have r: "engine_reachable ?w" by (intro reachable_run [OF family_reachable run_ops_the]) simp
  obtain tk where tk: "tasks ?w 3 = Some tk" using f(1) by auto
  show ?thesis
    using task_cleanups_run_in_reverse [OF r tk, of "[CleanupThrew (PlainError ''x''), CleanupTimedOut, CleanupDone]"
        "Inr VUndef"] f(2,3) tk by simp
qed

section \<open>Status\<close>

lemma children_later:
  assumes "engine_inv w" and "scopes w s = Some sc" and "c \<in> set (sc_children sc)"
  shows "s < c \<and> scopes w c \<noteq> None \<and> c \<le> next_id w"
proof -
  obtain k where k: "scopes w c = Some k" "sc_ancestors k = s # sc_ancestors sc"
    using engine_invD(1) [OF assms(1,2)] assms(3) by (auto simp: scope_inv_def)
  with engine_invD(1) [OF assms(1) k(1)] show ?thesis by (auto simp: scope_inv_def parent_inv_def)
qed

lemma scope_status_tree_total:
  "engine_inv w \<Longrightarrow> scopes w s \<noteq> None \<Longrightarrow> next_id w < n + s \<Longrightarrow>
   \<exists>snap. scope_status_tree n w s = Some snap \<and> ss_id snap = s \<and> ss_tasks snap = map (task_snapshot_of w) (sc_tasks (scope_of w s))
     \<and> map ss_id (ss_scopes snap) = sc_children (scope_of w s)
     \<and> ss_pending snap = count_status w {Pending, Running} (sc_tasks (scope_of w s))
     \<and> ss_completed snap = count_status w {Succeeded} (sc_tasks (scope_of w s))
     \<and> ss_failed snap = count_status w {Failed} (sc_tasks (scope_of w s))
     \<and> ss_cancelled snap = count_status w {Cancelled} (sc_tasks (scope_of w s))"
proof (induction n arbitrary: s)
  case 0
  then obtain sc where "scopes w s = Some sc" by blast
  from engine_invD(1) [OF 0(1) this] 0(3) show ?case by (simp add: scope_inv_def)
next
  case (Suc n)
  obtain sc where sc: "scopes w s = Some sc" using Suc.prems(2) by blast
  have sub: "\<exists>snap. scope_status_tree n w c = Some snap \<and> ss_id snap = c" if "c \<in> set (sc_children sc)" for c
    using Suc.IH [OF Suc.prems(1), of c] children_later [OF Suc.prems(1) sc that] Suc.prems(3) by auto
  then have "None \<notin> set (map (scope_status_tree n w) (sc_children sc))" by fastforce
  moreover have "map ss_id (map the (map (scope_status_tree n w) (sc_children sc))) = sc_children sc"
    using sub by (intro nth_equalityI) (auto dest!: nth_mem, fastforce)
  ultimately show ?case using sc by (simp add: Let_def)
qed

lemma count_status_split:
  "count_status w {Pending, Running} ts + count_status w {Succeeded} ts + count_status w {Failed} ts
     + count_status w {Cancelled} ts = length ts"
proof (induction ts)
  case (Cons t ts)
  then show ?case by (cases "t_status (task_of w t)") (auto simp: count_status_def)
qed (simp add: count_status_def)

text \<open>
  \<open>status()\<close> always returns a snapshot of a reachable scope, however deep its tree; the snapshot
  lists the retained tasks and the child scopes in order, and its four counters add up to the
  number of its tasks.
\<close>

theorem status_total:
  assumes "engine_reachable w" and "scopes w s = Some sc"
  shows "\<exists>snap. status w s = Some snap \<and> ss_id snap = s \<and> map ts_id (ss_tasks snap) = sc_tasks sc \<and>
    map ss_id (ss_scopes snap) = sc_children sc \<and>
    ss_pending snap + ss_completed snap + ss_failed snap + ss_cancelled snap = length (ss_tasks snap)"
proof -
  note inv = engine.reachable_inv [OF assms(1)]
  have ids: "map ts_id (map (task_snapshot_of w) ts) = ts" for ts
    by (induction ts) (auto simp: task_snapshot_of_def Let_def)
  have s: "scopes w s \<noteq> None" "next_id w < (next_id w + 1) + s" using assms(2) by auto
  from scope_status_tree_total [OF inv s] obtain snap where snap: "status w s = Some snap" "ss_id snap = s"
      "ss_tasks snap = map (task_snapshot_of w) (sc_tasks sc)" "map ss_id (ss_scopes snap) = sc_children sc"
      "ss_pending snap = count_status w {Pending, Running} (sc_tasks sc)"
      "ss_completed snap = count_status w {Succeeded} (sc_tasks sc)"
      "ss_failed snap = count_status w {Failed} (sc_tasks sc)"
      "ss_cancelled snap = count_status w {Cancelled} (sc_tasks sc)"
    using assms(2) by (auto simp: status_def)
  show ?thesis
    by (intro exI [of _ snap]) (simp only: snap ids length_map count_status_split simp_thms)
qed

lemma status_total_witness:
  "\<exists>snap. status family 1 = Some snap \<and> map ts_id (ss_tasks snap) = [3, 4]"
proof -
  have e: "scopes family 1 = None \<longleftrightarrow> False" "sc_tasks (scope_of family 1) = [3, 4] \<longleftrightarrow> True" by code_simp+
  obtain sc where "scopes family 1 = Some sc" using e(1) by auto
  with status_total [OF family_reachable this] e(2) show ?thesis by auto
qed

end
