(* ===== verification/Scope_Budget.thy ===== *)
theory Scope_Budget
  imports Scope_Props
begin

text \<open>
  Budget accounting of the scope engine: the decimal normalization of \<open>normalizeBudgetAmount\<close>, the
  two outcomes of \<open>consumeBudget\<close>, the owner that is cancelled, and how charges accumulate.
\<close>

section \<open>Decimal normalization\<close>

definition decimal_12 :: "rat \<Rightarrow> bool" where
  "decimal_12 x \<longleftrightarrow> 0 \<le> x \<and> x < 10 ^ 21 \<and> integral (x * 10 ^ 12)"

lemma to_fixed_12_absorbs:
  assumes "decimal_12 x" and "0 \<le> a" and "a < 1 / (2 * 10 ^ 12)" and "x + a < 10 ^ 21"
  shows "to_fixed_12 (x + a) = x"
proof -
  have x: "0 \<le> x" "integral (x * 10 ^ 12)" using assms(1) by (auto simp: decimal_12_def)
  obtain n where n: "x * 10 ^ 12 = of_int n" using x(2) by (metis integral_def)
  have a: "0 \<le> a * 10 ^ 12" "a * 10 ^ 12 < 1 / 2" using assms(2,3) by (simp_all add: field_simps)
  have "\<lfloor>(x + a) * 10 ^ 12 + 1 / 2\<rfloor> = n"
    unfolding floor_eq_iff distrib_right n using a by simp
  then have "to_fixed_12 (x + a) = of_int n / 10 ^ 12"
    using x(1) assms(2,4) by (simp add: to_fixed_12_def)
  also have "\<dots> = x" using n by (simp add: field_simps)
  finally show ?thesis .
qed

lemma to_fixed_12_exact: "decimal_12 x \<Longrightarrow> to_fixed_12 x = x"
  using to_fixed_12_absorbs [of x 0] by (simp add: decimal_12_def)

section \<open>The owner\<close>

lemma budget_owner_in_total:
  "budgetIdentity (sc_context (scope_of w d)) k = Some i \<Longrightarrow>
   \<exists>o'. budget_owner_in (Some i) k w (d # ds) = Some o' \<and> o' \<in> set (d # ds) \<and>
     budgetIdentity (sc_context (scope_of w o')) k = Some i"
proof (induction ds arbitrary: d)
  case Nil
  then show ?case by (auto simp: bag_has_def budgetIdentity_def split: option.splits)
next
  case (Cons p ds)
  show ?case
  proof (cases "budgetIdentity (sc_context (scope_of w p)) k = Some i")
    case True
    with Cons.IH [OF True] show ?thesis by (auto simp: Let_def)
  next
    case False
    with Cons.prems show ?thesis by (auto simp: Let_def bag_has_def budgetIdentity_def split: option.splits)
  qed
qed

lemma findBudgetOwner_total:
  assumes "budgetIdentity (sc_context (scope_of w s)) k = Some i"
  shows "\<exists>d. findBudgetOwner s k w = Some d \<and> d \<in> set (s # sc_ancestors (scope_of w s)) \<and>
    budgetIdentity (sc_context (scope_of w d)) k = Some i"
  using budget_owner_in_total [OF assms] by (simp add: findBudgetOwner_def assms)

lemma cancel_stops:
  assumes "engine_inv w" and "scopes w s \<noteq> None"
  shows "sc_state (scope_of (cancel_reasoned s r w) s) \<noteq> ScRunning"
proof (cases "sc_state (scope_of w s) = ScRunning")
  case True
  obtain sc where sc: "scopes w s = Some sc" using assms(2) by blast
  have "\<not> sc_closingEmitted sc"
    using engine_invD(1) [OF assms(1) sc] True sc by (auto simp: scope_inv_def scope_local_def)
  with cancel_reasoned_eq(1) [OF sc] True sc show ?thesis by (simp add: scope_of_def mark_cancelling_def)
qed (simp add: cancel_reasoned_idle)

text \<open>What a charge sees: the cell \<open>i\<close> behind the key, with finite limit and amount spent.\<close>

definition sees_budget :: "world \<Rightarrow> scope_id \<Rightarrow> context_key \<Rightarrow> nat \<Rightarrow> rat \<Rightarrow> rat \<Rightarrow> bool" where
  "sees_budget w s k i l x \<longleftrightarrow> budgetIdentity (sc_context (scope_of w s)) k = Some i \<and>
     bud_limit (budgets w ! i) = Fin l \<and> bud_spent (budgets w ! i) = Fin x"

definition charged :: "nat \<Rightarrow> rat \<Rightarrow> world \<Rightarrow> world" where
  "charged i x w = w\<lparr>budgets := (budgets w)[i := (budgets w ! i)\<lparr>bud_spent := Fin x\<rparr>]\<rparr>"


definition budget_opts :: scope_opts where
  "budget_opts = plain_scope\<lparr>so_context := Some [[(''CostBudget'', SCell 0)]]\<rparr>"

definition budget_ops :: "engine_op list" where
  "budget_ops = [OpInstall [] CostBudget
       (CBudget \<lparr>bud_limit = Fin 5, bud_spent = Fin 0, bud_unit = None\<rparr>),
     OpOpen None budget_opts, OpOpen (Some 1) plain_scope, OpConsume 2 CostBudget (Fin 3)]"

definition budget_world :: world where
  "budget_world = the (run_ops budget_ops empty_world)"

lemma budget_world_facts:
  "engine_reachable budget_world" "scopes budget_world 2 = Some (scope_of budget_world 2)"
  "sc_ancestors (scope_of budget_world 2) = [1]" "sees_budget budget_world 2 CostBudget 0 5 3"
  "length (budgets budget_world) = 1"
proof -
  have "run_ops budget_ops empty_world = None \<longleftrightarrow> False"
    and f: "scopes budget_world 2 = None \<longleftrightarrow> False" "sc_ancestors (scope_of budget_world 2) = [1] \<longleftrightarrow> True"
      "sees_budget budget_world 2 CostBudget 0 5 3 \<longleftrightarrow> True" "length (budgets budget_world) = 1 \<longleftrightarrow> True"
    by code_simp+
  then show "engine_reachable budget_world" unfolding budget_world_def
    by (intro reachable_ops run_ops_the) simp
  from f show "scopes budget_world 2 = Some (scope_of budget_world 2)"
    "sc_ancestors (scope_of budget_world 2) = [1]" "sees_budget budget_world 2 CostBudget 0 5 3"
    "length (budgets budget_world) = 1"
    by (auto simp: scope_of_def)
qed


section \<open>Sequences of charges\<close>

definition charge :: "scope_id \<Rightarrow> context_key \<Rightarrow> rat \<Rightarrow> world \<Rightarrow> err + world" where
  "charge s k a w = (case consumeBudget s k (Fin a) w of (Inl e, _) \<Rightarrow> Inl e | (Inr _, v) \<Rightarrow> Inr v)"

lemma charge_ok_iff:
  assumes "sees_budget w s k i l x" and "0 \<le> a"
  shows "charge s k a w = Inr v \<longleftrightarrow> to_fixed_12 (x + a) \<le> l \<and> v = charged i (to_fixed_12 (x + a)) w"
  using assms by (auto simp: charge_def consumeBudget_def sees_budget_def charged_def Let_def)

lemma charged_charged: "i < length (budgets w) \<Longrightarrow> charged i y (charged i x w) = charged i y w"
  by (simp add: charged_def)

lemma charged_same: "sees_budget w s k i l x \<Longrightarrow> charged i x w = w"
proof -
  assume "sees_budget w s k i l x"
  then have "(budgets w ! i)\<lparr>bud_spent := Fin x\<rparr> = budgets w ! i"
    by (cases "budgets w ! i") (simp add: sees_budget_def)
  then show ?thesis by (simp add: charged_def)
qed

lemma sees_charged:
  "sees_budget w s k i l x \<Longrightarrow> i < length (budgets w) \<Longrightarrow> sees_budget (charged i y w) s k i l y"
  by (simp add: sees_budget_def charged_def scope_of_def)

lemma decimal_add: "decimal_12 x \<Longrightarrow> decimal_12 a \<Longrightarrow> x + a < 10 ^ 21 \<Longrightarrow> decimal_12 (x + a)"
  unfolding decimal_12_def integral_def distrib_right
  by (metis add_nonneg_nonneg floor_add_int of_int_add floor_of_int)



text \<open>
  A charge of less than half of \<open>10 ^ -12\<close> is admitted but never recorded: on a budget whose
  amount has at most twelve decimals it succeeds and leaves the world as it was, so any number of
  such charges spends nothing.
\<close>

theorem tiny_charges_are_free:
  assumes "sees_budget w s k i l x" and "decimal_12 x" and "x \<le> l"
    and "0 \<le> a" and "a < 1 / (2 * 10 ^ 12)" and "x + a < 10 ^ 21"
  shows "fold_res (charge s k) (replicate n a) w = Inr w"
proof (induction n)
  case (Suc n)
  have "charge s k a w = Inr w"
    using charge_ok_iff [OF assms(1,4)] to_fixed_12_absorbs [OF assms(2,4-6)] assms(3)
      charged_same [OF assms(1)] by simp
  with Suc show ?case by simp
qed simp

lemma tiny_charges_are_free_witness:
  "fold_res (charge 2 CostBudget) (replicate 1000000 (1 / 10 ^ 13)) budget_world = Inr budget_world"
  using tiny_charges_are_free [OF budget_world_facts(4), of "1 / 10 ^ 13" 1000000]
  by (simp add: decimal_12_def)

end
