(* ===== verification/Run_Tasks.thy ===== *)
theory Run_Tasks
  imports Events Retry
begin

text \<open>
  The task wrappers of \<open>packages/core/src/run/index.ts\<close>: \<open>timeout\<close>, \<open>deadline\<close>,
  \<open>uncancellable\<close>, \<open>retry\<close>, \<open>hedge\<close>, \<open>fallback\<close>, \<open>bracket\<close> and \<open>supervise\<close>.

  A task is a function of its context and of the time it is started at; it gives the time and the
  result it settles with, or \<open>None\<close> when it never settles, and the log of what it reports to its
  scope, and what it adds to the buffers of candidate selection (\<open>Candidates\<close>). Time is exact: a timer fires when its delay has passed, except that, as \<open>setTimeout\<close>
  documents, a delay above 2147483647 is replaced by 1 (its rounding of other delays to whole
  milliseconds of at least 1 is not modelled). When a settlement and a timer fall on the same
  instant, the argument \<open>timer_first\<close> says which job runs first. A signal is the time it fires
  with its reason; \<open>cx_scope_signal\<close> and \<open>cx_scope_deadlineAt\<close> belong to the scope the task runs
  in, which a wrapper does not change.
\<close>

datatype item_status = ItemFulfilled | ItemCancelled cancel_reason | ItemRejected err

datatype run_event =
    EvAttempt nat rat attempt_outcome
  | EvRetrying nat err rat
  | EvDefer nat
  | EvDecided nat string "string option" \<comment> \<open>a candidate's index, the decision, its reason code\<close>
  | EvRecorded nat nat rat "err option" \<comment> \<open>a candidate's index, the attempt, its start, its error\<close>
  | EvItemDone nat nat item_status \<comment> \<open>a handler of the work builder, the item's index, its status\<close>

record ctx =
  cx_signal :: signal
  cx_scope_signal :: signal
  cx_deadlineAt :: "rat option"
  cx_scope_deadlineAt :: "rat option"
  cx_attempt :: nat
  cx_wr :: bool

type_synonym 'v outcome = "(rat \<times> (err + 'v)) option"
type_synonym run_log = "(rat \<times> run_event) list"
type_synonym 'v task = "ctx \<Rightarrow> rat \<Rightarrow> 'v outcome \<times> run_log"

definition timer_delay :: "rat \<Rightarrow> rat" where
  "timer_delay ms = (if of_nat MAX_TIMEOUT_MS < ms then 1 else ms)"

text \<open>\<open>AbortSignal.any([a, b])\<close>.\<close>

definition any_signal :: "signal \<Rightarrow> signal \<Rightarrow> signal" where
  "any_signal a b = (case a of None \<Rightarrow> b
     | Some (ta, ea) \<Rightarrow> (case b of None \<Rightarrow> a | Some (tb, eb) \<Rightarrow> if ta \<le> tb then a else b))"

section \<open>timeout, deadline, uncancellable\<close>

text \<open>\<open>Promise.race\<close> between the task and the timer, and the context the task runs in.\<close>

definition race_timer :: "bool \<Rightarrow> rat \<Rightarrow> err \<Rightarrow> 'v outcome \<Rightarrow> 'v outcome" where
  "race_timer timer_first fires e res =
     (case res of
        Some (t, r) \<Rightarrow> if t < fires \<or> (t = fires \<and> \<not> timer_first) then Some (t, r) else Some (fires, Inl e)
      | None \<Rightarrow> Some (fires, Inl e))"

definition timeout_ctx :: "rat \<Rightarrow> err \<Rightarrow> rat \<Rightarrow> ctx \<Rightarrow> ctx" where
  "timeout_ctx fires e deadlineAt ctx =
     ctx\<lparr>cx_signal := any_signal (cx_signal ctx) (Some (fires, e)),
         cx_deadlineAt := Some (case cx_deadlineAt ctx of None \<Rightarrow> deadlineAt | Some d \<Rightarrow> min d deadlineAt)\<rparr>"

definition timeout_run :: "bool \<Rightarrow> 'v task \<Rightarrow> rat \<Rightarrow> rat option \<Rightarrow> 'v task" where
  "timeout_run timer_first task configuredMs absoluteDeadline ctx startedAt =
     (let deadlineAt = (case absoluteDeadline of None \<Rightarrow> startedAt + configuredMs | Some a \<Rightarrow> a);
          timeoutMs = (case absoluteDeadline of None \<Rightarrow> configuredMs | Some a \<Rightarrow> max 0 (a - startedAt));
          fires = startedAt + timer_delay timeoutMs;
          e = TimeoutError timeoutMs;
          (res, lg) = task (timeout_ctx fires e deadlineAt ctx) startedAt
      in (race_timer timer_first fires e res, lg))"

definition timeout :: "bool \<Rightarrow> 'v task \<Rightarrow> duration \<Rightarrow> err + 'v task" where
  "timeout timer_first task d =
     bind_res (parseDuration d) (\<lambda>ms. Inr (timeout_run timer_first task ms None))"

text \<open>\<open>deadline\<close> passes the literal duration 0, which parses.\<close>

definition deadline_task :: "bool \<Rightarrow> 'v task \<Rightarrow> rat \<Rightarrow> 'v task" where
  "deadline_task timer_first task ta = timeout_run timer_first task 0 (Some ta)"

text \<open>
  The shield: a timeout on the signal is passed on, any other abort is remembered and thrown when
  the task has returned (unless its reason is falsy, which no error is).
\<close>

definition shielded :: "'v task \<Rightarrow> 'v task" where
  "shielded task ctx startedAt =
     (let sig = (case cx_signal ctx of Some (ta, e) \<Rightarrow> if is_timeout e then Some (ta, e) else None | None \<Rightarrow> None);
          (res, lg) = task (ctx\<lparr>cx_signal := sig\<rparr>) startedAt
      in (case res of
            Some (t, Inr v) \<Rightarrow>
              (case cx_signal ctx of
                 Some (ta, e) \<Rightarrow> if \<not> is_timeout e \<and> ta \<le> t then Some (t, Inl e) else Some (t, Inr v)
               | None \<Rightarrow> Some (t, Inr v))
          | _ \<Rightarrow> res, lg))"

definition uncancellable :: "bool \<Rightarrow> 'v task \<Rightarrow> duration option \<Rightarrow> err + 'v task" where
  "uncancellable timer_first task d =
     bind_res (parseDuration (or_default d (DNum (Fin 0)))) (\<lambda>ms.
       if ms \<le> 0 then Inl (RangeError ''timeout'')
       else timeout timer_first (shielded task) (DNum (Fin ms)))"

section \<open>retry\<close>

text \<open>
  The attempt loop. \<open>charge n\<close> is what charging the retry budget before the retry that follows
  attempt \<open>n\<close> throws, \<open>rnd n\<close> the random number drawn for its delay. The number argument bounds
  the attempts still made; the policy's own count ends the loop first.
\<close>

definition attempt_log :: "bool \<Rightarrow> nat \<Rightarrow> rat \<Rightarrow> rat \<Rightarrow> attempt_outcome \<Rightarrow> run_log" where
  "attempt_log owns attempt startedAt t oc = (if owns then [(t, EvAttempt attempt (t - startedAt) oc)] else [])"

fun retry_loop :: "nat \<Rightarrow> 'v task \<Rightarrow> retry_policy \<Rightarrow> (nat \<Rightarrow> err option) \<Rightarrow> (nat \<Rightarrow> rat) \<Rightarrow> ctx \<Rightarrow> nat \<Rightarrow> rat \<Rightarrow>
    'v outcome \<times> run_log" where
  "retry_loop 0 task policy charge rnd ctx attempt now = (None, [])"
| "retry_loop (Suc n) task policy charge rnd ctx attempt now =
     (let owns = \<not> cx_wr ctx;
          (res, lg) = task (ctx\<lparr>cx_attempt := attempt, cx_wr := True\<rparr>) now
      in case res of
        None \<Rightarrow> (None, lg)
      | Some (t, Inr v) \<Rightarrow> (Some (t, Inr v), lg @ attempt_log owns attempt now t AttemptSucceeded)
      | Some (t, Inl e) \<Rightarrow>
          let log1 = lg @ attempt_log owns attempt now t
                (if is_cancellation e then AttemptCancelled else AttemptFailed)
          in if is_cancellation e \<or> rp_times policy \<le> attempt \<or> \<not> rp_retryIf policy e attempt
             then (Some (t, Inl e), log1)
             else case charge attempt of
               Some c \<Rightarrow> (Some (t, Inl c), log1)
             | None \<Rightarrow>
                 (case computeRetryDelay attempt policy (rnd attempt) of
                    Inl c \<Rightarrow> (Some (t, Inl c), log1)
                  | Inr delayMs \<Rightarrow>
                      let log2 = log1 @ (if owns then [(t, EvRetrying (attempt + 1) e delayMs)] else [])
                      in (case sleep delayMs (cx_signal ctx) t of
                            (t2, Inl c) \<Rightarrow> (Some (t2, Inl c), log2)
                          | (t2, Inr _) \<Rightarrow>
                              (let (res3, log3) = retry_loop n task policy charge rnd ctx (attempt + 1) t2
                               in (res3, log2 @ log3)))))"

definition retry :: "'v task \<Rightarrow> retry_arg \<Rightarrow> (nat \<Rightarrow> err option) \<Rightarrow> (nat \<Rightarrow> rat) \<Rightarrow> err + 'v task" where
  "retry task opts charge rnd =
     bind_res (normalizeRetry opts) (\<lambda>policy.
       let budget = (case ro_retryBudget (arg_opts opts) of None \<Rightarrow> (\<lambda>_. None) | Some _ \<Rightarrow> charge)
       in Inr (\<lambda>ctx now. retry_loop (rp_times policy) task policy budget rnd ctx 1 now))"

section \<open>fallback, bracket, supervise\<close>

definition fallback :: "'v task \<Rightarrow> 'v task \<Rightarrow> 'v task" where
  "fallback primary secondary ctx now =
     (case primary ctx now of
        (Some (t, Inl e), lg) \<Rightarrow>
          if is_cancellation e then (Some (t, Inl e), lg)
          else (let (res, log2) = secondary ctx t in (res, lg @ log2))
      | (res, lg) \<Rightarrow> (res, lg))"

text \<open>The release is registered with the task's cleanup, under the number \<open>release\<close>.\<close>

definition bracket :: "'r task \<Rightarrow> ('r \<Rightarrow> 'v task) \<Rightarrow> nat \<Rightarrow> 'v task" where
  "bracket acquire body release ctx now =
     (case acquire ctx now of
        (None, lg) \<Rightarrow> (None, lg)
      | (Some (t, Inl e), lg) \<Rightarrow> (Some (t, Inl e), lg)
      | (Some (t, Inr r), lg) \<Rightarrow>
          (let (res, log2) = body r ctx t in (res, lg @ [(t, EvDefer release)] @ log2)))"

datatype restart_on = OnError | OnAlways | OnIf "err \<Rightarrow> bool"

record supervise_opts =
  su_restartOn :: "restart_on option"
  su_maxRestarts :: "nat option"
  su_resetWindow :: "duration option"
  su_backoff :: "backoff option"

definition should_restart :: "restart_on option \<Rightarrow> err \<Rightarrow> bool" where
  "should_restart r e = (case r of Some (OnIf f) \<Rightarrow> f e | _ \<Rightarrow> True)"

text \<open>The restart loop; the number argument bounds the runs, \<open>maxRestarts\<close> ends it first.\<close>

fun supervise_loop :: "nat \<Rightarrow> 'v task \<Rightarrow> supervise_opts \<Rightarrow> nat \<Rightarrow> rat \<Rightarrow> (nat \<Rightarrow> rat) \<Rightarrow> rat \<Rightarrow> ctx \<Rightarrow> nat \<Rightarrow> rat \<Rightarrow>
    'v outcome \<times> run_log" where
  "supervise_loop 0 task opts maxRestarts resetWindowMs rnd startedAt ctx restarts now = (None, [])"
| "supervise_loop (Suc n) task opts maxRestarts resetWindowMs rnd startedAt ctx restarts now =
     (case task ctx now of
        (Some (t, Inl e), lg) \<Rightarrow>
          if is_cancellation e \<or> \<not> should_restart (su_restartOn opts) e \<or> maxRestarts \<le> restarts
             \<or> resetWindowMs < t - startedAt
          then (Some (t, Inl e), lg)
          else (case computeBackoffDelay (restarts + 1) (or_default (su_backoff opts) Fixed) 100 30000 False (rnd restarts) of
                  Inl c \<Rightarrow> (Some (t, Inl c), lg)
                | Inr delayMs \<Rightarrow>
                    (case sleep delayMs (cx_signal ctx) t of
                       (t2, Inl c) \<Rightarrow> (Some (t2, Inl c), lg)
                     | (t2, Inr _) \<Rightarrow>
                         (let (res3, log3) = supervise_loop n task opts maxRestarts resetWindowMs rnd startedAt ctx (restarts + 1) t2
                          in (res3, lg @ log3))))
      | (res, lg) \<Rightarrow> (res, lg))"

definition supervise :: "'v task \<Rightarrow> supervise_opts \<Rightarrow> (nat \<Rightarrow> rat) \<Rightarrow> rat \<Rightarrow> err + 'v task" where
  "supervise task opts rnd startedAt =
     bind_res (case su_resetWindow opts of None \<Rightarrow> Inr 60000 | Some d \<Rightarrow> parseDuration d) (\<lambda>resetWindowMs.
       let maxRestarts = or_default (su_maxRestarts opts) 3
       in Inr (\<lambda>ctx now. supervise_loop (maxRestarts + 1) task opts maxRestarts resetWindowMs rnd startedAt ctx 0 now))"

section \<open>hedge\<close>

text \<open>
  \<open>Math.max(1, opts.max)\<close> bounds the loop that starts the attempts; the candidates fail together
  when the number of failures equals it, so a bound that is no integer is never reached, and an
  infinite one keeps the loop from ending.
\<close>

definition hedge_count :: "jsnum \<Rightarrow> nat" where
  "hedge_count mx = (case js_max (Fin 1) mx of Fin q \<Rightarrow> nat \<lfloor>q\<rfloor> | _ \<Rightarrow> 0)"

definition hedge_start :: "rat \<Rightarrow> rat \<Rightarrow> nat \<Rightarrow> rat" where
  "hedge_start now afterMs attempt =
     (let delayMs = of_nat (attempt - 1) * afterMs in if delayMs = 0 then now else now + timer_delay delayMs)"

fun earliest_success :: "'v outcome list \<Rightarrow> (rat \<times> 'v) option" where
  "earliest_success [] = None"
| "earliest_success (Some (t, Inr v) # rest) =
     (case earliest_success rest of None \<Rightarrow> Some (t, v) | Some (u, x) \<Rightarrow> if t \<le> u then Some (t, v) else Some (u, x))"
| "earliest_success (_ # rest) = earliest_success rest"

fun failures :: "'v outcome list \<Rightarrow> (rat \<times> err) list" where
  "failures [] = []"
| "failures (Some (t, Inl e) # rest) = (t, e) # failures rest"
| "failures (_ # rest) = failures rest"

definition all_failed :: "jsnum \<Rightarrow> 'v outcome list \<Rightarrow> (rat \<times> err) option" where
  "all_failed mx outs =
     (let fs = failures outs
      in if fs \<noteq> [] \<and> js_max (Fin 1) mx = Fin (of_nat (length fs)) \<and> length fs = length outs
         then Some (foldl max (fst (hd fs)) (map fst fs),
                    WorkAggregateError (map snd (sort_key fst fs)) ''All hedges failed'')
         else None)"

definition hedge_winner :: "jsnum \<Rightarrow> 'v outcome list \<Rightarrow> 'v outcome" where
  "hedge_winner mx outs =
     (case earliest_success outs of
        Some (t, v) \<Rightarrow> Some (t, Inr v)
      | None \<Rightarrow> map_option (\<lambda>(t, e). (t, Inl e)) (all_failed mx outs))"

text \<open>The listener on the task's own signal rejects the hedge when it fires first.\<close>

definition unless_aborted :: "bool \<Rightarrow> signal \<Rightarrow> 'v outcome \<Rightarrow> 'v outcome" where
  "unless_aborted abort_first sig winner =
     (case sig of
        None \<Rightarrow> winner
      | Some (ta, e) \<Rightarrow>
          (case winner of
             None \<Rightarrow> Some (ta, Inl e)
           | Some (t, r) \<Rightarrow> if ta < t \<or> (ta = t \<and> abort_first) then Some (ta, Inl e) else Some (t, r)))"

definition hedge_runs :: "'v task \<Rightarrow> rat \<Rightarrow> jsnum \<Rightarrow> ctx \<Rightarrow> rat \<Rightarrow> (rat \<times> 'v outcome \<times> run_log) list" where
  "hedge_runs task afterMs mx ctx now =
     map (\<lambda>i. (hedge_start now afterMs i, task (ctx\<lparr>cx_attempt := i\<rparr>) (hedge_start now afterMs i)))
       [1..<hedge_count mx + 1]"

definition hedge :: "bool \<Rightarrow> 'v task \<Rightarrow> duration \<Rightarrow> jsnum \<Rightarrow> 'v task" where
  "hedge abort_first task after mx ctx now =
     (case parseDuration after of
        Inl e \<Rightarrow> (Some (now, Inl e), [])
      | Inr afterMs \<Rightarrow>
          if aborted_by (cx_signal ctx) now then (map_option (\<lambda>(_, e). (now, Inl e)) (cx_signal ctx), [])
          else
            let runs = hedge_runs task afterMs mx ctx now;
                res = unless_aborted abort_first (cx_signal ctx) (hedge_winner mx (map (fst \<circ> snd) runs));
                started = filter (\<lambda>(s, _). case res of None \<Rightarrow> True | Some (t, _) \<Rightarrow> s \<le> t) runs
            in (res, concat (map (snd \<circ> snd) started)))"

section \<open>Bounded tasks\<close>

text \<open>
  A task that, started at \<open>s\<close> or later, always settles, no earlier than it starts and at most \<open>d\<close> after.
\<close>

definition bounded_by :: "rat \<Rightarrow> rat \<Rightarrow> 'v task \<Rightarrow> bool" where
  "bounded_by s d task \<longleftrightarrow>
     (\<forall>ctx now. s \<le> now \<longrightarrow> (\<exists>t r. fst (task ctx now) = Some (t, r) \<and> now \<le> t \<and> t \<le> now + d))"

lemma bounded_byE:
  assumes "bounded_by s d task" and "s \<le> now"
  obtains t r lg where "task ctx now = (Some (t, r), lg)" and "now \<le> t" and "t \<le> now + d"
  using assms unfolding bounded_by_def by (metis prod.collapse)

lemma bounded_by_mono: "bounded_by s d task \<Longrightarrow> d \<le> d' \<Longrightarrow> bounded_by s d' task"
  unfolding bounded_by_def by (meson add_left_mono order_trans)

lemma bounded_by_nonneg:
  assumes "bounded_by s d task"
  shows "0 \<le> d"
proof -
  obtain t where "s \<le> t" "t \<le> s + d"
    using assms unfolding bounded_by_def by (meson order_refl)
  then show ?thesis by simp
qed

lemma timer_delay_le: "ms \<le> of_nat MAX_TIMEOUT_MS \<or> 1 \<le> ms \<Longrightarrow> timer_delay ms \<le> ms"
  by (auto simp: timer_delay_def MAX_TIMEOUT_MS_def)

lemma timer_delay_nonneg: "0 \<le> ms \<Longrightarrow> 0 \<le> timer_delay ms"
  by (simp add: timer_delay_def)

lemma timer_delay_id [simp]: "ms \<le> of_nat MAX_TIMEOUT_MS \<Longrightarrow> timer_delay ms = ms"
  by (simp add: timer_delay_def)

lemma timer_delay_shorter: "timer_delay ms \<le> ms"
proof (cases "of_nat MAX_TIMEOUT_MS < ms")
  case True
  then have "1 \<le> ms" by (simp add: MAX_TIMEOUT_MS_def)
  then show ?thesis by (rule timer_delay_le [OF disjI2])
qed (simp add: timer_delay_def)

lemma race_timer_None [simp]: "race_timer timer_first fires e None = Some (fires, Inl e)"
  by (simp add: race_timer_def)

lemma race_timer_bounds:
  assumes "race_timer timer_first fires e res = Some (t, r)" and "\<And>u q. res = Some (u, q) \<Longrightarrow> now \<le> u" and "now \<le> fires"
  shows "now \<le> t" and "t \<le> fires" and "\<And>u q. res = Some (u, q) \<Longrightarrow> t \<le> u"
  using assms by (auto simp: race_timer_def split: option.splits if_splits)

lemma race_timer_total: "\<exists>t r. race_timer timer_first fires e res = Some (t, r)"
  by (auto simp: race_timer_def split: option.split)

lemma timeout_run_relative:
  "fst (timeout_run timer_first task ms None ctx now) =
     race_timer timer_first (now + timer_delay ms) (TimeoutError ms)
       (fst (task (timeout_ctx (now + timer_delay ms) (TimeoutError ms) (now + ms) ctx) now))"
  by (simp add: timeout_run_def Let_def split: prod.split)

lemma timeout_run_absolute:
  "fst (timeout_run timer_first task ms (Some dl) ctx now) =
     race_timer timer_first (now + timer_delay (max 0 (dl - now))) (TimeoutError (max 0 (dl - now)))
       (fst (task (timeout_ctx (now + timer_delay (max 0 (dl - now))) (TimeoutError (max 0 (dl - now))) dl ctx) now))"
  by (simp add: timeout_run_def Let_def split: prod.split)

lemma timeout_ctx_signal: "\<exists>ta e'. cx_signal (timeout_ctx fires e d ctx) = Some (ta, e') \<and> ta \<le> fires"
  by (auto simp: timeout_ctx_def any_signal_def split: option.split)


definition slow_task :: "rat \<Rightarrow> jsval task" where
  "slow_task d ctx now = (Some (now + d, Inr VNull), [])"

definition root_ctx :: ctx where
  "root_ctx = \<lparr>cx_signal = None, cx_scope_signal = None, cx_deadlineAt = None, cx_scope_deadlineAt = None,
     cx_attempt = 1, cx_wr = False\<rparr>"


lemma timeout_bounded:
  assumes "timeout timer_first task d = Inr wrapped" and "parseDuration d = Inr ms" and "bounded_by s b task"
  shows "bounded_by s (min b ms) wrapped"
  unfolding bounded_by_def
proof (intro allI impI)
  fix ctx :: ctx and now :: rat
  assume s: "s \<le> now"
  have w: "wrapped = timeout_run timer_first task ms None"
    using assms by (auto simp: timeout_def)
  have ms: "timer_delay ms = ms" "0 \<le> ms" using parseDuration_range [OF assms(2)] by simp_all
  let ?c = "timeout_ctx (now + ms) (TimeoutError ms) (now + ms) ctx"
  obtain u q lg where u: "task ?c now = (Some (u, q), lg)" "now \<le> u" "u \<le> now + b"
    using assms(3) s by (rule bounded_byE)
  obtain t r where t: "fst (wrapped ctx now) = Some (t, r)"
    using race_timer_total unfolding w timeout_run_relative by blast
  with race_timer_bounds [of timer_first "now + ms" "TimeoutError ms" "fst (task ?c now)" t r now] ms u
  have "now \<le> t" "t \<le> now + ms" "t \<le> u" unfolding w timeout_run_relative by auto
  with t u(3) show "\<exists>t r. fst (wrapped ctx now) = Some (t, r) \<and> now \<le> t \<and> t \<le> now + min b ms"
    by auto
qed

text \<open>
  A far deadline fires at once: \<open>run.deadline\<close> does not bound the delay it hands to
  \<open>setTimeout\<close>, so a deadline more than 2147483647 ms (about 24.8 days) ahead rejects, after one
  millisecond, every task that takes longer than that.
\<close>

theorem far_deadline_fires_at_once:
  assumes "of_nat MAX_TIMEOUT_MS < dl - now"
    and "\<And>ctx t r. fst (task ctx now) = Some (t, r) \<Longrightarrow> now + 1 < t"
  shows "fst (deadline_task timer_first task dl ctx now) = Some (now + 1, Inl (TimeoutError (dl - now)))"
proof -
  have m: "max 0 (dl - now) = dl - now" and td: "timer_delay (dl - now) = 1"
    using assms(1) by (simp_all add: timer_delay_def MAX_TIMEOUT_MS_def)
  have "race_timer timer_first (now + 1) e (fst (task c now)) = Some (now + 1, Inl e)" for e c
    using assms(2) [of c] by (fastforce simp: race_timer_def split: option.split)
  then show ?thesis by (simp add: deadline_task_def timeout_run_absolute m td)
qed

lemma far_deadline_fires_at_once_witness:
  "fst (deadline_task True (slow_task 50) 2592000000 root_ctx 0) = Some (1, Inl (TimeoutError 2592000000))"
proof -
  have far: "of_nat MAX_TIMEOUT_MS < (2592000000 - 0 :: rat)" by (simp add: MAX_TIMEOUT_MS_def)
  have slow: "0 + 1 < t" if "fst (slow_task 50 ctx 0) = Some (t, r)" for ctx t r
    using that by (simp add: slow_task_def)
  show ?thesis using far_deadline_fires_at_once [OF far slow, where timer_first = True and ctx = root_ctx] by simp
qed

lemma deadline_bounded:
  assumes "bounded_by s d task" and "s \<le> now"
  shows "\<exists>t r. fst (deadline_task timer_first task dl ctx now) = Some (t, r) \<and> now \<le> t \<and>
    t \<le> now + min d (max 0 (dl - now))"
proof -
  let ?m = "max 0 (dl - now)"
  have td: "0 \<le> timer_delay ?m" "timer_delay ?m \<le> ?m"
    by (simp_all add: timer_delay_nonneg timer_delay_shorter)
  let ?c = "timeout_ctx (now + timer_delay ?m) (TimeoutError ?m) dl ctx"
  obtain u q lg where u: "task ?c now = (Some (u, q), lg)" "now \<le> u" "u \<le> now + d"
    using assms by (rule bounded_byE)
  obtain t r where t: "fst (deadline_task timer_first task dl ctx now) = Some (t, r)"
    using race_timer_total unfolding deadline_task_def timeout_run_absolute by blast
  then have rt: "race_timer timer_first (now + timer_delay ?m) (TimeoutError ?m) (fst (task ?c now)) = Some (t, r)"
    unfolding deadline_task_def timeout_run_absolute .
  have nu: "now \<le> x" if "fst (task ?c now) = Some (x, y)" for x y using that u(1,2) by simp
  have "now \<le> t" "t \<le> now + timer_delay ?m" "t \<le> u"
    using race_timer_bounds [OF rt nu] td(1) u(1) by simp_all
  moreover have "t \<le> now + d" "t \<le> now + ?m"
    using calculation(2,3) u(3) td(2) by linarith+
  ultimately show ?thesis using t by (auto simp: min_def)
qed

section \<open>Retrying\<close>

lemma sleep_range:
  "sleep ms sig now = (t, r) \<Longrightarrow> 0 \<le> ms \<Longrightarrow> now \<le> t \<and> t \<le> now + ms"
  by (auto simp: sleep_def split: option.splits if_splits)

text \<open>The delay before each retry, at its largest.\<close>

definition delay_cap :: "retry_policy \<Rightarrow> (nat \<Rightarrow> rat) \<Rightarrow> bool" where
  "delay_cap policy dm \<longleftrightarrow> (\<forall>n d rnd. 0 \<le> rnd \<and> rnd < 1 \<and> computeRetryDelay n policy rnd = Inr d \<longrightarrow> 0 \<le> d \<and> d \<le> dm n)"

lemma retry_loop_bounded:
  assumes "bounded_by s b task" and "delay_cap policy dm" and "\<forall>n. 0 \<le> rnd n \<and> rnd n < 1"
    and "\<forall>n. 0 \<le> dm n"
  shows "attempt + n = rp_times policy + 1 \<Longrightarrow> 0 < n \<Longrightarrow> s \<le> now \<Longrightarrow>
    \<exists>t r. fst (retry_loop n task policy charge rnd ctx attempt now) = Some (t, r) \<and> now \<le> t \<and>
      t \<le> now + of_nat n * b + (\<Sum>i = attempt..<rp_times policy. dm i)"
proof (induction n arbitrary: attempt now)
  case (Suc n)
  have sum0: "0 \<le> (\<Sum>i = a..<rp_times policy. dm i)" for a using assms(4) by (intro sum_nonneg) simp
  have b0: "0 \<le> b" using assms(1) by (rule bounded_by_nonneg)
  have nb: "0 \<le> of_nat n * b" "of_nat (Suc n) * b = b + of_nat n * b"
    using b0 by (simp_all add: algebra_simps)
  obtain t r lg where t: "task (ctx\<lparr>cx_attempt := attempt, cx_wr := True\<rparr>) now = (Some (t, r), lg)"
      "now \<le> t" "t \<le> now + b"
    using assms(1) Suc.prems(3) by (rule bounded_byE)
  have fin: ?case if "fst (retry_loop (Suc n) task policy charge rnd ctx attempt now) = Some (t, q)" for q
  proof -
    have "t \<le> now + of_nat (Suc n) * b + (\<Sum>i = attempt..<rp_times policy. dm i)"
      using t(3) sum0 [of attempt] nb by linarith
    with that t(2) show ?thesis by blast
  qed
  show ?case
  proof (cases "\<exists>e d. r = Inl e \<and> \<not> is_cancellation e \<and> attempt < rp_times policy \<and> rp_retryIf policy e attempt
      \<and> charge attempt = None \<and> computeRetryDelay attempt policy (rnd attempt) = Inr d")
    case False
    then have "\<exists>q. fst (retry_loop (Suc n) task policy charge rnd ctx attempt now) = Some (t, q)"
      using t(1) by (cases r) (auto simp: Let_def not_le split: option.split sum.split)
    with fin show ?thesis by blast
  next
    case True
    then obtain e d where e: "r = Inl e" "\<not> is_cancellation e" "attempt < rp_times policy"
        "rp_retryIf policy e attempt" "charge attempt = None"
        "computeRetryDelay attempt policy (rnd attempt) = Inr d" by blast
    have d: "0 \<le> d" "d \<le> dm attempt"
      using assms(2) [unfolded delay_cap_def, rule_format, of "rnd attempt" attempt d] assms(3) e(6) by auto
    obtain t2 r2 where s: "sleep d (cx_signal ctx) t = (t2, r2)" by (cases "sleep d (cx_signal ctx) t")
    have t2: "t \<le> t2" "t2 \<le> t + d" using sleep_range [OF s d(1)] by auto
    have split: "(\<Sum>i = attempt..<rp_times policy. dm i) = dm attempt + (\<Sum>i = Suc attempt..<rp_times policy. dm i)"
      using e(3) by (simp add: sum.atLeast_Suc_lessThan)
    show ?thesis
    proof (cases r2)
      case (Inl c)
      have "fst (retry_loop (Suc n) task policy charge rnd ctx attempt now) = Some (t2, Inl c)"
        using t(1) e s Inl by (simp add: Let_def)
      moreover have "t2 \<le> now + of_nat (Suc n) * b + (\<Sum>i = attempt..<rp_times policy. dm i)"
        using t(3) t2 d split sum0 [of "Suc attempt"] nb by linarith
      ultimately show ?thesis using t(2) t2(1) by (meson order_trans)
    next
      case (Inr u)
      have eq: "fst (retry_loop (Suc n) task policy charge rnd ctx attempt now) =
          fst (retry_loop n task policy charge rnd ctx (attempt + 1) t2)"
        using t(1) e s Inr by (simp add: Let_def split: prod.split)
      have "0 < n" "attempt + 1 + n = rp_times policy + 1" using Suc.prems e(3) by auto
      moreover have "s \<le> t2" using Suc.prems(3) t(2) t2(1) by linarith
      ultimately obtain t3 r3 where
        i: "fst (retry_loop n task policy charge rnd ctx (attempt + 1) t2) = Some (t3, r3)" "t2 \<le> t3"
          "t3 \<le> t2 + of_nat n * b + (\<Sum>i = attempt + 1..<rp_times policy. dm i)"
        using Suc.IH [of "attempt + 1" t2] by blast
      have "t3 \<le> now + of_nat (Suc n) * b + (\<Sum>i = attempt..<rp_times policy. dm i)"
        using i(3) t(3) t2 d split nb by simp
      with i t(2) t2(1) eq show ?thesis by (metis order_trans)
    qed
  qed
qed simp

lemma retry_bounded:
  assumes "retry task opts charge rnd = Inr wrapped" and "normalizeRetry opts = Inr policy"
    and "bounded_by s b task" and "delay_cap policy dm" and "\<forall>n. 0 \<le> rnd n \<and> rnd n < 1"
    and "\<forall>n. 0 \<le> dm n" and "0 < rp_times policy"
  shows "bounded_by s (of_nat (rp_times policy) * b + (\<Sum>i = 1..<rp_times policy. dm i)) wrapped"
proof -
  let ?charge = "case ro_retryBudget (arg_opts opts) of None \<Rightarrow> (\<lambda>_. None) | Some _ \<Rightarrow> charge"
  have w: "wrapped = (\<lambda>ctx now. retry_loop (rp_times policy) task policy ?charge rnd ctx 1 now)"
    using assms(1,2) by (simp add: retry_def Let_def)
  show ?thesis unfolding bounded_by_def w
    using retry_loop_bounded [OF assms(3-6), where attempt = 1 and n = "rp_times policy" and charge = ?charge] assms(7)
    by (simp add: add.assoc)
qed

text \<open>A task whose attempts take given times and give given results, for any signal.\<close>

definition scripted :: "(nat \<Rightarrow> rat) \<Rightarrow> (nat \<Rightarrow> err + 'v) \<Rightarrow> 'v task" where
  "scripted dur res ctx now = (Some (now + dur (cx_attempt ctx), res (cx_attempt ctx)), [])"

definition retry_stops :: "retry_policy \<Rightarrow> (nat \<Rightarrow> err + 'v) \<Rightarrow> nat \<Rightarrow> bool" where
  "retry_stops policy res k \<longleftrightarrow>
     (case res k of Inr _ \<Rightarrow> True
      | Inl e \<Rightarrow> is_cancellation e \<or> rp_times policy \<le> k \<or> \<not> rp_retryIf policy e k)"

lemma retry_loop_scripted:
  assumes "\<forall>i. computeRetryDelay i policy (rnd i) = Inr (delay i)" and "cx_signal ctx = None"
  shows "attempt \<le> k \<Longrightarrow> k < attempt + n \<Longrightarrow> retry_stops policy res k \<Longrightarrow>
    \<forall>i. attempt \<le> i \<and> i < k \<longrightarrow> \<not> retry_stops policy res i \<Longrightarrow>
    fst (retry_loop n (scripted dur res) policy (\<lambda>_. None) rnd ctx attempt now) =
      Some (now + (\<Sum>i = attempt..k. dur i) + (\<Sum>i = attempt..<k. delay i), res k)"
proof (induction n arbitrary: attempt now)
  case (Suc n)
  show ?case
  proof (cases "attempt = k")
    case True
    with Suc.prems(3) show ?thesis
      by (cases "res k") (auto simp: scripted_def Let_def retry_stops_def)
  next
    case False
    with Suc.prems have less: "attempt < k" and "\<not> retry_stops policy res attempt" by auto
    then obtain e where e: "res attempt = Inl e" "\<not> is_cancellation e" "\<not> rp_times policy \<le> attempt"
        "rp_retryIf policy e attempt"
      by (auto simp: retry_stops_def split: sum.splits)
    let ?t2 = "now + dur attempt + delay attempt"
    have "fst (retry_loop (Suc n) (scripted dur res) policy (\<lambda>_. None) rnd ctx attempt now) =
        fst (retry_loop n (scripted dur res) policy (\<lambda>_. None) rnd ctx (attempt + 1) ?t2)"
      using e assms by (simp add: scripted_def Let_def sleep_def split: prod.split)
    also have "\<dots> = Some (?t2 + (\<Sum>i = attempt + 1..k. dur i) + (\<Sum>i = attempt + 1..<k. delay i), res k)"
      using Suc.prems less by (intro Suc.IH) auto
    also have "?t2 + (\<Sum>i = attempt + 1..k. dur i) + (\<Sum>i = attempt + 1..<k. delay i) =
        now + (\<Sum>i = attempt..k. dur i) + (\<Sum>i = attempt..<k. delay i)"
      using less by (simp add: sum.atLeast_Suc_atMost sum.atLeast_Suc_lessThan)
    finally show ?thesis .
  qed
qed simp


definition linear_retry :: retry_arg where
  "linear_retry = ROpts \<lparr>ro_times = Fin 4, ro_backoff = Some Linear, ro_initialDelay = Some (DNum (Fin 10)),
     ro_maxDelay = Some (DNum (Fin 1000000)), ro_jitter = Some False, ro_retryIf = None, ro_retryBudget = None\<rparr>"

definition fails_twice :: "nat \<Rightarrow> err + jsval" where
  "fails_twice n = (if n \<le> 2 then Inl (PlainError ''down'') else Inr VNull)"


section \<open>Hedging\<close>

lemma earliest_success_Some:
  "earliest_success outs = Some (t, v) \<Longrightarrow> Some (t, Inr v) \<in> set outs"
  by (induction outs arbitrary: t v rule: earliest_success.induct)
     (auto split: option.splits if_splits)

lemma earliest_success_least:
  "Some (t, Inr v) \<in> set outs \<Longrightarrow> \<exists>u x. earliest_success outs = Some (u, x) \<and> u \<le> t"
  by (induction outs arbitrary: t v rule: earliest_success.induct)
     (fastforce split: option.splits)+

lemma failures_set: "(t, e) \<in> set (failures outs) \<longleftrightarrow> Some (t, Inl e) \<in> set outs"
  by (induction outs rule: failures.induct) auto

lemma failures_all:
  "\<forall>x \<in> set outs. \<exists>t e. x = Some (t, Inl e) \<Longrightarrow> length (failures outs) = length outs"
  by (induction outs rule: failures.induct) auto

lemma foldl_max_bounds:
  fixes a :: "'a :: linorder"
  shows "\<forall>x \<in> set xs. lo \<le> x \<and> x \<le> hi \<Longrightarrow> lo \<le> a \<Longrightarrow> a \<le> hi \<Longrightarrow> lo \<le> foldl max a xs \<and> foldl max a xs \<le> hi"
  by (induction xs arbitrary: a) (auto simp: le_max_iff_disj)

lemma hedge_start_range:
  assumes "0 \<le> a" and "1 \<le> i" and "i \<le> n"
  shows "now \<le> hedge_start now a i \<and> hedge_start now a i \<le> now + of_nat (n - 1) * a"
proof -
  define d and D where "d = of_nat (i - 1) * a" and "D = of_nat (n - 1) * a"
  have "d \<le> D"
    unfolding d_def D_def using assms by (intro mult_right_mono) auto
  moreover have nn: "0 \<le> d" unfolding d_def using assms(1) by simp
  moreover note timer_delay_shorter [of d] timer_delay_nonneg [OF nn]
  ultimately show ?thesis unfolding hedge_start_def Let_def d_def [symmetric] D_def [symmetric] by auto
qed

lemma hedge_winner_bounds:
  assumes outs: "\<And>x. x \<in> set outs \<Longrightarrow> \<exists>t r. x = Some (t, r) \<and> lo \<le> t \<and> t \<le> hi"
    and len: "length outs = n" and n: "1 \<le> n"
  shows "\<exists>t r. hedge_winner (Fin (of_nat n)) outs = Some (t, r) \<and> lo \<le> t \<and> t \<le> hi"
proof (cases "earliest_success outs")
  case (Some tv)
  then obtain t v where tv: "earliest_success outs = Some (t, v)" by (cases tv) auto
  with outs [OF earliest_success_Some [OF tv]] show ?thesis by (simp add: hedge_winner_def)
next
  case None
  have all: "\<exists>t e. x = Some (t, Inl e)" if x: "x \<in> set outs" for x
  proof -
    obtain t r where tr: "x = Some (t, r)" using outs [OF x] by blast
    show ?thesis
    proof (cases r)
      case (Inr v)
      then have "Some (t, Inr v) \<in> set outs" using x tr by simp
      from earliest_success_least [OF this] None show ?thesis by simp
    qed (simp add: tr)
  qed
  then have fl: "length (failures outs) = n" using failures_all [of outs] len by blast
  let ?ts = "map fst (failures outs)"
  have ne: "failures outs \<noteq> []" using fl n by auto
  have rng: "\<forall>t \<in> set ?ts. lo \<le> t \<and> t \<le> hi"
  proof
    fix t assume "t \<in> set ?ts"
    then obtain e where "Some (t, Inl e) \<in> set outs" using failures_set by fastforce
    from outs [OF this] show "lo \<le> t \<and> t \<le> hi" by simp
  qed
  have "fst (hd (failures outs)) \<in> set ?ts" using ne by simp
  with rng have "lo \<le> fst (hd (failures outs))" "fst (hd (failures outs)) \<le> hi" by blast+
  from foldl_max_bounds [OF rng this] show ?thesis
    using ne fl n by (simp add: hedge_winner_def None all_failed_def Let_def max_def len)
qed

lemma unless_aborted_bounds:
  assumes "winner = Some (t, r)" and "lo \<le> t" and "t \<le> hi" and "\<not> aborted_by sig lo"
  shows "\<exists>t r. unless_aborted abort_first sig winner = Some (t, r) \<and> lo \<le> t \<and> t \<le> hi"
  using assms by (auto simp: unless_aborted_def aborted_by_def split: option.splits)

lemma hedge_bounded:
  assumes b: "bounded_by s b task" and a: "parseDuration after = Inr a" and n: "1 \<le> n"
  shows "bounded_by s (of_nat (n - 1) * a + b) (hedge abort_first task after (Fin (of_nat n)))"
  unfolding bounded_by_def
proof (intro allI impI)
  fix ctx :: ctx and now :: rat
  assume s: "s \<le> now"
  let ?mx = "Fin (of_nat n) :: jsnum" and ?D = "of_nat (n - 1) * a + b"
  let ?outs = "map (fst \<circ> snd) (hedge_runs task a ?mx ctx now)"
  have a0: "0 \<le> a" using parseDuration_range [OF a] by simp
  have "0 \<le> b" using b by (rule bounded_by_nonneg)
  moreover have "0 \<le> of_nat (n - 1) * a" using a0 by simp
  ultimately have D0: "0 \<le> ?D" by simp
  have count: "hedge_count ?mx = n" using n by (simp add: hedge_count_def max_def)
  have outs: "\<exists>t r. x = Some (t, r) \<and> now \<le> t \<and> t \<le> now + ?D" if "x \<in> set ?outs" for x
  proof -
    from that obtain i where i: "1 \<le> i" "i \<le> n" "x = fst (task (ctx\<lparr>cx_attempt := i\<rparr>) (hedge_start now a i))"
      by (auto simp: hedge_runs_def count)
    have "s \<le> hedge_start now a i" using hedge_start_range [OF a0 i(1,2), of now] s by linarith
    with b obtain t r lg where t: "task (ctx\<lparr>cx_attempt := i\<rparr>) (hedge_start now a i) = (Some (t, r), lg)"
      "hedge_start now a i \<le> t" "t \<le> hedge_start now a i + b" by (rule bounded_byE)
    have "now \<le> t \<and> t \<le> now + ?D" using hedge_start_range [OF a0 i(1,2), of now] t(2,3) by linarith
    with i(3) t(1) show ?thesis by simp
  qed
  have len: "length ?outs = n" by (simp add: hedge_runs_def count)
  obtain t r where w: "hedge_winner ?mx ?outs = Some (t, r)" "now \<le> t" "t \<le> now + ?D"
    using hedge_winner_bounds [OF outs len n] by blast
  show "\<exists>t r. fst (hedge abort_first task after ?mx ctx now) = Some (t, r) \<and> now \<le> t \<and> t \<le> now + ?D"
  proof (cases "aborted_by (cx_signal ctx) now")
    case True
    then show ?thesis using D0 by (auto simp: hedge_def a aborted_by_def split: option.splits)
  next
    case False
    with unless_aborted_bounds [OF w] show ?thesis by (simp add: hedge_def a Let_def)
  qed
qed

text \<open>
  \<open>run.hedge\<close> does not validate its count: with a count that is no integer, a hedge whose
  attempts all fail never settles (unless it is aborted), although every attempt has settled; the
  planner rejects such a count.
\<close>

theorem fractional_hedge_never_settles:
  assumes "parseDuration after = Inr a" and "\<not> integral q" and "1 \<le> q" and "cx_signal ctx = None"
    and "\<And>i s. \<exists>t e. fst (task (ctx\<lparr>cx_attempt := i\<rparr>) s) = Some (t, Inl e)"
  shows "fst (hedge abort_first task after (Fin q) ctx now) = None"
proof -
  let ?outs = "map (fst \<circ> snd) (hedge_runs task a (Fin q) ctx now)"
  have "earliest_success ?outs = None"
  proof (cases "earliest_success ?outs")
    case (Some tv)
    then obtain t v where "earliest_success ?outs = Some (t, v)" by (cases tv) simp
    from earliest_success_Some [OF this] obtain i s where att: "Some (t, Inr v) = fst (task (ctx\<lparr>cx_attempt := i\<rparr>) s)" by (auto simp: hedge_runs_def)
    obtain u e where "fst (task (ctx\<lparr>cx_attempt := i\<rparr>) s) = Some (u, Inl e)" using assms(5) by blast
    with att show ?thesis by simp
  qed simp
  moreover have "q \<noteq> of_nat m" for m using assms(2) integral_of_nat by blast
  then have "all_failed (Fin q) ?outs = None"
    using assms(3) by (cases "q = 1") (simp_all add: all_failed_def Let_def max_def)
  ultimately have "hedge_winner (Fin q) ?outs = None" by (simp add: hedge_winner_def)
  then show ?thesis by (simp add: hedge_def assms(1,4) aborted_by_def unless_aborted_def Let_def)
qed

lemma fractional_hedge_never_settles_witness:
  "fst (hedge True (scripted (\<lambda>_. 5) (\<lambda>_. Inl (PlainError ''down'') :: err + jsval)) (DNum (Fin 10)) (Fin (5 / 2)) root_ctx 0) = None"
proof -
  have p: "parseDuration (DNum (Fin 10)) = Inr 10" by (simp add: MAX_TIMEOUT_MS_def)
  have q: "\<not> integral (5 / 2)" by code_simp
  show ?thesis
    by (rule fractional_hedge_never_settles [OF p q]) (simp_all add: root_ctx_def scripted_def)
qed

end
