(* ===== verification/Run_Groups.thy ===== *)
theory Run_Groups
  imports Run_Tasks
begin

text \<open>
  The combinators of \<open>packages/core/src/run/index.ts\<close> that open a group: \<open>all\<close>, \<open>allSettled\<close>,
  \<open>race\<close>, \<open>any\<close>, \<open>series\<close> and \<open>pool\<close>, over the timed tasks of \<open>Run_Tasks\<close>.

  A group opens a scope below the scope its caller runs in, spawns its tasks there, and returns when
  all of them have settled. The first child that fails (a cancellation other than a timeout is no
  failure) cancels the scope, so the others go on under a signal that fires then. The model first runs
  the children without that signal, which gives every settlement up to the first failure, and runs
  with it those that had not settled (\<open>after_abort\<close>). The children get the
  identifiers \<open>first_id\<close>, \<open>first_id + 1\<close>, \<dots>. Settlements at the same instant are taken in input
  order. What the children report is not part of the result.
\<close>

section \<open>Children of a group\<close>

definition child_ctx :: "signal \<Rightarrow> signal \<Rightarrow> ctx \<Rightarrow> ctx" where
  "child_ctx scope_abort own_abort ctx =
     (let scope_signal = any_signal (cx_scope_signal ctx) scope_abort
      in \<lparr>cx_signal = any_signal scope_signal own_abort, cx_scope_signal = scope_signal,
          cx_deadlineAt = cx_scope_deadlineAt ctx, cx_scope_deadlineAt = cx_scope_deadlineAt ctx,
          cx_attempt = 1, cx_wr = False\<rparr>)"

definition run_children :: "signal \<Rightarrow> (nat \<Rightarrow> signal) \<Rightarrow> 'v task list \<Rightarrow> ctx \<Rightarrow> rat \<Rightarrow> 'v outcome list" where
  "run_children scope_abort own tasks ctx now =
     map (\<lambda>i. fst ((tasks ! i) (child_ctx scope_abort (own i) ctx) now)) [0..<length tasks]"

text \<open>The settlements selected by \<open>sel\<close> with their positions, and the earliest of a list.\<close>

definition settlements :: "(err + 'v \<Rightarrow> 'b option) \<Rightarrow> 'v outcome list \<Rightarrow> (nat \<times> rat \<times> 'b) list" where
  "settlements sel outs =
     List.map_filter (\<lambda>(i, out). case out of None \<Rightarrow> None | Some (t, r) \<Rightarrow> map_option (\<lambda>b. (i, t, b)) (sel r))
       (enumerate 0 outs)"

fun earliest :: "(nat \<times> rat \<times> 'b) list \<Rightarrow> (nat \<times> rat \<times> 'b) option" where
  "earliest [] = None"
| "earliest ((i, t, b) # rest) =
     (case earliest rest of
        None \<Rightarrow> Some (i, t, b)
      | Some (j, u, c) \<Rightarrow> if t \<le> u then Some (i, t, b) else Some (j, u, c))"

definition is_failure :: "err \<Rightarrow> bool" where
  "is_failure e \<longleftrightarrow> \<not> is_cancellation e \<or> is_timeout e"

definition failed_with :: "err + 'v \<Rightarrow> err option" where
  "failed_with r = (case r of Inl e \<Rightarrow> if is_failure e then Some e else None | Inr _ \<Rightarrow> None)"

definition rejected_with :: "err + 'v \<Rightarrow> err option" where
  "rejected_with r = (case r of Inl e \<Rightarrow> Some e | Inr _ \<Rightarrow> None)"

definition succeeded_with :: "err + 'v \<Rightarrow> 'v option" where
  "succeeded_with r = (case r of Inl _ \<Rightarrow> None | Inr v \<Rightarrow> Some v)"

text \<open>An abort at \<open>ta\<close> changes nothing for the tasks that have settled by then.\<close>

definition after_abort :: "rat \<Rightarrow> 'v outcome list \<Rightarrow> 'v outcome list \<Rightarrow> 'v outcome list" where
  "after_abort ta before aborted =
     map2 (\<lambda>b a. case b of Some (t, _) \<Rightarrow> if t \<le> ta then b else a | None \<Rightarrow> a) before aborted"

text \<open>The scope is cancelled by the first failure; \<open>run\<close> runs the children under an abort of it.\<close>

definition sibling_abort :: "nat \<Rightarrow> (signal \<Rightarrow> 'v outcome list) \<Rightarrow> 'v outcome list \<Rightarrow> 'v outcome list" where
  "sibling_abort first_id run outs =
     (case earliest (settlements failed_with outs) of
        None \<Rightarrow> outs
      | Some (i, t, e) \<Rightarrow> after_abort t outs (run (Some (t, CancellationError (RSiblingFailed (first_id + i) e)))))"

text \<open>\<open>scope.close()\<close> returns when every child has settled.\<close>

definition close_time :: "rat \<Rightarrow> 'v outcome list \<Rightarrow> rat option" where
  "close_time now outs =
     (if None \<in> set outs then None else Some (foldl max now (map (fst \<circ> the) outs)))"

definition group_end :: "rat \<Rightarrow> 'v outcome list \<Rightarrow> err + 'r \<Rightarrow> 'r outcome \<times> run_log" where
  "group_end now outs r = (map_option (\<lambda>t. (t, r)) (close_time now outs), [])"

section \<open>all, allSettled\<close>

text \<open>
  \<open>Promise.all\<close>: the first rejection, or all values in input order. The first rejection comes no
  later than the first failure, so it is a settlement of the run without the abort.
\<close>

definition promise_all :: "'v outcome list \<Rightarrow> err + 'v list" where
  "promise_all outs =
     (case earliest (settlements rejected_with outs) of
        Some (_, _, e) \<Rightarrow> Inl e
      | None \<Rightarrow> Inr (List.map_filter (\<lambda>out. Option.bind out (\<lambda>(_, r). succeeded_with r)) outs))"

definition run_all :: "nat \<Rightarrow> 'v task list \<Rightarrow> 'v list task" where
  "run_all first_id tasks ctx now =
     (let run = (\<lambda>abort. run_children abort (\<lambda>_. None) tasks ctx now);
          outs = sibling_abort first_id run (run None)
      in group_end now outs (promise_all (run None)))"

definition settled_of :: "err + 'v \<Rightarrow> 'v settled" where
  "settled_of r =
     (case r of Inr v \<Rightarrow> Fulfilled v
      | Inl e \<Rightarrow> (case err_reason e of Some reason \<Rightarrow> SCancelled reason | None \<Rightarrow> Rejected e))"

definition run_allSettled :: "'v task list \<Rightarrow> 'v settled list task" where
  "run_allSettled tasks ctx now =
     (let outs = run_children None (\<lambda>_. None) tasks ctx now
      in group_end now outs (Inr (map (\<lambda>out. settled_of (snd (the out))) outs)))"

section \<open>race, any\<close>

text \<open>\<open>cancelLosers\<close>: the own signal of every task but the winner fires.\<close>

definition losers_abort :: "nat \<Rightarrow> nat \<Rightarrow> rat \<Rightarrow> nat \<Rightarrow> signal" where
  "losers_abort first_id winner t i =
     (if i = winner then None else Some (t, CancellationError (RRaceLost (first_id + winner))))"

definition run_race :: "nat \<Rightarrow> 'v task list \<Rightarrow> 'v task" where
  "run_race first_id tasks ctx now =
     (if tasks = [] then (Some (now, Inl (WorkAggregateError [] ''run.race requires tasks'')), [])
      else case earliest (settlements Some (run_children None (\<lambda>_. None) tasks ctx now)) of
        None \<Rightarrow> (None, [])
      | Some (winner, t, r) \<Rightarrow>
          let run = (\<lambda>abort. run_children abort (losers_abort first_id winner t) tasks ctx now);
              lost = after_abort t (run_children None (\<lambda>_. None) tasks ctx now) (run None);
              outs = sibling_abort first_id run lost
          in group_end now outs
               (case r of
                  Inl e \<Rightarrow> Inl e
                | Inr v \<Rightarrow> (case earliest (settlements failed_with outs) of Some (_, _, e) \<Rightarrow> Inl e | None \<Rightarrow> Inr v)))"

definition run_any :: "nat \<Rightarrow> 'v task list \<Rightarrow> 'v task" where
  "run_any first_id tasks ctx now =
     (if tasks = [] then (Some (now, Inl (WorkAggregateError [] ''run.any requires tasks'')), [])
      else
        let probe = run_children None (\<lambda>_. None) tasks ctx now
        in case earliest (settlements succeeded_with probe) of
          Some (winner, t, v) \<Rightarrow>
            group_end now
              (after_abort t probe (run_children None (losers_abort first_id winner t) tasks ctx now)) (Inr v)
        | None \<Rightarrow>
            (let errors = map (\<lambda>(_, _, e). e) (sort_key (\<lambda>(_, t, _). t) (settlements rejected_with probe));
                 closed = or_default (close_time now probe) now
             in group_end now probe
                  (case cx_scope_signal ctx of
                     Some (ta, e) \<Rightarrow> if ta \<le> closed then Inl e else Inl (WorkAggregateError errors ''All WorkIt tasks failed'')
                   | None \<Rightarrow> Inl (WorkAggregateError errors ''All WorkIt tasks failed''))))"

section \<open>series, pool\<close>

fun series_loop :: "'v task list \<Rightarrow> ctx \<Rightarrow> rat \<Rightarrow> 'v list outcome" where
  "series_loop [] ctx now = Some (now, Inr [])"
| "series_loop (task # tasks) ctx now =
     (case fst (task (child_ctx None None ctx) now) of
        None \<Rightarrow> None
      | Some (t, Inl e) \<Rightarrow> Some (t, Inl e)
      | Some (t, Inr v) \<Rightarrow> map_option (\<lambda>(u, r). (u, map_sum id (\<lambda>vs. v # vs) r)) (series_loop tasks ctx t))"

definition run_series :: "'v task list \<Rightarrow> 'v list task" where
  "run_series tasks ctx now = (series_loop tasks ctx now, [])"

text \<open>
  The workers of a pool. A worker is free from the time its last task succeeded; it stops when its
  task is rejected, and when the scope no longer runs, because \<open>spawn\<close> then throws. The worker that
  is free first takes the next task.
\<close>

record 'v pool_run =
  pr_index :: nat
  pr_worker :: nat
  pr_start :: rat
  pr_out :: "'v outcome"

definition free_workers :: "rat option list \<Rightarrow> (nat \<times> rat \<times> unit) list" where
  "free_workers frees =
     List.map_filter (\<lambda>(w, free). map_option (\<lambda>t. (w, t, ())) free) (enumerate 0 frees)"

fun pool_loop :: "(nat \<Rightarrow> rat \<Rightarrow> 'v outcome) \<Rightarrow> rat option list \<Rightarrow> rat option \<Rightarrow> nat list \<Rightarrow> 'v pool_run list" where
  "pool_loop start frees failed_at [] = []"
| "pool_loop start frees failed_at (index # rest) =
     (case earliest (free_workers frees) of
        None \<Rightarrow> []
      | Some (w, t, _) \<Rightarrow>
          if (case failed_at of Some f \<Rightarrow> f \<le> t | None \<Rightarrow> False) then []
          else
            let out = start index t;
                free = (case out of Some (u, Inr _) \<Rightarrow> Some u | _ \<Rightarrow> None);
                failed = (case out of
                    Some (u, Inl e) \<Rightarrow>
                      if is_failure e then Some (case failed_at of None \<Rightarrow> u | Some f \<Rightarrow> min f u) else failed_at
                  | _ \<Rightarrow> failed_at)
            in \<lparr>pr_index = index, pr_worker = w, pr_start = t, pr_out = out\<rparr>
                 # pool_loop start (frees[w := free]) failed rest)"

definition pool_workers :: "jsnum \<Rightarrow> 'v task list \<Rightarrow> nat" where
  "pool_workers concurrency tasks = min (num_nat concurrency) (length tasks)"

definition pool_schedule :: "jsnum \<Rightarrow> 'v task list \<Rightarrow> ctx \<Rightarrow> rat \<Rightarrow> 'v pool_run list" where
  "pool_schedule concurrency tasks ctx now =
     pool_loop (\<lambda>i t. fst ((tasks ! i) (child_ctx None None ctx) t))
       (replicate (pool_workers concurrency tasks) (Some now)) None [0..<length tasks]"

definition run_pool :: "nat \<Rightarrow> jsnum \<Rightarrow> 'v task list \<Rightarrow> 'v list task" where
  "run_pool first_id concurrency tasks ctx now =
     (if \<not> is_integer concurrency \<or> concurrency < Fin 1
      then (Some (now, Inl (RangeError ''run.pool positive integer'')), [])
      else
        let runs = pool_schedule concurrency tasks ctx now;
            run = (\<lambda>abort. map (\<lambda>p. fst ((tasks ! pr_index p) (child_ctx abort None ctx) (pr_start p))) runs);
            outs = sibling_abort first_id run (map pr_out runs)
        in group_end now outs (promise_all (map pr_out runs)))"

section \<open>Settlements and the earliest of them\<close>

lemma set_map_filter: "y \<in> set (List.map_filter f xs) \<longleftrightarrow> (\<exists>x \<in> set xs. f x = Some y)"
  by (induction xs) (auto split: option.split)

lemma settlements_iff:
  "(i, t, b) \<in> set (settlements sel outs) \<longleftrightarrow> i < length outs \<and> (\<exists>r. outs ! i = Some (t, r) \<and> sel r = Some b)"
proof -
  have "(i, t, b) \<in> set (settlements sel outs) \<longleftrightarrow>
      (\<exists>out. (i, out) \<in> set (enumerate 0 outs) \<and> (\<exists>r. out = Some (t, r) \<and> sel r = Some b))"
    by (fastforce simp: settlements_def set_map_filter split: option.splits prod.splits)
  also have "\<dots> \<longleftrightarrow> i < length outs \<and> (\<exists>r. outs ! i = Some (t, r) \<and> sel r = Some b)"
    by (auto simp: in_set_enumerate_eq)
  finally show ?thesis .
qed

lemma sorted_map_filter_enumerate:
  assumes "\<And>i x y. f (i, x) = Some y \<Longrightarrow> fst y = i"
  shows "sorted_wrt (\<lambda>x y. fst x < fst y) (List.map_filter f (enumerate n xs)) \<and>
    (\<forall>y \<in> set (List.map_filter f (enumerate n xs)). n \<le> fst y)"
proof (induction xs arbitrary: n)
  case (Cons x xs)
  from Cons [of "Suc n"] show ?case using assms [of n x] by (force split: option.split)
qed simp

lemma settlements_sorted: "sorted_wrt (\<lambda>x y. fst x < fst y) (settlements sel outs)"
  unfolding settlements_def by (rule conjunct1 [OF sorted_map_filter_enumerate]) (auto split: option.splits)

lemma earliest_None [simp]: "earliest xs = None \<longleftrightarrow> xs = []"
  by (induction xs rule: earliest.induct) (auto split: option.splits if_splits)

lemma earliest_iff:
  "sorted_wrt (\<lambda>x y. fst x < fst y) xs \<Longrightarrow>
     earliest xs = Some (i, t, b) \<longleftrightarrow>
       (i, t, b) \<in> set xs \<and> (\<forall>(j, u, c) \<in> set xs. t < u \<or> (t = u \<and> i \<le> j))"
proof (induction xs arbitrary: i t b rule: earliest.induct)
  case (2 j u c rest)
  show ?case
  proof (cases "earliest rest")
    case None
    then show ?thesis by auto
  next
    case (Some x)
    obtain k v d where x: "earliest rest = Some (k, v, d)" using Some by (cases x) auto
    have srt: "sorted_wrt (\<lambda>x y. fst x < fst y) rest" and lt: "\<forall>y \<in> set rest. j < fst y"
      using "2.prems" by auto
    have k: "(k, v, d) \<in> set rest" and least: "\<forall>(j, u, c) \<in> set rest. v < u \<or> (v = u \<and> k \<le> j)"
      using "2.IH" [OF srt, of k v d] x by auto
    show ?thesis
    proof (cases "u \<le> v")
      case True
      have "\<forall>(l, w, e) \<in> set rest. u < w \<or> (u = w \<and> j \<le> l)" using True least lt by fastforce
      moreover have "t < u \<or> t = u \<and> i \<le> j \<Longrightarrow> (i, t, b) \<notin> set rest"
        using True least lt by fastforce
      ultimately show ?thesis using True x by auto
    next
      case False
      then show ?thesis using "2.IH" [OF srt] x k least by auto
    qed
  qed
qed simp

lemma earliest_settlement:
  "earliest (settlements sel outs) = Some (i, t, b) \<longleftrightarrow>
     i < length outs \<and> (\<exists>r. outs ! i = Some (t, r) \<and> sel r = Some b) \<and>
     (\<forall>j u r. j < length outs \<longrightarrow> outs ! j = Some (u, r) \<longrightarrow> sel r \<noteq> None \<longrightarrow> t < u \<or> (t = u \<and> i \<le> j))"
  unfolding earliest_iff [OF settlements_sorted] by (auto simp: settlements_iff Ball_def)

lemma length_run_children [simp]: "length (run_children a own tasks ctx now) = length tasks"
  by (simp add: run_children_def)

lemma nth_run_children [simp]:
  "i < length tasks \<Longrightarrow> run_children a own tasks ctx now ! i = fst ((tasks ! i) (child_ctx a (own i) ctx) now)"
  by (simp add: run_children_def)

section \<open>Bounds\<close>

lemma close_time_bounds:
  assumes "\<And>out. out \<in> set outs \<Longrightarrow> \<exists>t r. out = Some (t, r) \<and> now \<le> t \<and> t \<le> hi" and "now \<le> hi"
  shows "\<exists>T. close_time now outs = Some T \<and> now \<le> T \<and> T \<le> hi"
proof -
  have "\<forall>t \<in> set (map (fst \<circ> the) outs). now \<le> t \<and> t \<le> hi" using assms(1) by fastforce
  from foldl_max_bounds [OF this order_refl assms(2)] assms(1) show ?thesis
    by (auto simp: close_time_def)
qed

lemma bounded_child:
  assumes "bounded_by s d task" and "s \<le> now"
  shows "\<exists>t r. fst (task ctx now) = Some (t, r) \<and> now \<le> t \<and> t \<le> now + d"
  using assms by (simp add: bounded_by_def)

lemma length_after_abort [simp]: "length before = length aborted \<Longrightarrow> length (after_abort t before aborted) = length before"
  by (simp add: after_abort_def)

lemma nth_after_abort:
  "i < length before \<Longrightarrow> length before = length aborted \<Longrightarrow>
     after_abort ta before aborted ! i =
       (case before ! i of Some (t, r) \<Rightarrow> if t \<le> ta then before ! i else aborted ! i | None \<Rightarrow> aborted ! i)"
  by (simp add: after_abort_def)

lemma after_abort_set:
  assumes "length before = length aborted" and "out \<in> set (after_abort t before aborted)"
  shows "out \<in> set before \<or> out \<in> set aborted"
  using assms nth_after_abort [OF _ assms(1)] by (force simp: in_set_conv_nth split: option.splits if_splits)

lemma sibling_abort_set:
  assumes "\<And>abort. length (run abort) = length outs" and "out \<in> set (sibling_abort first_id run outs)"
  shows "out \<in> set outs \<or> (\<exists>abort. out \<in> set (run abort))"
proof (cases "earliest (settlements failed_with outs)")
  case None
  with assms(2) show ?thesis by (simp add: sibling_abort_def)
next
  case (Some x)
  with assms(2) obtain t abort where "out \<in> set (after_abort t outs (run abort))"
    by (cases x) (auto simp: sibling_abort_def)
  from after_abort_set [OF assms(1) [symmetric] this] show ?thesis by blast
qed

lemma children_bounded:
  assumes "\<forall>task \<in> set tasks. bounded_by s d task" and "s \<le> now" and "out \<in> set (run_children abort own tasks ctx now)"
  shows "\<exists>t r. out = Some (t, r) \<and> now \<le> t \<and> t \<le> now + d"
  using assms bounded_child by (fastforce simp: in_set_conv_nth)

lemma all_bounded:
  assumes "\<forall>task \<in> set tasks. bounded_by s d task" and "0 \<le> d"
  shows "bounded_by s d (run_all first_id tasks)"
  unfolding bounded_by_def
proof (intro allI impI)
  fix ctx :: ctx and now
  assume s: "s \<le> now"
  let ?run = "\<lambda>abort. run_children abort (\<lambda>_. None) tasks ctx now"
  have "\<exists>t r. out = Some (t, r) \<and> now \<le> t \<and> t \<le> now + d" if "out \<in> set (sibling_abort first_id ?run (?run None))" for out
    using sibling_abort_set [OF _ that] children_bounded [OF assms(1) s] by auto
  from close_time_bounds [OF this] assms(2)
  show "\<exists>t r. fst (run_all first_id tasks ctx now) = Some (t, r) \<and> now \<le> t \<and> t \<le> now + d"
    by (auto simp: run_all_def group_end_def Let_def)
qed

lemma series_loop_bounded:
  "list_all2 (bounded_by s) ds tasks \<Longrightarrow> s \<le> now \<Longrightarrow>
     \<exists>t r. series_loop tasks ctx now = Some (t, r) \<and> now \<le> t \<and> t \<le> now + sum_list ds"
proof (induction ds tasks arbitrary: now rule: list_all2_induct)
  case (Cons d ds task tasks)
  obtain t r where t: "fst (task (child_ctx None None ctx) now) = Some (t, r)" "now \<le> t" "t \<le> now + d"
    using bounded_child [OF Cons.hyps(1) Cons.prems] by blast
  obtain u q where u: "series_loop tasks ctx t = Some (u, q)" "t \<le> u" "u \<le> t + sum_list ds"
    using Cons.IH [of t] Cons.prems t(2) by auto
  have "0 \<le> sum_list ds" using u by simp
  with t u show ?case by (cases r) auto
qed simp

lemma series_bounded: "list_all2 (bounded_by s) ds tasks \<Longrightarrow> bounded_by s (sum_list ds) (run_series tasks)"
  using series_loop_bounded by (force simp: bounded_by_def run_series_def)

section \<open>The first failure decides\<close>

lemma close_time_SomeD:
  assumes "close_time now outs = Some u"
  shows "now \<le> u" and "out \<in> set outs \<Longrightarrow> \<exists>t r. out = Some (t, r) \<and> t \<le> u"
proof -
  have none: "None \<notin> set outs" and u: "u = foldl max now (map (fst \<circ> the) outs)"
    using assms by (auto simp: close_time_def split: if_splits)
  have fm: "foldl max a ts = Max (insert a (set ts))" for a :: rat and ts
    unfolding foldl_conv_fold list.set(2) [symmetric] Max.set_eq_fold by (simp add: max.commute)
  show "now \<le> u" unfolding u fm by simp
  show "\<exists>t r. out = Some (t, r) \<and> t \<le> u" if "out \<in> set outs"
  proof (cases out)
    case None
    with none that show ?thesis by simp
  next
    case (Some tr)
    then have "fst tr \<in> set (map (fst \<circ> the) outs)" using that by force
    then have "fst tr \<le> u" unfolding u fm by (intro Max_ge) auto
    with Some show ?thesis by (cases tr) auto
  qed
qed

lemma rejected_with_Some [simp]: "rejected_with r = Some e \<longleftrightarrow> r = Inl e"
  by (cases r) (simp_all add: rejected_with_def)

lemma rejected_with_None [simp]: "rejected_with r = None \<longleftrightarrow> (\<exists>v. r = Inr v)"
  by (cases r) (simp_all add: rejected_with_def)

lemma failed_with_Some [simp]: "failed_with r = Some e \<longleftrightarrow> r = Inl e \<and> is_failure e"
  by (cases r) (auto simp: failed_with_def)

lemma failure_is_rejection: "failed_with r \<noteq> None \<Longrightarrow> rejected_with r \<noteq> None"
  by (cases r) (auto simp: failed_with_def)

text \<open>The first rejection comes no later than the first failure, and survives the abort it causes.\<close>

lemma first_rejection_kept:
  assumes first: "earliest (settlements rejected_with outs) = Some (i, t, e)"
    and len: "\<And>abort. length (run abort) = length outs"
  shows "i < length outs" and "sibling_abort first_id run outs ! i = Some (t, Inl e)"
proof -
  have i: "i < length outs" "outs ! i = Some (t, Inl e)"
    and least: "\<And>j u r. j < length outs \<Longrightarrow> outs ! j = Some (u, r) \<Longrightarrow> rejected_with r \<noteq> None \<Longrightarrow> t \<le> u"
    using first unfolding earliest_settlement by fastforce+
  show "i < length outs" by (rule i(1))
  show "sibling_abort first_id run outs ! i = Some (t, Inl e)"
  proof (cases "earliest (settlements failed_with outs)")
    case (Some x)
    obtain j u f where x: "x = (j, u, f)" by (cases x)
    have "earliest (settlements failed_with outs) = Some (j, u, f)" using Some x by simp
    then have "j < length outs" "outs ! j = Some (u, Inl f)" unfolding earliest_settlement by auto
    then have "t \<le> u" using least by simp
    with i len Some x show ?thesis by (simp add: sibling_abort_def nth_after_abort)
  qed (simp add: sibling_abort_def i)
qed

lemma length_sibling_abort:
  "(\<And>abort. length (run abort) = length outs) \<Longrightarrow> length (sibling_abort first_id run outs) = length outs"
  by (auto simp: sibling_abort_def split: option.split)

lemma map_filter_total: "\<forall>x \<in> set xs. f x \<noteq> None \<Longrightarrow> List.map_filter f xs = map (the \<circ> f) xs"
  by (induction xs) (auto split: option.split)

lemma promise_all_values:
  assumes "settlements rejected_with outs = []" and "None \<notin> set outs"
  shows "\<exists>vs. promise_all outs = Inr vs \<and> length vs = length outs \<and>
    (\<forall>i < length outs. \<exists>t. outs ! i = Some (t, Inr (vs ! i)))"
proof -
  let ?f = "\<lambda>out :: 'a outcome. Option.bind out (\<lambda>(_, r). succeeded_with r)"
  have val: "\<exists>t v. outs ! i = Some (t, Inr v)" if i: "i < length outs" for i
  proof -
    have "outs ! i \<in> set outs" using i by simp
    with assms(2) obtain t r where tr: "outs ! i = Some (t, r)" by (cases "outs ! i") auto
    have "rejected_with r = None"
      using assms(1) settlements_iff [of i t _ rejected_with outs] tr i by (cases "rejected_with r") auto
    with tr show ?thesis by auto
  qed
  have "?f x \<noteq> None" if x: "x \<in> set outs" for x
  proof -
    obtain i where "i < length outs" "x = outs ! i" using x unfolding in_set_conv_nth by blast
    then show ?thesis using val [of i] by (auto simp: succeeded_with_def)
  qed
  then have "promise_all outs = Inr (map (the \<circ> ?f) outs)"
    unfolding promise_all_def using assms(1) map_filter_total [of outs ?f] by simp
  moreover have "\<exists>t. outs ! i = Some (t, Inr (map (the \<circ> ?f) outs ! i))" if "i < length outs" for i
    using val [OF that] that by (auto simp: succeeded_with_def)
  ultimately show ?thesis by (intro exI [of _ "map (the \<circ> ?f) outs"]) simp
qed


text \<open>A task that settles with \<open>r\<close> after \<open>d\<close>, or rejects with the reason of its signal when that fires before.\<close>

definition obedient :: "rat \<Rightarrow> err + jsval \<Rightarrow> jsval task" where
  "obedient d r ctx now =
     ((case cx_signal ctx of
         Some (ta, e) \<Rightarrow> if ta < now + d then Some (max now ta, Inl e) else Some (now + d, r)
       | None \<Rightarrow> Some (now + d, r)), [])"


section \<open>What a group's children do not hear\<close>

text \<open>
  A group opened inside a task is a child of the scope the task runs in, not of the task: its
  children run under the scope's signal only. So neither a \<open>run.timeout\<close> around the task nor a
  cancellation of the task itself (a lost race, \<open>handle.cancel\<close>) reaches them: whatever signal the
  task was given, the group does exactly the same.
\<close>

theorem groups_ignore_task_signal:
  shows "run_all first_id tasks (timeout_ctx fires e d ctx) now = run_all first_id tasks ctx now \<and>
    run_allSettled tasks (timeout_ctx fires e d ctx) now = run_allSettled tasks ctx now \<and>
    run_race first_id task1 (ctx\<lparr>cx_signal := sig\<rparr>) now = run_race first_id task1 ctx now \<and>
    run_any first_id task1 (ctx\<lparr>cx_signal := sig\<rparr>) now = run_any first_id task1 ctx now \<and>
    run_series tasks (ctx\<lparr>cx_signal := sig\<rparr>) now = run_series tasks ctx now \<and>
    run_pool first_id c tasks (timeout_ctx fires e d ctx) now = run_pool first_id c tasks ctx now"
proof -
  have child: "child_ctx a own (timeout_ctx fires e d ctx) = child_ctx a own ctx"
    "child_ctx a own (ctx\<lparr>cx_signal := sig\<rparr>) = child_ctx a own ctx" for a own
    by (simp_all add: child_ctx_def timeout_ctx_def)
  have children: "run_children a own ts (timeout_ctx fires e d ctx) now = run_children a own ts ctx now"
    "run_children a own us (ctx\<lparr>cx_signal := sig\<rparr>) now = run_children a own us ctx now"
    for a own and ts :: "'a task list" and us :: "'b task list"
    by (simp_all add: run_children_def child)
  have series: "series_loop ts (ctx\<lparr>cx_signal := sig\<rparr>) s = series_loop ts ctx s" for ts :: "'a task list" and s
    by (induction ts arbitrary: s) (simp_all add: child split: option.split sum.split)
  have any: "cx_scope_signal (ctx\<lparr>cx_signal := sig\<rparr>) = cx_scope_signal ctx" by simp
  show ?thesis
    unfolding run_all_def run_allSettled_def run_race_def run_any_def run_series_def run_pool_def pool_schedule_def
      children child series any by simp
qed

section \<open>A loser's own error\<close>

text \<open>
  \<open>run.race\<close> can lose the winner's value: when the first settlement is a success and a cancelled
  loser then rejects with an ordinary error (its clean-up failed, or its client wraps the abort in an
  error of its own), the group takes that for a failure of its scope and the race rejects with the
  loser's error instead of resolving with the winner's value.
\<close>

theorem race_rejects_with_losers_error:
  assumes "fst (winner (child_ctx None None ctx) now) = Some (t, Inr v)"
    and "\<And>u q. fst (loser (child_ctx None None ctx) now) = Some (u, q) \<Longrightarrow> t < u"
    and "fst (loser (child_ctx None (Some (t, CancellationError (RRaceLost first_id))) ctx) now) = Some (u, Inl e)"
    and "t \<le> u" and "now \<le> u" and "\<not> is_cancellation e"
  shows "fst (run_race first_id [winner, loser] ctx now) = Some (u, Inl e)"
proof -
  let ?lost = "Some (t, CancellationError (RRaceLost first_id))"
  have c0: "run_children None (\<lambda>_. None) [winner, loser] ctx now = [Some (t, Inr v), fst (loser (child_ctx None None ctx) now)]"
    by (simp add: run_children_def assms(1) upt_rec)
  have first: "earliest (settlements Some (run_children None (\<lambda>_. None) [winner, loser] ctx now)) = Some (0, t, Inr v)"
    using assms(2) by (auto simp: earliest_settlement c0 less_Suc_eq_0_disj nth_Cons split: nat.splits)
  have cs: "run_children a (losers_abort first_id 0 t) [winner, loser] ctx now =
      [fst (winner (child_ctx a None ctx) now), fst (loser (child_ctx a ?lost ctx) now)]" for a
    by (simp add: run_children_def losers_abort_def upt_rec)
  have lost: "after_abort t (run_children None (\<lambda>_. None) [winner, loser] ctx now)
      (run_children None (losers_abort first_id 0 t) [winner, loser] ctx now) = [Some (t, Inr v), Some (u, Inl e)]"
    using assms(2,3) unfolding c0 cs by (auto simp: after_abort_def split: option.split)
  have fail: "earliest (settlements failed_with [Some (t, Inr v), Some (u, Inl e)]) = Some (1, u, e)"
    using assms(6) by (auto simp: earliest_settlement less_Suc_eq_0_disj nth_Cons failed_with_def is_failure_def split: nat.splits)
  have outs: "sibling_abort first_id (\<lambda>a. run_children a (losers_abort first_id 0 t) [winner, loser] ctx now)
      [Some (t, Inr v), Some (u, Inl e)] = [Some (t, Inr v), Some (u, Inl e)]"
    using assms(4) unfolding sibling_abort_def fail cs by (simp add: after_abort_def)
  show ?thesis
    unfolding run_race_def first using lost outs fail assms(4,5) by (simp add: Let_def group_end_def close_time_def max_def)
qed

definition stubborn :: "jsval task" where
  "stubborn ctx now =
     ((case cx_signal ctx of
         Some (ta, e) \<Rightarrow> if ta < now + 100 then Some (max now ta + 1, Inl (PlainError ''socket closed'')) else Some (now + 100, Inr VNull)
       | None \<Rightarrow> Some (now + 100, Inr VNull)), [])"

lemma race_rejects_with_losers_error_witness:
  "fst (run_race 3 [obedient 5 (Inr (VStr ''won'')), stubborn] root_ctx 0) = Some (6, Inl (PlainError ''socket closed''))"
  by (rule race_rejects_with_losers_error [where t = 5 and v = "VStr ''won''"])
     (simp_all add: obedient_def stubborn_def child_ctx_def root_ctx_def any_signal_def)

section \<open>Pools\<close>

lemma free_workers_iff: "(w, t, x) \<in> set (free_workers frees) \<longleftrightarrow> w < length frees \<and> frees ! w = Some t"
proof -
  have "(w, t, x) \<in> set (free_workers frees) \<longleftrightarrow> (\<exists>free. (w, free) \<in> set (enumerate 0 frees) \<and> free = Some t)"
    by (auto simp: free_workers_def set_map_filter Bex_def)
  then show ?thesis by (auto simp: in_set_enumerate_eq)
qed

lemma free_workers_sorted: "sorted_wrt (\<lambda>x y. fst x < fst y) (free_workers frees)"
  unfolding free_workers_def by (rule conjunct1 [OF sorted_map_filter_enumerate]) auto

lemma next_worker:
  assumes "earliest (free_workers frees) = Some (w, t, x)"
  shows "w < length frees" and "frees ! w = Some t" and "v < length frees \<Longrightarrow> frees ! v = Some f \<Longrightarrow> t \<le> f"
proof -
  note e = assms [unfolded earliest_iff [OF free_workers_sorted]]
  show "w < length frees" "frees ! w = Some t" using e free_workers_iff by blast+
  show "t \<le> f" if "v < length frees" "frees ! v = Some f"
  proof -
    have "(v, f, x) \<in> set (free_workers frees)" using that free_workers_iff by blast
    with e show ?thesis by fastforce
  qed
qed

text \<open>A step of the loop: it stops, or one worker takes the next task at its free time.\<close>

lemma pool_loop_Cons:
  obtains "pool_loop start frees failed_at (index # rest) = []"
  | w t failed where "earliest (free_workers frees) = Some (w, t, ())"
    and "pool_loop start frees failed_at (index # rest) =
      \<lparr>pr_index = index, pr_worker = w, pr_start = t, pr_out = start index t\<rparr> #
      pool_loop start (frees[w := (case start index t of Some (u, Inr _) \<Rightarrow> Some u | _ \<Rightarrow> None)]) failed rest"
proof (cases "earliest (free_workers frees)")
  case (Some x)
  obtain w t where "x = (w, t, ())" by (cases x) auto
  with Some that show ?thesis
    by (cases "case failed_at of Some f \<Rightarrow> f \<le> t | None \<Rightarrow> False") (auto simp: Let_def)
qed (use that in simp)

lemma pool_loop_index: "\<exists>n. map pr_index (pool_loop start frees failed_at idx) = take n idx"
proof (induction idx arbitrary: frees failed_at)
  case (Cons index rest)
  show ?case
  proof (cases rule: pool_loop_Cons [of start frees failed_at index rest])
    case 1
    then show ?thesis by (intro exI [of _ 0]) simp
  next
    case (2 w t failed)
    let ?frees = "frees[w := (case start index t of Some (u, Inr _) \<Rightarrow> Some u | _ \<Rightarrow> None)]"
    obtain n where "map pr_index (pool_loop start ?frees failed rest) = take n rest"
      using Cons.IH by blast
    with 2 show ?thesis by (intro exI [of _ "Suc n"]) simp
  qed
qed simp

lemma pool_loop_workers:
  assumes later: "\<And>i t u r. start i t = Some (u, r) \<Longrightarrow> t \<le> u"
  shows "q \<in> set (pool_loop start frees failed_at idx) \<Longrightarrow>
     pr_worker q < length frees \<and> (\<exists>f. frees ! pr_worker q = Some f \<and> f \<le> pr_start q)"
proof (induction idx arbitrary: frees failed_at)
  case (Cons index rest)
  show ?case
  proof (cases rule: pool_loop_Cons [of start frees failed_at index rest])
    case (2 w t failed)
    let ?free = "case start index t of Some (u, Inr _) \<Rightarrow> Some u | _ \<Rightarrow> None"
    note w = next_worker [OF 2(1)]
    show ?thesis
    proof (cases "q \<in> set (pool_loop start (frees[w := ?free]) failed rest)")
      case True
      from Cons.IH [OF this] obtain f
        where f: "pr_worker q < length frees" "frees[w := ?free] ! pr_worker q = Some f" "f \<le> pr_start q" by auto
      have "t \<le> f" if "pr_worker q = w"
        using that f w(1) later by (auto split: option.splits sum.splits)
      with f w show ?thesis by (cases "pr_worker q = w") auto
    next
      case False
      with Cons.prems 2 w show ?thesis by auto
    qed
  qed (use Cons.prems in simp)
qed simp

text \<open>Consecutive runs: starts do not decrease, and a worker starts a task when its last one has succeeded.\<close>

definition run_after :: "'v pool_run \<Rightarrow> 'v pool_run \<Rightarrow> bool" where
  "run_after p q \<longleftrightarrow> pr_start p \<le> pr_start q \<and>
     (pr_worker p = pr_worker q \<longrightarrow> (\<exists>u v. pr_out p = Some (u, Inr v) \<and> u \<le> pr_start q))"

lemma pool_loop_ordered:
  assumes later: "\<And>i t u r. start i t = Some (u, r) \<Longrightarrow> t \<le> u"
  shows "sorted_wrt run_after (pool_loop start frees failed_at idx)"
proof (induction idx arbitrary: frees failed_at)
  case (Cons index rest)
  show ?case
  proof (cases rule: pool_loop_Cons [of start frees failed_at index rest])
    case (2 w t failed)
    let ?free = "case start index t of Some (u, Inr _) \<Rightarrow> Some u | _ \<Rightarrow> None"
    let ?p = "\<lparr>pr_index = index, pr_worker = w, pr_start = t, pr_out = start index t\<rparr>"
    note w = next_worker [OF 2(1)]
    have "run_after ?p q" if q: "q \<in> set (pool_loop start (frees[w := ?free]) failed rest)" for q
    proof -
      obtain f where f: "pr_worker q < length frees" "frees[w := ?free] ! pr_worker q = Some f" "f \<le> pr_start q"
        using pool_loop_workers [of start, OF _ q] later by auto
      show ?thesis
      proof (cases "pr_worker q = w")
        case True
        with f w(1) obtain v where "start index t = Some (f, Inr v)" by (auto split: option.splits sum.splits)
        with True f(3) later show ?thesis by (fastforce simp: run_after_def)
      next
        case False
        with f have "frees ! pr_worker q = Some f" by simp
        from w(3) [OF f(1) this] f(3) False show ?thesis by (simp add: run_after_def)
      qed
    qed
    with Cons.IH 2 show ?thesis by simp
  qed simp
qed simp

definition running_at :: "rat \<Rightarrow> 'v pool_run \<Rightarrow> bool" where
  "running_at t p \<longleftrightarrow> pr_start p \<le> t \<and> (case pr_out p of Some (u, _) \<Rightarrow> t < u | None \<Rightarrow> True)"

lemma running_distinct_workers: "sorted_wrt run_after runs \<Longrightarrow> distinct (map pr_worker (filter (running_at t) runs))"
  by (induction runs) (fastforce simp: run_after_def running_at_def)+

text \<open>
  C24: A pool of width \<open>k\<close> never runs more than \<open>k\<close> tasks at once, starts its tasks in input order
  without skipping or repeating one, and starts them at non-decreasing times.
\<close>

theorem pool_bounds_concurrency:
  assumes "\<And>i ctx s u r. i < length tasks \<Longrightarrow> fst ((tasks ! i) ctx s) = Some (u, r) \<Longrightarrow> s \<le> u"
    and "runs = pool_schedule (Fin (of_nat k)) tasks ctx now"
  shows "length (filter (running_at t) runs) \<le> k \<and> map pr_index runs = [0..<length runs] \<and> sorted (map pr_start runs)"
proof -
  let ?start = "\<lambda>i s. if i < length tasks then fst ((tasks ! i) (child_ctx None None ctx) s) else None"
  let ?frees = "replicate (min k (length tasks)) (Some now)"
  have cong: "pool_loop (\<lambda>i s. fst ((tasks ! i) (child_ctx None None ctx) s)) frees f idx = pool_loop ?start frees f idx"
    if "\<forall>i \<in> set idx. i < length tasks" for frees f idx
    using that
  proof (induction idx arbitrary: frees f)
    case (Cons i idx)
    then have "pool_loop (\<lambda>i s. fst ((tasks ! i) (child_ctx None None ctx) s)) frees f idx = pool_loop ?start frees f idx" for frees f
      by simp
    with Cons.prems show ?case by (simp add: Let_def split: option.split)
  qed simp
  have runs: "runs = pool_loop ?start ?frees None [0..<length tasks]"
    unfolding assms(2) pool_schedule_def pool_workers_def using cong by simp
  have later: "t \<le> u" if "?start i t = Some (u, r)" for i t u r
    using that assms(1) by (auto split: if_splits)
  have ord: "sorted_wrt run_after runs" unfolding runs by (rule pool_loop_ordered [OF later])
  let ?ws = "map pr_worker (filter (running_at t) runs)"
  have "set ?ws \<subseteq> {..<k}" using pool_loop_workers [OF later] runs by fastforce
  then have "card (set ?ws) \<le> k" using card_mono [of "{..<k}"] by fastforce
  then have "length (filter (running_at t) runs) \<le> k"
    using distinct_card [OF running_distinct_workers [OF ord, of t]] by simp
  moreover obtain n where n: "map pr_index runs = take n [0..<length tasks]" unfolding runs using pool_loop_index by blast
  have "length runs = min n (length tasks)" using arg_cong [OF n, of length] by simp
  with n have "map pr_index runs = [0..<length runs]" by (auto simp: take_upt min_def)
  moreover have "sorted (map pr_start runs)"
    unfolding sorted_map by (rule sorted_wrt_mono_rel [OF _ ord]) (simp add: run_after_def)
  ultimately show ?thesis by blast
qed

lemma pool_bounds_concurrency_witness:
  "length (filter (running_at 7) (pool_schedule (Fin (of_nat 2)) (replicate 3 (slow_task 5)) root_ctx 0)) \<le> 2"
  by (rule conjunct1 [OF pool_bounds_concurrency [OF _ refl]]) (auto simp: slow_task_def nth_Cons' numeral_3_eq_3 split: if_splits)

end
