(* ===== verification/Breaker.thy ===== *)
theory Breaker
  imports Retry
begin

text \<open>
  The circuit breaker of \<open>packages/core/src/run/index.ts\<close> (\<open>circuitBreaker\<close>).

  The variables the wrapper closes over are the record \<open>breaker\<close>. A call of the wrapped task is
  two operations, since other calls may run between them: \<open>admit_call\<close> up to the point where the
  task is called, which refuses the call or hands out the epoch the call remembers, and
  \<open>settle_call\<close> when the task has settled. \<open>breaker_step\<close> is any interleaving of them, with the
  epochs of the calls in flight and the clock as part of the state.
\<close>

section \<open>State and operations\<close>

datatype circuit = Closed | Opened | HalfOpen

record breaker_opts =
  br_failureThreshold :: jsnum
  br_resetAfter :: duration
  br_halfOpenMaxCalls :: "jsnum option"

record breaker =
  br_state :: circuit
  br_failures :: nat
  br_openedUntil :: rat
  br_epoch :: nat
  br_admitted :: nat

definition maxHalfOpenCalls :: "breaker_opts \<Rightarrow> jsnum" where
  "maxHalfOpenCalls opts = or_default (br_halfOpenMaxCalls opts) (Fin 1)"

text \<open>\<open>circuitBreaker\<close> parses the reset time when the wrapper is built.\<close>

definition circuitBreaker :: "breaker_opts \<Rightarrow> err + rat \<times> breaker" where
  "circuitBreaker opts =
     bind_res (parseDuration (br_resetAfter opts)) (\<lambda>resetAfterMs.
       Inr (resetAfterMs, \<lparr>br_state = Closed, br_failures = 0, br_openedUntil = 0, br_epoch = 0, br_admitted = 0\<rparr>))"

definition br_open :: "rat \<Rightarrow> rat \<Rightarrow> breaker \<Rightarrow> breaker" where
  "br_open resetAfterMs now b = b\<lparr>br_state := Opened, br_openedUntil := now + resetAfterMs\<rparr>"

definition br_close :: "breaker \<Rightarrow> breaker" where
  "br_close b = b\<lparr>br_state := Closed, br_failures := 0\<rparr>"

definition br_halfOpen :: "breaker \<Rightarrow> breaker" where
  "br_halfOpen b = b\<lparr>br_state := HalfOpen, br_epoch := br_epoch b + 1, br_admitted := 0\<rparr>"

definition admit_call :: "breaker_opts \<Rightarrow> rat \<Rightarrow> breaker \<Rightarrow> breaker \<times> (err + nat)" where
  "admit_call opts now b =
     (if br_state b = Opened \<and> now < br_openedUntil b then (b, Inl (PlainError ''Circuit open''))
      else
        let b1 = (if br_state b = Opened then br_halfOpen b else b)
        in if br_state b1 = HalfOpen \<and> maxHalfOpenCalls opts \<le> Fin (of_nat (br_admitted b1))
           then (b1, Inl (PlainError ''Circuit half-open''))
           else if br_state b1 = HalfOpen
             then (b1\<lparr>br_admitted := br_admitted b1 + 1\<rparr>, Inr (br_epoch b1))
             else (b1, Inr 0))"

definition settle_call :: "breaker_opts \<Rightarrow> rat \<Rightarrow> rat \<Rightarrow> nat \<Rightarrow> err + 'v \<Rightarrow> breaker \<Rightarrow> breaker" where
  "settle_call opts resetAfterMs now halfOpenEpoch res b =
     (case res of
        Inr _ \<Rightarrow>
          if 0 < halfOpenEpoch
          then (if br_state b = HalfOpen \<and> br_epoch b = halfOpenEpoch then br_close b else b)
          else if br_state b = Closed then br_close b else b
      | Inl e \<Rightarrow>
          if is_cancellation e then b
          else if 0 < halfOpenEpoch
          then (if halfOpenEpoch = br_epoch b then br_open resetAfterMs now b else b)
          else if br_state b = Closed
          then (let b1 = b\<lparr>br_failures := br_failures b + 1\<rparr>
                in if br_failureThreshold opts \<le> Fin (of_nat (br_failures b1))
                   then br_open resetAfterMs now b1 else b1)
          else b)"

text \<open>A call that runs alone.\<close>

definition breaker_call :: "breaker_opts \<Rightarrow> rat \<Rightarrow> rat \<Rightarrow> rat \<Rightarrow> err + 'v \<Rightarrow> breaker \<Rightarrow> breaker \<times> (err + 'v)" where
  "breaker_call opts resetAfterMs now end_time res b =
     (case admit_call opts now b of
        (b1, Inl e) \<Rightarrow> (b1, Inl e)
      | (b1, Inr ep) \<Rightarrow> (settle_call opts resetAfterMs end_time ep res b1, res))"

section \<open>Interleavings\<close>

record breaker_world =
  bw_breaker :: breaker
  bw_flight :: "nat list"
  bw_now :: rat

datatype breaker_op = BTick rat | BAdmit | BSettle nat "err + jsval"

definition breaker_enabled :: "breaker_op \<Rightarrow> breaker_world \<Rightarrow> bool" where
  "breaker_enabled bop w = (case bop of BTick d \<Rightarrow> 0 \<le> d | BAdmit \<Rightarrow> True | BSettle i _ \<Rightarrow> i < length (bw_flight w))"

definition apply_breaker :: "breaker_opts \<Rightarrow> rat \<Rightarrow> breaker_op \<Rightarrow> breaker_world \<Rightarrow> breaker_world" where
  "apply_breaker opts resetAfterMs bop w =
     (case bop of
        BTick d \<Rightarrow> w\<lparr>bw_now := bw_now w + d\<rparr>
      | BAdmit \<Rightarrow>
          (case admit_call opts (bw_now w) (bw_breaker w) of
             (b, Inl _) \<Rightarrow> w\<lparr>bw_breaker := b\<rparr>
           | (b, Inr ep) \<Rightarrow> w\<lparr>bw_breaker := b, bw_flight := bw_flight w @ [ep]\<rparr>)
      | BSettle i res \<Rightarrow>
          w\<lparr>bw_breaker := settle_call opts resetAfterMs (bw_now w) (bw_flight w ! i) res (bw_breaker w),
            bw_flight := take i (bw_flight w) @ drop (Suc i) (bw_flight w)\<rparr>)"

definition breaker_step :: "breaker_opts \<Rightarrow> rat \<Rightarrow> breaker_world \<Rightarrow> breaker_world \<Rightarrow> bool" where
  "breaker_step opts resetAfterMs w w' \<longleftrightarrow>
     (\<exists>bop. breaker_enabled bop w \<and> w' = apply_breaker opts resetAfterMs bop w)"

definition breaker_init :: "breaker_opts \<Rightarrow> rat \<Rightarrow> breaker_world \<Rightarrow> bool" where
  "breaker_init opts resetAfterMs w \<longleftrightarrow>
     circuitBreaker opts = Inr (resetAfterMs, bw_breaker w) \<and> bw_flight w = []"

lemmas breaker_defs = admit_call_def settle_call_def br_open_def br_close_def br_halfOpen_def Let_def

section \<open>Invariant\<close>

abbreviation in_flight :: "nat \<Rightarrow> breaker_world \<Rightarrow> nat" where
  "in_flight ep w \<equiv> length (filter (\<lambda>x. x = ep) (bw_flight w))"

definition breaker_inv :: "breaker_opts \<Rightarrow> nat \<Rightarrow> nat \<Rightarrow> breaker_world \<Rightarrow> bool" where
  "breaker_inv opts threshold k w \<longleftrightarrow>
     (br_state (bw_breaker w) = HalfOpen \<longrightarrow> 0 < br_epoch (bw_breaker w)) \<and>
     (\<forall>ep \<in> set (bw_flight w). ep \<le> br_epoch (bw_breaker w)) \<and>
     (0 < br_epoch (bw_breaker w) \<longrightarrow> in_flight (br_epoch (bw_breaker w)) w \<le> br_admitted (bw_breaker w)) \<and>
     br_admitted (bw_breaker w) \<le> k \<and>
     (br_state (bw_breaker w) = Closed \<longrightarrow> br_failures (bw_breaker w) < threshold)"

lemma filter_take_drop_le:
  "length (filter P (take i xs @ drop (Suc i) xs)) \<le> length (filter P xs)"
proof (cases "i < length xs")
  case True
  then have "xs = take i xs @ xs ! i # drop (Suc i) xs" by (rule id_take_nth_drop)
  then have "length (filter P xs) = length (filter P (take i xs @ xs ! i # drop (Suc i) xs))" by simp
  then show ?thesis by simp
qed simp

lemma admit_call_inv:
  assumes inv: "breaker_inv opts threshold k w" and m: "maxHalfOpenCalls opts = Fin (of_nat k)" and k: "1 \<le> k"
  shows "breaker_inv opts threshold k (apply_breaker opts r BAdmit w)"
proof -
  have none: "in_flight (Suc (br_epoch (bw_breaker w))) w = 0"
    using inv by (auto simp: breaker_inv_def filter_empty_conv)
  show ?thesis
    using inv k none
    by (cases "br_state (bw_breaker w)") (auto simp: breaker_inv_def apply_breaker_def breaker_defs m)
qed

lemma settle_call_fields:
  "br_epoch (settle_call opts r now ep res b) = br_epoch b"
  "br_admitted (settle_call opts r now ep res b) = br_admitted b"
  "br_state (settle_call opts r now ep res b) = HalfOpen \<Longrightarrow> br_state b = HalfOpen"
  by (auto simp: breaker_defs split: sum.splits if_splits)

lemma settle_call_failures:
  assumes "br_state b = Closed \<longrightarrow> br_failures b < threshold" and "br_failureThreshold opts = Fin (of_nat threshold)"
    and "1 \<le> threshold" and "br_state (settle_call opts r now ep res b) = Closed"
  shows "br_failures (settle_call opts r now ep res b) < threshold"
  using assms by (auto simp: breaker_defs split: sum.splits if_splits)

lemma breaker_inv_step:
  assumes inv: "breaker_inv opts threshold k w" and step: "breaker_step opts r w w'"
    and m: "maxHalfOpenCalls opts = Fin (of_nat k)" and k: "1 \<le> k"
    and th: "br_failureThreshold opts = Fin (of_nat threshold)" and t: "1 \<le> threshold"
  shows "breaker_inv opts threshold k w'"
proof -
  obtain bop where b: "breaker_enabled bop w" "w' = apply_breaker opts r bop w"
    using step by (auto simp: breaker_step_def)
  show ?thesis
  proof (cases bop)
    case (BTick d)
    with inv b show ?thesis by (simp add: breaker_inv_def apply_breaker_def)
  next
    case BAdmit
    with admit_call_inv [OF inv m k] b show ?thesis by simp
  next
    case (BSettle i res)
    let ?b = "settle_call opts r (bw_now w) (bw_flight w ! i) res (bw_breaker w)"
    have w': "bw_breaker w' = ?b" "bw_flight w' = take i (bw_flight w) @ drop (Suc i) (bw_flight w)"
      using b BSettle by (simp_all add: apply_breaker_def)
    have "set (bw_flight w') \<subseteq> set (bw_flight w)"
      unfolding w' by (auto dest: in_set_takeD in_set_dropD)
    moreover have "in_flight ep w' \<le> in_flight ep w" for ep unfolding w' by (rule filter_take_drop_le)
    moreover have "br_failures ?b < threshold" if "br_state ?b = Closed"
      using settle_call_failures [OF _ th t that] inv by (simp add: breaker_inv_def)
    ultimately show ?thesis
      using inv settle_call_fields(3) unfolding breaker_inv_def w' settle_call_fields(1,2)
      by (meson order_trans subsetD)
  qed
qed

lemma breaker_inv_init:
  assumes "breaker_init opts r w" and "1 \<le> threshold"
  shows "breaker_inv opts threshold k w"
proof -
  have "bw_breaker w = \<lparr>br_state = Closed, br_failures = 0, br_openedUntil = 0, br_epoch = 0, br_admitted = 0\<rparr>"
    using assms by (auto simp: breaker_init_def circuitBreaker_def res_simps)
  then show ?thesis using assms by (simp add: breaker_inv_def breaker_init_def)
qed

text \<open>Counts as the options document them: positive integers.\<close>

definition breaker_counts :: "breaker_opts \<Rightarrow> nat \<Rightarrow> nat \<Rightarrow> bool" where
  "breaker_counts opts threshold k \<longleftrightarrow>
     br_failureThreshold opts = Fin (of_nat threshold) \<and> 1 \<le> threshold \<and>
     maxHalfOpenCalls opts = Fin (of_nat k) \<and> 1 \<le> k"

interpretation circuit: invariant_system
  "breaker_init opts r" "breaker_step opts r"
  "\<lambda>w. breaker_counts opts threshold k \<longrightarrow> breaker_inv opts threshold k w"
  for opts r threshold k
  by unfold_locales (auto intro: breaker_inv_init breaker_inv_step simp: breaker_counts_def)

section \<open>Properties\<close>

text \<open>
  C18: However calls interleave, the breaker protects the task: while it is open every call before
  the reset time is refused, and while it is half-open no more than \<open>halfOpenMaxCalls\<close> calls of the
  current epoch have been admitted, so at most that many probes are in flight; and it is open as
  soon as the threshold is reached, for a closed breaker has fewer failures than that.
\<close>

theorem breaker_admission:
  assumes "reachable (breaker_init opts r) (breaker_step opts r) w" and "breaker_counts opts threshold k"
  shows "(br_state (bw_breaker w) = Opened \<and> bw_now w < br_openedUntil (bw_breaker w) \<longrightarrow>
      admit_call opts (bw_now w) (bw_breaker w) = (bw_breaker w, Inl (PlainError ''Circuit open''))) \<and>
    (br_state (bw_breaker w) = HalfOpen \<longrightarrow>
      in_flight (br_epoch (bw_breaker w)) w \<le> br_admitted (bw_breaker w) \<and> br_admitted (bw_breaker w) \<le> k) \<and>
    (br_state (bw_breaker w) = Closed \<longrightarrow> br_failures (bw_breaker w) < threshold)"
  using circuit.reachable_inv [OF assms(1), of threshold k] assms(2)
  by (simp add: admit_call_def breaker_inv_def)

definition demo_breaker :: breaker_opts where
  "demo_breaker = \<lparr>br_failureThreshold = Fin 2, br_resetAfter = DNum (Fin 100), br_halfOpenMaxCalls = None\<rparr>"

primrec run_breaker :: "breaker_opts \<Rightarrow> rat \<Rightarrow> breaker_op list \<Rightarrow> breaker_world \<Rightarrow> breaker_world option" where
  "run_breaker opts r [] w = Some w"
| "run_breaker opts r (bop # bops) w =
     (if breaker_enabled bop w then run_breaker opts r bops (apply_breaker opts r bop w) else None)"

lemma run_breaker_reachable:
  "run_breaker opts r bops w = Some w' \<Longrightarrow> reachable (breaker_init opts r) (breaker_step opts r) w \<Longrightarrow>
     reachable (breaker_init opts r) (breaker_step opts r) w'"
  by (induction bops arbitrary: w)
     (auto split: if_splits intro: reach_step simp: breaker_step_def, metis breaker_step_def reach_step)

definition idle_breaker :: breaker_world where
  "idle_breaker = \<lparr>bw_breaker = \<lparr>br_state = Closed, br_failures = 0, br_openedUntil = 0, br_epoch = 0, br_admitted = 0\<rparr>,
     bw_flight = [], bw_now = 0\<rparr>"

lemma idle_breaker_reachable: "reachable (breaker_init demo_breaker 100) (breaker_step demo_breaker 100) idle_breaker"
  by (rule reach_init) (simp add: breaker_init_def circuitBreaker_def demo_breaker_def idle_breaker_def MAX_TIMEOUT_MS_def)

lemma demo_counts: "breaker_counts demo_breaker 2 1"
  by (simp add: breaker_counts_def demo_breaker_def maxHalfOpenCalls_def or_default_def)

text \<open>Two failures open the demonstration breaker; after the reset time a probe is admitted.\<close>

definition probing :: "breaker_op list" where
  "probing = [BAdmit, BSettle 0 (Inl (PlainError ''down'')), BAdmit, BSettle 0 (Inl (PlainError ''down'')),
     BTick 100, BAdmit]"

definition probing_world :: breaker_world where
  "probing_world = \<lparr>bw_breaker = \<lparr>br_state = HalfOpen, br_failures = 2, br_openedUntil = 100, br_epoch = 1, br_admitted = 1\<rparr>,
     bw_flight = [1], bw_now = 100\<rparr>"

lemma probing_run: "run_breaker demo_breaker 100 probing idle_breaker = Some probing_world"
  by (simp add: probing_def idle_breaker_def probing_world_def breaker_enabled_def apply_breaker_def breaker_defs
    demo_breaker_def maxHalfOpenCalls_def or_default_def)

lemma breaker_admission_witness:
  "in_flight (br_epoch (bw_breaker probing_world)) probing_world \<le> br_admitted (bw_breaker probing_world) \<and>
   br_admitted (bw_breaker probing_world) \<le> 1"
  using breaker_admission [OF run_breaker_reachable [OF probing_run idle_breaker_reachable] demo_counts]
  by (simp add: probing_world_def)

text \<open>Nobody will free a slot of the current epoch.\<close>

definition wedged :: "breaker_opts \<Rightarrow> breaker_world \<Rightarrow> bool" where
  "wedged opts w \<longleftrightarrow> br_state (bw_breaker w) = HalfOpen \<and> 0 < br_epoch (bw_breaker w) \<and>
     maxHalfOpenCalls opts \<le> Fin (of_nat (br_admitted (bw_breaker w))) \<and> br_epoch (bw_breaker w) \<notin> set (bw_flight w)"


lemma wedged_refuses:
  "wedged opts w \<Longrightarrow> admit_call opts now (bw_breaker w) = (bw_breaker w, Inl (PlainError ''Circuit half-open''))"
  by (simp add: wedged_def admit_call_def Let_def)

lemma wedged_step:
  assumes w: "wedged opts w" and step: "breaker_step opts r w w'"
  shows "wedged opts w'"
proof -
  obtain bop where b: "breaker_enabled bop w" "w' = apply_breaker opts r bop w"
    using step by (auto simp: breaker_step_def)
  show ?thesis
  proof (cases bop)
    case (BSettle i res)
    then have "bw_flight w ! i \<in> set (bw_flight w)" using b by (simp add: breaker_enabled_def)
    with w have "bw_flight w ! i \<noteq> br_epoch (bw_breaker w)" by (auto simp: wedged_def)
    with w have "settle_call opts r (bw_now w) (bw_flight w ! i) res (bw_breaker w) = bw_breaker w"
      by (auto simp: wedged_def settle_call_def split: sum.split)
    with w b BSettle show ?thesis
      by (auto simp: wedged_def apply_breaker_def dest: in_set_takeD in_set_dropD)
  qed (use b w wedged_refuses [OF w] in \<open>simp_all add: apply_breaker_def wedged_def\<close>)
qed

lemma wedged_steps: "(breaker_step opts r)\<^sup>*\<^sup>* w w' \<Longrightarrow> wedged opts w \<Longrightarrow> wedged opts w'"
  by (induction rule: rtranclp_induct) (blast intro: wedged_step)+

text \<open>
  A half-open breaker whose probe was cancelled is stuck: a cancelled call returns its slot to
  nobody and changes no state, so when the slots of the epoch are used up and the last probe of it
  is cancelled, every later call is refused, at any time, and no sequence of further calls,
  settlements and waiting changes that.
\<close>

theorem cancelled_probe_wedges_breaker:
  assumes "br_state (bw_breaker w) = HalfOpen" and "0 < br_epoch (bw_breaker w)"
    and "maxHalfOpenCalls opts \<le> Fin (of_nat (br_admitted (bw_breaker w)))"
    and "bw_flight w = [br_epoch (bw_breaker w)]" and "is_cancellation e"
    and "(breaker_step opts r)\<^sup>*\<^sup>* (apply_breaker opts r (BSettle 0 (Inl e)) w) w'"
  shows "admit_call opts now (bw_breaker w') = (bw_breaker w', Inl (PlainError ''Circuit half-open''))"
proof (rule wedged_refuses [OF wedged_steps [OF assms(6)]])
  show "wedged opts (apply_breaker opts r (BSettle 0 (Inl e)) w)"
    using assms(1-5) by (simp add: wedged_def apply_breaker_def settle_call_def)
qed

lemma cancelled_probe_wedges_breaker_witness:
  "\<forall>now. snd (admit_call demo_breaker now (bw_breaker
     (apply_breaker demo_breaker 100 (BSettle 0 (Inl (TimeoutError 5))) probing_world))) =
     Inl (PlainError ''Circuit half-open'')"
proof
  fix now
  show "snd (admit_call demo_breaker now (bw_breaker
     (apply_breaker demo_breaker 100 (BSettle 0 (Inl (TimeoutError 5))) probing_world))) =
     Inl (PlainError ''Circuit half-open'')"
    by (subst cancelled_probe_wedges_breaker [where w = probing_world and e = "TimeoutError 5" and r = 100])
       (simp_all add: probing_world_def maxHalfOpenCalls_def demo_breaker_def or_default_def)
qed

fun call_all :: "breaker_opts \<Rightarrow> rat \<Rightarrow> (rat \<times> err) list \<Rightarrow> breaker \<Rightarrow> breaker" where
  "call_all opts r [] b = b"
| "call_all opts r ((t, e) # calls) b =
     call_all opts r calls (fst (breaker_call opts r t t (Inl e :: err + jsval) b))"

abbreviation count_failures :: "(rat \<times> err) list \<Rightarrow> nat" where
  "count_failures calls \<equiv> length (filter (\<lambda>(t, e). \<not> is_cancellation e) calls)"

lemma call_all_append: "call_all opts r (xs @ ys) b = call_all opts r ys (call_all opts r xs b)"
  by (induction opts r xs b rule: call_all.induct) simp_all

lemma call_all_below:
  assumes "br_failureThreshold opts = Fin (of_nat threshold)"
  shows "br_state b = Closed \<Longrightarrow> br_failures b + count_failures calls < threshold \<Longrightarrow>
     call_all opts r calls b = b\<lparr>br_failures := br_failures b + count_failures calls\<rparr>"
proof (induction calls arbitrary: b)
  case (Cons c calls)
  obtain t e where c: "c = (t, e)" by (cases c)
  show ?case
  proof (cases "is_cancellation e")
    case True
    with Cons c show ?thesis by (simp add: breaker_call_def breaker_defs)
  next
    case False
    then have "fst (breaker_call opts r t t (Inl e :: err + jsval) b) = b\<lparr>br_failures := br_failures b + 1\<rparr>"
      using Cons.prems c by (simp add: breaker_call_def breaker_defs assms)
    with Cons.IH [of "b\<lparr>br_failures := br_failures b + 1\<rparr>"] Cons.prems False c show ?thesis by simp
  qed
qed simp

text \<open>
  Run one call after the other, a closed breaker without failures stays closed through fewer
  failures in a row than the threshold, counts them, and opens exactly with the failure that
  reaches it, for the reset time; cancelled calls do not count.
\<close>

theorem breaker_trips_at_threshold:
  assumes "br_failureThreshold opts = Fin (of_nat threshold)" and "br_state b = Closed"
  shows "(br_failures b + count_failures calls < threshold \<longrightarrow>
      call_all opts r calls b = b\<lparr>br_failures := br_failures b + count_failures calls\<rparr>) \<and>
    (br_failures b + count_failures calls + 1 = threshold \<and> \<not> is_cancellation e \<longrightarrow>
      call_all opts r (calls @ [(t, e)]) b =
        b\<lparr>br_state := Opened, br_failures := threshold, br_openedUntil := t + r\<rparr>)"
  using assms(2) call_all_below [OF assms(1), where b = b and calls = calls and r = r]
  by (auto simp: call_all_append breaker_call_def breaker_defs assms(1))

lemma breaker_trips_at_threshold_witness:
  "br_state (call_all demo_breaker 100 ([(5, PlainError ''down''), (7, TimeoutError 1)] @ [(9, PlainError ''down'')])
     (bw_breaker idle_breaker)) = Opened"
proof -
  let ?calls = "[(5, PlainError ''down''), (7, TimeoutError 1)]"
  have "br_failures (bw_breaker idle_breaker) + count_failures ?calls + 1 = 2"
    by (simp add: idle_breaker_def)
  moreover have "br_failureThreshold demo_breaker = Fin (of_nat 2)" "br_state (bw_breaker idle_breaker) = Closed"
    by (simp_all add: demo_breaker_def idle_breaker_def)
  note breaker_trips_at_threshold [OF this, of ?calls 100 "PlainError ''down''" 9]
  ultimately show ?thesis by (simp del: call_all.simps append.simps)
qed

end
