(* ===== verification/Json.thy ===== *)
theory Json
  imports WI_Prelude "HOL-Library.List_Lexorder" "HOL-Library.Char_ord" "HOL-Library.Multiset"
begin

text \<open>
  What the receipt, ledger and activity modules use of \<open>JSON\<close> and of plain objects.

  A JSON text is represented by the tree it denotes (\<open>json\<close>): \<open>JSON.stringify\<close> is \<open>stringify\<close>,
  which gives no tree for \<open>undefined\<close>, functions and symbols and throws for a bigint, and
  \<open>JSON.parse\<close> of a text that \<open>JSON.stringify\<close> produced is \<open>from_json\<close>. The properties of an object
  are an association list with distinct keys, in key order; that the language moves keys that look
  like array indices to the front is not modelled. Strings are compared by character codes.

  \<open>sortValue\<close> and \<open>stableStringify\<close> are the functions of these names in
  \<open>packages/core/src/ledger/index.ts\<close>.
\<close>

section \<open>Text and trees\<close>

datatype json =
    JNull | JBool bool | JNum rat | JStr string | JArr "json list" | JObj "(string \<times> json) list"

fun seq_res :: "('e + 'a) list \<Rightarrow> 'e + 'a list" where
  "seq_res [] = Inr []"
| "seq_res (m # ms) = bind_res m (\<lambda>x. bind_res (seq_res ms) (\<lambda>xs. Inr (x # xs)))"

definition pair_res :: "'k \<times> ('e + 'a) \<Rightarrow> 'e + 'k \<times> 'a" where
  "pair_res p = bind_res (snd p) (\<lambda>x. Inr (fst p, x))"

primrec stringify :: "jsval \<Rightarrow> err + json option" where
  "stringify VUndef = Inr None"
| "stringify VNull = Inr (Some JNull)"
| "stringify (VBool b) = Inr (Some (JBool b))"
| "stringify (VNum n) = Inr (Some (case n of Fin q \<Rightarrow> JNum q | _ \<Rightarrow> JNull))"
| "stringify (VStr s) = Inr (Some (JStr s))"
| "stringify (VBigInt i) = Inl (TypeError ''Do not know how to serialize a BigInt'')"
| "stringify VSymbol = Inr None"
| "stringify VFun = Inr None"
| "stringify (VDate d) = Inr (Some (case d of Some s \<Rightarrow> JStr s | None \<Rightarrow> JNull))"
| "stringify (VErr n m) = Inr (Some (JObj []))"
| "stringify (VArr xs) =
     bind_res (seq_res (map stringify xs)) (\<lambda>ys.
       Inr (Some (JArr (map (\<lambda>y. case y of None \<Rightarrow> JNull | Some j \<Rightarrow> j) ys))))"
| "stringify (VObj ps) =
     bind_res (seq_res (map pair_res (map (map_prod id stringify) ps))) (\<lambda>qs.
       Inr (Some (JObj (List.map_filter (\<lambda>(k, y). map_option (Pair k) y) qs))))"

primrec from_json :: "json \<Rightarrow> jsval" where
  "from_json JNull = VNull"
| "from_json (JBool b) = VBool b"
| "from_json (JNum q) = VNum (Fin q)"
| "from_json (JStr s) = VStr s"
| "from_json (JArr js) = VArr (map from_json js)"
| "from_json (JObj ps) = VObj (map (map_prod id from_json) ps)"

text \<open>\<open>JSON.parse(JSON.stringify(v))\<close>, for values that have a text.\<close>

definition json_clone :: "jsval \<Rightarrow> err + jsval" where
  "json_clone v =
     bind_res (stringify v) (\<lambda>t. case t of Some j \<Rightarrow> Inr (from_json j)
       | None \<Rightarrow> Inl (JsError ''SyntaxError'' ''undefined is not valid JSON''))"

lemma seq_res_all_Inr: "(\<And>x. x \<in> set xs \<Longrightarrow> f x = Inr (g x)) \<Longrightarrow> seq_res (map f xs) = Inr (map g xs)"
  by (induction xs) auto

lemma map_filter_Some: "List.map_filter (\<lambda>(k, y). map_option (Pair k) y) (map (\<lambda>(k, j). (k, Some j)) ps) = ps"
  by (induction ps) auto

lemma stringify_from_json: "stringify (from_json j) = Inr (Some j)"
proof (induction j)
  case (JArr js)
  then have "seq_res (map (stringify \<circ> from_json) js) = Inr (map Some js)" by (intro seq_res_all_Inr) simp
  then show ?case by (simp add: comp_def)
next
  case (JObj ps)
  have "pair_res (map_prod id stringify (map_prod id from_json p)) = Inr (fst p, Some (snd p))" if p: "p \<in> set ps" for p
    using JObj [OF p] by (cases p) (simp add: pair_res_def)
  then have "seq_res (map (pair_res \<circ> (map_prod id stringify \<circ> map_prod id from_json)) ps) = Inr (map (\<lambda>p. (fst p, Some (snd p))) ps)"
    by (intro seq_res_all_Inr) simp
  then show ?case using map_filter_Some [of ps] by (simp add: comp_def case_prod_unfold)
qed simp_all

lemma json_clone_from_json [simp]: "json_clone (from_json j) = Inr (from_json j)"
  by (simp add: json_clone_def stringify_from_json)

lemma json_clone_idem: "json_clone v = Inr w \<Longrightarrow> json_clone w = Inr w"
  unfolding json_clone_def [of v] by (auto simp: res_simps split: option.splits)

section \<open>Properties of objects\<close>

text \<open>\<open>v.key\<close>: \<open>undefined\<close> for a property that is missing, a \<open>TypeError\<close> for \<open>undefined\<close> and \<open>null\<close>.\<close>

fun get_prop :: "string \<Rightarrow> jsval \<Rightarrow> err + jsval" where
  "get_prop k VUndef = Inl (TypeError ''Cannot read properties of undefined'')"
| "get_prop k VNull = Inl (TypeError ''Cannot read properties of null'')"
| "get_prop k (VObj ps) = Inr (case map_of ps k of None \<Rightarrow> VUndef | Some v \<Rightarrow> v)"
| "get_prop k _ = Inr VUndef"

text \<open>The object with the given properties, those without a value left out; numbers and texts of counts.\<close>

definition opt_prop :: "string \<Rightarrow> ('a \<Rightarrow> jsval) \<Rightarrow> 'a option \<Rightarrow> (string \<times> jsval) list" where
  "opt_prop k f x = (case x of None \<Rightarrow> [] | Some a \<Rightarrow> [(k, f a)])"

abbreviation num_val :: "rat \<Rightarrow> jsval" where
  "num_val q \<equiv> VNum (Fin q)"

abbreviation count_val :: "nat \<Rightarrow> jsval" where
  "count_val n \<equiv> VNum (Fin (of_nat n))"

fun nat_text :: "nat \<Rightarrow> string" where
  "nat_text n = (if n < 10 then [char_of (48 + n)] else nat_text (n div 10) @ [char_of (48 + n mod 10)])"

declare nat_text.simps [simp del]

definition int_text :: "int \<Rightarrow> string" where
  "int_text i = (if i < 0 then ''-'' @ nat_text (nat (- i)) else nat_text (nat i))"

text \<open>\<open>xs.join(sep)\<close> of texts.\<close>

fun join :: "string \<Rightarrow> string list \<Rightarrow> string" where
  "join sep [] = []"
| "join sep [x] = x"
| "join sep (x # xs) = x @ sep @ join sep xs"

text \<open>\<open>toLowerCase\<close>, on ASCII letters.\<close>

definition lower_char :: "char \<Rightarrow> char" where
  "lower_char c = (let n = of_char c :: nat in if 65 \<le> n \<and> n \<le> 90 then char_of (n + 32) else c)"

definition lower :: "string \<Rightarrow> string" where
  "lower s = map lower_char s"

section \<open>Stable text\<close>

text \<open>
  \<open>sortValue\<close> of the ledger. Assigning to \<open>output["__proto__"]\<close> sets the prototype of the new object
  (or does nothing), so a property of that name is lost. Dates and errors have no enumerable keys.
\<close>

primrec sortValue :: "jsval \<Rightarrow> jsval" where
  "sortValue VUndef = VUndef"
| "sortValue VNull = VNull"
| "sortValue (VBool b) = VBool b"
| "sortValue (VNum n) = VNum n"
| "sortValue (VStr s) = VStr s"
| "sortValue (VBigInt i) = VBigInt i"
| "sortValue VSymbol = VSymbol"
| "sortValue VFun = VFun"
| "sortValue (VDate d) = VObj []"
| "sortValue (VErr n m) = VObj []"
| "sortValue (VArr xs) = VArr (map sortValue xs)"
| "sortValue (VObj ps) =
     VObj (sort_key fst (filter (\<lambda>p. fst p \<noteq> ''__proto__'') (map (map_prod id sortValue) ps)))"

definition stableStringify :: "jsval \<Rightarrow> err + json option" where
  "stableStringify v = stringify (sortValue v)"

text \<open>Two values that differ only in the order of the keys of their objects, at any depth.\<close>

inductive same_value :: "jsval \<Rightarrow> jsval \<Rightarrow> bool" where
  same_refl: "same_value v v"
| same_sym: "same_value v w \<Longrightarrow> same_value w v"
| same_trans: "same_value u v \<Longrightarrow> same_value v w \<Longrightarrow> same_value u w"
| same_arr: "list_all2 same_value xs ys \<Longrightarrow> same_value (VArr xs) (VArr ys)"
| same_obj: "list_all2 (\<lambda>p q. fst p = fst q \<and> same_value (snd p) (snd q)) ps qs \<Longrightarrow> same_value (VObj ps) (VObj qs)"
| same_perm: "mset ps = mset qs \<Longrightarrow> distinct (map fst ps) \<Longrightarrow> same_value (VObj ps) (VObj qs)"
monos list_all2_mono

text \<open>Plain values: what \<open>JSON.parse\<close> gives, with distinct keys other than \<open>__proto__\<close>.\<close>

primrec plain :: "jsval \<Rightarrow> bool" where
  "plain VUndef \<longleftrightarrow> False"
| "plain VNull \<longleftrightarrow> True"
| "plain (VBool b) \<longleftrightarrow> True"
| "plain (VNum n) \<longleftrightarrow> is_finite n"
| "plain (VStr s) \<longleftrightarrow> True"
| "plain (VBigInt i) \<longleftrightarrow> False"
| "plain VSymbol \<longleftrightarrow> False"
| "plain VFun \<longleftrightarrow> False"
| "plain (VDate d) \<longleftrightarrow> False"
| "plain (VErr n m) \<longleftrightarrow> False"
| "plain (VArr xs) \<longleftrightarrow> list_all id (map plain xs)"
| "plain (VObj ps) \<longleftrightarrow> list_all snd (map (map_prod id plain) ps) \<and> distinct (map fst ps) \<and> ''__proto__'' \<notin> fst ` set ps"

lemma plain_arr: "plain (VArr xs) \<longleftrightarrow> (\<forall>x \<in> set xs. plain x)"
  by (simp add: list_all_iff)

lemma plain_obj: "plain (VObj ps) \<longleftrightarrow> (\<forall>p \<in> set ps. plain (snd p)) \<and> distinct (map fst ps) \<and> ''__proto__'' \<notin> fst ` set ps"
  by (auto simp: list_all_iff)

declare plain.simps(11,12) [simp del]

lemma sort_key_unique:
  assumes "mset xs = mset ys" and "distinct (map fst xs)"
  shows "sort_key fst xs = sort_key fst (ys :: (string \<times> 'b) list)"
  using assms by (intro sort_key_inj_key_eq) (simp_all add: distinct_map)

lemma distinct_keys_sort: "distinct (map fst (sort_key f xs)) \<longleftrightarrow> distinct (map fst xs)"
  by (rule mset_eq_imp_distinct_iff) simp

text \<open>The stable text does not depend on the order of the keys.\<close>

lemma sortValue_same: "same_value v w \<Longrightarrow> sortValue v = sortValue w"
proof (induction rule: same_value.induct)
  case (same_arr xs ys)
  then have "map sortValue xs = map sortValue ys" by (induction rule: list_all2_induct) auto
  then show ?case by simp
next
  case (same_obj ps qs)
  then have "map (map_prod id sortValue) ps = map (map_prod id sortValue) qs"
    by (induction rule: list_all2_induct) (auto simp: map_prod_def split: prod.splits)
  then show ?case by simp
next
  case (same_perm ps qs)
  let ?norm = "\<lambda>ps. filter (\<lambda>p. fst p \<noteq> ''__proto__'') (map (map_prod id sortValue) ps)"
  have "mset (?norm ps) = filter_mset (\<lambda>p. fst p \<noteq> ''__proto__'') (image_mset (map_prod id sortValue) (mset ps))"
    by simp
  then have "mset (?norm ps) = mset (?norm qs)" by (simp add: same_perm(1))
  moreover have "distinct (map fst (?norm ps))"
    using same_perm(2) by (intro distinct_map_filter) (simp add: comp_def)
  ultimately have "sort_key fst (?norm ps) = sort_key fst (?norm qs)" by (rule sort_key_unique)
  then show ?case by simp
qed simp_all

lemma sortValue_plain: "plain v \<Longrightarrow> same_value v (sortValue v) \<and> plain (sortValue v)"
proof (induction v)
  case (VArr xs)
  then have "list_all2 same_value xs (map sortValue xs)" by (auto simp: plain_arr list_all2_conv_all_nth)
  with VArr show ?case by (auto simp: plain_arr intro: same_arr)
next
  case (VObj ps)
  let ?qs = "map (map_prod id sortValue) ps"
  have ok: "same_value (snd p) (sortValue (snd p)) \<and> plain (sortValue (snd p))" if "p \<in> set ps" for p
    using VObj that by (cases p) (auto simp: plain_obj)
  have "list_all2 (\<lambda>p q. fst p = fst q \<and> same_value (snd p) (snd q)) ps ?qs"
    using ok by (auto simp: list_all2_conv_all_nth)
  then have "same_value (VObj ps) (VObj ?qs)" by (rule same_obj)
  moreover have keep: "filter (\<lambda>p. fst p \<noteq> ''__proto__'') ?qs = ?qs"
    using VObj.prems by (force simp: filter_id_conv plain_obj)
  have keys: "distinct (map fst ?qs)" "''__proto__'' \<notin> fst ` set ?qs"
    using VObj.prems by (force simp: plain_obj comp_def)+
  then have "same_value (VObj ?qs) (VObj (sort_key fst ?qs))" by (intro same_perm) simp_all
  ultimately have "same_value (VObj ps) (sortValue (VObj ps))"
    using keep by (auto intro: same_trans)
  moreover have "\<forall>q \<in> set ?qs. plain (snd q)" using ok by simp
  then have "plain (VObj (sort_key fst ?qs))"
    using keys by (simp only: plain_obj distinct_keys_sort set_sort) simp
  then have "plain (sortValue (VObj ps))" by (simp only: sortValue.simps keep)
  ultimately show ?case ..
qed (simp_all add: same_refl)

lemma plain_from_json: "plain v \<Longrightarrow> \<exists>j. v = from_json j"
proof (induction v)
  case (VNum n)
  then show ?case by (cases n) (auto intro: exI [of _ "JNum _"])
next
  case (VArr xs)
  then have "\<forall>x \<in> set xs. \<exists>j. x = from_json j" by (auto simp: plain_arr)
  then obtain f where "\<forall>x \<in> set xs. x = from_json (f x)" by metis
  then have "VArr xs = from_json (JArr (map f xs))" by (simp add: map_idI)
  then show ?case ..
next
  case (VObj ps)
  then have "\<forall>p \<in> set ps. \<exists>j. snd p = from_json j" by (fastforce simp: plain_obj)
  then obtain f where "\<forall>p \<in> set ps. snd p = from_json (f p)" by metis
  then have "VObj ps = from_json (JObj (map (\<lambda>p. (fst p, f p)) ps))"
    by (simp add: comp_def) (metis (mono_tags, lifting) map_idI prod.collapse)
  then show ?case ..
qed (auto intro: exI [of _ JNull] exI [of _ "JBool _"] exI [of _ "JStr _"])

text \<open>On plain values the stable text is a complete test of equality up to the order of keys.\<close>

lemma stable_text_same:
  assumes "plain v" and "plain w"
  shows "stableStringify v = stableStringify w \<longleftrightarrow> same_value v w"
proof
  assume eq: "stableStringify v = stableStringify w"
  obtain i j where ij: "sortValue v = from_json i" "sortValue w = from_json j"
    using assms sortValue_plain plain_from_json by meson
  with eq have "sortValue v = sortValue w" by (simp add: stableStringify_def stringify_from_json)
  with assms sortValue_plain show "same_value v w" by (metis same_sym same_trans)
qed (simp add: stableStringify_def sortValue_same)

lemma stableStringify_plain: "plain v \<Longrightarrow> \<exists>j. stableStringify v = Inr (Some j)"
  using sortValue_plain [of v] plain_from_json [of "sortValue v"] by (auto simp: stableStringify_def stringify_from_json)

lemma stringify_plain: "plain v \<Longrightarrow> \<exists>j. stringify v = Inr (Some j) \<and> from_json j = v"
  using plain_from_json [of v] by (auto simp: stringify_from_json)

end
