(* ===== verification/Replay.thy ===== *)
theory Replay
  imports Events Json Retry
begin

text \<open>
  The lifecycle receipts of \<open>packages/core/src/replay/index.ts\<close>: normalized events, the summary and
  terminal outcome of a scope tree, \<open>buildReceipt\<close>, the redaction of receipts, and the bounded
  recorders of events and attempts.

  The parts of a receipt are records; a receipt itself is a plain object (\<open>receipt_value\<close>), because
  redaction works on objects and may replace any part of it. The text that \<open>safeString\<close> gives to a
  thrown value is the parameter \<open>show\<close>; a thrown value that is an object keeps its enumerable
  properties only.
\<close>

section \<open>Errors, reasons and events\<close>

record receipt_error =
  er_name :: string
  er_message :: string

fun kind_text :: "cancel_reason \<Rightarrow> string" where
  "kind_text (RUser _) = ''user''"
| "kind_text (RDeadline _ _) = ''deadline''"
| "kind_text (RTimeout _) = ''timeout''"
| "kind_text (RParentFailed _) = ''parent_failed''"
| "kind_text (RSiblingFailed _ _) = ''sibling_failed''"
| "kind_text (RRaceLost _) = ''race_lost''"
| "kind_text (RBudget _ _ _) = ''budget''"
| "kind_text RScopeEnded = ''scope_ended''"
| "kind_text (RManual _ _) = ''manual''"

text \<open>The name and the message the candidate module keeps of a classified error; thrown functions have no name.\<close>

fun readErrorName :: "err \<Rightarrow> string" where
  "readErrorName (CancellationError _) = ''CancellationError''"
| "readErrorName (TimeoutError _) = ''TimeoutError''"
| "readErrorName (BudgetExceededError _ _ _ _ _) = ''BudgetExceededError''"
| "readErrorName (WorkAggregateError _ _) = ''WorkAggregateError''"
| "readErrorName (JsError n _) = take 1024 n"
| "readErrorName (Thrown (VErr n _)) = take 1024 n"
| "readErrorName (Thrown VFun) = []"
| "readErrorName (Thrown v) = (case get_prop ''name'' v of Inr (VStr s) \<Rightarrow> take 1024 s | _ \<Rightarrow> ''Error'')"
| "readErrorName (ClassifiedCandidateError e _ _) = readErrorName e"
| "readErrorName (CandidateCallbackError _) = ''CandidateCallbackError''"

fun readErrorMessage :: "err \<Rightarrow> string" where
  "readErrorMessage (CancellationError r) = ''Cancelled: '' @ kind_text r"
| "readErrorMessage (TimeoutError _) = ''Cancelled: timeout''"
| "readErrorMessage (BudgetExceededError _ _ _ _ _) = ''Cancelled: budget''"
| "readErrorMessage (WorkAggregateError _ m) = take 1024 m"
| "readErrorMessage (JsError _ m) = take 1024 m"
| "readErrorMessage (Thrown (VErr _ m)) = take 1024 m"
| "readErrorMessage (Thrown (VStr s)) = s"
| "readErrorMessage (Thrown _) = ''Candidate attempt failed''"
| "readErrorMessage (ClassifiedCandidateError e _ _) = take 1024 (readErrorMessage e)"
| "readErrorMessage (CandidateCallbackError _) = ''candidate policy callback failed''"

fun normalizeError :: "(jsval \<Rightarrow> string) \<Rightarrow> err \<Rightarrow> receipt_error" where
  "normalizeError show (CancellationError r) = \<lparr>er_name = ''CancellationError'', er_message = ''Cancelled: '' @ kind_text r\<rparr>"
| "normalizeError show (TimeoutError ms) = \<lparr>er_name = ''TimeoutError'', er_message = ''Cancelled: timeout''\<rparr>"
| "normalizeError show (BudgetExceededError k l s a u) = \<lparr>er_name = ''BudgetExceededError'', er_message = ''Cancelled: budget''\<rparr>"
| "normalizeError show (WorkAggregateError es m) = \<lparr>er_name = ''WorkAggregateError'', er_message = m\<rparr>"
| "normalizeError show (JsError n m) = \<lparr>er_name = n, er_message = m\<rparr>"
| "normalizeError show (Thrown (VErr n m)) = \<lparr>er_name = n, er_message = m\<rparr>"
| "normalizeError show (Thrown (VStr s)) = \<lparr>er_name = ''Error'', er_message = s\<rparr>"
| "normalizeError show (Thrown v) = \<lparr>er_name = ''UnknownError'', er_message = show v\<rparr>"
| "normalizeError show (ClassifiedCandidateError e _ _) = \<lparr>er_name = readErrorName e, er_message = readErrorMessage e\<rparr>"
| "normalizeError show (CandidateCallbackError e) =
     \<lparr>er_name = ''CandidateCallbackError'', er_message = ''candidate policy callback failed''\<rparr>"

definition error_value :: "receipt_error \<Rightarrow> jsval" where
  "error_value e = VObj [(''name'', VStr (er_name e)), (''message'', VStr (er_message e))]"

definition task_id_text :: "task_id \<Rightarrow> string" where
  "task_id_text t = (if t = telemetry_bus_id then ''telemetry-bus'' else ''task-'' @ nat_text t)"

definition scope_id_text :: "scope_id \<Rightarrow> string" where
  "scope_id_text s = ''scope-'' @ nat_text s"

text \<open>A failure reason keeps the normalized error of its cause; here it is an object that was thrown.\<close>

fun normalizeCancelReason :: "(jsval \<Rightarrow> string) \<Rightarrow> cancel_reason \<Rightarrow> cancel_reason" where
  "normalizeCancelReason show (RParentFailed e) = RParentFailed (Thrown (error_value (normalizeError show e)))"
| "normalizeCancelReason show (RSiblingFailed s e) = RSiblingFailed s (Thrown (error_value (normalizeError show e)))"
| "normalizeCancelReason show r = r"

definition thrown_value :: "err \<Rightarrow> jsval" where
  "thrown_value e = (case e of Thrown v \<Rightarrow> v | _ \<Rightarrow> VErr (er_name (normalizeError (\<lambda>_. []) e)) (er_message (normalizeError (\<lambda>_. []) e)))"

fun reason_value :: "cancel_reason \<Rightarrow> jsval" where
  "reason_value (RUser m) = VObj ((''kind'', VStr ''user'') # opt_prop ''message'' VStr m)"
| "reason_value (RDeadline d e) = VObj [(''kind'', VStr ''deadline''), (''deadlineAt'', VNum d), (''elapsedMs'', VNum e)]"
| "reason_value (RTimeout ms) = VObj [(''kind'', VStr ''timeout''), (''timeoutMs'', num_val ms)]"
| "reason_value (RParentFailed e) = VObj [(''kind'', VStr ''parent_failed''), (''error'', thrown_value e)]"
| "reason_value (RSiblingFailed s e) =
     VObj [(''kind'', VStr ''sibling_failed''), (''siblingId'', VStr (task_id_text s)), (''error'', thrown_value e)]"
| "reason_value (RRaceLost w) = VObj [(''kind'', VStr ''race_lost''), (''winnerId'', VStr (task_id_text w))]"
| "reason_value (RBudget k l s) =
     VObj [(''kind'', VStr ''budget''), (''budgetKey'', VStr k), (''limit'', num_val l), (''spent'', num_val s)]"
| "reason_value RScopeEnded = VObj [(''kind'', VStr ''scope_ended'')]"
| "reason_value (RManual tag d) = VObj ((''kind'', VStr ''manual'') # (''tag'', VStr tag) # opt_prop ''data'' id d)"

datatype receipt_reason = ReasonCancel cancel_reason | ReasonClosing closing_reason

record receipt_event =
  re_type :: string
  re_at :: rat
  re_taskId :: "task_id option"
  re_scopeId :: "scope_id option"
  re_parentId :: "scope_id option option"
  re_name :: "string option"
  re_kind :: "task_kind option"
  re_attempt :: "nat option"
  re_startedAt :: "rat option"
  re_outcome :: "attempt_outcome option"
  re_nextDelayMs :: "rat option"
  re_timeoutMs :: "rat option"
  re_durationMs :: "rat option"
  re_reason :: "receipt_reason option"
  re_error :: "receipt_error option"
  re_message :: "string option"
  re_pct :: "rat option"
  re_data :: "jsval option"
  re_dropped :: "nat option"

definition base_event :: "string \<Rightarrow> rat \<Rightarrow> receipt_event" where
  "base_event ty t =
     \<lparr>re_type = ty, re_at = t, re_taskId = None, re_scopeId = None, re_parentId = None, re_name = None,
      re_kind = None, re_attempt = None, re_startedAt = None, re_outcome = None, re_nextDelayMs = None,
      re_timeoutMs = None, re_durationMs = None, re_reason = None, re_error = None, re_message = None,
      re_pct = None, re_data = None, re_dropped = None\<rparr>"

fun normalizeEvent :: "(jsval \<Rightarrow> string) \<Rightarrow> task_event \<Rightarrow> receipt_event" where
  "normalizeEvent show (TaskStarted t s n k now) =
     (base_event ''task:started'' now)\<lparr>re_taskId := Some t, re_scopeId := Some s, re_name := Some n, re_kind := Some k\<rparr>"
| "normalizeEvent show (TaskAttempt t n d oc now) =
     (base_event ''task:attempt'' now)\<lparr>re_taskId := Some t, re_attempt := Some n, re_startedAt := Some (now - d),
        re_durationMs := Some d, re_outcome := Some oc\<rparr>"
| "normalizeEvent show (TaskRetrying t n e d now) =
     (base_event ''task:retrying'' now)\<lparr>re_taskId := Some t, re_attempt := Some n,
        re_error := Some (normalizeError show e), re_nextDelayMs := Some d\<rparr>"
| "normalizeEvent show (TaskProgress t p now) =
     (base_event ''task:progress'' now)\<lparr>re_taskId := Some t, re_pct := pr_pct p, re_message := pr_message p, re_data := pr_data p\<rparr>"
| "normalizeEvent show (TaskCleanupFailed t e now) =
     (base_event ''task:cleanup_failed'' now)\<lparr>re_taskId := Some t, re_error := Some (normalizeError show e)\<rparr>"
| "normalizeEvent show (TaskCleanupTimeout t ms now) =
     (base_event ''task:cleanup_timeout'' now)\<lparr>re_taskId := Some t, re_timeoutMs := Some ms\<rparr>"
| "normalizeEvent show (TaskSucceeded t d now) =
     (base_event ''task:succeeded'' now)\<lparr>re_taskId := Some t, re_durationMs := Some d\<rparr>"
| "normalizeEvent show (TaskFailed t e d now) =
     (base_event ''task:failed'' now)\<lparr>re_taskId := Some t, re_error := Some (normalizeError show e), re_durationMs := Some d\<rparr>"
| "normalizeEvent show (TaskCancelled t r d now) =
     (base_event ''task:cancelled'' now)\<lparr>re_taskId := Some t,
        re_reason := Some (ReasonCancel (normalizeCancelReason show r)), re_durationMs := Some d\<rparr>"
| "normalizeEvent show (ScopeOpened s p now) =
     (base_event ''scope:opened'' now)\<lparr>re_scopeId := Some s, re_parentId := Some p\<rparr>"
| "normalizeEvent show (ScopeCleanupFailed s e now) =
     (base_event ''scope:cleanup_failed'' now)\<lparr>re_scopeId := Some s, re_error := Some (normalizeError show e)\<rparr>"
| "normalizeEvent show (ScopeCleanupTimeout s ms now) =
     (base_event ''scope:cleanup_timeout'' now)\<lparr>re_scopeId := Some s, re_timeoutMs := Some ms\<rparr>"
| "normalizeEvent show (ScopeClosing s r now) =
     (base_event ''scope:closing'' now)\<lparr>re_scopeId := Some s, re_reason := Some (ReasonClosing r)\<rparr>"
| "normalizeEvent show (ScopeClosed s d n now) =
     (base_event ''scope:closed'' now)\<lparr>re_scopeId := Some s, re_durationMs := Some d, re_dropped := n\<rparr>"

fun kind_name :: "task_kind \<Rightarrow> string" where
  "kind_name IO = ''io''"
| "kind_name LLM = ''llm''"
| "kind_name Tool = ''tool''"
| "kind_name CPU = ''cpu''"
| "kind_name Custom = ''custom''"

fun attempt_text :: "attempt_outcome \<Rightarrow> string" where
  "attempt_text AttemptSucceeded = ''succeeded''"
| "attempt_text AttemptFailed = ''failed''"
| "attempt_text AttemptCancelled = ''cancelled''"

fun closing_text :: "closing_reason \<Rightarrow> string" where
  "closing_text Completed = ''completed''"
| "closing_text Errored = ''errored''"
| "closing_text WasCancelled = ''cancelled''"

definition event_value :: "receipt_event \<Rightarrow> jsval" where
  "event_value e = VObj
     ([(''type'', VStr (re_type e))] @
      opt_prop ''taskId'' (VStr \<circ> task_id_text) (re_taskId e) @
      opt_prop ''scopeId'' (VStr \<circ> scope_id_text) (re_scopeId e) @
      opt_prop ''parentId'' (\<lambda>p. case p of None \<Rightarrow> VNull | Some s \<Rightarrow> VStr (scope_id_text s)) (re_parentId e) @
      opt_prop ''name'' VStr (re_name e) @
      opt_prop ''kind'' (VStr \<circ> kind_name) (re_kind e) @
      opt_prop ''attempt'' (\<lambda>n. count_val n) (re_attempt e) @
      opt_prop ''startedAt'' (\<lambda>q. num_val q) (re_startedAt e) @
      opt_prop ''outcome'' (VStr \<circ> attempt_text) (re_outcome e) @
      opt_prop ''nextDelayMs'' (\<lambda>q. num_val q) (re_nextDelayMs e) @
      opt_prop ''timeoutMs'' (\<lambda>q. num_val q) (re_timeoutMs e) @
      opt_prop ''durationMs'' (\<lambda>q. num_val q) (re_durationMs e) @
      opt_prop ''reason'' (\<lambda>r. case r of ReasonCancel c \<Rightarrow> reason_value c | ReasonClosing c \<Rightarrow> VStr (closing_text c)) (re_reason e) @
      opt_prop ''error'' error_value (re_error e) @
      opt_prop ''message'' VStr (re_message e) @
      opt_prop ''pct'' (\<lambda>q. num_val q) (re_pct e) @
      opt_prop ''data'' id (re_data e) @
      opt_prop ''droppedTelemetryEvents'' (\<lambda>n. count_val n) (re_dropped e) @
      [(''at'', num_val (re_at e))])"

section \<open>Summary\<close>

record snapshot_counts =
  sn_totalTasks :: nat
  sn_pendingTasks :: nat
  sn_completedTasks :: nat
  sn_failedTasks :: nat
  sn_cancelledTasks :: nat
  sn_totalScopes :: nat
  sn_pendingScopes :: nat

definition add_counts :: "snapshot_counts \<Rightarrow> snapshot_counts \<Rightarrow> snapshot_counts" where
  "add_counts a b =
     \<lparr>sn_totalTasks = sn_totalTasks a + sn_totalTasks b, sn_pendingTasks = sn_pendingTasks a + sn_pendingTasks b,
      sn_completedTasks = sn_completedTasks a + sn_completedTasks b, sn_failedTasks = sn_failedTasks a + sn_failedTasks b,
      sn_cancelledTasks = sn_cancelledTasks a + sn_cancelledTasks b, sn_totalScopes = sn_totalScopes a + sn_totalScopes b,
      sn_pendingScopes = sn_pendingScopes a + sn_pendingScopes b\<rparr>"

primrec countSnapshot :: "scope_snapshot \<Rightarrow> snapshot_counts" where
  "countSnapshot (Snapshot i n st t0 d pending completed failed cancelled tasks scopes) =
     foldl add_counts
       \<lparr>sn_totalTasks = length tasks, sn_pendingTasks = pending, sn_completedTasks = completed,
        sn_failedTasks = failed, sn_cancelledTasks = cancelled, sn_totalScopes = 1,
        sn_pendingScopes = (if st = ScClosed then 0 else 1)\<rparr>
       (map countSnapshot scopes)"

record receipt_summary =
  su_counts :: snapshot_counts
  su_cleanupFailures :: nat
  su_cleanupTimeouts :: nat
  su_retryEvents :: nat
  su_droppedEvents :: nat
  su_droppedTelemetryEvents :: nat
  su_leakedTasks :: nat

definition count_types :: "string list \<Rightarrow> receipt_event list \<Rightarrow> nat" where
  "count_types tys events = length (filter (\<lambda>e. re_type e \<in> set tys) events)"

definition summarizeReceipt :: "scope_snapshot \<Rightarrow> receipt_event list \<Rightarrow> nat \<Rightarrow> receipt_summary" where
  "summarizeReceipt snapshot events droppedEvents =
     (let counts = countSnapshot snapshot
      in \<lparr>su_counts = counts,
          su_cleanupFailures = count_types [''task:cleanup_failed'', ''scope:cleanup_failed''] events,
          su_cleanupTimeouts = count_types [''task:cleanup_timeout'', ''scope:cleanup_timeout''] events,
          su_retryEvents = count_types [''task:retrying''] events,
          su_droppedEvents = droppedEvents,
          su_droppedTelemetryEvents = sum_list (map (\<lambda>e. or_default (re_dropped e) 0) events),
          su_leakedTasks = sn_pendingTasks counts\<rparr>)"

definition summary_value :: "receipt_summary \<Rightarrow> jsval" where
  "summary_value s = VObj
     [(''totalTasks'', count_val (sn_totalTasks (su_counts s))), (''pendingTasks'', count_val (sn_pendingTasks (su_counts s))),
      (''completedTasks'', count_val (sn_completedTasks (su_counts s))), (''failedTasks'', count_val (sn_failedTasks (su_counts s))),
      (''cancelledTasks'', count_val (sn_cancelledTasks (su_counts s))), (''totalScopes'', count_val (sn_totalScopes (su_counts s))),
      (''pendingScopes'', count_val (sn_pendingScopes (su_counts s))), (''cleanupFailures'', count_val (su_cleanupFailures s)),
      (''cleanupTimeouts'', count_val (su_cleanupTimeouts s)), (''retryEvents'', count_val (su_retryEvents s)),
      (''droppedEvents'', count_val (su_droppedEvents s)), (''droppedTelemetryEvents'', count_val (su_droppedTelemetryEvents s)),
      (''leakedTasks'', count_val (su_leakedTasks s))]"

section \<open>Terminal outcome\<close>

datatype receipt_outcome = OutCompleted | OutFailed | OutCancelled | OutRunning

record receipt_terminal =
  rt_outcome :: receipt_outcome
  rt_at :: "rat option"
  rt_durationMs :: "rat option"
  rt_cancelReason :: "cancel_reason option"
  rt_error :: "receipt_error option"

definition findLast :: "('a \<Rightarrow> bool) \<Rightarrow> 'a list \<Rightarrow> 'a option" where
  "findLast P xs = find P (rev xs)"

definition inferTerminal :: "scope_snapshot \<Rightarrow> receipt_event list \<Rightarrow> receipt_terminal" where
  "inferTerminal snapshot events =
     (let rootEvents = filter (\<lambda>e. re_scopeId e = Some (ss_id snapshot)) events;
          closing = findLast (\<lambda>e. re_type e = ''scope:closing'') rootEvents;
          closed = findLast (\<lambda>e. re_type e = ''scope:closed'') rootEvents;
          lastCancelled = findLast (\<lambda>e. re_type e = ''task:cancelled'') events;
          lastFailed = findLast (\<lambda>e. re_type e \<in> {''task:failed'', ''scope:cleanup_failed'', ''task:cleanup_failed''}) events;
          base = \<lparr>rt_outcome = OutRunning,
                  rt_at = (case closed of Some e \<Rightarrow> Some (re_at e) | None \<Rightarrow> map_option re_at closing),
                  rt_durationMs = Option.bind closed re_durationMs, rt_cancelReason = None, rt_error = None\<rparr>;
          reason = Option.bind closing re_reason
      in if reason = Some (ReasonClosing WasCancelled)
         then base\<lparr>rt_outcome := OutCancelled,
                rt_cancelReason := (case Option.bind lastCancelled re_reason of Some (ReasonCancel c) \<Rightarrow> Some c | _ \<Rightarrow> None)\<rparr>
         else if reason = Some (ReasonClosing Errored) \<or> 0 < ss_failed snapshot
         then base\<lparr>rt_outcome := OutFailed, rt_error := Option.bind lastFailed re_error\<rparr>
         else if reason = Some (ReasonClosing Completed) \<or> ss_status snapshot = ScClosed
         then base\<lparr>rt_outcome := OutCompleted\<rparr>
         else \<lparr>rt_outcome = OutRunning, rt_at = None, rt_durationMs = None, rt_cancelReason = None, rt_error = None\<rparr>)"

fun outcome_text :: "receipt_outcome \<Rightarrow> string" where
  "outcome_text OutCompleted = ''completed''"
| "outcome_text OutFailed = ''failed''"
| "outcome_text OutCancelled = ''cancelled''"
| "outcome_text OutRunning = ''running''"

definition terminal_value :: "receipt_terminal \<Rightarrow> jsval" where
  "terminal_value t = VObj
     ([(''outcome'', VStr (outcome_text (rt_outcome t)))] @
      opt_prop ''at'' (\<lambda>q. num_val q) (rt_at t) @ opt_prop ''durationMs'' (\<lambda>q. num_val q) (rt_durationMs t) @
      opt_prop ''cancelReason'' reason_value (rt_cancelReason t) @ opt_prop ''error'' error_value (rt_error t))"

section \<open>Snapshots as values\<close>

fun task_status_text :: "task_status \<Rightarrow> string" where
  "task_status_text Pending = ''pending''"
| "task_status_text Running = ''running''"
| "task_status_text Succeeded = ''succeeded''"
| "task_status_text Failed = ''failed''"
| "task_status_text Cancelled = ''cancelled''"

fun scope_status_text :: "scope_status \<Rightarrow> string" where
  "scope_status_text ScRunning = ''running''"
| "scope_status_text ScCancelling = ''cancelling''"
| "scope_status_text ScClosed = ''closed''"

definition progress_value :: "progress_report \<Rightarrow> jsval" where
  "progress_value p = VObj
     (opt_prop ''pct'' (\<lambda>q. num_val q) (pr_pct p) @ opt_prop ''message'' VStr (pr_message p) @ opt_prop ''data'' id (pr_data p))"

definition task_value :: "task_snapshot \<Rightarrow> jsval" where
  "task_value t = VObj
     ([(''id'', VStr (task_id_text (ts_id t))), (''name'', VStr (ts_name t)), (''kind'', VStr (kind_name (ts_kind t))),
       (''status'', VStr (task_status_text (ts_status t))), (''attempt'', count_val (ts_attempt t)),
       (''startedAt'', num_val (ts_startedAt t))] @
      opt_prop ''durationMs'' (\<lambda>q. num_val q) (ts_durationMs t) @ opt_prop ''progress'' progress_value (ts_progress t) @
      opt_prop ''meta'' VObj (ts_meta t))"

primrec snapshot_value :: "scope_snapshot \<Rightarrow> jsval" where
  "snapshot_value (Snapshot i n st t0 d pending completed failed cancelled tasks scopes) = VObj
     ([(''id'', VStr (scope_id_text i)), (''status'', VStr (scope_status_text st)), (''startedAt'', num_val t0),
       (''pendingCount'', count_val pending), (''completedCount'', count_val completed),
       (''failedCount'', count_val failed), (''cancelledCount'', count_val cancelled),
       (''tasks'', VArr (map task_value tasks)), (''scopes'', VArr (map snapshot_value scopes))] @
      opt_prop ''name'' VStr n @ opt_prop ''deadlineAt'' (\<lambda>q. num_val q) d)"

section \<open>Redaction\<close>

record redaction_policy =
  rp_removeFields :: "string list option"
  rp_redactFields :: "string list option"
  rp_maxDepth :: "jsnum option"

record runtime_policy =
  rr_removeFields :: "string list"
  rr_redactFields :: "string list"
  rr_maxDepth :: jsnum

definition DEFAULT_REDACT_FIELDS :: "string list" where
  "DEFAULT_REDACT_FIELDS =
     [''authorization'', ''cookie'', ''password'', ''passwd'', ''secret'', ''token'', ''apikey'', ''apiKey'',
      ''accessToken'', ''refreshToken'']"

definition DEFAULT_MAX_REDACTION_DEPTH :: jsnum where
  "DEFAULT_MAX_REDACTION_DEPTH = Fin 8"

primrec redactValue :: "jsval \<Rightarrow> runtime_policy \<Rightarrow> nat \<Rightarrow> jsval" where
  "redactValue VUndef pol depth = (if rr_maxDepth pol < Fin (of_nat depth) then VStr ''[max-depth]'' else VUndef)"
| "redactValue VNull pol depth = (if rr_maxDepth pol < Fin (of_nat depth) then VStr ''[max-depth]'' else VNull)"
| "redactValue (VBool b) pol depth = (if rr_maxDepth pol < Fin (of_nat depth) then VStr ''[max-depth]'' else VBool b)"
| "redactValue (VNum n) pol depth = (if rr_maxDepth pol < Fin (of_nat depth) then VStr ''[max-depth]'' else VNum n)"
| "redactValue (VStr s) pol depth = (if rr_maxDepth pol < Fin (of_nat depth) then VStr ''[max-depth]'' else VStr s)"
| "redactValue (VBigInt i) pol depth = (if rr_maxDepth pol < Fin (of_nat depth) then VStr ''[max-depth]'' else VBigInt i)"
| "redactValue VSymbol pol depth = (if rr_maxDepth pol < Fin (of_nat depth) then VStr ''[max-depth]'' else VSymbol)"
| "redactValue VFun pol depth = (if rr_maxDepth pol < Fin (of_nat depth) then VStr ''[max-depth]'' else VFun)"
| "redactValue (VDate d) pol depth = (if rr_maxDepth pol < Fin (of_nat depth) then VStr ''[max-depth]'' else VObj [])"
| "redactValue (VErr n m) pol depth =
     (if rr_maxDepth pol < Fin (of_nat depth) then VStr ''[max-depth]'' else error_value \<lparr>er_name = n, er_message = m\<rparr>)"
| "redactValue (VArr xs) pol depth =
     (if rr_maxDepth pol < Fin (of_nat depth) then VStr ''[max-depth]''
      else VArr (map (\<lambda>f. f pol (Suc depth)) (map redactValue xs)))"
| "redactValue (VObj ps) pol depth =
     (if rr_maxDepth pol < Fin (of_nat depth) then VStr ''[max-depth]''
      else VObj (map (\<lambda>(key, item). (key,
               if lower key \<in> set (rr_redactFields pol) then VStr ''[redacted]'' else item pol (Suc depth)))
             (filter (\<lambda>(key, item). lower key \<notin> set (rr_removeFields pol)) (map (map_prod id redactValue) ps))))"

definition runtime_of :: "redaction_policy \<Rightarrow> runtime_policy" where
  "runtime_of policy =
     \<lparr>rr_removeFields = map lower (or_default (rp_removeFields policy) []),
      rr_redactFields = map lower DEFAULT_REDACT_FIELDS @ map lower (or_default (rp_redactFields policy) []),
      rr_maxDepth = or_default (rp_maxDepth policy) DEFAULT_MAX_REDACTION_DEPTH\<rparr>"

definition redactReceipt :: "jsval \<Rightarrow> redaction_policy \<Rightarrow> jsval" where
  "redactReceipt receipt policy = redactValue receipt (runtime_of policy) 0"

section \<open>Attempts\<close>

record attempt_evidence =
  ae_taskId :: task_id
  ae_attempt :: nat
  ae_startedAt :: rat
  ae_completedAt :: rat
  ae_durationMs :: rat
  ae_outcome :: attempt_outcome
  ae_reasonCode :: "string option"
  ae_metadata :: "jsval option"
  ae_error :: "receipt_error option"

definition attempt_value :: "attempt_evidence \<Rightarrow> jsval" where
  "attempt_value a = VObj
     ([(''taskId'', VStr (task_id_text (ae_taskId a))), (''attempt'', count_val (ae_attempt a)),
       (''startedAt'', num_val (ae_startedAt a)), (''completedAt'', num_val (ae_completedAt a)),
       (''durationMs'', num_val (ae_durationMs a)), (''outcome'', VStr (attempt_text (ae_outcome a)))] @
      opt_prop ''reasonCode'' VStr (ae_reasonCode a) @ opt_prop ''metadata'' id (ae_metadata a) @
      opt_prop ''error'' error_value (ae_error a))"

definition attemptsFromEvents :: "receipt_event list \<Rightarrow> attempt_evidence list" where
  "attemptsFromEvents events =
     List.map_filter (\<lambda>e.
       case (re_taskId e, re_attempt e, re_startedAt e, re_durationMs e, re_outcome e) of
         (Some t, Some n, Some s, Some d, Some oc) \<Rightarrow>
           if re_type e = ''task:attempt''
           then Some \<lparr>ae_taskId = t, ae_attempt = n, ae_startedAt = s, ae_completedAt = re_at e, ae_durationMs = d,
                      ae_outcome = oc, ae_reasonCode = None, ae_metadata = None, ae_error = None\<rparr>
           else None
       | _ \<Rightarrow> None) events"

section \<open>Building a receipt\<close>

record receipt_opts =
  ro_receiptId :: "string option"
  ro_redaction :: "redaction_policy option"
  ro_limitations :: "string list option"
  ro_attempts :: "attempt_evidence list option"

definition DEFAULT_LIMITATIONS :: "string list" where
  "DEFAULT_LIMITATIONS = [''receipt_replay_is_audit_evidence_not_deterministic_scheduler_replay'']"

definition no_redaction :: redaction_policy where
  "no_redaction = \<lparr>rp_removeFields = None, rp_redactFields = None, rp_maxDepth = None\<rparr>"

record receipt =
  rc_receiptId :: string
  rc_createdAt :: rat
  rc_terminal :: receipt_terminal
  rc_summary :: receipt_summary
  rc_events :: "receipt_event list"
  rc_attempts :: "attempt_evidence list option"
  rc_snapshot :: scope_snapshot
  rc_limitations :: "string list"

text \<open>
  The receipt before redaction. \<open>clock\<close> is the time read, \<open>default_id\<close> the identifier built from the
  root scope and that time, \<open>dropped\<close> the number of events the recorder dropped.
\<close>

definition assembleReceipt :: "(jsval \<Rightarrow> string) \<Rightarrow> rat \<Rightarrow> string \<Rightarrow> nat \<Rightarrow> task_event list \<Rightarrow> scope_snapshot \<Rightarrow> receipt_opts \<Rightarrow> receipt" where
  "assembleReceipt show clock default_id dropped events snapshot opts =
     (let normalized = map (normalizeEvent show) events;
          attempts = or_default (ro_attempts opts) (attemptsFromEvents normalized);
          summary = summarizeReceipt snapshot normalized dropped
      in \<lparr>rc_receiptId = or_default (ro_receiptId opts) default_id, rc_createdAt = clock,
          rc_terminal = inferTerminal snapshot normalized, rc_summary = summary, rc_events = normalized,
          rc_attempts = (if ro_attempts opts \<noteq> None \<or> attempts \<noteq> [] then Some attempts else None),
          rc_snapshot = snapshot,
          rc_limitations = DEFAULT_LIMITATIONS @
            (if 0 < su_droppedEvents summary then [''receipt_event_window_truncated''] else []) @
            or_default (ro_limitations opts) []\<rparr>)"

definition receipt_value :: "receipt \<Rightarrow> jsval" where
  "receipt_value r = VObj
     ([(''version'', VStr ''workit.receipt.v1''), (''receiptId'', VStr (rc_receiptId r)),
       (''createdAt'', num_val (rc_createdAt r)), (''rootScopeId'', VStr (scope_id_text (ss_id (rc_snapshot r)))),
       (''terminal'', terminal_value (rc_terminal r)), (''summary'', summary_value (rc_summary r)),
       (''events'', VArr (map event_value (rc_events r)))] @
      opt_prop ''attempts'' (\<lambda>as. VArr (map attempt_value as)) (rc_attempts r) @
      [(''snapshot'', snapshot_value (rc_snapshot r)), (''limitations'', VArr (map VStr (rc_limitations r)))] @
      opt_prop ''rootScopeName'' VStr (ss_name (rc_snapshot r)))"

definition buildReceipt :: "(jsval \<Rightarrow> string) \<Rightarrow> rat \<Rightarrow> string \<Rightarrow> nat \<Rightarrow> task_event list \<Rightarrow> scope_snapshot \<Rightarrow> receipt_opts \<Rightarrow> jsval" where
  "buildReceipt show clock default_id dropped events snapshot opts =
     redactReceipt (receipt_value (assembleReceipt show clock default_id dropped events snapshot opts))
       (or_default (ro_redaction opts) no_redaction)"

section \<open>Recorders\<close>

text \<open>The event recorder: the first \<open>maxEvents\<close> events are kept, the others counted.\<close>

record event_recorder =
  rec_max :: nat
  rec_events :: "task_event list"
  rec_dropped :: nat

definition DEFAULT_MAX_EVENTS :: nat where
  "DEFAULT_MAX_EVENTS = 10000"

definition createReceiptRecorder :: "jsnum option \<Rightarrow> err + event_recorder" where
  "createReceiptRecorder maxEvents =
     bind_res (positive_count ''maxEvents'' (or_default maxEvents (Fin (of_nat DEFAULT_MAX_EVENTS)))) (\<lambda>n.
       Inr \<lparr>rec_max = n, rec_events = [], rec_dropped = 0\<rparr>)"

definition record_event :: "task_event \<Rightarrow> event_recorder \<Rightarrow> event_recorder" where
  "record_event e r =
     (if length (rec_events r) < rec_max r then r\<lparr>rec_events := rec_events r @ [e]\<rparr>
      else r\<lparr>rec_dropped := rec_dropped r + 1\<rparr>)"

definition recorder_build :: "(jsval \<Rightarrow> string) \<Rightarrow> rat \<Rightarrow> string \<Rightarrow> scope_snapshot \<Rightarrow> receipt_opts \<Rightarrow> event_recorder \<Rightarrow> jsval" where
  "recorder_build show clock default_id snapshot opts r =
     buildReceipt show clock default_id (rec_dropped r) (rec_events r) snapshot opts"

text \<open>
  The attempt recorder. \<open>classify\<close> is the caller's classification of an error, \<open>None\<close> when it throws
  or gives no string; \<open>bytes\<close> the number of bytes of a JSON text.
\<close>

record attempt_recorder =
  ar_max :: nat
  ar_maxBytes :: nat
  ar_attempts :: "attempt_evidence list"
  ar_dropped :: nat

definition createAttemptRecorder :: "jsnum option \<Rightarrow> jsnum option \<Rightarrow> err + attempt_recorder" where
  "createAttemptRecorder maxAttempts maxBytes =
     bind_res (positive_count ''maxAttempts'' (or_default maxAttempts (Fin 10000))) (\<lambda>n.
     bind_res (positive_count ''maxMetadataBytes'' (or_default maxBytes (Fin 4096))) (\<lambda>b.
       Inr \<lparr>ar_max = n, ar_maxBytes = b, ar_attempts = [], ar_dropped = 0\<rparr>))"

definition lower_letter :: "char \<Rightarrow> bool" where
  "lower_letter c \<longleftrightarrow> (let n = of_char c :: nat in 97 \<le> n \<and> n \<le> 122)"

definition reason_code_char :: "char \<Rightarrow> bool" where
  "reason_code_char c \<longleftrightarrow> lower_letter c \<or> (let n = of_char c :: nat in 48 \<le> n \<and> n \<le> 57 \<or> n = 95)"

definition matches_reason_code :: "string \<Rightarrow> bool" where
  "matches_reason_code s \<longleftrightarrow> (case s of [] \<Rightarrow> False | c # cs \<Rightarrow> lower_letter c \<and> length cs \<le> 127 \<and> list_all reason_code_char cs)"

definition readAttemptReasonCode :: "(err \<Rightarrow> string option) option \<Rightarrow> err \<Rightarrow> string option" where
  "readAttemptReasonCode classify e =
     (case classify of None \<Rightarrow> None
      | Some f \<Rightarrow> (case f e of Some c \<Rightarrow> if matches_reason_code c then Some c else None | None \<Rightarrow> None))"

definition normalizeAttemptMetadata :: "(json \<Rightarrow> nat) \<Rightarrow> jsval option \<Rightarrow> nat \<Rightarrow> err + jsval option" where
  "normalizeAttemptMetadata bytes metadata maxBytes =
     (case metadata of None \<Rightarrow> Inr None
      | Some v \<Rightarrow>
          (case stringify v of
             Inl _ \<Rightarrow> Inl (TypeError ''attempt metadata must be JSON serializable'')
           | Inr None \<Rightarrow> Inl (TypeError ''attempt metadata must serialize to a JSON object'')
           | Inr (Some j) \<Rightarrow>
               if maxBytes < bytes j then Inl (RangeError ''attempt metadata exceeds maxMetadataBytes'')
               else (case j of
                   JObj _ \<Rightarrow> Inr (Some (redactValue (from_json j) (runtime_of no_redaction) 0))
                 | _ \<Rightarrow> Inl (TypeError ''attempt metadata must serialize to a JSON object''))))"

definition record_attempt :: "(jsval \<Rightarrow> string) \<Rightarrow> (err \<Rightarrow> string option) option \<Rightarrow> jsval option \<Rightarrow> task_id \<Rightarrow> nat \<Rightarrow>
    rat \<Rightarrow> rat \<Rightarrow> err option \<Rightarrow> attempt_recorder \<Rightarrow> attempt_recorder" where
  "record_attempt show classify metadata tid attempt startedAt completedAt e r =
     (if ar_max r \<le> length (ar_attempts r) then r\<lparr>ar_dropped := ar_dropped r + 1\<rparr>
      else r\<lparr>ar_attempts := ar_attempts r @
        [\<lparr>ae_taskId = tid, ae_attempt = attempt, ae_startedAt = startedAt, ae_completedAt = completedAt,
          ae_durationMs = max 0 (completedAt - startedAt),
          ae_outcome = (case e of None \<Rightarrow> AttemptSucceeded
            | Some x \<Rightarrow> if is_cancellation x then AttemptCancelled else AttemptFailed),
          ae_reasonCode = Option.bind e (readAttemptReasonCode classify),
          ae_metadata = metadata, ae_error = map_option (normalizeError show) e\<rparr>]\<rparr>)"

end
