(* ===== verification/Analysis.thy ===== *)
theory Analysis
  imports Replay Time_Policy
begin

text \<open>
  The verifiers of \<open>packages/core/src/analysis/index.ts\<close>: \<open>verifyReceipt\<close> and \<open>analyzeReceipt\<close> over
  receipt objects, \<open>verifyTimePolicy\<close>, \<open>verifySourceProtocol\<close> and \<open>verifyScopeProtocol\<close>.

  A receipt is whatever object the caller passes, in particular one that redaction has changed, so
  its properties are read as the language reads them: a missing property is \<open>undefined\<close>, reading a
  property of \<open>undefined\<close> or calling an array method on something else throws a \<open>TypeError\<close>. A value
  that is no number counts as \<open>NaN\<close> in arithmetic (texts that spell a number are not converted).
\<close>

section \<open>Findings and reports\<close>

datatype analysis_status = Pass | Warn | Fail
datatype severity = SevInfo | SevWarn | SevError

record finding =
  af_code :: string
  af_severity :: severity
  af_message :: string
  af_taskId :: "jsval option"
  af_receiptId :: "jsval option"
  af_moduleId :: "string option"
  af_functionId :: "string option"
  af_operation :: "string option"
  af_count :: "nat option"
  af_limit :: "nat option"
  af_estimatedMs :: "jsnum option"
  af_limitMs :: "jsnum option"

definition mk_finding :: "string \<Rightarrow> severity \<Rightarrow> string \<Rightarrow> finding" where
  "mk_finding code sev msg =
     \<lparr>af_code = code, af_severity = sev, af_message = msg, af_taskId = None, af_receiptId = None, af_moduleId = None,
      af_functionId = None, af_operation = None, af_count = None, af_limit = None, af_estimatedMs = None, af_limitMs = None\<rparr>"

definition report_status :: "finding list \<Rightarrow> analysis_status" where
  "report_status findings =
     (if \<exists>f \<in> set findings. af_severity f = SevError then Fail
      else if \<exists>f \<in> set findings. af_severity f = SevWarn then Warn else Pass)"

record check =
  ck_code :: string
  ck_status :: analysis_status
  ck_message :: string
  ck_count :: "jsnum option"

section \<open>Receipts\<close>

fun as_array :: "jsval \<Rightarrow> err + jsval list" where
  "as_array (VArr xs) = Inr xs"
| "as_array VUndef = Inl (TypeError ''Cannot read properties of undefined'')"
| "as_array VNull = Inl (TypeError ''Cannot read properties of null'')"
| "as_array _ = Inl (TypeError ''not a function'')"

fun to_number :: "jsval \<Rightarrow> jsnum" where
  "to_number (VNum n) = n"
| "to_number VNull = Fin 0"
| "to_number (VBool b) = Fin (if b then 1 else 0)"
| "to_number _ = NaN"

definition read_array :: "string \<Rightarrow> jsval \<Rightarrow> err + jsval list" where
  "read_array k v = bind_res (get_prop k v) as_array"

definition read_number :: "string \<Rightarrow> jsval \<Rightarrow> err + jsnum" where
  "read_number k v = map_sum id to_number (get_prop k v)"

fun filter_res :: "('a \<Rightarrow> 'e + bool) \<Rightarrow> 'a list \<Rightarrow> 'e + 'a list" where
  "filter_res P [] = Inr []"
| "filter_res P (x # xs) =
     bind_res (P x) (\<lambda>b. bind_res (filter_res P xs) (\<lambda>ys. Inr (if b then x # ys else ys)))"

fun exists_res :: "('a \<Rightarrow> 'e + bool) \<Rightarrow> 'a list \<Rightarrow> 'e + bool" where
  "exists_res P [] = Inr False"
| "exists_res P (x # xs) = bind_res (P x) (\<lambda>b. if b then Inr True else exists_res P xs)"

definition pending_task :: "jsval \<Rightarrow> err + bool" where
  "pending_task task = map_sum id (\<lambda>s. s \<in> {VStr ''pending'', VStr ''running''}) (get_prop ''status'' task)"

lemma read_array_smaller: "read_array k v = Inr xs \<Longrightarrow> x \<in> set xs \<Longrightarrow> size x < size v"
proof -
  assume "read_array k v = Inr xs" and x: "x \<in> set xs"
  then have g: "get_prop k v = Inr (VArr xs)"
    by (auto simp: read_array_def res_simps elim!: as_array.elims)
  then obtain ps where v: "v = VObj ps" and m: "map_of ps k = Some (VArr xs)"
    by (cases v) (auto split: option.splits)
  have "(k, VArr xs) \<in> set ps" using m by (rule map_of_SomeD)
  then have "size (VArr xs) < size (VObj ps)"
    by (induction ps) auto
  moreover have "size x < size (VArr xs)" using x by (induction xs) auto
  ultimately show ?thesis unfolding v by simp
qed

function collectPendingTasks :: "jsval \<Rightarrow> err + jsval list" where
  "collectPendingTasks snapshot =
     bind_res (read_array ''scopes'' snapshot) (\<lambda>scopes.
     bind_res (map_res collectPendingTasks scopes) (\<lambda>childTasks.
     bind_res (read_array ''tasks'' snapshot) (\<lambda>tasks.
     bind_res (filter_res pending_task tasks) (\<lambda>own. Inr (own @ concat childTasks)))))"
  by auto
termination by (relation "measure size") (auto dest: read_array_smaller)

declare collectPendingTasks.simps [simp del]

definition hasTerminalCause :: "jsval \<Rightarrow> err + bool" where
  "hasTerminalCause receipt =
     bind_res (get_prop ''terminal'' receipt) (\<lambda>terminal.
     bind_res (get_prop ''outcome'' terminal) (\<lambda>outcome.
       if outcome = VStr ''failed'' then map_sum id (\<lambda>e. e \<noteq> VUndef) (get_prop ''error'' terminal)
       else if outcome = VStr ''cancelled'' then map_sum id (\<lambda>e. e \<noteq> VUndef) (get_prop ''cancelReason'' terminal)
       else Inr (outcome = VStr ''completed'' \<or> outcome = VStr ''running'')))"

definition requiresTerminalCause :: "jsval \<Rightarrow> err + bool" where
  "requiresTerminalCause receipt =
     bind_res (get_prop ''terminal'' receipt) (\<lambda>terminal.
       map_sum id (\<lambda>outcome. outcome = VStr ''failed'' \<or> outcome = VStr ''cancelled'') (get_prop ''outcome'' terminal))"

definition root_terminal_event :: "jsval \<Rightarrow> jsval \<Rightarrow> err + bool" where
  "root_terminal_event rootId event =
     bind_res (get_prop ''scopeId'' event) (\<lambda>s.
       if s \<noteq> rootId then Inr False
       else map_sum id (\<lambda>ty. ty \<in> {VStr ''scope:closing'', VStr ''scope:closed''}) (get_prop ''type'' event))"

record verification_opts =
  vo_requireTerminalEvent :: bool
  vo_requireCleanupEvidence :: bool

record verification_report =
  vr_status :: analysis_status
  vr_findings :: "finding list"
  vr_receiptId :: jsval
  vr_checks :: "check list"

definition receipt_finding :: "jsval \<Rightarrow> string \<Rightarrow> severity \<Rightarrow> string \<Rightarrow> finding" where
  "receipt_finding rid code sev msg = (mk_finding code sev msg)\<lparr>af_receiptId := Some rid\<rparr>"

definition mk_check :: "string \<Rightarrow> bool \<Rightarrow> string \<Rightarrow> jsnum option \<Rightarrow> check" where
  "mk_check code failing msg n =
     \<lparr>ck_code = code, ck_status = (if failing then Fail else Pass), ck_message = msg, ck_count = n\<rparr>"

text \<open>What \<open>verifyReceipt\<close> reads, and what it makes of it.\<close>

record receipt_facts =
  fa_id :: jsval
  fa_running :: bool
  fa_failed :: bool
  fa_pending :: "jsval list"
  fa_leaked :: jsnum
  fa_cleanupTimeouts :: jsnum
  fa_cleanupEvidence :: jsnum
  fa_droppedEvents :: jsnum
  fa_terminalEvent :: bool
  fa_causeRecorded :: bool

definition read_facts :: "jsval \<Rightarrow> err + receipt_facts" where
  "read_facts receipt =
     bind_res (get_prop ''snapshot'' receipt) (\<lambda>snapshot.
     bind_res (collectPendingTasks snapshot) (\<lambda>pending.
     bind_res (get_prop ''summary'' receipt) (\<lambda>summary.
     bind_res (read_number ''leakedTasks'' summary) (\<lambda>leaked.
     bind_res (read_number ''cleanupFailures'' summary) (\<lambda>failures.
     bind_res (read_number ''cleanupTimeouts'' summary) (\<lambda>timeouts.
     bind_res (get_prop ''terminal'' receipt) (\<lambda>terminal.
     bind_res (get_prop ''at'' terminal) (\<lambda>terminalAt.
     bind_res (get_prop ''rootScopeId'' receipt) (\<lambda>rootId.
     bind_res (if terminalAt \<noteq> VUndef then Inr True
               else bind_res (read_array ''events'' receipt) (exists_res (root_terminal_event rootId))) (\<lambda>terminalEvent.
     bind_res (get_prop ''outcome'' terminal) (\<lambda>outcome.
     bind_res (get_prop ''receiptId'' receipt) (\<lambda>rid.
     bind_res (read_number ''droppedEvents'' summary) (\<lambda>dropped.
     bind_res (requiresTerminalCause receipt) (\<lambda>required.
     bind_res (hasTerminalCause receipt) (\<lambda>present.
       Inr \<lparr>fa_id = rid, fa_running = (outcome = VStr ''running''), fa_failed = (outcome = VStr ''failed''),
            fa_pending = pending, fa_leaked = js_max (Fin (of_nat (length pending))) leaked,
            fa_cleanupTimeouts = timeouts, fa_cleanupEvidence = failures + timeouts, fa_droppedEvents = dropped,
            fa_terminalEvent = terminalEvent, fa_causeRecorded = (\<not> required \<or> present)\<rparr>)))))))))))))))"

definition leaked_finding :: "receipt_facts \<Rightarrow> err + finding" where
  "leaked_finding f =
     (let base = receipt_finding (fa_id f) ''leaked_tasks'' SevError ''receipt snapshot contains pending owned tasks''
      in case fa_pending f of
           [] \<Rightarrow> Inr base
         | task # _ \<Rightarrow> map_sum id (\<lambda>i. base\<lparr>af_taskId := Some i\<rparr>) (get_prop ''id'' task))"

definition judge_facts :: "receipt_facts \<Rightarrow> finding option \<Rightarrow> verification_opts \<Rightarrow> verification_report" where
  "judge_facts f leak opts =
     (let note = receipt_finding (fa_id f);
          noCleanup = (vo_requireCleanupEvidence opts \<and> fa_cleanupEvidence f = Fin 0);
          noTerminalEvent = (vo_requireTerminalEvent opts \<and> \<not> fa_terminalEvent f);
          findings =
            (if fa_running f then [note ''receipt_not_terminal'' SevError ''receipt does not contain a terminal scope outcome''] else []) @
            (case leak of None \<Rightarrow> [] | Some l \<Rightarrow> [l]) @
            (if Fin 0 < fa_cleanupTimeouts f
             then [note ''cleanup_timeout'' SevWarn ''receipt contains bounded cleanup timeout evidence''] else []) @
            (if noCleanup
             then [note ''cleanup_evidence_missing'' SevError ''receipt does not contain observable cleanup failure or timeout evidence''] else []) @
            (if Fin 0 < fa_droppedEvents f
             then [note ''receipt_truncated'' SevWarn ''receipt event window was truncated before analysis''] else []) @
            (if \<not> fa_causeRecorded f
             then [note ''terminal_cause_missing'' SevError ''failed or cancelled receipt does not include terminal cause evidence''] else []) @
            (if noTerminalEvent
             then [note ''terminal_event_missing'' SevError ''receipt does not contain root scope terminal event evidence''] else []) @
            (if fa_failed f then [note ''terminal_failed'' SevError ''receipt terminal outcome is failed''] else []);
          checks =
            [mk_check ''terminal_outcome_recorded'' (fa_running f)
               (if fa_running f then ''receipt does not contain a terminal scope outcome'' else ''receipt contains a terminal scope outcome'') None,
             mk_check ''no_orphaned_owned_tasks'' (Fin 0 < fa_leaked f)
               (if Fin 0 < fa_leaked f then ''receipt snapshot contains pending owned tasks'' else ''receipt snapshot contains no pending owned tasks'')
               (Some (fa_leaked f)),
             mk_check ''cleanup_evidence_recorded'' noCleanup
               (if Fin 0 < fa_cleanupEvidence f then ''receipt contains observable cleanup failure or timeout evidence''
                else ''receipt has no observable cleanup failure or timeout evidence'') (Some (fa_cleanupEvidence f)),
             mk_check ''terminal_cause_recorded'' (\<not> fa_causeRecorded f)
               (if fa_causeRecorded f then ''receipt terminal cause evidence is present or not required for this outcome''
                else ''failed or cancelled receipt does not include terminal cause evidence'') None,
             mk_check ''terminal_event_recorded'' noTerminalEvent
               (if fa_terminalEvent f then ''receipt contains root scope terminal event evidence''
                else ''receipt terminal event evidence was not required for this verification'') None]
      in \<lparr>vr_status = report_status findings, vr_findings = findings, vr_receiptId = fa_id f, vr_checks = checks\<rparr>)"

definition verifyReceipt :: "jsval \<Rightarrow> verification_opts \<Rightarrow> err + verification_report" where
  "verifyReceipt receipt opts =
     bind_res (read_facts receipt) (\<lambda>f.
       if Fin 0 < fa_leaked f then map_sum id (\<lambda>l. judge_facts f (Some l) opts) (leaked_finding f)
       else Inr (judge_facts f None opts))"

definition analyzeReceipt :: "jsval \<Rightarrow> err + analysis_status \<times> finding list" where
  "analyzeReceipt receipt =
     map_sum id (\<lambda>r. (vr_status r, vr_findings r))
       (verifyReceipt receipt \<lparr>vo_requireTerminalEvent = False, vo_requireCleanupEvidence = False\<rparr>)"

section \<open>Time policies\<close>

definition warning_finding :: "warning \<Rightarrow> finding" where
  "warning_finding w =
     (mk_finding (if w_code w = Deadline_infeasible then ''deadline_infeasible'' else ''time_policy_warning'')
        (if w_code w = Deadline_infeasible then SevError else SevWarn) (w_message w))
     \<lparr>af_estimatedMs := w_estimatedMs w, af_limitMs := w_limitMs w\<rparr>"

definition verifyTimePolicy :: "jsnum \<Rightarrow> policy \<Rightarrow> jsnum option \<Rightarrow> err + analysis_status \<times> finding list \<times> time_plan" where
  "verifyTimePolicy clock policy maxUpperBoundMs =
     bind_res (planTimePolicy clock policy []) (\<lambda>plan.
       let findings = map warning_finding (tp_warnings plan) @
             (case maxUpperBoundMs of
                Some mx \<Rightarrow>
                  if mx < upperBoundMs plan
                  then [(mk_finding ''time_budget_exceeded'' SevError ''time policy upper bound exceeds configured maximum'')
                          \<lparr>af_estimatedMs := Some (upperBoundMs plan), af_limitMs := Some mx\<rparr>]
                  else []
              | None \<Rightarrow> [])
       in Inr (report_status findings, findings, plan))"

section \<open>Source protocols\<close>

record source_use =
  so_operation :: string
  so_target :: "string option"
  so_capability :: "string option"

record source_function =
  sf_functionId :: string
  sf_kind :: "string option"
  sf_uses :: "source_use list"

record source_module =
  sm_moduleId :: string
  sm_functions :: "source_function list"

record protocol_limits =
  pl_maxModules :: nat
  pl_maxFunctions :: nat
  pl_maxUses :: nat

definition normalizeSourceProtocolLimits :: "jsnum option \<Rightarrow> jsnum option \<Rightarrow> jsnum option \<Rightarrow> err + protocol_limits" where
  "normalizeSourceProtocolLimits maxModules maxFunctions maxUses =
     bind_res (positive_count ''maxModules'' (or_default maxModules (Fin 100))) (\<lambda>m.
     bind_res (positive_count ''maxFunctions'' (or_default maxFunctions (Fin 1000))) (\<lambda>f.
     bind_res (positive_count ''maxUsesPerFunction'' (or_default maxUses (Fin 100))) (\<lambda>u.
       Inr \<lparr>pl_maxModules = m, pl_maxFunctions = f, pl_maxUses = u\<rparr>)))"

definition hasAny :: "string set \<Rightarrow> string list \<Rightarrow> bool" where
  "hasAny operations expected \<longleftrightarrow> (\<exists>x \<in> set expected. x \<in> operations)"

definition hasDeclaredAuthority :: "source_use list \<Rightarrow> bool" where
  "hasDeclaredAuthority uses \<longleftrightarrow>
     (\<exists>u \<in> set uses. so_operation u \<in> {''authority.check'', ''agent.tool''} \<and>
        (case so_capability u of None \<Rightarrow> False | Some c \<Rightarrow> 0 < length c))"

definition sourceFinding :: "string \<Rightarrow> string \<Rightarrow> source_module \<Rightarrow> source_function \<Rightarrow> string \<Rightarrow> finding" where
  "sourceFinding code msg m fn operation =
     (mk_finding code SevError msg)\<lparr>af_moduleId := Some (sm_moduleId m), af_functionId := Some (sf_functionId fn),
        af_operation := Some operation\<rparr>"

definition limitFinding :: "string \<Rightarrow> nat \<Rightarrow> nat \<Rightarrow> finding" where
  "limitFinding msg actual limit =
     (mk_finding ''source_protocol_limit_exceeded'' SevError msg)\<lparr>af_count := Some actual, af_limit := Some limit\<rparr>"

definition analyzeSourceFunction :: "source_module \<Rightarrow> source_function \<Rightarrow> source_use list \<Rightarrow> finding list" where
  "analyzeSourceFunction m fn uses =
     (let operations = set (map so_operation uses)
      in (if ''resource.acquire'' \<in> operations \<and>
             \<not> hasAny operations [''ctx.defer'', ''resource.bracketLazy'', ''resource.bracketShared'', ''run.bracket'', ''scope.acquire'']
          then [sourceFinding ''source_resource_without_cleanup''
                  ''resource acquisition is not paired with a WorkIt cleanup owner'' m fn ''resource.acquire'']
          else []) @
         (if ''durable.side_effect'' \<in> operations \<and> \<not> hasAny operations [''activity.run'', ''receipt.append'']
          then [sourceFinding ''source_durable_side_effect_without_evidence''
                  ''durable side effect is not guarded by an activity boundary or receipt append'' m fn ''durable.side_effect'']
          else []) @
         (if ''promise.all'' \<in> operations \<and>
             \<not> hasAny operations [''channel.backpressure'', ''run.pool'', ''scope.spawn'', ''work.parallel'']
          then [sourceFinding ''source_parallel_without_bound''
                  ''parallel fan-out is not paired with a WorkIt concurrency or backpressure owner'' m fn ''promise.all'']
          else []) @
         (if hasAny operations [''run.hedge'', ''run.retry'', ''run.timeout''] \<and> ''time_policy.plan'' \<notin> operations
          then [sourceFinding ''source_time_policy_unplanned''
                  ''runtime time policy is not paired with declared time-policy planning'' m fn ''time_policy.plan'']
          else []) @
         (if sf_kind fn = Some ''agent_tool'' \<and> ''durable.side_effect'' \<in> operations \<and> \<not> hasDeclaredAuthority uses
          then [sourceFinding ''source_agent_tool_without_authority''
                  ''agent tool side effect is not paired with declared capability authority'' m fn ''authority.check'']
          else []))"

record protocol_state =
  ps_findings :: "finding list"
  ps_modules :: nat
  ps_functions :: nat
  ps_uses :: nat

definition check_function :: "protocol_limits \<Rightarrow> source_module \<Rightarrow> source_function \<Rightarrow> protocol_state \<Rightarrow> protocol_state" where
  "check_function limits m fn st =
     (let uses = take (pl_maxUses limits) (sf_uses fn);
          over = (if pl_maxUses limits < length (sf_uses fn)
                  then [(mk_finding ''source_protocol_limit_exceeded'' SevError
                           ''source protocol function use count exceeds configured analysis bound'')
                          \<lparr>af_moduleId := Some (sm_moduleId m), af_functionId := Some (sf_functionId fn),
                           af_count := Some (length (sf_uses fn)), af_limit := Some (pl_maxUses limits)\<rparr>]
                  else [])
      in st\<lparr>ps_functions := ps_functions st + 1, ps_uses := ps_uses st + length uses,
            ps_findings := ps_findings st @ over @ analyzeSourceFunction m fn uses\<rparr>)"

definition check_module :: "protocol_limits \<Rightarrow> source_module \<Rightarrow> protocol_state \<Rightarrow> protocol_state" where
  "check_module limits m st =
     (let over = (if pl_maxFunctions limits < ps_functions st + length (sm_functions m)
                  then [limitFinding ''source protocol function count exceeds configured analysis bound''
                          (ps_functions st + length (sm_functions m)) (pl_maxFunctions limits)]
                  else []);
          st1 = st\<lparr>ps_modules := ps_modules st + 1, ps_findings := ps_findings st @ over\<rparr>
      in fold (check_function limits m) (take (pl_maxFunctions limits - ps_functions st) (sm_functions m)) st1)"

definition verifySourceProtocol :: "protocol_limits \<Rightarrow> source_module list \<Rightarrow> analysis_status \<times> protocol_state" where
  "verifySourceProtocol limits modules =
     (let over = (if pl_maxModules limits < length modules
                  then [limitFinding ''source protocol module count exceeds configured analysis bound''
                          (length modules) (pl_maxModules limits)]
                  else []);
          st = fold (check_module limits) (take (pl_maxModules limits) modules)
                 \<lparr>ps_findings = over, ps_modules = 0, ps_functions = 0, ps_uses = 0\<rparr>
      in (report_status (ps_findings st), st))"

section \<open>Event protocols\<close>

text \<open>An event is seen by its task identifier, if it has one, and its type.\<close>

definition isTaskTerminal :: "string \<Rightarrow> bool" where
  "isTaskTerminal ty \<longleftrightarrow> ty \<in> {''task:succeeded'', ''task:failed'', ''task:cancelled''}"

definition after_terminal_finding :: "string \<Rightarrow> finding" where
  "after_terminal_finding t =
     (mk_finding ''task_event_after_terminal'' SevError ''task emitted an event after its terminal lifecycle event'')
       \<lparr>af_taskId := Some (VStr t)\<rparr>"

fun scan_events :: "string set \<Rightarrow> (string option \<times> string) list \<Rightarrow> finding list" where
  "scan_events terminalTasks [] = []"
| "scan_events terminalTasks ((None, ty) # events) = scan_events terminalTasks events"
| "scan_events terminalTasks ((Some t, ty) # events) =
     (if t \<in> terminalTasks then after_terminal_finding t # scan_events terminalTasks events
      else scan_events (if isTaskTerminal ty then insert t terminalTasks else terminalTasks) events)"

definition verifyScopeProtocol :: "(string option \<times> string) list \<Rightarrow> analysis_status \<times> finding list" where
  "verifyScopeProtocol events = (let findings = scan_events {} events in (report_status findings, findings))"

end
