(* ===== verification/Replay_Props.thy ===== *)
theory Replay_Props
  imports Analysis
begin

text \<open>
  Properties of receipts (\<open>Replay\<close>) and of their verification (\<open>Analysis\<close>): what redaction hides and
  what it leaves alone, the event window of the recorder, the counters of the summary, and for which
  receipts the verifier answers at all.
\<close>

section \<open>Redaction hides\<close>

text \<open>All properties in a value, at any depth; whether it holds an \<open>Error\<close> instance.\<close>

primrec all_props :: "jsval \<Rightarrow> (string \<times> jsval) list" where
  "all_props VUndef = []"
| "all_props VNull = []"
| "all_props (VBool b) = []"
| "all_props (VNum n) = []"
| "all_props (VStr s) = []"
| "all_props (VBigInt i) = []"
| "all_props VSymbol = []"
| "all_props VFun = []"
| "all_props (VDate d) = []"
| "all_props (VErr n m) = []"
| "all_props (VArr xs) = concat (map all_props xs)"
| "all_props (VObj ps) = ps @ concat (map snd (map (map_prod id all_props) ps))"

primrec holds_error :: "jsval \<Rightarrow> bool" where
  "holds_error VUndef = False"
| "holds_error VNull = False"
| "holds_error (VBool b) = False"
| "holds_error (VNum n) = False"
| "holds_error (VStr s) = False"
| "holds_error (VBigInt i) = False"
| "holds_error VSymbol = False"
| "holds_error VFun = False"
| "holds_error (VDate d) = False"
| "holds_error (VErr n m) = True"
| "holds_error (VArr xs) = list_ex id (map holds_error xs)"
| "holds_error (VObj ps) = list_ex snd (map (map_prod id holds_error) ps)"

lemma all_props_obj:
  "p \<in> set (all_props (VObj qs)) \<longleftrightarrow> p \<in> set qs \<or> (\<exists>q \<in> set qs. p \<in> set (all_props (snd q)))"
  by auto

definition hidden :: "runtime_policy \<Rightarrow> string \<times> jsval \<Rightarrow> bool" where
  "hidden pol p \<longleftrightarrow> lower (fst p) \<notin> set (rr_removeFields pol) \<and>
     (lower (fst p) \<in> set (rr_redactFields pol) \<longrightarrow> snd p = VStr ''[redacted]'')"

lemma lower_name [simp]: "lower ''name'' = ''name''" "lower ''message'' = ''message''"
  by (simp_all add: lower_def lower_char_def Let_def)

lemma redactValue_hides:
  assumes "\<forall>k \<in> {''name'', ''message''}. k \<notin> set (rr_removeFields pol) \<and> k \<notin> set (rr_redactFields pol) \<or> \<not> holds_error doc"
  shows "p \<in> set (all_props (redactValue doc pol depth)) \<Longrightarrow> hidden pol p"
  using assms
proof (induction doc arbitrary: depth p)
  case (VErr n m)
  then show ?case by (auto simp: hidden_def error_value_def split: if_splits)
next
  case (VArr xs)
  then obtain x where x: "x \<in> set xs" "p \<in> set (all_props (redactValue x pol (Suc depth)))"
    by (auto split: if_splits)
  moreover have "\<not> holds_error (VArr xs) \<Longrightarrow> \<not> holds_error x" using x(1) by (auto simp: list_ex_iff)
  ultimately show ?case using VArr.IH [OF x] VArr.prems(2) by blast
next
  case (VObj ps)
  let ?out = "map (\<lambda>(key, item). (key, if lower key \<in> set (rr_redactFields pol) then VStr ''[redacted]'' else item pol (Suc depth)))
     (filter (\<lambda>(key, item). lower key \<notin> set (rr_removeFields pol)) (map (map_prod id redactValue) ps))"
  have "p \<in> set (all_props (VObj ?out))" using VObj.prems(1) by (auto split: if_splits)
  then consider "p \<in> set ?out" | q where "q \<in> set ?out" "p \<in> set (all_props (snd q))"
    unfolding all_props_obj by blast
  then show ?case
  proof cases
    case 1
    then show ?thesis by (auto simp: hidden_def)
  next
    case 2
    then obtain k v where kv: "(k, v) \<in> set ps" "p \<in> set (all_props (redactValue v pol (Suc depth)))"
      by (auto split: if_splits)
    moreover have "\<not> holds_error (VObj ps) \<Longrightarrow> \<not> holds_error v" using kv(1) by (force simp: list_ex_iff)
    ultimately have "\<forall>k \<in> {''name'', ''message''}. k \<notin> set (rr_removeFields pol) \<and>
        k \<notin> set (rr_redactFields pol) \<or> \<not> holds_error v"
      using VObj.prems(2) by blast
    from VObj.IH [OF kv(1) _ kv(2) this] show ?thesis by simp
  qed
qed (auto split: if_splits)

text \<open>
  C28: After redaction no property whose lower-cased name is among the removed fields is left at any
  depth, and every property whose lower-cased name is among the redacted fields (the default ones
  and the policy's) has the value \<open>"[redacted]"\<close>; the only exception are the \<open>name\<close> and \<open>message\<close> of
  an \<open>Error\<close> instance inside the value.
\<close>

theorem redaction_hides:
  assumes "(k, v) \<in> set (all_props (redactReceipt doc policy))"
    and "holds_error doc \<Longrightarrow> {''name'', ''message''} \<inter>
      (lower ` set (or_default (rp_removeFields policy) []) \<union> lower ` set (or_default (rp_redactFields policy) [])) = {}"
  shows "(\<forall>f \<in> set (or_default (rp_removeFields policy) []). lower k \<noteq> lower f) \<and>
    (\<forall>f \<in> set (DEFAULT_REDACT_FIELDS @ or_default (rp_redactFields policy) []).
       lower k = lower f \<longrightarrow> v = VStr ''[redacted]'')"
proof -
  have defaults: "''name'' \<notin> lower ` set DEFAULT_REDACT_FIELDS" "''message'' \<notin> lower ` set DEFAULT_REDACT_FIELDS"
    by code_simp+
  have "hidden (runtime_of policy) (k, v)"
  proof (rule redactValue_hides)
    show "(k, v) \<in> set (all_props (redactValue doc (runtime_of policy) 0))"
      using assms(1) by (simp add: redactReceipt_def)
    show "\<forall>k \<in> {''name'', ''message''}. k \<notin> set (rr_removeFields (runtime_of policy)) \<and>
        k \<notin> set (rr_redactFields (runtime_of policy)) \<or> \<not> holds_error doc"
      using assms(2) defaults by (auto simp: runtime_of_def)
  qed
  then show ?thesis by (auto simp: hidden_def runtime_of_def)
qed

definition secret_doc :: jsval where
  "secret_doc = VObj [(''user'', VObj [(''Password'', VStr ''hunter2''), (''age'', num_val 7)])]"

lemma redaction_hides_witness:
  "{v. (''Password'', v) \<in> set (all_props (redactReceipt secret_doc no_redaction))} = {VStr ''[redacted]''}"
proof -
  have occ: "((''Password'', VStr ''[redacted]'') \<in> set (all_props (redactReceipt secret_doc no_redaction))) \<longleftrightarrow> True"
    by code_simp
  have none: "\<not> holds_error secret_doc" by (simp add: secret_doc_def)
  have low: "lower ''Password'' = lower ''password''" by code_simp
  have "v = VStr ''[redacted]''" if "(''Password'', v) \<in> set (all_props (redactReceipt secret_doc no_redaction))" for v
    using redaction_hides [OF that] none low by (simp add: DEFAULT_REDACT_FIELDS_def)
  with occ show ?thesis by blast
qed

section \<open>Redaction leaves the rest alone\<close>

lemma get_prop_redact:
  assumes "\<not> rr_maxDepth pol < Fin (of_nat depth)" and "lower k \<notin> set (rr_removeFields pol)"
    and "lower k \<notin> set (rr_redactFields pol)"
  shows "get_prop k (redactValue (VObj ps) pol depth) =
    Inr (case map_of ps k of None \<Rightarrow> VUndef | Some v \<Rightarrow> redactValue v pol (Suc depth))"
proof -
  have "map_of (map (\<lambda>(key, item). (key, if lower key \<in> set (rr_redactFields pol) then VStr ''[redacted]'' else item pol (Suc depth)))
      (filter (\<lambda>(key, item). lower key \<notin> set (rr_removeFields pol)) (map (map_prod id redactValue) ps))) k =
    map_option (\<lambda>v. redactValue v pol (Suc depth)) (map_of ps k)"
    using assms(2,3) by (induction ps) auto
  then show ?thesis using assms(1) by (simp split: option.split)
qed

lemma redact_array: "\<not> rr_maxDepth pol < Fin (of_nat depth) \<Longrightarrow>
    redactValue (VArr xs) pol depth = VArr (map (\<lambda>x. redactValue x pol (Suc depth)) xs)"
  by simp

abbreviation default_policy :: runtime_policy where
  "default_policy \<equiv> runtime_of no_redaction"

lemma default_policy_simps [simp]:
  "rr_removeFields default_policy = []" "rr_maxDepth default_policy = Fin 8"
  "rr_redactFields default_policy = map lower DEFAULT_REDACT_FIELDS"
  by (simp_all add: runtime_of_def no_redaction_def DEFAULT_MAX_REDACTION_DEPTH_def or_default_def)

definition ordinary :: "string \<Rightarrow> bool" where
  "ordinary k \<longleftrightarrow> lower k \<notin> set (map lower DEFAULT_REDACT_FIELDS)"

lemma get_prop_default:
  "depth \<le> 8 \<Longrightarrow> ordinary k \<Longrightarrow> get_prop k (redactValue (VObj ps) default_policy depth) =
    Inr (case map_of ps k of None \<Rightarrow> VUndef | Some v \<Rightarrow> redactValue v default_policy (Suc depth))"
  unfolding ordinary_def by (rule get_prop_redact) (auto simp del: set_map)

lemma redact_too_deep: "8 < depth \<Longrightarrow> redactValue v default_policy depth = VStr ''[max-depth]''"
  by (cases v) simp_all

lemma ordinary_keys:
  "ordinary ''snapshot''" "ordinary ''scopes''" "ordinary ''tasks''" "ordinary ''status''" "ordinary ''summary''"
  "ordinary ''leakedTasks''" "ordinary ''cleanupFailures''" "ordinary ''cleanupTimeouts''" "ordinary ''terminal''"
  "ordinary ''at''" "ordinary ''rootScopeId''" "ordinary ''events''" "ordinary ''scopeId''" "ordinary ''type''"
  "ordinary ''outcome''" "ordinary ''receiptId''" "ordinary ''droppedEvents''" "ordinary ''error''" "ordinary ''cancelReason''"
  "ordinary ''id''"
  by code_simp+

section \<open>Which receipts can be verified\<close>

primrec nesting :: "scope_snapshot \<Rightarrow> nat" where
  "nesting (Snapshot i n st t0 d pending completed failed cancelled tasks scopes) =
     foldr (\<lambda>m k. max (Suc m) k) (map nesting scopes) 0"

lemma foldr_max_le: "foldr (\<lambda>m k. max (Suc m) k) ms 0 \<le> n \<longleftrightarrow> (\<forall>m \<in> set ms. Suc m \<le> n)"
  by (induction ms) auto

lemma nesting_le: "nesting s \<le> n \<longleftrightarrow> (\<forall>c \<in> set (ss_scopes s). Suc (nesting c) \<le> n)"
  by (cases s) (simp add: foldr_max_le)

lemma read_array_redacted:
  assumes "depth \<le> 7" and "ordinary k" and "map_of ps k = Some (VArr xs)"
  shows "read_array k (redactValue (VObj ps) default_policy depth) =
    Inr (map (\<lambda>x. redactValue x default_policy (Suc (Suc depth))) xs)"
proof -
  have "get_prop k (redactValue (VObj ps) default_policy depth) = Inr (redactValue (VArr xs) default_policy (Suc depth))"
    using get_prop_default [of depth k ps] assms by simp
  then show ?thesis unfolding read_array_def using redact_array [of default_policy "Suc depth" xs] assms(1) by simp
qed

lemma map_of_snapshot:
  "\<exists>ps. snapshot_value s = VObj ps \<and> map_of ps ''scopes'' = Some (VArr (map snapshot_value (ss_scopes s))) \<and>
     map_of ps ''tasks'' = Some (VArr (map task_value (ss_tasks s)))"
  by (cases s) simp

lemma snapshot_arrays:
  assumes "depth \<le> 7"
  shows "read_array ''scopes'' (redactValue (snapshot_value s) default_policy depth) =
      Inr (map (\<lambda>c. redactValue (snapshot_value c) default_policy (depth + 2)) (ss_scopes s))"
    and "read_array ''tasks'' (redactValue (snapshot_value s) default_policy depth) =
      Inr (map (\<lambda>t. redactValue (task_value t) default_policy (depth + 2)) (ss_tasks s))"
proof -
  obtain ps where ps: "snapshot_value s = VObj ps"
    "map_of ps ''scopes'' = Some (VArr (map snapshot_value (ss_scopes s)))"
    "map_of ps ''tasks'' = Some (VArr (map task_value (ss_tasks s)))"
    using map_of_snapshot by blast
  show "read_array ''scopes'' (redactValue (snapshot_value s) default_policy depth) =
      Inr (map (\<lambda>c. redactValue (snapshot_value c) default_policy (depth + 2)) (ss_scopes s))"
    "read_array ''tasks'' (redactValue (snapshot_value s) default_policy depth) =
      Inr (map (\<lambda>t. redactValue (task_value t) default_policy (depth + 2)) (ss_tasks s))"
    unfolding ps(1) read_array_redacted [OF assms ordinary_keys(2) ps(2)] read_array_redacted [OF assms ordinary_keys(3) ps(3)]
    unfolding map_map o_def by simp_all
qed

text \<open>Every value but \<open>undefined\<close> and \<open>null\<close> can be asked for a property.\<close>

definition readable :: "jsval \<Rightarrow> bool" where
  "readable v \<longleftrightarrow> v \<noteq> VUndef \<and> v \<noteq> VNull"

lemma succeeds_get_prop [simp]: "succeeds (get_prop k v) \<longleftrightarrow> readable v"
  by (cases v) (simp_all add: readable_def)

lemma succeeds_map_sum [simp]: "succeeds (map_sum id f r) \<longleftrightarrow> succeeds r"
  by (cases r) simp_all

lemma readable_redact: "readable (redactValue (VObj ps) pol depth)"
  by (simp add: readable_def)

lemma succeeds_filter_res: "\<forall>x \<in> set xs. succeeds (P x) \<Longrightarrow> succeeds (filter_res P xs)"
  by (induction xs) (auto simp: succeeds_def)

lemma succeeds_exists_res: "\<forall>x \<in> set xs. succeeds (P x) \<Longrightarrow> succeeds (exists_res P xs)"
  by (induction xs) (auto simp: succeeds_def)

lemma pending_task_redacted: "succeeds (pending_task (redactValue (task_value t) pol depth))"
  unfolding pending_task_def task_value_def by (simp add: readable_redact del: redactValue.simps)

lemma collect_redacted:
  assumes "depth \<le> 7"
  shows "succeeds (collectPendingTasks (redactValue (snapshot_value s) default_policy depth)) \<longleftrightarrow>
    (\<forall>c \<in> set (ss_scopes s). succeeds (collectPendingTasks (redactValue (snapshot_value c) default_policy (depth + 2))))"
proof -
  have "succeeds (filter_res pending_task (map (\<lambda>t. redactValue (task_value t) default_policy (depth + 2)) (ss_tasks s)))"
    by (intro succeeds_filter_res) (simp add: pending_task_redacted)
  then have own: "\<exists>ys. filter_res pending_task (map (\<lambda>t. redactValue (task_value t) default_policy (depth + 2)) (ss_tasks s)) = Inr ys"
    by (simp add: succeeds_def)
  have "succeeds (collectPendingTasks (redactValue (snapshot_value s) default_policy depth)) \<longleftrightarrow>
      succeeds (map_res collectPendingTasks (map (\<lambda>c. redactValue (snapshot_value c) default_policy (depth + 2)) (ss_scopes s)))"
    unfolding collectPendingTasks.simps [of "redactValue (snapshot_value s) default_policy depth"]
      snapshot_arrays [OF assms]
    using own unfolding succeeds_bind bind_res.simps by (auto simp: succeeds_def)
  then show ?thesis by (simp add: succeeds_map_res)
qed

lemma collect_text: "\<not> succeeds (collectPendingTasks (VStr s))"
  by (simp add: collectPendingTasks.simps read_array_def)

lemma collect_iff_nesting:
  "depth + 2 * n = 7 \<Longrightarrow>
     succeeds (collectPendingTasks (redactValue (snapshot_value s) default_policy depth)) \<longleftrightarrow> nesting s \<le> n"
proof (induction n arbitrary: s depth)
  case 0
  then show ?case
    using collect_redacted [of depth s] nesting_le [of s 0] collect_text
    by (simp add: redact_too_deep)
next
  case (Suc n)
  then have "depth \<le> 7" and d: "depth + 2 + 2 * n = 7" by simp_all
  with collect_redacted [of depth s] Suc.IH [OF d] nesting_le [of s "Suc n"] show ?case by simp
qed

lemma list_all2_in_set2: "list_all2 P xs ys \<Longrightarrow> y \<in> set ys \<Longrightarrow> \<exists>x \<in> set xs. P x y"
  by (induction rule: list_all2_induct) auto

lemma filter_res_True: "filter_res P xs = Inr ys \<Longrightarrow> y \<in> set ys \<Longrightarrow> P y = Inr True"
  by (induction xs arbitrary: ys) (auto simp: res_simps split: if_splits)

lemma collect_pending: "collectPendingTasks v = Inr ts \<Longrightarrow> t \<in> set ts \<Longrightarrow> pending_task t = Inr True"
proof (induction v arbitrary: ts t rule: collectPendingTasks.induct)
  case (1 snapshot)
  from "1.prems"(1) have "bind_res (read_array ''scopes'' snapshot) (\<lambda>scopes.
     bind_res (map_res collectPendingTasks scopes) (\<lambda>childTasks.
     bind_res (read_array ''tasks'' snapshot) (\<lambda>tasks.
     bind_res (filter_res pending_task tasks) (\<lambda>own. Inr (own @ concat childTasks))))) = Inr ts"
    unfolding collectPendingTasks.simps [of snapshot] .
  then obtain scopes childTasks tasks own
    where c: "read_array ''scopes'' snapshot = Inr scopes" "map_res collectPendingTasks scopes = Inr childTasks"
      "filter_res pending_task tasks = Inr own" "ts = own @ concat childTasks"
    unfolding bind_res_Inr by blast
  show ?case
  proof (cases "t \<in> set own")
    case True
    with c(3) show ?thesis by (rule filter_res_True)
  next
    case False
    with "1.prems"(2) c(4) obtain cs where cs: "cs \<in> set childTasks" "t \<in> set cs" by auto
    from c(2) have "list_all2 (\<lambda>x y. collectPendingTasks x = Inr y) scopes childTasks" by (simp add: map_res_Inr)
    from list_all2_in_set2 [OF this cs(1)] obtain x where "x \<in> set scopes" "collectPendingTasks x = Inr cs"
      by blast
    with "1.IH" [OF c(1)] cs(2) show ?thesis by blast
  qed
qed

lemma pending_readable: "pending_task t = Inr True \<Longrightarrow> readable t"
  by (auto simp: pending_task_def readable_def)

lemma map_of_opt_prop [simp]: "map_of (opt_prop k f x) k' = (if k = k' then map_option f x else None)"
  by (simp add: opt_prop_def split: option.split)

definition receipt_props :: "receipt \<Rightarrow> (string \<times> jsval) list" where
  "receipt_props r = (case receipt_value r of VObj ps \<Rightarrow> ps | _ \<Rightarrow> [])"

lemma receipt_value_props: "receipt_value r = VObj (receipt_props r)"
  by (simp add: receipt_props_def receipt_value_def)

lemma receipt_props_of:
  "map_of (receipt_props r) ''snapshot'' = Some (snapshot_value (rc_snapshot r))"
  "map_of (receipt_props r) ''summary'' = Some (summary_value (rc_summary r))"
  "map_of (receipt_props r) ''terminal'' = Some (terminal_value (rc_terminal r))"
  "map_of (receipt_props r) ''events'' = Some (VArr (map event_value (rc_events r)))"
  "map_of (receipt_props r) ''rootScopeId'' = Some (VStr (scope_id_text (ss_id (rc_snapshot r))))"
  "map_of (receipt_props r) ''receiptId'' = Some (VStr (rc_receiptId r))"
  by (simp_all add: receipt_props_def receipt_value_def map_add_def)

abbreviation redacted :: "receipt \<Rightarrow> jsval" where
  "redacted r \<equiv> redactValue (receipt_value r) default_policy 0"

lemma redacted_props:
  "get_prop ''snapshot'' (redacted r) = Inr (redactValue (snapshot_value (rc_snapshot r)) default_policy 1)"
  "get_prop ''summary'' (redacted r) = Inr (redactValue (summary_value (rc_summary r)) default_policy 1)"
  "get_prop ''terminal'' (redacted r) = Inr (redactValue (terminal_value (rc_terminal r)) default_policy 1)"
  "get_prop ''rootScopeId'' (redacted r) = Inr (VStr (scope_id_text (ss_id (rc_snapshot r))))"
  "get_prop ''receiptId'' (redacted r) = Inr (VStr (rc_receiptId r))"
  "read_array ''events'' (redacted r) = Inr (map (\<lambda>e. redactValue (event_value e) default_policy 2) (rc_events r))"
proof -
  have p: "get_prop k (redacted r) = Inr (redactValue v default_policy 1)"
    if "ordinary k" and "map_of (receipt_props r) k = Some v" for k v
    unfolding receipt_value_props using get_prop_default [OF _ that(1), of 0 "receipt_props r"] that(2)
    by (simp del: redactValue.simps)
  show "get_prop ''snapshot'' (redacted r) = Inr (redactValue (snapshot_value (rc_snapshot r)) default_policy 1)"
    "get_prop ''summary'' (redacted r) = Inr (redactValue (summary_value (rc_summary r)) default_policy 1)"
    "get_prop ''terminal'' (redacted r) = Inr (redactValue (terminal_value (rc_terminal r)) default_policy 1)"
    by (rule p [OF ordinary_keys(1) receipt_props_of(1)] p [OF ordinary_keys(5) receipt_props_of(2)]
        p [OF ordinary_keys(9) receipt_props_of(3)])+
  show "get_prop ''rootScopeId'' (redacted r) = Inr (VStr (scope_id_text (ss_id (rc_snapshot r))))"
    "get_prop ''receiptId'' (redacted r) = Inr (VStr (rc_receiptId r))"
    using p [OF ordinary_keys(11) receipt_props_of(5)] p [OF ordinary_keys(16) receipt_props_of(6)] by simp_all
  have "read_array ''events'' (redacted r) =
      Inr (map (\<lambda>x. redactValue x default_policy (Suc (Suc 0))) (map event_value (rc_events r)))"
    unfolding receipt_value_props by (rule read_array_redacted [OF _ ordinary_keys(12) receipt_props_of(4)]) simp
  then show "read_array ''events'' (redacted r) = Inr (map (\<lambda>e. redactValue (event_value e) default_policy 2) (rc_events r))"
    unfolding map_map o_def by (simp add: numeral_2_eq_2)
qed

lemma readable_parts:
  "readable (redactValue (summary_value s) pol d)" "readable (redactValue (terminal_value t) pol d)"
  "readable (redactValue (event_value e) pol d)"
  unfolding summary_value_def terminal_value_def event_value_def by (rule readable_redact)+

lemma root_terminal_event_total: "readable e \<Longrightarrow> succeeds (root_terminal_event rootId e)"
proof -
  assume "readable e"
  then obtain a b where "get_prop ''scopeId'' e = Inr a" "get_prop ''type'' e = Inr b"
    using succeeds_get_prop unfolding succeeds_def by blast
  then show ?thesis by (simp add: root_terminal_event_def)
qed

lemma get_readable: "readable v \<Longrightarrow> \<exists>x. get_prop k v = Inr x"
  using succeeds_get_prop unfolding succeeds_def by blast

lemma read_facts_redacted:
  "succeeds (read_facts (redacted r)) \<longleftrightarrow> nesting (rc_snapshot r) \<le> 3"
proof -
  let ?S = "redactValue (summary_value (rc_summary r)) default_policy 1"
  let ?T = "redactValue (terminal_value (rc_terminal r)) default_policy 1"
  note readable = readable_parts [of _ default_policy 1]
  have num: "\<exists>x. read_number k ?S = Inr x" for k
    using get_readable [OF readable(1) [of "rc_summary r"], of k] by (auto simp: read_number_def)
  have tm: "\<exists>x. get_prop k ?T = Inr x" for k using get_readable [OF readable(2)] .
  have events: "succeeds (exists_res (root_terminal_event x) (map (\<lambda>e. redactValue (event_value e) default_policy 2) (rc_events r)))" for x
    by (intro succeeds_exists_res) (auto intro: root_terminal_event_total readable_parts)
  have cause: "succeeds (hasTerminalCause (redacted r))" "succeeds (requiresTerminalCause (redacted r))"
    unfolding hasTerminalCause_def requiresTerminalCause_def redacted_props
    using tm [of "''outcome''"] readable(2) [of "rc_terminal r"] by auto
  have "succeeds (read_facts (redacted r)) \<longleftrightarrow>
      succeeds (collectPendingTasks (redactValue (snapshot_value (rc_snapshot r)) default_policy 1))"
    unfolding read_facts_def redacted_props
    using num [of "''leakedTasks''"] num [of "''cleanupFailures''"] num [of "''cleanupTimeouts''"]
      num [of "''droppedEvents''"] tm [of "''at''"] tm [of "''outcome''"] events cause
    by (auto simp: succeeds_bind del: redactValue.simps) (auto simp: succeeds_def)
  then show ?thesis using collect_iff_nesting [of 1 3] by simp
qed

lemma verifyReceipt_returns_iff:
  assumes "ro_redaction opts = None"
  shows "(\<exists>report. verifyReceipt (buildReceipt show clock rid dropped events snapshot opts) vopts = Inr report) \<longleftrightarrow>
    nesting snapshot \<le> 3"
proof -
  let ?r = "assembleReceipt show clock rid dropped events snapshot opts"
  have b: "buildReceipt show clock rid dropped events snapshot opts = redacted ?r"
    using assms by (simp add: buildReceipt_def redactReceipt_def or_default_def)
  have s: "rc_snapshot ?r = snapshot" by (simp add: assembleReceipt_def Let_def)
  have leak: "succeeds (leaked_finding f)" if "read_facts (redacted ?r) = Inr f" for f
  proof (cases "fa_pending f")
    case (Cons t ts)
    have "collectPendingTasks (redactValue (snapshot_value (rc_snapshot ?r)) default_policy 1) = Inr (fa_pending f)"
      using that unfolding read_facts_def redacted_props bind_res.simps by (auto simp: res_simps(1))
    with collect_pending Cons have "readable t" by (intro pending_readable) auto
    then show ?thesis using Cons by (simp add: leaked_finding_def Let_def)
  qed (simp add: leaked_finding_def Let_def)
  have "succeeds (verifyReceipt (redacted ?r) vopts) \<longleftrightarrow> succeeds (read_facts (redacted ?r))"
    unfolding verifyReceipt_def succeeds_bind using leak by (auto simp: succeeds_def [of "read_facts _"])
  with read_facts_redacted [of ?r] s show ?thesis unfolding b by (simp add: succeeds_def)
qed

text \<open>
  C29: A receipt built with the default redaction policy can be verified exactly when its scope tree
  nests at most three deep: redaction replaces everything below depth 8 of the receipt by a text, and
  then the verifier, which expects a scope there, throws.
\<close>

theorem verifyReceipt_total_iff:
  assumes "ro_redaction opts = None"
  shows "(\<exists>report. verifyReceipt (buildReceipt show clock rid dropped events snapshot opts) vopts = Inr report) \<longleftrightarrow>
    nesting snapshot \<le> 3"
  using assms by (rule verifyReceipt_returns_iff)

definition plain_opts :: receipt_opts where
  "plain_opts = \<lparr>ro_receiptId = None, ro_redaction = None, ro_limitations = None, ro_attempts = None\<rparr>"

definition idle_scope :: "scope_id \<Rightarrow> scope_snapshot list \<Rightarrow> scope_snapshot" where
  "idle_scope i children = Snapshot i None ScRunning 0 None 0 0 0 0 [] children"

definition deep_scope :: scope_snapshot where
  "deep_scope = idle_scope 1 [idle_scope 2 [idle_scope 3 [idle_scope 4 [idle_scope 5 []]]]]"

lemma verifyReceipt_total_iff_witness:
  "\<not> (\<exists>report. verifyReceipt (buildReceipt (\<lambda>_. []) 0 ''r'' 0 [] deep_scope plain_opts)
        \<lparr>vo_requireTerminalEvent = False, vo_requireCleanupEvidence = False\<rparr> = Inr report)"
proof -
  have "ro_redaction plain_opts = None" by (simp add: plain_opts_def)
  note verifyReceipt_total_iff [OF this, of "\<lambda>_. []" 0 "''r''" 0 "[]" deep_scope]
  moreover have "nesting deep_scope = 4" by (simp add: deep_scope_def idle_scope_def)
  ultimately show ?thesis by simp
qed

section \<open>The recorder's window\<close>

lemma fold_record_event:
  "length (rec_events rec) \<le> rec_max rec \<Longrightarrow>
     fold record_event events rec =
       rec\<lparr>rec_events := rec_events rec @ take (rec_max rec - length (rec_events rec)) events,
           rec_dropped := rec_dropped rec + (length events - (rec_max rec - length (rec_events rec)))\<rparr>"
proof (induction events arbitrary: rec)
  case (Cons e events)
  show ?case
  proof (cases "length (rec_events rec) < rec_max rec")
    case True
    then obtain m where m: "rec_max rec - length (rec_events rec) = Suc m" by (metis Suc_diff_Suc)
    then have m': "rec_max rec - Suc (length (rec_events rec)) = m" by simp
    from True have "length (rec_events (record_event e rec)) \<le> rec_max (record_event e rec)"
      by (simp add: record_event_def)
    from Cons.IH [OF this] show ?thesis using True m m' by (simp add: record_event_def)
  next
    case False
    then have "record_event e rec = rec\<lparr>rec_dropped := rec_dropped rec + 1\<rparr>" by (simp add: record_event_def)
    then show ?thesis using Cons.IH [of "rec\<lparr>rec_dropped := rec_dropped rec + 1\<rparr>"] Cons.prems False by simp
  qed
qed simp

lemma rc_events_assemble: "rc_events (assembleReceipt show clock rid dropped events snapshot opts) = map (normalizeEvent show) events"
  by (simp add: assembleReceipt_def Let_def)

text \<open>
  The receipt recorder keeps exactly the first \<open>maxEvents\<close> events it sees, in order, and counts
  the others; the receipt it assembles then lists the normalized kept events, reports that count, and
  names the truncation as a limitation exactly when something was dropped.
\<close>

theorem recorder_window:
  assumes "createReceiptRecorder mx = Inr rec" and "rec' = fold record_event events rec"
    and "receipt = assembleReceipt show clock rid (rec_dropped rec') (rec_events rec') snapshot plain_opts"
  shows "rec_events rec' = take (rec_max rec) events \<and> rec_dropped rec' = length events - rec_max rec \<and>
    rc_events receipt = map (normalizeEvent show) (take (rec_max rec) events) \<and>
    su_droppedEvents (rc_summary receipt) = length events - rec_max rec \<and>
    (''receipt_event_window_truncated'' \<in> set (rc_limitations receipt) \<longleftrightarrow> rec_max rec < length events)"
proof -
  have "rec_events rec = []" "rec_dropped rec = 0" using assms(1) by (auto simp: createReceiptRecorder_def res_simps)
  with fold_record_event [of rec events] assms(2)
  have r: "rec_events rec' = take (rec_max rec) events" "rec_dropped rec' = length events - rec_max rec" by simp_all
  then show ?thesis
    unfolding assms(3)
    by (auto simp: assembleReceipt_def summarizeReceipt_def Let_def DEFAULT_LIMITATIONS_def plain_opts_def or_default_def)
qed

lemma recorder_window_witness:
  "\<exists>rec. createReceiptRecorder (Some (Fin 1)) = Inr rec \<and>
     rec_events (fold record_event [ScopeOpened 1 None 0, ScopeClosed 1 5 None 5] rec) = [ScopeOpened 1 None 0] \<and>
     rec_dropped (fold record_event [ScopeOpened 1 None 0, ScopeClosed 1 5 None 5] rec) = 1"
proof -
  obtain rec where rec: "createReceiptRecorder (Some (Fin 1)) = Inr rec" "rec_max rec = 1"
    by (simp add: createReceiptRecorder_def positive_count_def or_default_def)
  from recorder_window [OF rec(1) refl refl, of "[ScopeOpened 1 None 0, ScopeClosed 1 5 None 5]"] rec
  show ?thesis by simp
qed

section \<open>The summary counts the whole tree\<close>

lemma foldl_add_counts:
  "sn_totalTasks (foldl add_counts a cs) = sn_totalTasks a + sum_list (map sn_totalTasks cs)"
  "sn_pendingTasks (foldl add_counts a cs) = sn_pendingTasks a + sum_list (map sn_pendingTasks cs)"
  "sn_completedTasks (foldl add_counts a cs) = sn_completedTasks a + sum_list (map sn_completedTasks cs)"
  "sn_failedTasks (foldl add_counts a cs) = sn_failedTasks a + sum_list (map sn_failedTasks cs)"
  "sn_cancelledTasks (foldl add_counts a cs) = sn_cancelledTasks a + sum_list (map sn_cancelledTasks cs)"
  "sn_totalScopes (foldl add_counts a cs) = sn_totalScopes a + sum_list (map sn_totalScopes cs)"
  "sn_pendingScopes (foldl add_counts a cs) = sn_pendingScopes a + sum_list (map sn_pendingScopes cs)"
  by (induction cs arbitrary: a) (simp_all add: add_counts_def)

lemma sum_list_concat_map: "sum_list (map f (concat xss)) = sum_list (map (\<lambda>xs. sum_list (map f xs)) xss)"
  for f :: "'a \<Rightarrow> nat"
  by (induction xss) simp_all

theorem countSnapshot_sums:
  shows "sn_totalTasks (countSnapshot s) = sum_list (map (length \<circ> ss_tasks) (all_scopes s)) \<and>
    sn_pendingTasks (countSnapshot s) = sum_list (map ss_pending (all_scopes s)) \<and>
    sn_completedTasks (countSnapshot s) = sum_list (map ss_completed (all_scopes s)) \<and>
    sn_failedTasks (countSnapshot s) = sum_list (map ss_failed (all_scopes s)) \<and>
    sn_cancelledTasks (countSnapshot s) = sum_list (map ss_cancelled (all_scopes s)) \<and>
    sn_totalScopes (countSnapshot s) = length (all_scopes s) \<and>
    sn_pendingScopes (countSnapshot s) = length (filter (\<lambda>c. ss_status c \<noteq> ScClosed) (all_scopes s))"
proof (induction s)
  case (Snapshot i n st t0 d pending completed failed cancelled tasks scopes)
  have c: "map f (map countSnapshot scopes) = map g scopes" if "\<And>c. c \<in> set scopes \<Longrightarrow> f (countSnapshot c) = g c" for f :: "snapshot_counts \<Rightarrow> nat" and g
    using that by simp
  have len: "sum_list (map (\<lambda>x. length (f x)) scopes) = length (concat (map f scopes))" for f :: "scope_snapshot \<Rightarrow> scope_snapshot list"
    by (simp add: length_concat comp_def)
  show ?case
    using Snapshot
    by (simp add: foldl_add_counts sum_list_concat_map comp_def length_concat filter_concat cong: map_cong)
qed

end
