(* ===== verification/Analysis_Props.thy ===== *)
theory Analysis_Props
  imports Replay_Props
begin

text \<open>
  Properties of the verifiers (\<open>Analysis\<close>): the report on a scope that was cancelled before any of
  its tasks, the specification of the event protocol check, and the soundness of a passing source
  protocol report.
\<close>

section \<open>A cancelled scope without cancelled tasks\<close>

lemma report_status_Fail: "report_status fs = Fail \<longleftrightarrow> (\<exists>f \<in> set fs. af_severity f = SevError)"
  by (simp add: report_status_def)

lemma report_status_Pass: "report_status fs = Pass \<longleftrightarrow> (\<forall>f \<in> set fs. af_severity f = SevInfo)"
proof -
  have "af_severity f = SevInfo \<longleftrightarrow> af_severity f \<noteq> SevError \<and> af_severity f \<noteq> SevWarn" for f
    by (cases "af_severity f") auto
  then show ?thesis by (auto simp: report_status_def)
qed

lemma severity_mk [simp]: "af_severity (mk_finding c v m) = v" "af_code (mk_finding c v m) = c"
  "af_severity (receipt_finding i c v m) = v" "af_code (receipt_finding i c v m) = c"
  by (simp_all add: mk_finding_def receipt_finding_def)

lemma find_append: "find P (xs @ ys) = (case find P xs of None \<Rightarrow> find P ys | Some x \<Rightarrow> Some x)"
  by (induction xs) auto

lemma find_rev_last:
  "P x \<Longrightarrow> \<forall>y \<in> set post. \<not> P y \<Longrightarrow> findLast P (pre @ x # post) = Some x"
proof -
  assume "P x" and "\<forall>y \<in> set post. \<not> P y"
  then have "find P (rev post) = None" by (simp add: find_None_iff)
  with \<open>P x\<close> show ?thesis by (simp add: findLast_def find_append)
qed

lemma type_closing: "re_type (normalizeEvent show e) = ''scope:closing'' \<longleftrightarrow> (\<exists>s r t. e = ScopeClosing s r t)"
  by (cases e) (simp_all add: base_event_def)

lemma type_cancelled: "re_type (normalizeEvent show e) = ''task:cancelled'' \<longleftrightarrow> (\<exists>i r d t. e = TaskCancelled i r d t)"
  by (cases e) (simp_all add: base_event_def)

lemma scope_of_closing: "re_scopeId (normalizeEvent show (ScopeClosing s r t)) = Some s"
  "re_reason (normalizeEvent show (ScopeClosing s r t)) = Some (ReasonClosing r)"
  by (simp_all add: base_event_def)

lemma inferTerminal_cancelled:
  assumes "events = pre @ ScopeClosing (ss_id snapshot) WasCancelled t # post"
    and "\<forall>e \<in> set post. \<forall>r u. e \<noteq> ScopeClosing (ss_id snapshot) r u"
    and "\<forall>e \<in> set events. \<forall>i r d u. e \<noteq> TaskCancelled i r d u"
  shows "rt_outcome (inferTerminal snapshot (map (normalizeEvent show) events)) = OutCancelled \<and>
    rt_cancelReason (inferTerminal snapshot (map (normalizeEvent show) events)) = None"
proof -
  let ?n = "map (normalizeEvent show)" and ?root = "\<lambda>e. re_scopeId e = Some (ss_id snapshot)"
  let ?closing = "\<lambda>e. re_type e = ''scope:closing''"
  let ?c = "normalizeEvent show (ScopeClosing (ss_id snapshot) WasCancelled t)"
  have "filter ?root (?n events) = filter ?root (?n pre) @ ?c # filter ?root (?n post)"
    unfolding assms(1) by (simp add: scope_of_closing del: normalizeEvent.simps)
  note split = this
  have "\<forall>y \<in> set (filter ?root (?n post)). \<not> ?closing y"
    using assms(2) by (fastforce simp: type_closing scope_of_closing)
  moreover have "?closing ?c" unfolding type_closing by blast
  ultimately have closing: "findLast ?closing (filter ?root (?n events)) = Some ?c"
    unfolding split by (intro find_rev_last)
  have "findLast (\<lambda>e. re_type e = ''task:cancelled'') (?n events) = None"
    using assms(3) by (auto simp: findLast_def find_None_iff type_cancelled)
  with closing show ?thesis
    by (simp add: inferTerminal_def Let_def scope_of_closing del: normalizeEvent.simps)
qed

lemma terminal_props:
  assumes "rt_outcome t = OutCancelled" and "rt_cancelReason t = None"
  shows "get_prop ''outcome'' (redactValue (terminal_value t) default_policy 1) = Inr (VStr ''cancelled'')"
    and "get_prop ''cancelReason'' (redactValue (terminal_value t) default_policy 1) = Inr VUndef"
  unfolding terminal_value_def
  by (subst get_prop_default; simp add: ordinary_keys assms map_add_def del: redactValue.simps; simp)+

text \<open>
  A scope that is cancelled while no task of the observed tree is cancelled (it has none, or all
  had settled) yields a receipt that never passes verification: the terminal outcome is \<open>cancelled\<close>,
  but its reason is taken from the last cancelled task, so none is recorded and the report fails with
  \<open>terminal_cause_missing\<close>.
\<close>

theorem cancelled_without_tasks_fails:
  assumes "ro_redaction opts = None" and "nesting snapshot \<le> 3"
    and "events = pre @ ScopeClosing (ss_id snapshot) WasCancelled t # post"
    and "\<forall>e \<in> set post. \<forall>r u. e \<noteq> ScopeClosing (ss_id snapshot) r u"
    and "\<forall>e \<in> set events. \<forall>i r d u. e \<noteq> TaskCancelled i r d u"
  shows "\<exists>rep. verifyReceipt (buildReceipt show clock rid dropped events snapshot opts) vopts = Inr rep \<and>
    vr_status rep = Fail \<and> ''terminal_cause_missing'' \<in> set (map af_code (vr_findings rep))"
proof -
  let ?r = "assembleReceipt show clock rid dropped events snapshot opts"
  have b: "buildReceipt show clock rid dropped events snapshot opts = redacted ?r"
    using assms(1) by (simp add: buildReceipt_def redactReceipt_def or_default_def)
  obtain rep where rep: "verifyReceipt (redacted ?r) vopts = Inr rep"
    using verifyReceipt_returns_iff [OF assms(1), of "show" clock rid dropped events snapshot vopts] assms(2) b by auto
  obtain f where f: "read_facts (redacted ?r) = Inr f" and rep': "\<exists>leak. rep = judge_facts f leak vopts"
    using rep by (auto simp: verifyReceipt_def res_simps map_sum_Inr split: if_splits)
  have t: "rt_outcome (rc_terminal ?r) = OutCancelled" "rt_cancelReason (rc_terminal ?r) = None"
    using inferTerminal_cancelled [OF assms(3-5)] by (simp_all add: assembleReceipt_def Let_def)
  have "requiresTerminalCause (redacted ?r) = Inr True" "hasTerminalCause (redacted ?r) = Inr False"
    unfolding requiresTerminalCause_def hasTerminalCause_def redacted_props bind_res.simps terminal_props [OF t]
    by simp_all
  then have "\<not> fa_causeRecorded f"
    using f unfolding read_facts_def by (auto simp: res_simps(1))
  then show ?thesis
    using rep rep' b by (auto simp: judge_facts_def Let_def report_status_Fail)
qed

lemma cancelled_without_tasks_fails_witness:
  "\<exists>rep. verifyReceipt (buildReceipt (\<lambda>_. []) 9 ''r'' 0
       [ScopeOpened 1 None 0, ScopeClosing 1 WasCancelled 5, ScopeClosed 1 5 None 5] (idle_scope 1 []) plain_opts)
     \<lparr>vo_requireTerminalEvent = False, vo_requireCleanupEvidence = False\<rparr> = Inr rep \<and> vr_status rep = Fail"
proof -
  let ?events = "[ScopeOpened 1 None 0, ScopeClosing 1 WasCancelled 5, ScopeClosed 1 5 None 5]"
  have opts: "ro_redaction plain_opts = None" and nest: "nesting (idle_scope 1 []) \<le> 3"
    by (simp_all add: plain_opts_def idle_scope_def)
  have events: "?events = [ScopeOpened 1 None 0] @ ScopeClosing (ss_id (idle_scope 1 [])) WasCancelled 5 # [ScopeClosed 1 5 None 5]"
    by (simp add: idle_scope_def)
  have post: "\<forall>e \<in> set [ScopeClosed 1 5 None 5]. \<forall>r u. e \<noteq> ScopeClosing (ss_id (idle_scope 1 [])) r u"
    and tasks: "\<forall>e \<in> set ?events. \<forall>i r d u. e \<noteq> TaskCancelled i r d u" by simp_all
  show ?thesis
    using cancelled_without_tasks_fails [OF opts nest events post tasks, of "\<lambda>_. []" 9 "''r''" 0
      "\<lparr>vo_requireTerminalEvent = False, vo_requireCleanupEvidence = False\<rparr>"] by auto
qed

section \<open>The event protocol\<close>

text \<open>A task event is late when a terminal event of the same task came before it.\<close>

definition late_in :: "string set \<Rightarrow> (string option \<times> string) list \<Rightarrow> nat \<Rightarrow> bool" where
  "late_in done events j \<longleftrightarrow> (\<exists>t. fst (events ! j) = Some t \<and>
     (t \<in> done \<or> (\<exists>i < j. fst (events ! i) = Some t \<and> isTaskTerminal (snd (events ! i)))))"

lemma late_in_Suc:
  "late_in D ((o1, ty) # events) (Suc j) \<longleftrightarrow>
     late_in (case o1 of Some t \<Rightarrow> if isTaskTerminal ty then insert t D else D | None \<Rightarrow> D) events j"
proof -
  have ex: "(\<exists>i < Suc j. P i) \<longleftrightarrow> P 0 \<or> (\<exists>i < j. P (Suc i))" for P
    by (rule Ex_less_Suc2)
  show ?thesis by (cases o1) (auto simp: late_in_def ex)
qed

lemma late_in_0: "late_in D ((o1, ty) # events) 0 \<longleftrightarrow> (\<exists>t \<in> D. o1 = Some t)"
  by (auto simp: late_in_def)

definition late_finding :: "(string option \<times> string) list \<Rightarrow> nat \<Rightarrow> finding" where
  "late_finding events j = after_terminal_finding (the (fst (events ! j)))"

lemma upt_Suc_shift: "[0..<Suc n] = 0 # map Suc [0..<n]"
  unfolding map_Suc_upt by (rule upt_conv_Cons) simp

lemma filter_shift: "filter P [0..<length (e # events)] = (if P 0 then [0] else []) @ map Suc (filter (\<lambda>j. P (Suc j)) [0..<length events])"
  by (simp add: upt_Suc_shift filter_map comp_def del: upt_Suc)

lemma scan_events_late:
  "scan_events D events = map (late_finding events) (filter (late_in D events) [0..<length events])"
proof (induction D events rule: scan_events.induct)
  case (2 D ty events)
  show ?case unfolding filter_shift late_in_0 late_in_Suc using "2.IH" by (simp add: late_finding_def comp_def)
next
  case (3 D t ty events)
  show ?case
  proof (cases "t \<in> D")
    case True
    then have "insert t D = D" by blast
    then show ?thesis unfolding filter_shift late_in_0 late_in_Suc using 3(1) True
      by (simp add: late_finding_def comp_def)
  next
    case False
    then show ?thesis unfolding filter_shift late_in_0 late_in_Suc using 3(2) False
      by (simp add: late_finding_def comp_def)
  qed
qed simp

text \<open>
  C30: \<open>verifyScopeProtocol\<close> reports, in order, exactly the events of a task that come after a terminal
  event of the same task, and passes exactly when there is none.
\<close>

theorem verifyScopeProtocol_spec:
  shows "snd (verifyScopeProtocol events) = map (late_finding events) (filter (late_in {} events) [0..<length events]) \<and>
    (fst (verifyScopeProtocol events) = Pass \<longleftrightarrow>
      (\<nexists>i j t. i < j \<and> j < length events \<and> fst (events ! i) = Some t \<and> fst (events ! j) = Some t \<and> isTaskTerminal (snd (events ! i))))"
proof -
  have f: "snd (verifyScopeProtocol events) = map (late_finding events) (filter (late_in {} events) [0..<length events])"
    by (simp add: verifyScopeProtocol_def Let_def scan_events_late)
  have "fst (verifyScopeProtocol events) = Pass \<longleftrightarrow> (\<forall>j < length events. \<not> late_in {} events j)"
    by (auto simp: verifyScopeProtocol_def Let_def scan_events_late report_status_Pass late_finding_def after_terminal_finding_def)
  then show ?thesis unfolding f late_in_def by auto
qed

section \<open>Source protocols\<close>

text \<open>A function obeys the protocol when its uses pair every obligation with an owner.\<close>

definition obeys :: "source_function \<Rightarrow> bool" where
  "obeys fn \<longleftrightarrow>
     (let uses = (\<lambda>op1. \<exists>u \<in> set (sf_uses fn). so_operation u = op1)
      in (uses ''resource.acquire'' \<longrightarrow> uses ''ctx.defer'' \<or> uses ''resource.bracketLazy'' \<or> uses ''resource.bracketShared'' \<or>
            uses ''run.bracket'' \<or> uses ''scope.acquire'') \<and>
         (uses ''durable.side_effect'' \<longrightarrow> uses ''activity.run'' \<or> uses ''receipt.append'') \<and>
         (uses ''promise.all'' \<longrightarrow> uses ''channel.backpressure'' \<or> uses ''run.pool'' \<or> uses ''scope.spawn'' \<or> uses ''work.parallel'') \<and>
         (uses ''run.hedge'' \<or> uses ''run.retry'' \<or> uses ''run.timeout'' \<longrightarrow> uses ''time_policy.plan'') \<and>
         (sf_kind fn = Some ''agent_tool'' \<and> uses ''durable.side_effect'' \<longrightarrow> hasDeclaredAuthority (sf_uses fn)))"

definition no_errors :: "finding list \<Rightarrow> bool" where
  "no_errors fs \<longleftrightarrow> (\<forall>f \<in> set fs. af_severity f \<noteq> SevError)"

lemma no_errors_simps [simp]: "no_errors []" "no_errors (xs @ ys) \<longleftrightarrow> no_errors xs \<and> no_errors ys"
  "no_errors (f # fs) \<longleftrightarrow> af_severity f \<noteq> SevError \<and> no_errors fs"
  by (auto simp: no_errors_def)

lemma source_severity [simp]: "af_severity (sourceFinding c v m f w) = SevError" "af_severity (limitFinding v a b) = SevError"
  by (simp_all add: sourceFinding_def limitFinding_def mk_finding_def)

lemma no_errors_if: "no_errors (if c then [sourceFinding a b m f w] else []) \<longleftrightarrow> \<not> c"
  by simp

lemma analyze_obeys: "no_errors (analyzeSourceFunction m fn (sf_uses fn)) \<longleftrightarrow> obeys fn"
proof -
  define U where "U = (\<lambda>x. \<exists>u \<in> set (sf_uses fn). so_operation u = x)"
  have op: "x \<in> set (map so_operation (sf_uses fn)) \<longleftrightarrow> U x" for x by (auto simp: U_def)
  show ?thesis
    unfolding analyzeSourceFunction_def obeys_def U_def [symmetric] Let_def hasAny_def op no_errors_simps no_errors_if
      list.set bex_simps de_Morgan_conj not_not
    by (rule conj_cong; (rule conj_cong)?; argo)
qed

lemma check_function_ok:
  "no_errors (ps_findings (check_function l m fn st)) \<longleftrightarrow>
     no_errors (ps_findings st) \<and> length (sf_uses fn) \<le> pl_maxUses l \<and> obeys fn"
proof (cases "pl_maxUses l < length (sf_uses fn)")
  case True
  then show ?thesis by (simp add: check_function_def Let_def mk_finding_def)
next
  case False
  then show ?thesis by (simp add: check_function_def Let_def analyze_obeys [of m])
qed

lemma fold_check_function_ok:
  "no_errors (ps_findings (fold (check_function l m) fns st)) \<longleftrightarrow>
     no_errors (ps_findings st) \<and> (\<forall>fn \<in> set fns. length (sf_uses fn) \<le> pl_maxUses l \<and> obeys fn)"
  by (induction fns arbitrary: st) (auto simp: check_function_ok)

lemma fold_check_function_count: "ps_functions (fold (check_function l m) fns st) = ps_functions st + length fns"
  by (induction fns arbitrary: st) (simp_all add: check_function_def Let_def)

lemma check_module_ok:
  "no_errors (ps_findings (check_module l m st)) \<longleftrightarrow>
     no_errors (ps_findings st) \<and> ps_functions st + length (sm_functions m) \<le> pl_maxFunctions l \<and>
     (\<forall>fn \<in> set (sm_functions m). length (sf_uses fn) \<le> pl_maxUses l \<and> obeys fn)"
proof (cases "pl_maxFunctions l < ps_functions st + length (sm_functions m)")
  case True
  then show ?thesis by (simp add: check_module_def Let_def fold_check_function_ok)
next
  case False
  then show ?thesis by (auto simp: check_module_def Let_def fold_check_function_ok)
qed

lemma check_module_count:
  "ps_functions st + length (sm_functions m) \<le> pl_maxFunctions l \<Longrightarrow>
     ps_functions (check_module l m st) = ps_functions st + length (sm_functions m)"
  by (simp add: check_module_def Let_def fold_check_function_count)

lemma fold_check_module_ok:
  "no_errors (ps_findings (fold (check_module l) ms st)) \<longleftrightarrow>
     no_errors (ps_findings st) \<and>
     (ms \<noteq> [] \<longrightarrow> ps_functions st + (\<Sum>m\<leftarrow>ms. length (sm_functions m)) \<le> pl_maxFunctions l) \<and>
     (\<forall>m \<in> set ms. \<forall>fn \<in> set (sm_functions m). length (sf_uses fn) \<le> pl_maxUses l \<and> obeys fn)"
proof (induction ms arbitrary: st)
  case (Cons m ms)
  show ?case
  proof (cases "ps_functions st + length (sm_functions m) \<le> pl_maxFunctions l")
    case True
    then show ?thesis
      by (cases "ms = []") (auto simp: Cons.IH check_module_ok check_module_count)
  next
    case False
    then have "\<not> no_errors (ps_findings (check_module l m st))" by (simp add: check_module_ok)
    then show ?thesis using False by (simp add: Cons.IH)
  qed
qed simp

text \<open>
  C32: \<open>verifySourceProtocol\<close> is sound and complete within its bounds: the report has no error exactly
  when the number of modules, of functions in total and of uses per function stay within the limits
  and every function of every module pairs its obligations with an owner; so a report without errors
  is never due to modules, functions or uses that were cut off.
\<close>

theorem verifySourceProtocol_sound:
  assumes "0 < pl_maxFunctions limits"
  shows "fst (verifySourceProtocol limits modules) \<noteq> Fail \<longleftrightarrow>
    length modules \<le> pl_maxModules limits \<and>
    (\<Sum>m\<leftarrow>modules. length (sm_functions m)) \<le> pl_maxFunctions limits \<and>
    (\<forall>m \<in> set modules. \<forall>fn \<in> set (sm_functions m). length (sf_uses fn) \<le> pl_maxUses limits \<and> obeys fn)"
proof -
  have "fst (verifySourceProtocol limits modules) \<noteq> Fail \<longleftrightarrow> no_errors (ps_findings (snd (verifySourceProtocol limits modules)))"
    by (auto simp: verifySourceProtocol_def Let_def report_status_Fail no_errors_def)
  also have "\<dots> \<longleftrightarrow> length modules \<le> pl_maxModules limits \<and>
    (\<Sum>m\<leftarrow>modules. length (sm_functions m)) \<le> pl_maxFunctions limits \<and>
    (\<forall>m \<in> set modules. \<forall>fn \<in> set (sm_functions m). length (sf_uses fn) \<le> pl_maxUses limits \<and> obeys fn)"
    by (cases "modules = []")
      (auto simp: verifySourceProtocol_def Let_def fold_check_module_ok)
  finally show ?thesis .
qed

definition demo_limits :: protocol_limits where
  "demo_limits = \<lparr>pl_maxModules = 1, pl_maxFunctions = 1, pl_maxUses = 4\<rparr>"

definition demo_function :: source_function where
  "demo_function = \<lparr>sf_functionId = ''charge'', sf_kind = Some ''agent_tool'',
     sf_uses = [\<lparr>so_operation = ''durable.side_effect'', so_target = None, so_capability = None\<rparr>,
       \<lparr>so_operation = ''activity.run'', so_target = None, so_capability = None\<rparr>]\<rparr>"

lemma verifySourceProtocol_sound_witness:
  "fst (verifySourceProtocol demo_limits [\<lparr>sm_moduleId = ''billing'', sm_functions = [demo_function]\<rparr>]) = Fail"
proof -
  have "\<not> obeys demo_function" by (simp add: obeys_def demo_function_def hasDeclaredAuthority_def)
  moreover have "0 < pl_maxFunctions demo_limits" by (simp add: demo_limits_def)
  note verifySourceProtocol_sound [OF this, of "[\<lparr>sm_moduleId = ''billing'', sm_functions = [demo_function]\<rparr>]"]
  ultimately show ?thesis by auto
qed

end
