(* ===== verification/Snapshot_Views.thy ===== *)
theory Snapshot_Views
  imports Events Json Retry
begin

text \<open>
  The two pure views of a scope snapshot: the tree renderer \<open>packages/core/src/engine/tree.ts\<close>
  (\<open>renderTree\<close> and its helpers) and the diagnostics of \<open>packages/core/src/diagnostics/index.ts\<close>
  (\<open>diagnoseSnapshot\<close>).

  A rendered text is the list of its lines. The text of a duration is the parameter \<open>num_text\<close>; the
  glyphs that are not ASCII are written in UTF-8.
\<close>

section \<open>Tree rendering\<close>

record glyphs =
  g_branch :: string
  g_last :: string
  g_pipe :: string
  g_space :: string
  g_pending :: string
  g_running :: string
  g_succeeded :: string
  g_failed :: string
  g_cancelled :: string

definition ASCII :: glyphs where
  "ASCII = \<lparr>g_branch = ''+-- '', g_last = [CHR 0x5C] @ ''-- '', g_pipe = ''|   '', g_space = ''    '', g_pending = ''[ ]'',
     g_running = ''[..]'', g_succeeded = ''[OK]'', g_failed = ''[X]'', g_cancelled = ''[!]''\<rparr>"

definition UNICODE :: glyphs where
  "UNICODE = \<lparr>
     g_branch = [CHR 0xE2, CHR 0x94, CHR 0x9C, CHR 0xE2, CHR 0x94, CHR 0x80, CHR 0x20],
     g_last = [CHR 0xE2, CHR 0x94, CHR 0x94, CHR 0xE2, CHR 0x94, CHR 0x80, CHR 0x20],
     g_pipe = [CHR 0xE2, CHR 0x94, CHR 0x82, CHR 0x20, CHR 0x20],
     g_space = ''   '',
     g_pending = [CHR 0xE2, CHR 0x8F, CHR 0xB8],
     g_running = [CHR 0xE2, CHR 0x8F, CHR 0xB3],
     g_succeeded = [CHR 0xE2, CHR 0x9C, CHR 0x93],
     g_failed = [CHR 0xE2, CHR 0x9C, CHR 0x97],
     g_cancelled = [CHR 0xE2, CHR 0x8A, CHR 0x98]\<rparr>"

fun status_glyph :: "glyphs \<Rightarrow> task_status \<Rightarrow> string" where
  "status_glyph g Pending = g_pending g"
| "status_glyph g Running = g_running g"
| "status_glyph g Succeeded = g_succeeded g"
| "status_glyph g Failed = g_failed g"
| "status_glyph g Cancelled = g_cancelled g"

fun status_name :: "task_status \<Rightarrow> string" where
  "status_name Pending = ''pending''"
| "status_name Running = ''running''"
| "status_name Succeeded = ''succeeded''"
| "status_name Failed = ''failed''"
| "status_name Cancelled = ''cancelled''"

fun scope_status_name :: "scope_status \<Rightarrow> string" where
  "scope_status_name ScRunning = ''running''"
| "scope_status_name ScCancelling = ''cancelling''"
| "scope_status_name ScClosed = ''closed''"

record tree_opts =
  tr_ascii :: "bool option"
  tr_showDurations :: "bool option"
  tr_showProgress :: "bool option"
  tr_maxDepth :: "jsnum option"

text \<open>\<open>Math.round\<close>: half-integers are rounded up.\<close>

definition js_round :: "rat \<Rightarrow> int" where
  "js_round q = \<lfloor>q + 1 / 2\<rfloor>"

definition renderTask :: "(rat \<Rightarrow> string) \<Rightarrow> task_snapshot \<Rightarrow> glyphs \<Rightarrow> tree_opts \<Rightarrow> string" where
  "renderTask num_text task g opts =
     (let details = [status_name (ts_status task)] @
            (case ts_durationMs task of
               Some d \<Rightarrow> if tr_showDurations opts \<noteq> Some False then [num_text d @ ''ms''] else []
             | None \<Rightarrow> []) @
            (case Option.bind (ts_progress task) pr_pct of
               Some p \<Rightarrow> if tr_showProgress opts \<noteq> Some False then [int_text (js_round (p * 100)) @ ''%''] else []
             | None \<Rightarrow> [])
      in status_glyph g (ts_status task) @ '' '' @ ts_name task @ '' ('' @ join '', '' details @ '')'')"

definition scope_label :: "scope_snapshot \<Rightarrow> string" where
  "scope_label s = (case ss_name s of Some n \<Rightarrow> n | None \<Rightarrow> ''scope-'' @ nat_text (ss_id s))"

definition marker :: "glyphs \<Rightarrow> bool \<Rightarrow> string" where
  "marker g isLast = (if isLast then g_last g else g_branch g)"

text \<open>The lines below a scope; \<open>isLast\<close> compares with the number of tasks and child scopes together.\<close>

primrec renderChildren :: "scope_snapshot \<Rightarrow> (rat \<Rightarrow> string) \<Rightarrow> glyphs \<Rightarrow> tree_opts \<Rightarrow> jsnum \<Rightarrow> string \<Rightarrow> nat \<Rightarrow> string list" where
  "renderChildren (Snapshot i n st t0 d pending completed failed cancelled tasks scopes) num_text g opts maxDepth prefix depth =
     (if maxDepth \<le> Fin (of_nat depth) then []
      else
        let count = length tasks + length scopes
        in map (\<lambda>(index, task). prefix @ marker g (Suc index = count) @ renderTask num_text task g opts) (enumerate 0 tasks) @
           concat (map (\<lambda>(index, child, render).
               (prefix @ marker g (Suc index = count) @ scope_label child @ '' ('' @ scope_status_name (ss_status child) @ '')'') #
               render num_text g opts maxDepth (prefix @ (if Suc index = count then g_space g else g_pipe g)) (Suc depth))
             (enumerate (length tasks) (zip scopes (map renderChildren scopes)))))"

record snapshot_totals =
  tot_all :: nat
  tot_succeeded :: nat
  tot_failed :: nat
  tot_cancelled :: nat
  tot_pending :: nat

primrec totals :: "scope_snapshot \<Rightarrow> snapshot_totals \<Rightarrow> snapshot_totals" where
  "totals (Snapshot i n st t0 d pending completed failed cancelled tasks scopes) acc =
     fold id (map totals scopes)
       \<lparr>tot_all = tot_all acc + length tasks, tot_succeeded = tot_succeeded acc + completed,
        tot_failed = tot_failed acc + failed, tot_cancelled = tot_cancelled acc + cancelled,
        tot_pending = tot_pending acc + pending\<rparr>"

definition no_totals :: snapshot_totals where
  "no_totals = \<lparr>tot_all = 0, tot_succeeded = 0, tot_failed = 0, tot_cancelled = 0, tot_pending = 0\<rparr>"

definition renderSummary :: "scope_snapshot \<Rightarrow> glyphs \<Rightarrow> bool \<Rightarrow> string" where
  "renderSummary snapshot g ascii =
     (let t = totals snapshot no_totals;
          sep = (if ascii then '' | '' else [CHR 0x20, CHR 0xC2, CHR 0xB7, CHR 0x20])
      in nat_text (tot_all t) @ '' tasks'' @ sep @ nat_text (tot_succeeded t) @ '' '' @ g_succeeded g
         @ sep @ nat_text (tot_failed t) @ '' '' @ g_failed g
         @ sep @ nat_text (tot_cancelled t) @ '' '' @ g_cancelled g
         @ sep @ nat_text (tot_pending t) @ '' '' @ g_running g)"

text \<open>\<open>env_ascii\<close> is what the process environment says when the options do not.\<close>

definition renderTree :: "bool \<Rightarrow> (rat \<Rightarrow> string) \<Rightarrow> scope_snapshot \<Rightarrow> tree_opts \<Rightarrow> string list" where
  "renderTree env_ascii num_text snapshot opts =
     (let ascii = or_default (tr_ascii opts) env_ascii;
          g = (if ascii then ASCII else UNICODE);
          maxDepth = or_default (tr_maxDepth opts) PInf
      in scope_label snapshot # renderChildren snapshot num_text g opts maxDepth [] 0 @ [[], renderSummary snapshot g ascii])"

section \<open>Diagnostics\<close>

datatype diagnostics_code = OldPendingTask | PendingChildScope | ScopeCancelling | CleanupTimedOut

record diagnostics_finding =
  df_code :: diagnostics_code
  df_scopeId :: "scope_id option"
  df_taskId :: "task_id option"
  df_ageMs :: "rat option"
  df_timeoutMs :: "rat option"
  df_at :: "rat option"

record diagnostics_state =
  ds_pendingTasks :: nat
  ds_oldPendingTasks :: nat
  ds_pendingChildScopes :: nat
  ds_cancellingScopes :: nat
  ds_cleanupTimeouts :: nat
  ds_findings :: "diagnostics_finding list"

definition diag_finding :: "diagnostics_code \<Rightarrow> diagnostics_finding" where
  "diag_finding c = \<lparr>df_code = c, df_scopeId = None, df_taskId = None, df_ageMs = None, df_timeoutMs = None, df_at = None\<rparr>"

definition add_finding :: "jsnum \<Rightarrow> diagnostics_finding \<Rightarrow> diagnostics_state \<Rightarrow> diagnostics_state" where
  "add_finding maxFindings f s =
     (if Fin (of_nat (length (ds_findings s))) < maxFindings then s\<lparr>ds_findings := ds_findings s @ [f]\<rparr> else s)"

definition diagnoseTask :: "jsnum \<Rightarrow> rat \<Rightarrow> jsnum \<Rightarrow> scope_id \<Rightarrow> task_snapshot \<Rightarrow> diagnostics_state \<Rightarrow> diagnostics_state" where
  "diagnoseTask maxFindings now staleTaskMs sid task s =
     (if ts_status task \<noteq> Pending \<and> ts_status task \<noteq> Running then s
      else
        let s1 = s\<lparr>ds_pendingTasks := ds_pendingTasks s + 1\<rparr>;
            ageMs = max 0 (now - ts_startedAt task)
        in if Fin ageMs < staleTaskMs then s1
           else add_finding maxFindings
                  ((diag_finding OldPendingTask)\<lparr>df_scopeId := Some sid, df_taskId := Some (ts_id task), df_ageMs := Some ageMs\<rparr>)
                  (s1\<lparr>ds_oldPendingTasks := ds_oldPendingTasks s1 + 1\<rparr>))"

definition diagnoseScope :: "jsnum \<Rightarrow> scope_id \<Rightarrow> scope_status \<Rightarrow> bool \<Rightarrow> diagnostics_state \<Rightarrow> diagnostics_state" where
  "diagnoseScope maxFindings sid st isRoot s =
     (let s1 = (if st = ScCancelling
                then add_finding maxFindings ((diag_finding ScopeCancelling)\<lparr>df_scopeId := Some sid\<rparr>)
                       (s\<lparr>ds_cancellingScopes := ds_cancellingScopes s + 1\<rparr>)
                else s)
      in if \<not> isRoot \<and> st \<noteq> ScClosed
         then add_finding maxFindings ((diag_finding PendingChildScope)\<lparr>df_scopeId := Some sid\<rparr>)
                (s1\<lparr>ds_pendingChildScopes := ds_pendingChildScopes s1 + 1\<rparr>)
         else s1)"

primrec visit :: "scope_snapshot \<Rightarrow> jsnum \<Rightarrow> rat \<Rightarrow> jsnum \<Rightarrow> bool \<Rightarrow> diagnostics_state \<Rightarrow> diagnostics_state" where
  "visit (Snapshot i n st t0 d pending completed failed cancelled tasks scopes) maxFindings now stale isRoot s =
     fold (\<lambda>v. v maxFindings now stale False) (map visit scopes)
       (fold (diagnoseTask maxFindings now stale i) tasks (diagnoseScope maxFindings i st isRoot s))"

definition diagnoseEvent :: "jsnum \<Rightarrow> task_event \<Rightarrow> diagnostics_state \<Rightarrow> diagnostics_state" where
  "diagnoseEvent maxFindings e s =
     (case e of
        TaskCleanupTimeout t ms u \<Rightarrow>
          add_finding maxFindings ((diag_finding CleanupTimedOut)\<lparr>df_taskId := Some t, df_timeoutMs := Some ms, df_at := Some u\<rparr>)
            (s\<lparr>ds_cleanupTimeouts := ds_cleanupTimeouts s + 1\<rparr>)
      | ScopeCleanupTimeout i ms u \<Rightarrow>
          add_finding maxFindings ((diag_finding CleanupTimedOut)\<lparr>df_scopeId := Some i, df_timeoutMs := Some ms, df_at := Some u\<rparr>)
            (s\<lparr>ds_cleanupTimeouts := ds_cleanupTimeouts s + 1\<rparr>)
      | _ \<Rightarrow> s)"

record diagnostics_opts =
  do_now :: "rat option"
  do_staleTaskMs :: "jsnum option"
  do_events :: "task_event list option"
  do_maxFindings :: "jsnum option"

definition total_findings :: "diagnostics_state \<Rightarrow> nat" where
  "total_findings s = ds_oldPendingTasks s + ds_pendingChildScopes s + ds_cancellingScopes s + ds_cleanupTimeouts s"

record diagnostics_report =
  dr_ok :: bool
  dr_generatedAt :: rat
  dr_state :: diagnostics_state
  dr_truncated :: bool

definition diagnoseSnapshot :: "rat \<Rightarrow> scope_snapshot \<Rightarrow> diagnostics_opts \<Rightarrow> diagnostics_report" where
  "diagnoseSnapshot clock snapshot opts =
     (let now = or_default (do_now opts) clock;
          stale = or_default (do_staleTaskMs opts) (Fin 30000);
          mx = or_default (do_maxFindings opts) (Fin 100);
          s = fold (diagnoseEvent mx) (or_default (do_events opts) [])
                (visit snapshot mx now stale True
                  \<lparr>ds_pendingTasks = 0, ds_oldPendingTasks = 0, ds_pendingChildScopes = 0, ds_cancellingScopes = 0,
                   ds_cleanupTimeouts = 0, ds_findings = []\<rparr>)
      in \<lparr>dr_ok = (total_findings s = 0), dr_generatedAt = now, dr_state = s,
          dr_truncated = (length (ds_findings s) < total_findings s)\<rparr>)"

section \<open>Nothing is lost but the findings beyond the bound\<close>

text \<open>A state that has seen \<open>n\<close> more findings, of which those that fit were kept.\<close>

definition keeps_up :: "nat \<Rightarrow> diagnostics_state \<Rightarrow> bool" where
  "keeps_up mx s \<longleftrightarrow> length (ds_findings s) = min mx (total_findings s)"

lemma add_finding_keeps_up:
  "keeps_up mx s \<Longrightarrow> total_findings s' = total_findings s + 1 \<Longrightarrow> ds_findings s' = ds_findings s \<Longrightarrow>
     keeps_up mx (add_finding (Fin (of_nat mx)) f s')"
  by (auto simp: keeps_up_def add_finding_def total_findings_def)

lemma diagnoseTask_keeps_up: "keeps_up mx s \<Longrightarrow> keeps_up mx (diagnoseTask (Fin (of_nat mx)) now stale i t s)"
  unfolding diagnoseTask_def Let_def
  by (auto intro!: add_finding_keeps_up [of mx s]) (simp_all add: keeps_up_def total_findings_def)

lemma diagnoseScope_keeps_up: "keeps_up mx s \<Longrightarrow> keeps_up mx (diagnoseScope (Fin (of_nat mx)) i st r s)"
proof -
  assume s: "keeps_up mx s"
  define s1 where "s1 = (if st = ScCancelling
      then add_finding (Fin (of_nat mx)) ((diag_finding ScopeCancelling)\<lparr>df_scopeId := Some i\<rparr>)
             (s\<lparr>ds_cancellingScopes := ds_cancellingScopes s + 1\<rparr>) else s)"
  have "keeps_up mx s1"
    using s unfolding s1_def by (auto intro!: add_finding_keeps_up [of mx s] simp: total_findings_def)
  then show ?thesis
    unfolding diagnoseScope_def s1_def [symmetric] Let_def
    by (auto intro!: add_finding_keeps_up [of mx s1] simp: total_findings_def)
qed

lemma fold_keeps_up: "(\<And>x s. x \<in> set xs \<Longrightarrow> keeps_up mx s \<Longrightarrow> keeps_up mx (f x s)) \<Longrightarrow> keeps_up mx s \<Longrightarrow> keeps_up mx (fold f xs s)"
  by (induction xs arbitrary: s) auto

lemma visit_keeps_up: "keeps_up mx s \<Longrightarrow> keeps_up mx (visit sn (Fin (of_nat mx)) now stale r s)"
proof (induction sn arbitrary: r s)
  case (Snapshot i n st t0 d pending completed failed cancelled tasks scopes)
  have "keeps_up mx (fold (diagnoseTask (Fin (of_nat mx)) now stale i) tasks (diagnoseScope (Fin (of_nat mx)) i st r s))"
    by (intro fold_keeps_up diagnoseTask_keeps_up diagnoseScope_keeps_up Snapshot.prems)
  then show ?case
    unfolding visit.simps by (rule fold_keeps_up [rotated]) (auto intro: Snapshot.IH)
qed

lemma diagnoseEvent_keeps_up: "keeps_up mx s \<Longrightarrow> keeps_up mx (diagnoseEvent (Fin (of_nat mx)) e s)"
  by (cases e) (auto simp: diagnoseEvent_def total_findings_def intro!: add_finding_keeps_up [of mx s])

lemma add_finding_counts [simp]:
  "ds_pendingTasks (add_finding m f s) = ds_pendingTasks s"
  "ds_oldPendingTasks (add_finding m f s) = ds_oldPendingTasks s"
  "ds_pendingChildScopes (add_finding m f s) = ds_pendingChildScopes s"
  "ds_cancellingScopes (add_finding m f s) = ds_cancellingScopes s"
  "ds_cleanupTimeouts (add_finding m f s) = ds_cleanupTimeouts s"
  by (simp_all add: add_finding_def)

definition pending_status :: "task_snapshot \<Rightarrow> bool" where
  "pending_status t \<longleftrightarrow> ts_status t = Pending \<or> ts_status t = Running"

definition old_pending :: "rat \<Rightarrow> jsnum \<Rightarrow> task_snapshot \<Rightarrow> bool" where
  "old_pending now stale t \<longleftrightarrow> pending_status t \<and> \<not> Fin (max 0 (now - ts_startedAt t)) < stale"

definition count_tasks :: "(task_snapshot \<Rightarrow> bool) \<Rightarrow> scope_snapshot \<Rightarrow> nat" where
  "count_tasks P s = length (filter P (concat (map ss_tasks (all_scopes s))))"

definition count_scopes :: "(scope_snapshot \<Rightarrow> bool) \<Rightarrow> scope_snapshot \<Rightarrow> nat" where
  "count_scopes P s = length (filter P (all_scopes s))"

lemma count_unfold:
  "count_tasks P (Snapshot i n st t0 d pending completed failed cancelled tasks scopes) =
     length (filter P tasks) + sum_list (map (count_tasks P) scopes)"
  "count_scopes Q (Snapshot i n st t0 d pending completed failed cancelled tasks scopes) =
     (if Q (Snapshot i n st t0 d pending completed failed cancelled tasks scopes) then 1 else 0) + sum_list (map (count_scopes Q) scopes)"
proof -
  show "count_tasks P (Snapshot i n st t0 d pending completed failed cancelled tasks scopes) =
      length (filter P tasks) + sum_list (map (count_tasks P) scopes)"
    unfolding count_tasks_def by (induction scopes) simp_all
  show "count_scopes Q (Snapshot i n st t0 d pending completed failed cancelled tasks scopes) =
      (if Q (Snapshot i n st t0 d pending completed failed cancelled tasks scopes) then 1 else 0) + sum_list (map (count_scopes Q) scopes)"
    unfolding count_scopes_def by (simp add: filter_concat length_concat comp_def)
qed

lemma diagnoseTask_counts:
  "ds_pendingTasks (diagnoseTask m now stale i t s) = ds_pendingTasks s + (if pending_status t then 1 else 0)"
  "ds_oldPendingTasks (diagnoseTask m now stale i t s) = ds_oldPendingTasks s + (if old_pending now stale t then 1 else 0)"
  "ds_pendingChildScopes (diagnoseTask m now stale i t s) = ds_pendingChildScopes s"
  "ds_cancellingScopes (diagnoseTask m now stale i t s) = ds_cancellingScopes s"
  "ds_cleanupTimeouts (diagnoseTask m now stale i t s) = ds_cleanupTimeouts s"
  by (simp_all add: diagnoseTask_def Let_def pending_status_def old_pending_def)

lemma diagnoseScope_counts:
  "ds_pendingTasks (diagnoseScope m i st r s) = ds_pendingTasks s"
  "ds_oldPendingTasks (diagnoseScope m i st r s) = ds_oldPendingTasks s"
  "ds_pendingChildScopes (diagnoseScope m i st r s) = ds_pendingChildScopes s + (if \<not> r \<and> st \<noteq> ScClosed then 1 else 0)"
  "ds_cancellingScopes (diagnoseScope m i st r s) = ds_cancellingScopes s + (if st = ScCancelling then 1 else 0)"
  "ds_cleanupTimeouts (diagnoseScope m i st r s) = ds_cleanupTimeouts s"
  by (simp_all add: diagnoseScope_def Let_def)

lemma fold_diagnoseTask_counts:
  "ds_pendingTasks (fold (diagnoseTask m now stale i) ts s) = ds_pendingTasks s + length (filter pending_status ts)"
  "ds_oldPendingTasks (fold (diagnoseTask m now stale i) ts s) = ds_oldPendingTasks s + length (filter (old_pending now stale) ts)"
  "ds_pendingChildScopes (fold (diagnoseTask m now stale i) ts s) = ds_pendingChildScopes s"
  "ds_cancellingScopes (fold (diagnoseTask m now stale i) ts s) = ds_cancellingScopes s"
  "ds_cleanupTimeouts (fold (diagnoseTask m now stale i) ts s) = ds_cleanupTimeouts s"
  by (induction ts arbitrary: s) (simp_all add: diagnoseTask_counts)

lemma fold_counts:
  fixes c :: "diagnostics_state \<Rightarrow> nat"
  assumes "\<And>x s. x \<in> set xs \<Longrightarrow> c (f x s) = c s + n x"
  shows "c (fold f xs s) = c s + sum_list (map n xs)"
  using assms by (induction xs arbitrary: s) simp_all

lemma visit_fold:
  "visit (Snapshot i n st t0 d pending completed failed cancelled tasks scopes) m now stale r s =
     fold (\<lambda>c. visit c m now stale False) scopes
       (fold (diagnoseTask m now stale i) tasks (diagnoseScope m i st r s))"
  by (simp add: fold_map comp_def)

lemma visit_counts:
  "ds_pendingTasks (visit sn m now stale r s) = ds_pendingTasks s + count_tasks pending_status sn"
  "ds_oldPendingTasks (visit sn m now stale r s) = ds_oldPendingTasks s + count_tasks (old_pending now stale) sn"
  "ds_pendingChildScopes (visit sn m now stale r s) + (if r \<and> ss_status sn \<noteq> ScClosed then 1 else 0) =
     ds_pendingChildScopes s + count_scopes (\<lambda>c. ss_status c \<noteq> ScClosed) sn"
  "ds_cancellingScopes (visit sn m now stale r s) = ds_cancellingScopes s + count_scopes (\<lambda>c. ss_status c = ScCancelling) sn"
  "ds_cleanupTimeouts (visit sn m now stale r s) = ds_cleanupTimeouts s"
proof (induction sn arbitrary: r s)
  case (Snapshot i n st t0 d pending completed failed cancelled tasks scopes)
  let ?s = "fold (diagnoseTask m now stale i) tasks (diagnoseScope m i st r s)"
  note base = fold_diagnoseTask_counts diagnoseScope_counts count_unfold
  {
    case 1
    show ?case
      unfolding visit_fold
      by (subst fold_counts [where n = "count_tasks pending_status", OF Snapshot(1)]) (simp_all add: base)
  next
    case 2
    show ?case
      unfolding visit_fold
      by (subst fold_counts [where n = "count_tasks (old_pending now stale)", OF Snapshot(2)]) (simp_all add: base)
  next
    case 3
    have "ds_pendingChildScopes (visit c m now stale False s) =
        ds_pendingChildScopes s + count_scopes (\<lambda>c. ss_status c \<noteq> ScClosed) c" if "c \<in> set scopes" for c s
      using Snapshot(3) [OF that, of False s] by simp
    note step = fold_counts [where c = ds_pendingChildScopes, OF this]
    show ?case
      unfolding visit_fold by (subst step) (simp_all add: base)
  next
    case 4
    show ?case
      unfolding visit_fold
      by (subst fold_counts [where n = "count_scopes (\<lambda>c. ss_status c = ScCancelling)", OF Snapshot(4)]) (simp_all add: base)
  next
    case 5
    show ?case
      unfolding visit_fold
      by (subst fold_counts [where n = "\<lambda>_. 0"]) (simp_all add: base Snapshot(5))
  }
qed

fun is_cleanup_timeout :: "task_event \<Rightarrow> bool" where
  "is_cleanup_timeout (TaskCleanupTimeout _ _ _) \<longleftrightarrow> True"
| "is_cleanup_timeout (ScopeCleanupTimeout _ _ _) \<longleftrightarrow> True"
| "is_cleanup_timeout _ \<longleftrightarrow> False"

lemma events_counts:
  "ds_pendingTasks (fold (diagnoseEvent m) es s) = ds_pendingTasks s"
  "ds_oldPendingTasks (fold (diagnoseEvent m) es s) = ds_oldPendingTasks s"
  "ds_pendingChildScopes (fold (diagnoseEvent m) es s) = ds_pendingChildScopes s"
  "ds_cancellingScopes (fold (diagnoseEvent m) es s) = ds_cancellingScopes s"
  "ds_cleanupTimeouts (fold (diagnoseEvent m) es s) = ds_cleanupTimeouts s + length (filter is_cleanup_timeout es)"
  by (induction es arbitrary: s) (simp_all add: diagnoseEvent_def split: task_event.split)

text \<open>
  The diagnostics report counts every issue of the whole scope tree and of the event window,
  whatever the bound on the findings it lists: pending and overdue tasks, open child scopes,
  cancelling scopes and cleanup timeouts; it lists as many findings as fit the bound, says it is
  truncated exactly when there were more, and is ok exactly when there is no issue.
\<close>

theorem diagnoseSnapshot_complete:
  assumes "do_maxFindings opts = Some (Fin (of_nat mx))" and "report = diagnoseSnapshot clock snapshot opts"
    and "now = or_default (do_now opts) clock" and "stale = or_default (do_staleTaskMs opts) (Fin 30000)"
  shows "ds_pendingTasks (dr_state report) = count_tasks pending_status snapshot \<and>
    ds_oldPendingTasks (dr_state report) = count_tasks (old_pending now stale) snapshot \<and>
    ds_pendingChildScopes (dr_state report) + (if ss_status snapshot \<noteq> ScClosed then 1 else 0) =
      count_scopes (\<lambda>c. ss_status c \<noteq> ScClosed) snapshot \<and>
    ds_cancellingScopes (dr_state report) = count_scopes (\<lambda>c. ss_status c = ScCancelling) snapshot \<and>
    ds_cleanupTimeouts (dr_state report) = length (filter is_cleanup_timeout (or_default (do_events opts) [])) \<and>
    length (ds_findings (dr_state report)) = min mx (total_findings (dr_state report)) \<and>
    (dr_truncated report \<longleftrightarrow> mx < total_findings (dr_state report)) \<and>
    (dr_ok report \<longleftrightarrow> total_findings (dr_state report) = 0)"
proof -
  let ?m = "Fin (of_nat mx) :: jsnum"
  let ?initial = "\<lparr>ds_pendingTasks = 0, ds_oldPendingTasks = 0, ds_pendingChildScopes = 0, ds_cancellingScopes = 0,
      ds_cleanupTimeouts = 0, ds_findings = []\<rparr>"
  let ?s = "fold (diagnoseEvent ?m) (or_default (do_events opts) []) (visit snapshot ?m now stale True ?initial)"
  have r: "report = \<lparr>dr_ok = (total_findings ?s = 0), dr_generatedAt = now, dr_state = ?s,
      dr_truncated = (length (ds_findings ?s) < total_findings ?s)\<rparr>"
    unfolding assms(2) by (simp add: diagnoseSnapshot_def Let_def assms(1,3,4) or_default_def)
  define s where "s = ?s"
  have "keeps_up mx s"
    unfolding s_def
    by (rule fold_keeps_up [OF diagnoseEvent_keeps_up visit_keeps_up]) (auto simp: keeps_up_def total_findings_def)
  then have len: "length (ds_findings s) = min mx (total_findings s)" by (simp add: keeps_up_def)
  have rs: "report = \<lparr>dr_ok = (total_findings s = 0), dr_generatedAt = now, dr_state = s,
      dr_truncated = (length (ds_findings s) < total_findings s)\<rparr>"
    unfolding r s_def ..
  have "ds_pendingTasks s = count_tasks pending_status snapshot"
    "ds_oldPendingTasks s = count_tasks (old_pending now stale) snapshot"
    "ds_cancellingScopes s = count_scopes (\<lambda>c. ss_status c = ScCancelling) snapshot"
    "ds_cleanupTimeouts s = length (filter is_cleanup_timeout (or_default (do_events opts) []))"
    unfolding s_def by (simp_all add: events_counts visit_counts)
  moreover have "ds_pendingChildScopes s + (if ss_status snapshot \<noteq> ScClosed then 1 else 0) =
      count_scopes (\<lambda>c. ss_status c \<noteq> ScClosed) snapshot"
    unfolding s_def events_counts using visit_counts(3) [of snapshot ?m now stale True ?initial] by simp
  ultimately show ?thesis
    using len by (simp add: rs min_less_iff_disj)
qed

definition busy_scope :: scope_snapshot where
  "busy_scope = Snapshot 1 None ScRunning 0 None 1 0 0 0
     [\<lparr>ts_id = 2, ts_name = ''job'', ts_kind = IO, ts_status = Running, ts_attempt = 1, ts_startedAt = 0,
       ts_durationMs = None, ts_progress = None, ts_meta = None\<rparr>]
     [Snapshot 3 None ScCancelling 0 None 0 0 0 0 [] []]"

definition tight_opts :: diagnostics_opts where
  "tight_opts = \<lparr>do_now = Some 60000, do_staleTaskMs = None, do_events = None, do_maxFindings = Some (Fin (of_nat 2))\<rparr>"

lemma diagnoseSnapshot_complete_witness:
  "dr_truncated (diagnoseSnapshot 0 busy_scope tight_opts) \<and>
   length (ds_findings (dr_state (diagnoseSnapshot 0 busy_scope tight_opts))) = 2"
proof -
  have "do_maxFindings tight_opts = Some (Fin (of_nat 2))" by (simp add: tight_opts_def)
  note c = diagnoseSnapshot_complete [OF this refl refl refl, of 0 busy_scope]
  have "total_findings (dr_state (diagnoseSnapshot 0 busy_scope tight_opts)) = 3"
    using c by (simp add: total_findings_def busy_scope_def tight_opts_def count_tasks_def count_scopes_def
      pending_status_def old_pending_def or_default_def)
  with c show ?thesis by simp
qed

end
