(* ===== verification/Ledger.thy ===== *)
theory Ledger
  imports Json Duration
begin

text \<open>
  The receipt ledgers of \<open>packages/core/src/ledger/index.ts\<close>: in memory, in files, and in SQL tables.

  A receipt is a plain value (\<open>jsval\<close>); its type makes \<open>receiptId\<close> a string and \<open>createdAt\<close> a number.
  The SHA-256 digest is the parameter \<open>hash\<close>, a function of the stable text. A ledger operation is a
  function of the ledger's state that gives a result or an error with the new state, at the time
  the clock shows. The file ledger is also modelled step by step, one step for each file operation
  it awaits, so that appends interleave. A database client is the parameter \<open>query\<close>: it maps a
  statement text with its parameters to rows and a new database.

  In \<open>Ledger_Props\<close> the locale \<open>receipt_ledger\<close> states the contract of \<open>ReceiptLedger\<close>, \<open>durable_ledger\<close> adds that
  entries are never dropped; the ledgers are its instances.
\<close>

section \<open>Records\<close>

definition receiptId_of :: "jsval \<Rightarrow> string" where
  "receiptId_of receipt = (case get_prop ''receiptId'' receipt of Inr (VStr s) \<Rightarrow> s | _ \<Rightarrow> ''undefined'')"

definition createdAt_of :: "jsval \<Rightarrow> jsnum" where
  "createdAt_of receipt = (case get_prop ''createdAt'' receipt of Inr (VNum n) \<Rightarrow> n | _ \<Rightarrow> NaN)"

record ledger_record =
  lr_receiptId :: string
  lr_checksum :: string
  lr_createdAt :: jsnum
  lr_storedAt :: jsnum

record stored_receipt =
  sr_record :: ledger_record
  sr_receipt :: jsval

definition makeRecord :: "jsval \<Rightarrow> string \<Rightarrow> jsnum \<Rightarrow> ledger_record" where
  "makeRecord receipt checksum now =
     \<lparr>lr_receiptId = receiptId_of receipt, lr_checksum = checksum, lr_createdAt = createdAt_of receipt, lr_storedAt = now\<rparr>"

definition checksumReceipt :: "(json \<Rightarrow> string) \<Rightarrow> jsval \<Rightarrow> err + string" where
  "checksumReceipt hash receipt =
     bind_res (stableStringify receipt) (\<lambda>t. case t of Some j \<Rightarrow> Inr (hash j)
       | None \<Rightarrow> Inl (TypeError ''The data argument must be of type string''))"

definition ledger_conflict :: err where
  "ledger_conflict = JsError ''ReceiptLedgerConflictError'' ''Receipt ledger conflict for receipt id''"

text \<open>The answer for an id that is already stored.\<close>

definition known_receipt :: "string \<Rightarrow> stored_receipt \<Rightarrow> err + ledger_record" where
  "known_receipt checksum existing =
     (if lr_checksum (sr_record existing) \<noteq> checksum then Inl ledger_conflict else Inr (sr_record existing))"

text \<open>\<open>Array.prototype.sort\<close> with a consistent comparison, and \<open>compareRecords\<close>; \<open>collate\<close> is \<open>localeCompare\<close>.\<close>

fun insert_by :: "('a \<Rightarrow> 'a \<Rightarrow> jsnum) \<Rightarrow> 'a \<Rightarrow> 'a list \<Rightarrow> 'a list" where
  "insert_by cmp x [] = [x]"
| "insert_by cmp x (y # ys) = (if cmp x y \<le> Fin 0 then x # y # ys else y # insert_by cmp x ys)"

definition sort_by :: "('a \<Rightarrow> 'a \<Rightarrow> jsnum) \<Rightarrow> 'a list \<Rightarrow> 'a list" where
  "sort_by cmp xs = foldr (insert_by cmp) xs []"

definition compareRecords :: "(string \<Rightarrow> string \<Rightarrow> int) \<Rightarrow> ledger_record \<Rightarrow> ledger_record \<Rightarrow> jsnum" where
  "compareRecords collate a b =
     (let d = lr_createdAt a - lr_createdAt b
      in if d = Fin 0 \<or> d = NaN then Fin (of_int (collate (lr_receiptId a) (lr_receiptId b))) else d)"

section \<open>In memory\<close>

record memory_ledger =
  ml_max :: nat
  ml_entries :: "(string \<times> stored_receipt) list"

definition createMemoryReceiptLedger :: "jsnum option \<Rightarrow> err + memory_ledger" where
  "createMemoryReceiptLedger maxReceipts =
     bind_res (positive_count ''maxReceipts'' (case maxReceipts of Some n \<Rightarrow> n | None \<Rightarrow> Fin 10000)) (\<lambda>n.
       Inr \<lparr>ml_max = n, ml_entries = []\<rparr>)"

definition memory_append :: "(json \<Rightarrow> string) \<Rightarrow> jsnum \<Rightarrow> jsval \<Rightarrow> memory_ledger \<Rightarrow> (err + ledger_record) \<times> memory_ledger" where
  "memory_append hash now receipt m =
     (case checksumReceipt hash receipt of
        Inl e \<Rightarrow> (Inl e, m)
      | Inr checksum \<Rightarrow>
          (case map_of (ml_entries m) (receiptId_of receipt) of
             Some existing \<Rightarrow> (known_receipt checksum existing, m)
           | None \<Rightarrow>
               let kept = (if ml_max m \<le> length (ml_entries m) then drop 1 (ml_entries m) else ml_entries m);
                   r = makeRecord receipt checksum now
               in (Inr r, m\<lparr>ml_entries := kept @ [(receiptId_of receipt, \<lparr>sr_record = r, sr_receipt = receipt\<rparr>)]\<rparr>)))"

definition memory_get :: "string \<Rightarrow> memory_ledger \<Rightarrow> (err + jsval option) \<times> memory_ledger" where
  "memory_get receiptId m = (Inr (map_option sr_receipt (map_of (ml_entries m) receiptId)), m)"

definition memory_list :: "(string \<Rightarrow> string \<Rightarrow> int) \<Rightarrow> memory_ledger \<Rightarrow> ledger_record list" where
  "memory_list collate m = sort_by (compareRecords collate) (map (sr_record \<circ> snd) (ml_entries m))"

section \<open>In files\<close>

text \<open>
  The names in the ledger's directory. \<open>receiptPath\<close> encodes the id injectively (base64url), so a
  receipt file is named by its id; the name of a temporary file adds the process and the clock.
  Only the receipt files end in \<open>.json\<close>.
\<close>

datatype file_name = ReceiptFile string | TempFile string nat jsnum

type_synonym ledger_dir = "(file_name \<times> stored_receipt) list"

definition receiptPath :: "string \<Rightarrow> file_name" where
  "receiptPath receiptId = ReceiptFile receiptId"

definition temp_path :: "file_name \<Rightarrow> nat \<Rightarrow> jsnum \<Rightarrow> file_name" where
  "temp_path f pid now = (case f of ReceiptFile i \<Rightarrow> TempFile i pid now | _ \<Rightarrow> f)"

fun is_receipt_file :: "file_name \<Rightarrow> bool" where
  "is_receipt_file (ReceiptFile _) \<longleftrightarrow> True"
| "is_receipt_file (TempFile _ _ _) \<longleftrightarrow> False"

definition readStoredReceipt :: "file_name \<Rightarrow> ledger_dir \<Rightarrow> stored_receipt option" where
  "readStoredReceipt f dir = map_of dir f"

text \<open>\<open>fs.rename\<close> replaces the target and fails for a missing source.\<close>

definition rename_file :: "file_name \<Rightarrow> file_name \<Rightarrow> ledger_dir \<Rightarrow> (err + unit) \<times> ledger_dir" where
  "rename_file source target dir =
     (case map_of dir source of
        None \<Rightarrow> (Inl (JsError ''Error'' ''ENOENT''), dir)
      | Some st \<Rightarrow> (Inr (), AList.update target st (AList.delete source dir)))"

text \<open>An append in progress: what it does next, after each operation it awaits.\<close>

datatype append_phase =
    ReadNext
  | WriteNext stored_receipt file_name
  | RenameNext ledger_record file_name
  | Settled "err + ledger_record"

record append_call =
  ac_receipt :: jsval
  ac_phase :: append_phase

text \<open>
  The text that is written is that of the record and the receipt; \<open>readFile\<close> and \<open>JSON.parse\<close> give
  its value back. A receipt without a text is not written.
\<close>

definition stored_text :: "ledger_record \<Rightarrow> jsval \<Rightarrow> err + stored_receipt" where
  "stored_text r receipt =
     map_sum id (\<lambda>t. \<lparr>sr_record = r, sr_receipt = (case t of Some j \<Rightarrow> from_json j | None \<Rightarrow> VUndef)\<rparr>) (stringify receipt)"

definition append_step :: "(json \<Rightarrow> string) \<Rightarrow> nat \<Rightarrow> jsnum \<Rightarrow> append_call \<Rightarrow> ledger_dir \<Rightarrow> append_call \<times> ledger_dir" where
  "append_step hash pid now call dir =
     (let receipt = ac_receipt call; f = receiptPath (receiptId_of receipt)
      in case ac_phase call of
           ReadNext \<Rightarrow>
             (case checksumReceipt hash receipt of
                Inl e \<Rightarrow> (call\<lparr>ac_phase := Settled (Inl e)\<rparr>, dir)
              | Inr checksum \<Rightarrow>
                  (case readStoredReceipt f dir of
                     Some existing \<Rightarrow> (call\<lparr>ac_phase := Settled (known_receipt checksum existing)\<rparr>, dir)
                   | None \<Rightarrow>
                       (case stored_text (makeRecord receipt checksum now) receipt of
                          Inl e \<Rightarrow> (call\<lparr>ac_phase := Settled (Inl e)\<rparr>, dir)
                        | Inr st \<Rightarrow> (call\<lparr>ac_phase := WriteNext st (temp_path f pid now)\<rparr>, dir))))
         | WriteNext st temp \<Rightarrow> (call\<lparr>ac_phase := RenameNext (sr_record st) temp\<rparr>, AList.update temp st dir)
         | RenameNext r temp \<Rightarrow>
             (case rename_file temp f dir of
                (Inl e, dir') \<Rightarrow> (call\<lparr>ac_phase := Settled (Inl e)\<rparr>, dir')
              | (Inr _, dir') \<Rightarrow> (call\<lparr>ac_phase := Settled (Inr r)\<rparr>, dir'))
         | Settled _ \<Rightarrow> (call, dir))"

fun settled_result :: "append_phase \<Rightarrow> (err + ledger_record) option" where
  "settled_result (Settled r) = Some r"
| "settled_result _ = None"

text \<open>
  Appends in progress over one directory, in any number of processes: call \<open>k\<close> does its next step in
  process \<open>pid\<close> when the clock shows \<open>now\<close>.
\<close>

record file_world =
  fw_calls :: "append_call list"
  fw_dir :: ledger_dir

definition file_step :: "(json \<Rightarrow> string) \<Rightarrow> nat \<times> jsnum \<times> nat \<Rightarrow> file_world \<Rightarrow> file_world" where
  "file_step hash action w =
     (let (pid, now, k) = action
      in if k < length (fw_calls w)
         then let (call, dir) = append_step hash pid now (fw_calls w ! k) (fw_dir w)
              in w\<lparr>fw_calls := (fw_calls w)[k := call], fw_dir := dir\<rparr>
         else w)"

definition start_append :: "jsval \<Rightarrow> append_call" where
  "start_append receipt = \<lparr>ac_receipt = receipt, ac_phase = ReadNext\<rparr>"

text \<open>An append that nothing interleaves with: its three steps.\<close>

definition file_append :: "(json \<Rightarrow> string) \<Rightarrow> nat \<Rightarrow> jsnum \<Rightarrow> jsval \<Rightarrow> ledger_dir \<Rightarrow> (err + ledger_record) \<times> ledger_dir" where
  "file_append hash pid now receipt dir =
     (let step = (\<lambda>(call, d). append_step hash pid now call d);
          (call, d) = step (step (step (start_append receipt, dir)))
      in case ac_phase call of Settled r \<Rightarrow> (r, d) | _ \<Rightarrow> (Inl (PlainError ''pending''), d))"

definition file_get :: "string \<Rightarrow> ledger_dir \<Rightarrow> (err + jsval option) \<times> ledger_dir" where
  "file_get receiptId dir = (Inr (map_option sr_receipt (readStoredReceipt (receiptPath receiptId) dir)), dir)"

definition file_list :: "(string \<Rightarrow> string \<Rightarrow> int) \<Rightarrow> ledger_dir \<Rightarrow> ledger_record list" where
  "file_list collate dir =
     sort_by (compareRecords collate)
       (List.map_filter (\<lambda>(name, _). if is_receipt_file name then map_option sr_record (readStoredReceipt name dir) else None) dir)"

section \<open>In SQL tables\<close>

text \<open>
  A row as the client returns it, its columns of unknown type; the receipt column is a text
  (the tree it denotes) or an object. \<open>number_of\<close> is \<open>Number\<close> on the values a numeric column can
  have: numbers, bigints, decimal integer texts.
\<close>

record sql_row =
  row_receipt_id :: jsval
  row_checksum :: jsval
  row_created_at :: jsval
  row_stored_at :: jsval
  row_receipt_json :: "json + jsval"

fun number_of_text :: "string \<Rightarrow> jsnum" where
  "number_of_text s =
     (if s = [] then Fin 0
      else if list_all is_digit s then Fin (of_nat (digits_val s))
      else if hd s = CHR ''-'' \<and> tl s \<noteq> [] \<and> list_all is_digit (tl s) then Fin (- of_nat (digits_val (tl s)))
      else NaN)"

fun number_of :: "jsval \<Rightarrow> jsnum" where
  "number_of (VNum n) = n"
| "number_of (VBigInt i) = Fin (of_int i)"
| "number_of (VStr s) = number_of_text s"
| "number_of (VBool b) = Fin (if b then 1 else 0)"
| "number_of VNull = Fin 0"
| "number_of _ = NaN"

definition readSqlString :: "jsval \<Rightarrow> err + string" where
  "readSqlString v = (case v of VStr s \<Rightarrow> Inr s | _ \<Rightarrow> Inl (TypeError ''receipt ledger SQL field must be a string''))"

definition readSqlNumber :: "jsval \<Rightarrow> err + jsnum" where
  "readSqlNumber v =
     (let parsed = number_of v
      in if \<not> is_finite parsed then Inl (TypeError ''receipt ledger SQL field must be numeric'') else Inr parsed)"

definition readSqlReceipt :: "json + jsval \<Rightarrow> err + jsval" where
  "readSqlReceipt c =
     (case c of
        Inl text \<Rightarrow> Inr (from_json text)
      | Inr (VObj ps) \<Rightarrow> Inr (VObj ps)
      | Inr (VArr xs) \<Rightarrow> Inr (VArr xs)
      | Inr (VErr n m) \<Rightarrow> Inr (VErr n m)
      | Inr (VDate d) \<Rightarrow> Inr (VDate d)
      | Inr _ \<Rightarrow> Inl (TypeError ''receipt ledger SQL field must be JSON''))"

definition sqlRowToStoredReceipt :: "sql_row \<Rightarrow> err + stored_receipt" where
  "sqlRowToStoredReceipt row =
     bind_res (readSqlString (row_receipt_id row)) (\<lambda>receiptId.
     bind_res (readSqlString (row_checksum row)) (\<lambda>checksum.
     bind_res (readSqlNumber (row_created_at row)) (\<lambda>createdAt.
     bind_res (readSqlNumber (row_stored_at row)) (\<lambda>storedAt.
     bind_res (readSqlReceipt (row_receipt_json row)) (\<lambda>receipt.
       Inr \<lparr>sr_record = \<lparr>lr_receiptId = receiptId, lr_checksum = checksum, lr_createdAt = createdAt, lr_storedAt = storedAt\<rparr>,
            sr_receipt = receipt\<rparr>)))))"

definition finalizeStoredReceipt :: "string \<Rightarrow> stored_receipt option \<Rightarrow> err + ledger_record" where
  "finalizeStoredReceipt checksum stored =
     (case stored of None \<Rightarrow> Inl (PlainError ''Receipt ledger append did not store receipt id'')
      | Some st \<Rightarrow> known_receipt checksum st)"

text \<open>\<open>input.split(".")\<close>, the identifier pattern and the quoting of a table name.\<close>

fun split_at :: "char \<Rightarrow> string \<Rightarrow> string list" where
  "split_at c [] = [[]]"
| "split_at c (x # xs) = (if x = c then [] # split_at c xs else (case split_at c xs of [] \<Rightarrow> [[x]] | p # ps \<Rightarrow> (x # p) # ps))"

definition identifier_start :: "char \<Rightarrow> bool" where
  "identifier_start c \<longleftrightarrow> (let n = of_char c :: nat in 65 \<le> n \<and> n \<le> 90 \<or> 97 \<le> n \<and> n \<le> 122 \<or> n = 95)"

definition sql_identifier :: "string \<Rightarrow> bool" where
  "sql_identifier s \<longleftrightarrow> s \<noteq> [] \<and> identifier_start (hd s) \<and> list_all (\<lambda>c. identifier_start c \<or> is_digit c) (tl s)"

definition quoteSqlIdentifierPath :: "string \<Rightarrow> err + string" where
  "quoteSqlIdentifierPath input =
     map_sum id (join ''.'')
       (map_res (\<lambda>part. if \<not> sql_identifier part then Inl (RangeError ''SQL identifier contains an unsafe segment'')
          else Inr (CHR 0x22 # part @ [CHR 0x22])) (split_at (CHR ''.'') input))"

text \<open>A connection: whether the table was created through it, and the database. Operations may fail.\<close>

record 'db sql_conn =
  sc_initialized :: bool
  sc_db :: 'db

datatype sql_param = PVal jsval | PText json

definition and_then :: "('s \<Rightarrow> (err + 'a) \<times> 's) \<Rightarrow> ('a \<Rightarrow> 's \<Rightarrow> (err + 'b) \<times> 's) \<Rightarrow> 's \<Rightarrow> (err + 'b) \<times> 's" where
  "and_then m f s = (case m s of (Inl e, s') \<Rightarrow> (Inl e, s') | (Inr a, s') \<Rightarrow> f a s')"

definition run_sql :: "(string \<Rightarrow> sql_param list \<Rightarrow> 'db \<Rightarrow> (err + sql_row list) \<times> 'db) \<Rightarrow> string \<Rightarrow> sql_param list \<Rightarrow>
    'db sql_conn \<Rightarrow> (err + sql_row list) \<times> 'db sql_conn" where
  "run_sql query text params s = (let (r, db) = query text params (sc_db s) in (r, s\<lparr>sc_db := db\<rparr>))"

record sql_dialect =
  dl_create :: string
  dl_insert :: string
  dl_select :: string
  dl_list :: string

definition sqlite_dialect :: "string \<Rightarrow> sql_dialect" where
  "sqlite_dialect table = \<lparr>
     dl_create = join '' '' [''CREATE TABLE IF NOT EXISTS '' @ table @ '' ('', ''receipt_id TEXT PRIMARY KEY,'', ''checksum TEXT NOT NULL,'',
       ''created_at INTEGER NOT NULL,'', ''stored_at INTEGER NOT NULL,'', ''receipt_json TEXT NOT NULL'', '')''],
     dl_insert = join '' '' [''INSERT OR IGNORE INTO '' @ table, ''(receipt_id, checksum, created_at, stored_at, receipt_json)'',
       ''VALUES (?, ?, ?, ?, ?)''],
     dl_select = ''SELECT receipt_id, checksum, created_at, stored_at, receipt_json FROM '' @ table @ '' WHERE receipt_id = ?'',
     dl_list = ''SELECT receipt_id, checksum, created_at, stored_at, receipt_json FROM '' @ table @ '' ORDER BY created_at ASC, receipt_id ASC''\<rparr>"

definition postgres_dialect :: "string \<Rightarrow> sql_dialect" where
  "postgres_dialect table = \<lparr>
     dl_create = join '' '' [''CREATE TABLE IF NOT EXISTS '' @ table @ '' ('', ''receipt_id TEXT PRIMARY KEY,'', ''checksum TEXT NOT NULL,'',
       ''created_at BIGINT NOT NULL,'', ''stored_at BIGINT NOT NULL,'', ''receipt_json JSONB NOT NULL'', '')''],
     dl_insert = join '' '' [''INSERT INTO '' @ table, ''(receipt_id, checksum, created_at, stored_at, receipt_json)'',
       ''VALUES ($1, $2, $3, $4, $5::jsonb)'', ''ON CONFLICT (receipt_id) DO NOTHING'',
       ''RETURNING receipt_id, checksum, created_at, stored_at, receipt_json''],
     dl_select = ''SELECT receipt_id, checksum, created_at, stored_at, receipt_json FROM '' @ table @ '' WHERE receipt_id = $1'',
     dl_list = ''SELECT receipt_id, checksum, created_at, stored_at, receipt_json FROM '' @ table @ '' ORDER BY created_at ASC, receipt_id ASC''\<rparr>"

definition createSqlLedger :: "(string \<Rightarrow> sql_dialect) \<Rightarrow> string option \<Rightarrow> 'db \<Rightarrow> err + sql_dialect \<times> 'db sql_conn" where
  "createSqlLedger dialect tableName db =
     map_sum id (\<lambda>table. (dialect table, \<lparr>sc_initialized = False, sc_db = db\<rparr>))
       (quoteSqlIdentifierPath (case tableName of Some t \<Rightarrow> t | None \<Rightarrow> ''workit_receipts''))"

definition ensureInitialized :: "(string \<Rightarrow> sql_param list \<Rightarrow> 'db \<Rightarrow> (err + sql_row list) \<times> 'db) \<Rightarrow> sql_dialect \<Rightarrow>
    'db sql_conn \<Rightarrow> (err + unit) \<times> 'db sql_conn" where
  "ensureInitialized query d s =
     (if sc_initialized s then (Inr (), s)
      else and_then (run_sql query (dl_create d) []) (\<lambda>_ s. (Inr (), s\<lparr>sc_initialized := True\<rparr>)) s)"

definition first_stored :: "sql_row list \<Rightarrow> err + stored_receipt option" where
  "first_stored rows = (case rows of [] \<Rightarrow> Inr None | row # _ \<Rightarrow> map_sum id Some (sqlRowToStoredReceipt row))"

definition readStored :: "(string \<Rightarrow> sql_param list \<Rightarrow> 'db \<Rightarrow> (err + sql_row list) \<times> 'db) \<Rightarrow> sql_dialect \<Rightarrow> string \<Rightarrow>
    'db sql_conn \<Rightarrow> (err + stored_receipt option) \<times> 'db sql_conn" where
  "readStored query d receiptId =
     and_then (run_sql query (dl_select d) [PVal (VStr receiptId)]) (\<lambda>rows s. (first_stored rows, s))"

text \<open>The parameters of the insertion; \<open>JSON.stringify\<close> gives no text for \<open>undefined\<close>.\<close>

definition insert_params :: "jsval \<Rightarrow> string \<Rightarrow> jsnum \<Rightarrow> err + sql_param list" where
  "insert_params receipt checksum storedAt =
     map_sum id (\<lambda>t. [PVal (VStr (receiptId_of receipt)), PVal (VStr checksum), PVal (VNum (createdAt_of receipt)), PVal (VNum storedAt),
         (case t of Some j \<Rightarrow> PText j | None \<Rightarrow> PVal VUndef)])
       (stringify receipt)"

definition sqlite_append :: "(string \<Rightarrow> sql_param list \<Rightarrow> 'db \<Rightarrow> (err + sql_row list) \<times> 'db) \<Rightarrow> sql_dialect \<Rightarrow> (json \<Rightarrow> string) \<Rightarrow>
    jsnum \<Rightarrow> jsval \<Rightarrow> 'db sql_conn \<Rightarrow> (err + ledger_record) \<times> 'db sql_conn" where
  "sqlite_append query d hash now receipt =
     and_then (ensureInitialized query d) (\<lambda>_.
     and_then (\<lambda>s. (checksumReceipt hash receipt, s)) (\<lambda>checksum.
     and_then (\<lambda>s. (insert_params receipt checksum now, s)) (\<lambda>params.
     and_then (run_sql query (dl_insert d) params) (\<lambda>_.
     and_then (readStored query d (receiptId_of receipt)) (\<lambda>stored s.
       (finalizeStoredReceipt checksum stored, s))))))"

definition postgres_append :: "(string \<Rightarrow> sql_param list \<Rightarrow> 'db \<Rightarrow> (err + sql_row list) \<times> 'db) \<Rightarrow> sql_dialect \<Rightarrow> (json \<Rightarrow> string) \<Rightarrow>
    jsnum \<Rightarrow> jsval \<Rightarrow> 'db sql_conn \<Rightarrow> (err + ledger_record) \<times> 'db sql_conn" where
  "postgres_append query d hash now receipt =
     and_then (ensureInitialized query d) (\<lambda>_.
     and_then (\<lambda>s. (checksumReceipt hash receipt, s)) (\<lambda>checksum.
     and_then (\<lambda>s. (insert_params receipt checksum now, s)) (\<lambda>params.
     and_then (run_sql query (dl_insert d) params) (\<lambda>rows.
     and_then (if rows = [] then readStored query d (receiptId_of receipt) else (\<lambda>s. (first_stored rows, s))) (\<lambda>stored s.
       (finalizeStoredReceipt checksum stored, s))))))"

definition sql_get :: "(string \<Rightarrow> sql_param list \<Rightarrow> 'db \<Rightarrow> (err + sql_row list) \<times> 'db) \<Rightarrow> sql_dialect \<Rightarrow> string \<Rightarrow>
    'db sql_conn \<Rightarrow> (err + jsval option) \<times> 'db sql_conn" where
  "sql_get query d receiptId =
     and_then (ensureInitialized query d) (\<lambda>_.
     and_then (readStored query d receiptId) (\<lambda>stored s. (Inr (map_option sr_receipt stored), s)))"

definition sql_list :: "(string \<Rightarrow> sql_param list \<Rightarrow> 'db \<Rightarrow> (err + sql_row list) \<times> 'db) \<Rightarrow> sql_dialect \<Rightarrow>
    'db sql_conn \<Rightarrow> (err + ledger_record list) \<times> 'db sql_conn" where
  "sql_list query d =
     and_then (ensureInitialized query d) (\<lambda>_.
     and_then (run_sql query (dl_list d) []) (\<lambda>rows s. (map_sum id (map sr_record) (map_res sqlRowToStoredReceipt rows), s)))"

end
