(* ===== verification/Ledger_Props.thy ===== *)
theory Ledger_Props
  imports Ledger
begin

text \<open>
  What the receipt ledgers promise. The locale \<open>receipt_ledger\<close> is the contract of one append and
  one lookup, \<open>durable_ledger\<close> adds that what is stored stays stored; its client lemma says that a
  durable ledger answers every sequence of appends as \<open>spec_append\<close> does, a finite map that keeps
  the first receipt of each id. The ledgers of the code are interpretations of these locales.
\<close>

section \<open>The contract\<close>

definition is_receipt :: "jsval \<Rightarrow> bool" where
  "is_receipt r \<longleftrightarrow> plain r \<and> (case get_prop ''receiptId'' r of Inr (VStr _) \<Rightarrow> True | _ \<Rightarrow> False) \<and>
     is_finite (createdAt_of r)"

definition stored_ok :: "(json \<Rightarrow> string) \<Rightarrow> string \<Rightarrow> stored_receipt \<Rightarrow> bool" where
  "stored_ok hash i st \<longleftrightarrow> plain (sr_receipt st) \<and> lr_receiptId (sr_record st) = i \<and> receiptId_of (sr_receipt st) = i \<and>
     checksumReceipt hash (sr_receipt st) = Inr (lr_checksum (sr_record st))"

definition same_stored :: "stored_receipt \<Rightarrow> stored_receipt \<Rightarrow> bool" where
  "same_stored a b \<longleftrightarrow> sr_record a = sr_record b \<and> same_value (sr_receipt a) (sr_receipt b)"

text \<open>The abstract ledger: a finite map that keeps the first receipt of an id.\<close>

definition spec_append :: "(json \<Rightarrow> string) \<Rightarrow> jsnum \<Rightarrow> jsval \<Rightarrow> (string \<rightharpoonup> stored_receipt) \<Rightarrow>
    (err + ledger_record) \<times> (string \<rightharpoonup> stored_receipt)" where
  "spec_append hash now r m =
     (case checksumReceipt hash r of
        Inl e \<Rightarrow> (Inl e, m)
      | Inr c \<Rightarrow>
          (case m (receiptId_of r) of
             Some st \<Rightarrow> (known_receipt c st, m)
           | None \<Rightarrow> (Inr (makeRecord r c now), m(receiptId_of r \<mapsto> \<lparr>sr_record = makeRecord r c now, sr_receipt = r\<rparr>))))"

fun run_appends :: "(jsnum \<Rightarrow> jsval \<Rightarrow> 's \<Rightarrow> (err + ledger_record) \<times> 's) \<Rightarrow> (jsnum \<times> jsval) list \<Rightarrow> 's \<Rightarrow>
    (err + ledger_record) list \<times> 's" where
  "run_appends app [] s = ([], s)"
| "run_appends app ((now, r) # xs) s =
     (fst (app now r s) # fst (run_appends app xs (snd (app now r s))), snd (run_appends app xs (snd (app now r s))))"

definition appendable :: "jsnum \<times> jsval \<Rightarrow> bool" where
  "appendable x \<longleftrightarrow> is_finite (fst x) \<and> is_receipt (snd x)"

lemma receipt_checksum: "plain r \<Longrightarrow> \<exists>c. checksumReceipt hash r = Inr c"
  using stableStringify_plain [of r] by (auto simp: checksumReceipt_def)

lemma checksum_same: "same_value r r' \<Longrightarrow> checksumReceipt hash r = checksumReceipt hash r'"
  by (simp add: checksumReceipt_def stableStringify_def sortValue_same)

lemma stored_ok_make: "is_receipt r \<Longrightarrow> checksumReceipt hash r = Inr c \<Longrightarrow>
    stored_ok hash (receiptId_of r) \<lparr>sr_record = makeRecord r c now, sr_receipt = r\<rparr>"
  by (simp add: stored_ok_def is_receipt_def makeRecord_def)

locale receipt_ledger =
  fixes append :: "jsnum \<Rightarrow> jsval \<Rightarrow> 's \<Rightarrow> (err + ledger_record) \<times> 's"
    and get :: "string \<Rightarrow> 's \<Rightarrow> (err + jsval option) \<times> 's"
    and find :: "'s \<Rightarrow> string \<Rightarrow> stored_receipt option"
    and inv :: "'s \<Rightarrow> bool"
    and hash :: "json \<Rightarrow> string"
  assumes inv_append: "inv s \<Longrightarrow> appendable (now, r) \<Longrightarrow> inv (snd (append now r s))"
    and append_known: "inv s \<Longrightarrow> appendable (now, r) \<Longrightarrow> checksumReceipt hash r = Inr c \<Longrightarrow>
      find s (receiptId_of r) = Some st \<Longrightarrow> fst (append now r s) = known_receipt c st \<and> find (snd (append now r s)) = find s"
    and append_fresh: "inv s \<Longrightarrow> appendable (now, r) \<Longrightarrow> checksumReceipt hash r = Inr c \<Longrightarrow>
      find s (receiptId_of r) = None \<Longrightarrow> fst (append now r s) = Inr (makeRecord r c now) \<and>
      (\<exists>doc. find (snd (append now r s)) (receiptId_of r) = Some \<lparr>sr_record = makeRecord r c now, sr_receipt = doc\<rparr> \<and> same_value doc r)"
    and get_found: "inv s \<Longrightarrow> fst (get i s) = Inr (map_option sr_receipt (find s i))"
    and get_keeps: "inv s \<Longrightarrow> inv (snd (get i s)) \<and> find (snd (get i s)) = find s"
begin

text \<open>An append can be repeated: the second answer is the record of the first.\<close>

lemma append_idempotent:
  assumes "inv s" and "appendable (now, r)" and "fst (append now r s) = Inr rec" and "appendable (now', r)"
  shows "fst (append now' r (snd (append now r s))) = Inr rec"
proof -
  obtain c where c: "checksumReceipt hash r = Inr c"
    using receipt_checksum assms(2) by (auto simp: appendable_def is_receipt_def)
  have inv': "inv (snd (append now r s))" using assms(1,2) by (rule inv_append)
  show ?thesis
  proof (cases "find s (receiptId_of r)")
    case None
    from append_fresh [OF assms(1,2) c None] obtain doc where
      "find (snd (append now r s)) (receiptId_of r) = Some \<lparr>sr_record = makeRecord r c now, sr_receipt = doc\<rparr>"
      and "rec = makeRecord r c now" using assms(3) by auto
    with append_known [OF inv' assms(4) c] show ?thesis by (simp add: known_receipt_def makeRecord_def)
  next
    case (Some st)
    note k = append_known [OF assms(1,2) c Some]
    then have "find (snd (append now r s)) (receiptId_of r) = Some st" using Some by simp
    from append_known [OF inv' assms(4) c this] k assms(3) show ?thesis by simp
  qed
qed

end

locale durable_ledger = receipt_ledger +
  assumes append_keeps: "inv s \<Longrightarrow> appendable (now, r) \<Longrightarrow> i \<noteq> receiptId_of r \<Longrightarrow> find (snd (append now r s)) i = find s i"
begin

definition agrees where
  "agrees s m \<longleftrightarrow> inv s \<and> (\<forall>i. rel_option same_stored (find s i) (m i))"

text \<open>One append of the ledger simulates one append of the map.\<close>

lemma append_simulates:
  assumes "agrees s m" and x: "appendable (now, r)"
  shows "fst (append now r s) = fst (spec_append hash now r m) \<and> agrees (snd (append now r s)) (snd (spec_append hash now r m))"
proof -
  have inv: "inv s" and rel: "\<And>i. rel_option same_stored (find s i) (m i)"
    using assms(1) by (auto simp: agrees_def)
  obtain c where c: "checksumReceipt hash r = Inr c"
    using receipt_checksum x by (auto simp: appendable_def is_receipt_def)
  have inv': "inv (snd (append now r s))" using inv x by (rule inv_append)
  show ?thesis
  proof (cases "find s (receiptId_of r)")
    case None
    then have m: "m (receiptId_of r) = None" using rel [of "receiptId_of r"] by (cases "m (receiptId_of r)") auto
    from append_fresh [OF inv x c None] obtain doc where
      doc: "find (snd (append now r s)) (receiptId_of r) = Some \<lparr>sr_record = makeRecord r c now, sr_receipt = doc\<rparr>"
        "same_value doc r" and res: "fst (append now r s) = Inr (makeRecord r c now)" by auto
    have "rel_option same_stored (find (snd (append now r s)) i) (snd (spec_append hash now r m) i)" for i
      using doc append_keeps [OF inv x, of i] rel [of i]
      by (cases "i = receiptId_of r") (auto simp: spec_append_def c m same_stored_def)
    with inv' res show ?thesis by (simp add: agrees_def spec_append_def c m)
  next
    case (Some st)
    then obtain st' where m: "m (receiptId_of r) = Some st'" and st': "same_stored st st'"
      using rel [of "receiptId_of r"] by (cases "m (receiptId_of r)") auto
    with append_known [OF inv x c Some] inv' rel show ?thesis
      by (simp add: agrees_def spec_append_def c known_receipt_def same_stored_def)
  qed
qed

lemma run_simulates:
  "agrees s m \<Longrightarrow> list_all appendable xs \<Longrightarrow>
     fst (run_appends append xs s) = fst (run_appends (spec_append hash) xs m) \<and>
     agrees (snd (run_appends append xs s)) (snd (run_appends (spec_append hash) xs m))"
proof (induction xs arbitrary: s m)
  case (Cons x xs)
  then show ?case using append_simulates [of s m "fst x" "snd x"] by (cases x) auto
qed simp

text \<open>A ledger that starts empty answers appends, and then a lookup, as the map does.\<close>

lemma get_simulates: "agrees s m \<Longrightarrow>
    \<exists>doc. fst (get i s) = Inr doc \<and> rel_option same_value doc (map_option sr_receipt (m i))"
  using get_found [of s i] unfolding agrees_def
  by (cases "find s i"; cases "m i") (force simp: same_stored_def dest: spec [of _ i])+

lemma run_from_empty:
  assumes "inv s" and "find s = Map.empty" and "list_all appendable xs"
  shows "fst (run_appends append xs s) = fst (run_appends (spec_append hash) xs Map.empty) \<and>
    (\<exists>doc. fst (get i (snd (run_appends append xs s))) = Inr doc \<and>
       rel_option same_value doc (map_option sr_receipt (snd (run_appends (spec_append hash) xs Map.empty) i)))"
proof -
  have "agrees s Map.empty" using assms(1,2) by (simp add: agrees_def)
  from run_simulates [OF this assms(3)] get_simulates show ?thesis by blast
qed

end

section \<open>What the abstract ledger promises\<close>

lemma spec_append_keeps: "m i = Some st \<Longrightarrow> snd (spec_append hash now r m) i = Some st"
  by (auto simp: spec_append_def split: sum.splits option.splits)

lemma spec_run_keeps: "m i = Some st \<Longrightarrow> snd (run_appends (spec_append hash) xs m) i = Some st"
proof (induction xs arbitrary: m)
  case (Cons x xs)
  then show ?case by (cases x) (simp add: spec_append_keeps)
qed simp

lemma length_run_appends: "length (fst (run_appends app xs s)) = length xs"
  by (induction xs arbitrary: s) auto

text \<open>Every append is answered as the receipt that stays stored demands.\<close>

lemma spec_run_answers:
  assumes "list_all appendable xs" and "k < length xs" and "receiptId_of (snd (xs ! k)) = i"
  shows "\<exists>st c. snd (run_appends (spec_append hash) xs m) i = Some st \<and> checksumReceipt hash (snd (xs ! k)) = Inr c \<and>
    fst (run_appends (spec_append hash) xs m) ! k = known_receipt c st"
  using assms
proof (induction xs arbitrary: m k)
  case (Cons x xs)
  obtain now r where x: "x = (now, r)" by (cases x)
  obtain c where c: "checksumReceipt hash r = Inr c"
    using receipt_checksum Cons.prems(1) by (auto simp: x appendable_def is_receipt_def)
  show ?case
  proof (cases k)
    case 0
    define st where "st = (case m i of Some st \<Rightarrow> st | None \<Rightarrow> \<lparr>sr_record = makeRecord r c now, sr_receipt = r\<rparr>)"
    have i: "receiptId_of r = i" using Cons.prems(3) by (simp add: 0 x)
    have "snd (spec_append hash now r m) i = Some st" "fst (spec_append hash now r m) = known_receipt c st"
      by (auto simp: spec_append_def c i st_def known_receipt_def makeRecord_def split: option.split)
    then show ?thesis by (auto simp: 0 x c intro!: spec_run_keeps)
  next
    case (Suc k')
    then show ?thesis using Cons by (simp add: x)
  qed
qed simp

section \<open>The memory ledger\<close>

definition memory_ok :: "(json \<Rightarrow> string) \<Rightarrow> memory_ledger \<Rightarrow> bool" where
  "memory_ok hash m \<longleftrightarrow> 1 \<le> ml_max m \<and> length (ml_entries m) \<le> ml_max m \<and> distinct (map fst (ml_entries m)) \<and>
     (\<forall>(i, st) \<in> set (ml_entries m). stored_ok hash i st)"

definition memory_fresh :: "jsnum \<Rightarrow> string \<Rightarrow> jsval \<Rightarrow> memory_ledger \<Rightarrow> (string \<times> stored_receipt) list" where
  "memory_fresh now c r m =
     drop (if ml_max m \<le> length (ml_entries m) then 1 else 0) (ml_entries m) @
       [(receiptId_of r, \<lparr>sr_record = makeRecord r c now, sr_receipt = r\<rparr>)]"

lemma memory_append_cases:
  "checksumReceipt hash r = Inr c \<Longrightarrow> map_of (ml_entries m) (receiptId_of r) = Some st \<Longrightarrow>
     memory_append hash now r m = (known_receipt c st, m)"
  "checksumReceipt hash r = Inr c \<Longrightarrow> map_of (ml_entries m) (receiptId_of r) = None \<Longrightarrow>
     memory_append hash now r m = (Inr (makeRecord r c now), m\<lparr>ml_entries := memory_fresh now c r m\<rparr>)"
  by (simp_all add: memory_append_def memory_fresh_def Let_def)

lemma memory_append_ok:
  assumes ok: "memory_ok hash m" and r: "appendable (now, r)"
  shows "memory_ok hash (snd (memory_append hash now r m))"
proof -
  obtain c where c: "checksumReceipt hash r = Inr c"
    using receipt_checksum r by (auto simp: appendable_def is_receipt_def)
  have st: "stored_ok hash (receiptId_of r) \<lparr>sr_record = makeRecord r c now, sr_receipt = r\<rparr>"
    using r c stored_ok_make by (simp add: appendable_def)
  show ?thesis
  proof (cases "map_of (ml_entries m) (receiptId_of r)")
    case None
    define n where "n = (if ml_max m \<le> length (ml_entries m) then 1 else 0 :: nat)"
    have "receiptId_of r \<notin> set (map fst (drop n (ml_entries m)))"
      using None by (metis drop_map in_set_dropD map_of_eq_None_iff set_map)
    moreover have "length (drop n (ml_entries m)) < ml_max m"
      using ok by (auto simp: n_def memory_ok_def)
    ultimately have "memory_ok hash (m\<lparr>ml_entries := memory_fresh now c r m\<rparr>)"
      using ok st by (auto simp: memory_ok_def memory_fresh_def n_def [symmetric] drop_map [symmetric] dest: in_set_dropD)
    then show ?thesis by (simp add: memory_append_cases(2) [OF c None])
  next
    case (Some st')
    then show ?thesis using ok by (simp add: memory_append_cases(1) [OF c Some])
  qed
qed

lemma memory_fresh_lookup:
  assumes "map_of (ml_entries m) (receiptId_of r) = None"
  shows "map_of (memory_fresh now c r m) (receiptId_of r) = Some \<lparr>sr_record = makeRecord r c now, sr_receipt = r\<rparr>"
proof -
  have "map_of (drop n (ml_entries m)) (receiptId_of r) = None" for n
    using assms by (metis (no_types) drop_map in_set_dropD map_of_eq_None_iff set_map)
  then show ?thesis by (simp add: memory_fresh_def map_add_def)
qed

interpretation memory: receipt_ledger "memory_append hash" memory_get "\<lambda>m. map_of (ml_entries m)" "memory_ok hash" hash
  for hash
proof unfold_locales
  fix m :: memory_ledger and now r c
  assume c: "checksumReceipt hash r = Inr c" and "map_of (ml_entries m) (receiptId_of r) = None"
  then show "fst (memory_append hash now r m) = Inr (makeRecord r c now) \<and>
      (\<exists>doc. map_of (ml_entries (snd (memory_append hash now r m))) (receiptId_of r) =
         Some \<lparr>sr_record = makeRecord r c now, sr_receipt = doc\<rparr> \<and> same_value doc r)"
    by (simp add: memory_append_cases(2) memory_fresh_lookup same_refl)
qed (simp_all add: memory_append_ok memory_append_cases(1) memory_get_def)

section \<open>The file ledger\<close>

fun file_id :: "file_name \<Rightarrow> string" where
  "file_id (ReceiptFile i) = i"
| "file_id (TempFile i _ _) = i"

definition dir_ok :: "(json \<Rightarrow> string) \<Rightarrow> ledger_dir \<Rightarrow> bool" where
  "dir_ok hash dir \<longleftrightarrow> (\<forall>f st. map_of dir f = Some st \<longrightarrow> stored_ok hash (file_id f) st)"

definition dir_find :: "ledger_dir \<Rightarrow> string \<Rightarrow> stored_receipt option" where
  "dir_find dir i = map_of dir (ReceiptFile i)"

lemma dir_ok_find: "dir_ok hash dir \<Longrightarrow> dir_find dir i = Some st \<Longrightarrow> stored_ok hash i st"
  unfolding dir_ok_def dir_find_def by (metis file_id.simps(1))

lemma stored_text_receipt: "plain r \<Longrightarrow> stored_text rec r = Inr \<lparr>sr_record = rec, sr_receipt = r\<rparr>"
  using stringify_plain [of r] by (auto simp: stored_text_def)

text \<open>The result of an append on its own, and the directory after it.\<close>

lemma file_append_known:
  "checksumReceipt hash r = Inr c \<Longrightarrow> dir_find dir (receiptId_of r) = Some st \<Longrightarrow>
     file_append hash pid now r dir = (known_receipt c st, dir)"
  by (simp add: file_append_def start_append_def append_step_def dir_find_def readStoredReceipt_def receiptPath_def Let_def)

lemma file_append_fresh:
  assumes "plain r" and "checksumReceipt hash r = Inr c" and "dir_find dir (receiptId_of r) = None"
  shows "fst (file_append hash pid now r dir) = Inr (makeRecord r c now) \<and>
    map_of (snd (file_append hash pid now r dir)) =
      (map_of dir)(TempFile (receiptId_of r) pid now := None,
        ReceiptFile (receiptId_of r) \<mapsto> \<lparr>sr_record = makeRecord r c now, sr_receipt = r\<rparr>)"
  using assms
  by (simp add: file_append_def start_append_def append_step_def dir_find_def readStoredReceipt_def receiptPath_def temp_path_def stored_text_receipt
      rename_file_def update_conv' delete_conv' Let_def)

lemma file_append_ok:
  assumes "dir_ok hash dir" and "appendable (now, r)"
  shows "dir_ok hash (snd (file_append hash pid now r dir))"
proof -
  have r: "is_receipt r" "plain r" using assms(2) by (auto simp: appendable_def is_receipt_def)
  then obtain c where c: "checksumReceipt hash r = Inr c" using receipt_checksum by blast
  show ?thesis
    using assms(1) file_append_known [OF c, of dir _ pid now] file_append_fresh [OF r(2) c, of dir pid now] stored_ok_make [OF r(1) c, of now]
    by (cases "dir_find dir (receiptId_of r)") (auto simp: dir_ok_def split: if_splits)
qed

interpretation files: durable_ledger "file_append hash pid" file_get dir_find "dir_ok hash" hash
  for hash pid
proof unfold_locales
  fix dir now r c
  assume a: "appendable (now, r)" and c: "checksumReceipt hash r = Inr c" and f: "dir_find dir (receiptId_of r) = None"
  have "plain r" using a by (simp add: appendable_def is_receipt_def)
  from file_append_fresh [OF this c f]
  show "fst (file_append hash pid now r dir) = Inr (makeRecord r c now) \<and>
      (\<exists>doc. dir_find (snd (file_append hash pid now r dir)) (receiptId_of r) =
         Some \<lparr>sr_record = makeRecord r c now, sr_receipt = doc\<rparr> \<and> same_value doc r)"
    by (simp add: dir_find_def same_refl)
next
  fix dir now r i
  assume a: "appendable (now, r)" and i: "i \<noteq> receiptId_of r"
  have r: "plain r" using a by (simp add: appendable_def is_receipt_def)
  then obtain c where c: "checksumReceipt hash r = Inr c" using receipt_checksum by blast
  show "dir_find (snd (file_append hash pid now r dir)) i = dir_find dir i"
    using file_append_known [OF c, of dir _ pid now] file_append_fresh [OF r c, of dir pid now] i
    by (cases "dir_find dir (receiptId_of r)") (auto simp: dir_find_def)
qed (simp_all add: file_append_ok file_append_known file_get_def dir_find_def readStoredReceipt_def receiptPath_def)

section \<open>The SQL ledgers\<close>

text \<open>
  What the ledger relies on of a client and its database: creating the table when it is there
  changes nothing, a selection by primary key gives the row of that key, and an insertion stores
  the given columns unless the key is taken. A stored row reads back as the record and as a receipt
  that is the same up to the order of keys (a \<open>JSONB\<close> column reorders them).
\<close>

definition row_holds :: "string \<Rightarrow> string \<Rightarrow> rat \<Rightarrow> rat \<Rightarrow> json \<Rightarrow> sql_row \<Rightarrow> bool" where
  "row_holds i c a b j row \<longleftrightarrow> (\<exists>doc. same_value doc (from_json j) \<and> sqlRowToStoredReceipt row = Inr
     \<lparr>sr_record = \<lparr>lr_receiptId = i, lr_checksum = c, lr_createdAt = Fin a, lr_storedAt = Fin b\<rparr>, sr_receipt = doc\<rparr>)"

definition insert_row :: "string \<Rightarrow> string \<Rightarrow> rat \<Rightarrow> rat \<Rightarrow> json \<Rightarrow> sql_param list" where
  "insert_row i c a b j = [PVal (VStr i), PVal (VStr c), PVal (VNum (Fin a)), PVal (VNum (Fin b)), PText j]"

definition conn_find :: "('db \<Rightarrow> string \<Rightarrow> sql_row option) \<Rightarrow> 'db sql_conn \<Rightarrow> string \<Rightarrow> stored_receipt option" where
  "conn_find rows s i = Option.bind (rows (sc_db s) i)
     (\<lambda>row. case sqlRowToStoredReceipt row of Inr st \<Rightarrow> Some st | Inl _ \<Rightarrow> None)"

definition conn_ok :: "('db \<Rightarrow> string \<Rightarrow> sql_row option) \<Rightarrow> ('db \<Rightarrow> bool) \<Rightarrow> 'db sql_conn \<Rightarrow> bool" where
  "conn_ok rows ready s \<longleftrightarrow> (sc_initialized s \<longrightarrow> ready (sc_db s)) \<and>
     (\<forall>i row. rows (sc_db s) i = Some row \<longrightarrow> (\<exists>st. sqlRowToStoredReceipt row = Inr st))"

lemma insert_params_receipt:
  assumes "is_receipt r"
  obtains a j where "createdAt_of r = Fin a" and "from_json j = r"
    and "insert_params r c (Fin b) = Inr (insert_row (receiptId_of r) c a b j)"
proof -
  obtain a where a: "createdAt_of r = Fin a" using assms by (cases "createdAt_of r") (auto simp: is_receipt_def)
  obtain j where j: "stringify r = Inr (Some j)" "from_json j = r" using assms stringify_plain by (auto simp: is_receipt_def)
  show ?thesis by (rule that [OF a j(2)]) (simp add: insert_params_def insert_row_def a j(1))
qed

locale sql_client =
  fixes query :: "string \<Rightarrow> sql_param list \<Rightarrow> 'db \<Rightarrow> (err + sql_row list) \<times> 'db"
    and d :: sql_dialect
    and rows :: "'db \<Rightarrow> string \<Rightarrow> sql_row option"
    and ready :: "'db \<Rightarrow> bool"
  assumes create: "(\<exists>rs. fst (query (dl_create d) [] db) = Inr rs) \<and> ready (snd (query (dl_create d) [] db)) \<and>
      rows (snd (query (dl_create d) [] db)) = rows db"
    and select: "ready db \<Longrightarrow> query (dl_select d) [PVal (VStr i)] db = (Inr (case rows db i of None \<Rightarrow> [] | Some row \<Rightarrow> [row]), db)"
    and insert_known: "ready db \<Longrightarrow> rows db i = Some row \<Longrightarrow>
      fst (query (dl_insert d) (insert_row i c a b j) db) = Inr [] \<and> ready (snd (query (dl_insert d) (insert_row i c a b j) db)) \<and>
      rows (snd (query (dl_insert d) (insert_row i c a b j) db)) = rows db"
    and insert_fresh: "ready db \<Longrightarrow> rows db i = None \<Longrightarrow>
      \<exists>row rs. row_holds i c a b j row \<and> fst (query (dl_insert d) (insert_row i c a b j) db) = Inr rs \<and> rs \<in> {[], [row]} \<and>
        ready (snd (query (dl_insert d) (insert_row i c a b j) db)) \<and>
        rows (snd (query (dl_insert d) (insert_row i c a b j) db)) = (rows db)(i \<mapsto> row)"
begin

lemma initialized:
  assumes "conn_ok rows ready s"
  obtains s' where "ensureInitialized query d s = (Inr (), s')" and "ready (sc_db s')" and "conn_ok rows ready s'"
    and "conn_find rows s' = conn_find rows s" and "rows (sc_db s') = rows (sc_db s)"
proof (cases "sc_initialized s")
  case True
  then show ?thesis
    by (intro that [of s]) (use assms in \<open>simp_all add: ensureInitialized_def conn_ok_def\<close>)
next
  case False
  obtain rs db where q: "query (dl_create d) [] (sc_db s) = (Inr rs, db)" "ready db" "rows db = rows (sc_db s)"
    using create [of "sc_db s"] by (cases "query (dl_create d) [] (sc_db s)") auto
  show ?thesis
  proof (rule that)
    show "ensureInitialized query d s = (Inr (), s\<lparr>sc_db := db, sc_initialized := True\<rparr>)"
      using False q by (simp add: ensureInitialized_def and_then_def run_sql_def)
    show "conn_ok rows ready (s\<lparr>sc_db := db, sc_initialized := True\<rparr>)"
      using assms q by (simp add: conn_ok_def)
    show "conn_find rows (s\<lparr>sc_db := db, sc_initialized := True\<rparr>) = conn_find rows s"
      using q by (simp add: conn_find_def fun_eq_iff)
  qed (simp_all add: q)
qed

lemma read_stored:
  assumes "conn_ok rows ready s" and "ready (sc_db s)"
  shows "readStored query d i s = (Inr (conn_find rows s i), s)"
proof (cases "rows (sc_db s) i")
  case None
  then show ?thesis using assms(2) by (simp add: readStored_def and_then_def run_sql_def select first_stored_def conn_find_def)
next
  case (Some row)
  then obtain st where "sqlRowToStoredReceipt row = Inr st" using assms(1) by (auto simp: conn_ok_def)
  with Some show ?thesis
    using assms(2) by (simp add: readStored_def and_then_def run_sql_def select first_stored_def conn_find_def)
qed

lemma insert_receipt:
  assumes "conn_ok rows ready s" and "ready (sc_db s)" and "is_receipt r" and "is_finite now"
    and c: "checksumReceipt hash r = Inr c"
  obtains params rs s' where "insert_params r c now = Inr params" and "run_sql query (dl_insert d) params s = (Inr rs, s')"
    and "ready (sc_db s')" and "conn_ok rows ready s'"
    and "conn_find rows s (receiptId_of r) = None \<or> rs = []"
    and "\<And>x. x \<noteq> receiptId_of r \<Longrightarrow> conn_find rows s' x = conn_find rows s x"
    and "case conn_find rows s (receiptId_of r) of Some st \<Rightarrow> conn_find rows s' (receiptId_of r) = Some st
      | None \<Rightarrow> \<exists>doc. conn_find rows s' (receiptId_of r) = Some \<lparr>sr_record = makeRecord r c now, sr_receipt = doc\<rparr> \<and>
          same_value doc r \<and> first_stored rs \<in> {Inr None, Inr (conn_find rows s' (receiptId_of r))} \<and> (rs = [] \<longleftrightarrow> first_stored rs = Inr None)"
proof -
  let ?i = "receiptId_of r"
  obtain b where now: "now = Fin b" using assms(4) by (cases now) auto
  obtain a j where a: "createdAt_of r = Fin a" and j: "from_json j = r"
    and p: "insert_params r c now = Inr (insert_row ?i c a b j)"
    using insert_params_receipt [OF assms(3)] now by metis
  obtain res db where q: "query (dl_insert d) (insert_row ?i c a b j) (sc_db s) = (res, db)" by fastforce
  then have run: "run_sql query (dl_insert d) (insert_row ?i c a b j) s = (res, s\<lparr>sc_db := db\<rparr>)" by (simp add: run_sql_def)
  show ?thesis
  proof (cases "rows (sc_db s) ?i")
    case None
    obtain row rs where row: "row_holds ?i c a b j row" "res = Inr rs" "rs \<in> {[], [row]}" "ready db"
      "rows db = (rows (sc_db s))(?i \<mapsto> row)"
      using insert_fresh [OF assms(2) None, of c a b j] q by auto
    obtain doc where doc: "same_value doc r" "sqlRowToStoredReceipt row = Inr \<lparr>sr_record = makeRecord r c now, sr_receipt = doc\<rparr>"
      using row(1) j a now by (auto simp: row_holds_def makeRecord_def)
    show ?thesis
      by (rule that [OF p run [unfolded row(2)]])
        (use assms row doc None in \<open>auto simp: conn_ok_def conn_find_def first_stored_def split: if_splits\<close>)
  next
    case (Some row)
    have row: "res = Inr []" "ready db" "rows db = rows (sc_db s)"
      using insert_known [OF assms(2) Some, of c a b j] q by auto
    obtain st where "sqlRowToStoredReceipt row = Inr st" using assms(1) Some by (auto simp: conn_ok_def)
    with Some have f: "conn_find rows s ?i = Some st" by (simp add: conn_find_def)
    have "conn_find rows (s\<lparr>sc_db := db\<rparr>) = conn_find rows s" by (simp add: conn_find_def row fun_eq_iff)
    with f show ?thesis
      by (intro that [OF p run [unfolded row(1)]]) (use assms row in \<open>auto simp: conn_ok_def\<close>)
  qed
qed

text \<open>Both ledgers answer an append from the row that is stored after the insertion.\<close>

lemma sql_append:
  assumes ok: "conn_ok rows ready s" and x: "appendable (now, r)" and c: "checksumReceipt hash r = Inr c"
  obtains s' where "sqlite_append query d hash now r s = (finalizeStoredReceipt c (conn_find rows s' (receiptId_of r)), s')"
    and "postgres_append query d hash now r s = (finalizeStoredReceipt c (conn_find rows s' (receiptId_of r)), s')"
    and "conn_ok rows ready s'"
    and "\<And>i. i \<noteq> receiptId_of r \<Longrightarrow> conn_find rows s' i = conn_find rows s i"
    and "case conn_find rows s (receiptId_of r) of Some st \<Rightarrow> conn_find rows s' (receiptId_of r) = Some st
      | None \<Rightarrow> \<exists>doc. conn_find rows s' (receiptId_of r) = Some \<lparr>sr_record = makeRecord r c now, sr_receipt = doc\<rparr> \<and> same_value doc r"
proof -
  let ?i = "receiptId_of r"
  have r: "is_receipt r" "is_finite now" using x by (simp_all add: appendable_def)
  obtain s1 where s1: "ensureInitialized query d s = (Inr (), s1)" "ready (sc_db s1)" "conn_ok rows ready s1"
    "conn_find rows s1 = conn_find rows s"
    using initialized [OF ok] by metis
  obtain params rs s2 where s2: "insert_params r c now = Inr params" "run_sql query (dl_insert d) params s1 = (Inr rs, s2)"
    "ready (sc_db s2)" "conn_ok rows ready s2" "conn_find rows s1 ?i = None \<or> rs = []"
    "\<And>i. i \<noteq> ?i \<Longrightarrow> conn_find rows s2 i = conn_find rows s1 i"
    "case conn_find rows s1 ?i of Some st \<Rightarrow> conn_find rows s2 ?i = Some st
      | None \<Rightarrow> \<exists>doc. conn_find rows s2 ?i = Some \<lparr>sr_record = makeRecord r c now, sr_receipt = doc\<rparr> \<and>
          same_value doc r \<and> first_stored rs \<in> {Inr None, Inr (conn_find rows s2 ?i)} \<and> (rs = [] \<longleftrightarrow> first_stored rs = Inr None)"
    by (rule insert_receipt [OF s1(3,2) r c]) (rule that)
  note read = read_stored [OF s2(4,3), of ?i]
  have first: "first_stored rs = Inr (conn_find rows s2 ?i)" if "rs \<noteq> []"
  proof -
    have "conn_find rows s1 ?i = None" using that s2(5) by simp
    with that s2(7) show ?thesis by auto
  qed
  show ?thesis
  proof (rule that [of s2])
    show "sqlite_append query d hash now r s = (finalizeStoredReceipt c (conn_find rows s2 ?i), s2)"
      by (simp add: sqlite_append_def and_then_def s1 s2(1,2) c read)
    show "postgres_append query d hash now r s = (finalizeStoredReceipt c (conn_find rows s2 ?i), s2)"
      by (simp add: postgres_append_def and_then_def s1 s2(1,2) c read first)
    show "case conn_find rows s ?i of Some st \<Rightarrow> conn_find rows s2 ?i = Some st
      | None \<Rightarrow> \<exists>doc. conn_find rows s2 ?i = Some \<lparr>sr_record = makeRecord r c now, sr_receipt = doc\<rparr> \<and> same_value doc r"
      using s2(7) by (cases "conn_find rows s ?i") (auto simp: s1(4))
    show "conn_find rows s2 i = conn_find rows s i" if "i \<noteq> ?i" for i
      using s2(6) [OF that] by (simp add: s1(4))
  qed (fact s2(4))
qed

lemma sql_get_found:
  assumes "conn_ok rows ready s"
  shows "fst (sql_get query d i s) = Inr (map_option sr_receipt (conn_find rows s i)) \<and>
    conn_ok rows ready (snd (sql_get query d i s)) \<and> conn_find rows (snd (sql_get query d i s)) = conn_find rows s"
proof -
  obtain s1 where s1: "ensureInitialized query d s = (Inr (), s1)" "ready (sc_db s1)" "conn_ok rows ready s1"
    "conn_find rows s1 = conn_find rows s"
    using initialized [OF assms] by metis
  then show ?thesis using read_stored [OF s1(3,2), of i] by (simp add: sql_get_def and_then_def)
qed

text \<open>The two ledgers, their laws proved once for what the appends have in common.\<close>

lemma sql_ledger:
  assumes app: "\<And>now r s. app now r s = sqlite_append query d hash now r s \<or> app now r s = postgres_append query d hash now r s"
  shows "durable_ledger app (sql_get query d) (conn_find rows) (conn_ok rows ready) hash"
proof -
  have step: thesis
    if ok: "conn_ok rows ready s" and x: "appendable (now, r)" and c: "checksumReceipt hash r = Inr c"
      and goal: "\<And>s'. app now r s = (finalizeStoredReceipt c (conn_find rows s' (receiptId_of r)), s') \<Longrightarrow> conn_ok rows ready s' \<Longrightarrow>
        (\<And>i. i \<noteq> receiptId_of r \<Longrightarrow> conn_find rows s' i = conn_find rows s i) \<Longrightarrow>
        (case conn_find rows s (receiptId_of r) of Some st \<Rightarrow> conn_find rows s' (receiptId_of r) = Some st
          | None \<Rightarrow> \<exists>doc. conn_find rows s' (receiptId_of r) = Some \<lparr>sr_record = makeRecord r c now, sr_receipt = doc\<rparr> \<and> same_value doc r) \<Longrightarrow>
        thesis" for s now r c thesis
    by (rule sql_append [OF ok x c]) (use app [of now r s] in \<open>auto intro: goal\<close>)
  have sum: "\<exists>c. checksumReceipt hash r = Inr c" if "appendable (now, r)" for now r
    using that receipt_checksum by (auto simp: appendable_def is_receipt_def)
  show ?thesis
  proof unfold_locales
    fix s now r
    assume a: "conn_ok rows ready s" "appendable (now, r)"
    obtain c where c: "checksumReceipt hash r = Inr c" using sum a(2) by blast
    from step [OF a c] show "conn_ok rows ready (snd (app now r s))" by (metis snd_conv)
  next
    fix s now r c st
    assume a: "conn_ok rows ready s" "appendable (now, r)" "checksumReceipt hash r = Inr c"
      and f: "conn_find rows s (receiptId_of r) = Some st"
    show "fst (app now r s) = known_receipt c st \<and> conn_find rows (snd (app now r s)) = conn_find rows s"
      by (rule step [OF a]) (use f in \<open>auto simp: finalizeStoredReceipt_def fun_eq_iff\<close>, metis)
  next
    fix s now r c
    assume a: "conn_ok rows ready s" "appendable (now, r)" "checksumReceipt hash r = Inr c"
      and f: "conn_find rows s (receiptId_of r) = None"
    show "fst (app now r s) = Inr (makeRecord r c now) \<and>
        (\<exists>doc. conn_find rows (snd (app now r s)) (receiptId_of r) = Some \<lparr>sr_record = makeRecord r c now, sr_receipt = doc\<rparr> \<and> same_value doc r)"
      by (rule step [OF a]) (use f in \<open>auto simp: finalizeStoredReceipt_def known_receipt_def makeRecord_def\<close>)
  next
    fix s now r i
    assume a: "conn_ok rows ready s" "appendable (now, r)" and i: "i \<noteq> receiptId_of r"
    obtain c where c: "checksumReceipt hash r = Inr c" using sum a(2) by blast
    show "conn_find rows (snd (app now r s)) i = conn_find rows s i"
      by (rule step [OF a c]) (simp add: i)
  qed (simp_all add: sql_get_found)
qed

end

sublocale sql_client \<subseteq> sqlite: durable_ledger "sqlite_append query d hash" "sql_get query d" "conn_find rows" "conn_ok rows ready" hash
  for hash
  by (rule sql_ledger) simp

sublocale sql_client \<subseteq> postgres: durable_ledger "postgres_append query d hash" "sql_get query d" "conn_find rows" "conn_ok rows ready" hash
  for hash
  by (rule sql_ledger) simp

text \<open>A database of one table in memory.\<close>

record table_db =
  tb_exists :: bool
  tb_rows :: "(string \<times> sql_row) list"

definition table_client :: "sql_dialect \<Rightarrow> bool \<Rightarrow> string \<Rightarrow> sql_param list \<Rightarrow> table_db \<Rightarrow> (err + sql_row list) \<times> table_db" where
  "table_client d returning text params db =
     (case params of
        [] \<Rightarrow> if text = dl_create d then (Inr [], db\<lparr>tb_exists := True\<rparr>) else (Inr (map snd (tb_rows db)), db)
      | [PVal (VStr i)] \<Rightarrow>
          if \<not> tb_exists db then (Inl (PlainError ''no such table''), db)
          else (Inr (case map_of (tb_rows db) i of None \<Rightarrow> [] | Some row \<Rightarrow> [row]), db)
      | [PVal i, PVal c, PVal a, PVal b, PText j] \<Rightarrow>
          if \<not> tb_exists db then (Inl (PlainError ''no such table''), db)
          else (case i of
              VStr k \<Rightarrow>
                (case map_of (tb_rows db) k of
                   Some _ \<Rightarrow> (Inr [], db)
                 | None \<Rightarrow>
                     let row = \<lparr>row_receipt_id = i, row_checksum = c, row_created_at = a, row_stored_at = b, row_receipt_json = Inl j\<rparr>
                     in (Inr (if returning then [row] else []), db\<lparr>tb_rows := (k, row) # tb_rows db\<rparr>))
            | _ \<Rightarrow> (Inl (TypeError ''text column''), db))
      | _ \<Rightarrow> (Inl (PlainError ''syntax error''), db))"

interpretation table: sql_client "table_client d returning" d "\<lambda>db. map_of (tb_rows db)" tb_exists
  for d returning
proof unfold_locales
  fix db :: table_db and i c a b j
  assume "tb_exists db" and "map_of (tb_rows db) i = None"
  moreover define row where "row = \<lparr>row_receipt_id = VStr i, row_checksum = VStr c, row_created_at = VNum (Fin a),
    row_stored_at = VNum (Fin b), row_receipt_json = Inl j\<rparr>"
  moreover have "row_holds i c a b j row"
    by (auto simp: row_holds_def row_def sqlRowToStoredReceipt_def readSqlString_def readSqlNumber_def readSqlReceipt_def same_refl)
  ultimately show "\<exists>row rs. row_holds i c a b j row \<and> fst (table_client d returning (dl_insert d) (insert_row i c a b j) db) = Inr rs \<and>
      rs \<in> {[], [row]} \<and> tb_exists (snd (table_client d returning (dl_insert d) (insert_row i c a b j) db)) \<and>
      map_of (tb_rows (snd (table_client d returning (dl_insert d) (insert_row i c a b j) db))) = (map_of (tb_rows db))(i \<mapsto> row)"
    by (intro exI [of _ row] exI [of _ "if returning then [row] else []"]) (simp add: table_client_def insert_row_def Let_def)
qed (simp_all add: table_client_def insert_row_def)

section \<open>Properties\<close>


definition demo_receipt :: "string \<Rightarrow> rat \<Rightarrow> jsval" where
  "demo_receipt text at_ms = VObj [(''receiptId'', VStr ''r1''), (''createdAt'', VNum (Fin at_ms)), (''note'', VStr text)]"

lemma demo_receipt_ok: "is_receipt (demo_receipt n a)" "receiptId_of (demo_receipt n a) = ''r1''"
  by (simp_all add: is_receipt_def demo_receipt_def plain_obj createdAt_of_def receiptId_of_def)

text \<open>A digest that tells the two demonstration receipts apart.\<close>

definition demo_hash :: "json \<Rightarrow> string" where
  "demo_hash j = (case j of JObj [_, (_, JStr n), _] \<Rightarrow> n | _ \<Rightarrow> [])"

lemma demo_checksum: "checksumReceipt demo_hash (demo_receipt n a) = Inr n"
proof -
  have "checksumReceipt demo_hash (demo_receipt n a) = Inr n \<longleftrightarrow> True"
    by (simp add: checksumReceipt_def stableStringify_def demo_receipt_def demo_hash_def pair_res_def
      list_less_def less_char_def lexordp.simps less_list_code)
  then show ?thesis by simp
qed

definition demo_conn :: "table_db sql_conn" where
  "demo_conn = \<lparr>sc_initialized = False, sc_db = \<lparr>tb_exists = False, tb_rows = []\<rparr>\<rparr>"


text \<open>
  In a file ledger whose appends do not interleave a receipt is written once: whatever sequence
  of appends follows, each append is answered by the receipt that a lookup finds at the end, which
  has the checksum of its record: with that record if the checksums agree, with a conflict if not.
\<close>

theorem file_ledger_write_once:
  assumes "list_all appendable xs" and "k < length xs" and "r = snd (xs ! k)"
    and "run_appends (file_append hash pid) xs [] = (answers, dir)"
  shows "\<exists>record doc checksum. fst (file_get (receiptId_of r) dir) = Inr (Some doc) \<and>
    checksumReceipt hash doc = Inr (lr_checksum record) \<and> checksumReceipt hash r = Inr checksum \<and>
    answers ! k = (if lr_checksum record = checksum then Inr record else Inl ledger_conflict)"
proof -
  have d: "dir_ok hash []" "dir_find [] = Map.empty" by (simp_all add: dir_ok_def dir_find_def fun_eq_iff)
  have a: "files.agrees hash [] Map.empty" using d by (simp add: files.agrees_def)
  let ?m = "snd (run_appends (spec_append hash) xs Map.empty)"
  obtain st c where st: "?m (receiptId_of r) = Some st" and c: "checksumReceipt hash r = Inr c"
    and ans: "answers ! k = known_receipt c st"
    using spec_run_answers [OF assms(1,2), of "receiptId_of r" hash Map.empty] files.run_simulates [OF a assms(1), of pid]
    by (auto simp: assms(3,4))
  have "rel_option same_stored (dir_find dir (receiptId_of r)) (Some st)" and ok: "dir_ok hash dir"
    using files.run_simulates [OF a assms(1), of pid] st by (auto simp: assms(4) files.agrees_def) metis
  then obtain st' where st': "dir_find dir (receiptId_of r) = Some st'" "same_stored st' st"
    by (cases "dir_find dir (receiptId_of r)") auto
  then have "stored_ok hash (receiptId_of r) st'" using ok dir_ok_find by blast
  with st' ans c show ?thesis
    by (intro exI [of _ "sr_record st"] exI [of _ "sr_receipt st'"] exI [of _ c])
      (auto simp: file_get_def dir_find_def readStoredReceipt_def receiptPath_def stored_ok_def same_stored_def known_receipt_def)
qed

lemma file_ledger_write_once_witness:
  "\<exists>record doc checksum. fst (file_get ''r1'' (snd (run_appends (file_append demo_hash 1) [(Fin 1, demo_receipt ''a'' 0)] []))) = Inr (Some doc) \<and>
    checksumReceipt demo_hash doc = Inr (lr_checksum record) \<and>
    checksumReceipt demo_hash (demo_receipt ''a'' 0) = Inr checksum \<and>
    fst (run_appends (file_append demo_hash 1) [(Fin 1, demo_receipt ''a'' 0)] []) ! 0 =
      (if lr_checksum record = checksum then Inr record else Inl ledger_conflict)"
proof -
  have "list_all appendable [(Fin 1, demo_receipt ''a'' 0)]" by (simp add: appendable_def demo_receipt_ok)
  from file_ledger_write_once [OF this, of 0 "demo_receipt ''a'' 0" demo_hash 1] show ?thesis
    by (simp add: demo_receipt_ok)
qed

text \<open>
  A second receipt of the same id conflicts exactly if it differs from the stored one in more than
  the order of keys: in the memory ledger and in the file ledger, for plain receipts whose stable
  texts the digest tells apart.
\<close>

theorem conflict_iff_different:
  assumes "appendable (now, r)" and "appendable (now', r')" and "receiptId_of r' = receiptId_of r"
    and "\<And>i j. stableStringify r = Inr (Some i) \<Longrightarrow> stableStringify r' = Inr (Some j) \<Longrightarrow> hash i = hash j \<Longrightarrow> i = j"
    and "dir_ok hash dir" and "dir_find dir (receiptId_of r) = None"
    and "memory_ok hash m" and "map_of (ml_entries m) (receiptId_of r) = None"
  shows "(fst (file_append hash pid now' r' (snd (file_append hash pid now r dir))) = Inl ledger_conflict \<longleftrightarrow> \<not> same_value r r') \<and>
    (fst (memory_append hash now' r' (snd (memory_append hash now r m))) = Inl ledger_conflict \<longleftrightarrow> \<not> same_value r r')"
proof -
  have plain: "plain r" "plain r'" using assms(1,2) by (simp_all add: appendable_def is_receipt_def)
  obtain c c' where c: "checksumReceipt hash r = Inr c" and c': "checksumReceipt hash r' = Inr c'"
    using receipt_checksum plain by meson
  obtain i j where ij: "stableStringify r = Inr (Some i)" "stableStringify r' = Inr (Some j)"
    using stableStringify_plain plain by meson
  have "hash i = hash j \<longleftrightarrow> i = j" using assms(4) [OF ij] by blast
  then have key: "c' = c \<longleftrightarrow> same_value r r'"
    using stable_text_same [OF plain] c c' ij by (auto simp: checksumReceipt_def)
  obtain st where st: "dir_find (snd (file_append hash pid now r dir)) (receiptId_of r') = Some st" "lr_checksum (sr_record st) = c"
    using files.append_fresh [OF assms(5,1) c assms(6), of pid] by (auto simp: assms(3) makeRecord_def)
  obtain st' where st': "map_of (ml_entries (snd (memory_append hash now r m))) (receiptId_of r') = Some st'"
    "lr_checksum (sr_record st') = c"
    using memory.append_fresh [OF assms(7,1) c assms(8)] by (auto simp: assms(3) makeRecord_def)
  show ?thesis
    using files.append_known [OF files.inv_append [OF assms(5,1)] assms(2) c' st(1)] st(2)
      memory.append_known [OF memory.inv_append [OF assms(7,1)] assms(2) c' st'(1)] st'(2) key
    by (auto simp: known_receipt_def)
qed

lemma conflict_iff_different_witness:
  "fst (file_append demo_hash 1 (Fin 2) (demo_receipt ''b'' 0) (snd (file_append demo_hash 1 (Fin 1) (demo_receipt ''a'' 0) []))) =
     Inl ledger_conflict"
proof -
  have no: "\<not> same_value (demo_receipt ''a'' 0) (demo_receipt ''b'' 0)"
    using checksum_same [of "demo_receipt ''a'' 0" "demo_receipt ''b'' 0" demo_hash] by (auto simp: demo_checksum)
  have apart: "i = j" if "stableStringify (demo_receipt ''a'' 0) = Inr (Some i)" "stableStringify (demo_receipt ''b'' 0) = Inr (Some j)"
    "demo_hash i = demo_hash j" for i j
    using that demo_checksum [of "''a''" 0] demo_checksum [of "''b''" 0] by (simp add: checksumReceipt_def)
  show ?thesis
    using conflict_iff_different [OF _ _ _ apart, where now = "Fin 1" and now' = "Fin 2" and dir = "[]" and pid = 1
      and m = "\<lparr>ml_max = 1, ml_entries = []\<rparr>"] no
    by (simp add: appendable_def demo_receipt_ok dir_ok_def dir_find_def memory_ok_def)
qed

section \<open>Concurrent appends to files\<close>

inductive file_moves :: "(json \<Rightarrow> string) \<Rightarrow> file_world \<Rightarrow> file_world \<Rightarrow> bool" for hash where
  begin_append: "is_receipt r \<Longrightarrow> file_moves hash w (w\<lparr>fw_calls := fw_calls w @ [start_append r]\<rparr>)"
| step_append: "file_moves hash w (file_step hash action w)"

definition no_files :: file_world where
  "no_files = \<lparr>fw_calls = [], fw_dir = []\<rparr>"

definition call_ok :: "(json \<Rightarrow> string) \<Rightarrow> append_call \<Rightarrow> bool" where
  "call_ok hash call \<longleftrightarrow> is_receipt (ac_receipt call) \<and>
     (case ac_phase call of
        WriteNext st temp \<Rightarrow> stored_ok hash (receiptId_of (ac_receipt call)) st \<and> file_id temp = receiptId_of (ac_receipt call) \<and>
          \<not> is_receipt_file temp
      | RenameNext r temp \<Rightarrow> file_id temp = receiptId_of (ac_receipt call) \<and> \<not> is_receipt_file temp
      | _ \<Rightarrow> True)"

definition world_ok :: "(json \<Rightarrow> string) \<Rightarrow> file_world \<Rightarrow> bool" where
  "world_ok hash w \<longleftrightarrow> dir_ok hash (fw_dir w) \<and> list_all (call_ok hash) (fw_calls w)"

text \<open>One step keeps every file whole and every receipt file in place.\<close>

lemma append_step_ok:
  assumes "call_ok hash call" and "dir_ok hash dir" and "append_step hash pid now call dir = (call', dir')"
  shows "call_ok hash call' \<and> dir_ok hash dir' \<and> (\<forall>i. dir_find dir i \<noteq> None \<longrightarrow> dir_find dir' i \<noteq> None)"
proof -
  let ?r = "ac_receipt call"
  have r: "is_receipt ?r" "plain ?r" using assms(1) by (simp_all add: call_ok_def is_receipt_def)
  obtain c where c: "checksumReceipt hash ?r = Inr c" using receipt_checksum r(2) by blast
  show ?thesis
  proof (cases "ac_phase call")
    case ReadNext
    have step: "append_step hash pid now call dir =
      (case dir_find dir (receiptId_of ?r) of
         Some st \<Rightarrow> (call\<lparr>ac_phase := Settled (known_receipt c st)\<rparr>, dir)
       | None \<Rightarrow> (call\<lparr>ac_phase := WriteNext \<lparr>sr_record = makeRecord ?r c now, sr_receipt = ?r\<rparr>
           (TempFile (receiptId_of ?r) pid now)\<rparr>, dir))"
      by (simp add: append_step_def ReadNext c stored_text_receipt [OF r(2)] dir_find_def readStoredReceipt_def receiptPath_def
        temp_path_def Let_def split: option.split)
    show ?thesis
      using assms(1,2) assms(3) [unfolded step] stored_ok_make [OF r(1) c, of now]
      by (auto simp: call_ok_def split: option.splits)
  next
    case (WriteNext st temp)
    then have "stored_ok hash (receiptId_of ?r) st" "file_id temp = receiptId_of ?r" "\<not> is_receipt_file temp"
      using assms(1) by (auto simp: call_ok_def)
    then show ?thesis
      using assms WriteNext by (auto simp: append_step_def Let_def call_ok_def dir_ok_def dir_find_def update_conv' split: if_splits)
  next
    case (RenameNext rec temp)
    then have temp: "file_id temp = receiptId_of ?r" "\<not> is_receipt_file temp"
      using assms(1) by (auto simp: call_ok_def)
    show ?thesis
    proof (cases "map_of dir temp")
      case None
      then show ?thesis using assms RenameNext
        by (auto simp: append_step_def Let_def rename_file_def call_ok_def)
    next
      case (Some st)
      then have "stored_ok hash (receiptId_of ?r) st" using assms(2) temp(1) unfolding dir_ok_def by metis
      then show ?thesis using assms RenameNext Some temp
        by (auto simp: append_step_def Let_def rename_file_def call_ok_def dir_ok_def dir_find_def update_conv' delete_conv' receiptPath_def
            split: if_splits)
    qed
  next
    case (Settled res)
    then show ?thesis using assms by (auto simp: append_step_def Let_def)
  qed
qed

lemma file_moves_ok:
  assumes "file_moves hash w w'" and "world_ok hash w"
  shows "world_ok hash w' \<and> (\<forall>i. dir_find (fw_dir w) i \<noteq> None \<longrightarrow> dir_find (fw_dir w') i \<noteq> None)"
  using assms
proof (induction rule: file_moves.induct)
  case (begin_append r w)
  then show ?case by (simp add: world_ok_def call_ok_def start_append_def)
next
  case (step_append w action)
  obtain pid now k where a: "action = (pid, now, k)" by (cases action)
  show ?case
  proof (cases "k < length (fw_calls w)")
    case True
    obtain call dir where step: "append_step hash pid now (fw_calls w ! k) (fw_dir w) = (call, dir)" by fastforce
    have "call_ok hash (fw_calls w ! k)" "dir_ok hash (fw_dir w)"
      using step_append True by (auto simp: world_ok_def list_all_length)
    from append_step_ok [OF this step] step_append True step show ?thesis
      by (auto simp: file_step_def a world_ok_def list_all_length nth_list_update)
  next
    case False
    then show ?thesis using step_append by (simp add: file_step_def a)
  qed
qed

interpretation appends: invariant_system "\<lambda>w. w = no_files" "file_moves hash" "world_ok hash"
  for hash
  by unfold_locales (auto simp: no_files_def world_ok_def dir_ok_def dest: file_moves_ok)


text \<open>One append that nothing interleaves with leaves such a file.\<close>

lemma schedule_reachable:
  "reachable init (file_moves hash) w \<Longrightarrow> reachable init (file_moves hash) (fold (file_step hash) actions w)"
  by (induction actions arbitrary: w) (auto intro: reach_step step_append)

lemma lone_append_reachable: "is_receipt r \<Longrightarrow>
    reachable (\<lambda>w. w = no_files) (file_moves hash) (fold (file_step hash) actions (no_files\<lparr>fw_calls := fw_calls no_files @ [start_append r]\<rparr>))"
  by (intro schedule_reachable) (blast intro: reach_init reach_step begin_append)


text \<open>Two appends that both read before either writes.\<close>

definition race_schedule :: "nat \<times> jsnum \<Rightarrow> nat \<times> jsnum \<Rightarrow> (nat \<times> jsnum \<times> nat) list" where
  "race_schedule a b =
     [(fst a, snd a, 0), (fst b, snd b, 1), (fst a, snd a, 0), (fst b, snd b, 1), (fst a, snd a, 0), (fst b, snd b, 1)]"

text \<open>
  Two concurrent appends of different receipts with one id can both succeed: if both read before
  either writes, the first is told that its receipt is stored and yet a lookup gives the second. If
  they run in one process and read the same clock they share a temporary file, and then the second
  is rejected because the file it wrote is gone, although its receipt is the one that is stored.
\<close>

theorem file_append_race:
  assumes "is_receipt r1" and "is_receipt r2" and "receiptId_of r2 = receiptId_of r1" and "dir_find dir (receiptId_of r1) = None"
    and "checksumReceipt hash r1 = Inr c1" and "checksumReceipt hash r2 = Inr c2"
    and "w = fold (file_step hash) (race_schedule a b) \<lparr>fw_calls = [start_append r1, start_append r2], fw_dir = dir\<rparr>"
  shows "map (settled_result \<circ> ac_phase) (fw_calls w) =
      [Some (Inr (makeRecord r1 c1 (snd a))),
       Some (if a = b then Inl (JsError ''Error'' ''ENOENT'') else Inr (makeRecord r2 c2 (snd b)))] \<and>
    fst (file_get (receiptId_of r1) (fw_dir w)) = Inr (Some r2)"
proof -
  have p: "plain r1" "plain r2" using assms(1,2) by (simp_all add: is_receipt_def)
  obtain pa na pb nb where ab: "a = (pa, na)" "b = (pb, nb)" by (cases a; cases b)
  show ?thesis
    using assms(3,4)
    by (simp add: assms(7) ab race_schedule_def file_step_def append_step_def start_append_def dir_find_def readStoredReceipt_def
      receiptPath_def temp_path_def rename_file_def stored_text_receipt p assms(5,6) file_get_def update_conv' delete_conv' Let_def)
qed

lemma file_append_race_witness:
  "fst (file_get ''r1'' (fw_dir (fold (file_step demo_hash) (race_schedule (1, Fin 5) (2, Fin 6))
      \<lparr>fw_calls = [start_append (demo_receipt ''a'' 0), start_append (demo_receipt ''b'' 0)], fw_dir = []\<rparr>))) =
    Inr (Some (demo_receipt ''b'' 0))"
  using file_append_race [OF demo_receipt_ok(1) demo_receipt_ok(1) _ _ demo_checksum demo_checksum refl,
    of "''b''" 0 "''a''" 0 "[]" "(1, Fin 5)" "(2, Fin 6)"]
  by (simp add: demo_receipt_ok dir_find_def)

section \<open>The window of the memory ledger\<close>

lemma memory_run_window:
  assumes "memory_ok hash s" and "distinct (map (receiptId_of \<circ> snd) xs)" and "list_all appendable xs"
    and "set (map fst (ml_entries s)) \<inter> set (map (receiptId_of \<circ> snd) xs) = {}"
  shows "map fst (ml_entries (snd (run_appends (memory_append hash) xs s))) =
      drop (length (ml_entries s) + length xs - ml_max s) (map fst (ml_entries s) @ map (receiptId_of \<circ> snd) xs) \<and>
    list_all succeeds (fst (run_appends (memory_append hash) xs s))"
  using assms
proof (induction xs arbitrary: s)
  case Nil
  then show ?case by (simp add: memory_ok_def)
next
  case (Cons x xs)
  obtain now r where x: "x = (now, r)" by (cases x)
  have r: "appendable (now, r)" using Cons.prems(3) by (simp add: x)
  then obtain c where c: "checksumReceipt hash r = Inr c"
    using receipt_checksum by (auto simp: appendable_def is_receipt_def)
  have new: "map_of (ml_entries s) (receiptId_of r) = None"
    using Cons.prems(4) by (simp add: x map_of_eq_None_iff)
  define s1 where "s1 = s\<lparr>ml_entries := memory_fresh now c r s\<rparr>"
  have step: "memory_append hash now r s = (Inr (makeRecord r c now), s1)"
    unfolding s1_def by (rule memory_append_cases(2) [OF c new])
  have ok: "memory_ok hash s1" using memory_append_ok [OF Cons.prems(1) r] by (simp add: step)
  have ids: "map fst (ml_entries s1) =
      drop (if ml_max s \<le> length (ml_entries s) then 1 else 0) (map fst (ml_entries s)) @ [receiptId_of r]"
    by (simp add: s1_def memory_fresh_def drop_map)
  have disj: "set (map fst (ml_entries s1)) \<inter> set (map (receiptId_of \<circ> snd) xs) = {}"
  proof -
    have "set (map fst (ml_entries s1)) \<subseteq> insert (receiptId_of r) (set (map fst (ml_entries s)))"
      unfolding ids using set_drop_subset by fastforce
    moreover have "insert (receiptId_of r) (set (map fst (ml_entries s))) \<inter> set (map (receiptId_of \<circ> snd) xs) = {}"
      using Cons.prems(2,4) by (auto simp: x)
    ultimately show ?thesis by blast
  qed
  have bound: "length (ml_entries s) \<le> ml_max s" "1 \<le> ml_max s" using Cons.prems(1) by (simp_all add: memory_ok_def)
  then have len: "length (ml_entries s1) = length (ml_entries s) + (if ml_max s \<le> length (ml_entries s) then 0 else 1)"
    using arg_cong [OF ids, of length] by auto
  note bound
  moreover have "ml_max s1 = ml_max s" by (simp add: s1_def)
  ultimately show ?case
    using Cons.IH [OF ok _ _ disj] Cons.prems(2,3)
    by (auto simp: x step ids len drop_Suc Suc_diff_le tl_append drop_tl split: list.split)
qed

text \<open>
  A memory ledger of capacity \<open>n\<close> holds, after appends of receipts with distinct ids, exactly the
  last \<open>n\<close> of them, oldest first; every one of them was accepted. So the id of an evicted receipt
  is free again, for a different receipt too.
\<close>

theorem memory_ledger_window:
  assumes "list_all appendable xs" and "distinct (map (receiptId_of \<circ> snd) xs)"
    and "createMemoryReceiptLedger maxReceipts = Inr m"
    and "run_appends (memory_append hash) xs m = (answers, m')"
  shows "map fst (ml_entries m') = drop (length xs - ml_max m) (map (receiptId_of \<circ> snd) xs) \<and>
    list_all succeeds answers"
proof -
  have "memory_ok hash m" "ml_entries m = []"
    using assms(3) positive_count_pos by (auto simp: createMemoryReceiptLedger_def memory_ok_def res_simps)
  then show ?thesis using memory_run_window [of hash m xs] assms by simp
qed

lemma memory_ledger_window_witness:
  "map fst (ml_entries (snd (run_appends (memory_append demo_hash) [(Fin 1, demo_receipt ''a'' 0)] \<lparr>ml_max = 1, ml_entries = []\<rparr>))) = [''r1'']"
proof -
  have "list_all appendable [(Fin 1, demo_receipt ''a'' 0)]" by (simp add: appendable_def demo_receipt_ok)
  from memory_ledger_window [OF this, of "Some (Fin 1)" _ demo_hash] show ?thesis
    by (simp add: createMemoryReceiptLedger_def positive_count_def demo_receipt_ok)
qed

section \<open>Table names\<close>

lemma join_split_at: "join [c] (split_at c s) = s"
proof (induction c s rule: split_at.induct)
  case (2 c x xs)
  then show ?case by (cases "split_at c xs" rule: list.exhaust; cases "tl (split_at c xs)") auto
qed simp

lemma filter_join: "filter P (join sep xs) = join (filter P sep) (map (filter P) xs)"
  by (induction sep xs rule: join.induct) auto

lemma identifier_chars: "sql_identifier s \<Longrightarrow> filter (\<lambda>c. c \<noteq> CHR 0x22) s = s"
  by (cases s) (auto simp: sql_identifier_def identifier_start_def is_digit_def list_all_iff filter_id_conv)

lemma map_res_guard:
  "map_res (\<lambda>x. if \<not> P x then Inl e else Inr (f x)) xs = (if list_all P xs then Inr (map f xs) else Inl e)"
  by (induction xs) auto

text \<open>
  A table name is accepted exactly if each of its dot-separated segments is an identifier of
  ASCII letters, digits and underscores; the quoted name is then these segments between quotes,
  and leaving out the quotes gives the name back.
\<close>

theorem quoted_path_roundtrip:
  "case quoteSqlIdentifierPath input of
     Inr q \<Rightarrow> list_all sql_identifier (split_at (CHR ''.'') input) \<and>
       q = join ''.'' (map (\<lambda>part. [CHR 0x22] @ part @ [CHR 0x22]) (split_at (CHR ''.'') input)) \<and>
       filter (\<lambda>c. c \<noteq> CHR 0x22) q = input
   | Inl e \<Rightarrow> \<not> list_all sql_identifier (split_at (CHR ''.'') input)"
proof (cases "list_all sql_identifier (split_at (CHR ''.'') input)")
  case True
  then have "map (filter (\<lambda>c. c \<noteq> CHR 0x22)) (split_at (CHR ''.'') input) = split_at (CHR ''.'') input"
    by (intro map_idI identifier_chars) (simp add: list_all_iff)
  then show ?thesis
    using True by (simp add: quoteSqlIdentifierPath_def map_res_guard filter_join comp_def join_split_at)
next
  case False
  then show ?thesis by (simp add: quoteSqlIdentifierPath_def map_res_guard)
qed

end
