(* ===== verification/Activity.thy ===== *)
theory Activity
  imports Replay
begin

text \<open>
  The durable activity boundaries of \<open>packages/core/src/activity/index.ts\<close>: the strict JSON payloads,
  the two activity stores, and \<open>runActivity\<close>.

  A call of a boundary is a state machine with one step for each time it awaits: it claims the id in
  the store, runs the task, and records the outcome; the outcome of the task is an input of its
  step. The store is a parameter of the steps (\<open>start\<close> and \<open>finish\<close>), so any number of calls
  interleave over any store. \<open>hash\<close> is the SHA-256 digest of a text, \<open>show\<close> the text \<open>String(value)\<close>. Clocks show
  finite numbers. A value has no cycles here, and an \<open>Error\<close> inside a reason has no enumerable properties.
\<close>

section \<open>Payloads\<close>

definition payload_error :: "string \<Rightarrow> err" where
  "payload_error m = JsError ''ActivitySerializationError'' m"

text \<open>
  \<open>sortValue\<close> of the activity module, \<open>sortPayload\<close> here: it rejects what has no JSON text. Keys are
  visited in sorted order, and \<open>__proto__\<close> is not kept, as in the ledger.
\<close>

primrec sortPayload :: "jsval \<Rightarrow> err + jsval" where
  "sortPayload VUndef = Inl (payload_error ''undefined is not valid JSON'')"
| "sortPayload VNull = Inr VNull"
| "sortPayload (VBool b) = Inr (VBool b)"
| "sortPayload (VNum n) =
     (if \<not> is_finite n then Inl (payload_error ''non-finite numbers are not valid JSON'') else Inr (VNum n))"
| "sortPayload (VStr s) = Inr (VStr s)"
| "sortPayload (VBigInt i) = Inl (payload_error ''bigint is not valid JSON'')"
| "sortPayload VSymbol = Inl (payload_error ''symbols are not valid JSON'')"
| "sortPayload VFun = Inl (payload_error ''functions are not valid JSON'')"
| "sortPayload (VDate d) = Inr (case d of Some s \<Rightarrow> VStr s | None \<Rightarrow> VNull)"
| "sortPayload (VErr n m) = Inr (VObj [])"
| "sortPayload (VArr xs) = bind_res (seq_res (map sortPayload xs)) (\<lambda>ys. Inr (VArr ys))"
| "sortPayload (VObj ps) =
     bind_res (seq_res (map pair_res (sort_key fst (map (map_prod id sortPayload) ps))))
       (\<lambda>qs. Inr (VObj (filter (\<lambda>q. fst q \<noteq> ''__proto__'') qs)))"

definition payload_text :: "jsval \<Rightarrow> err + json" where
  "payload_text v =
     bind_res (sortPayload v) (\<lambda>w. bind_res (stringify w) (\<lambda>t.
       case t of Some j \<Rightarrow> Inr j | None \<Rightarrow> Inl (payload_error ''input did not produce JSON'')))"

definition normalizeActivityPayload :: "jsval \<Rightarrow> err + jsval" where
  "normalizeActivityPayload v = map_sum id from_json (payload_text v)"

definition hashInput :: "(json \<Rightarrow> string) \<Rightarrow> jsval \<Rightarrow> err + string" where
  "hashInput hash input = map_sum id (\<lambda>j. ''sha256:'' @ hash j) (payload_text input)"

section \<open>Records\<close>

datatype activity_state =
    Started
  | Completed jsval jsnum
  | Failed_with string string jsnum
  | Cancelled_by jsval jsnum

record activity_record =
  av_activityId :: string
  av_inputHash :: string
  av_startedAt :: jsnum
  av_updatedAt :: jsnum
  av_name :: string
  av_version :: string
  av_state :: activity_state

fun activity_status :: "activity_state \<Rightarrow> string" where
  "activity_status Started = ''started''"
| "activity_status (Completed _ _) = ''completed''"
| "activity_status (Failed_with _ _ _) = ''failed''"
| "activity_status (Cancelled_by _ _) = ''cancelled''"

text \<open>\<open>JSON.parse(JSON.stringify(record))\<close>: only the result and the reason are values of unknown shape.\<close>

definition cloneRecord :: "activity_record \<Rightarrow> err + activity_record" where
  "cloneRecord r =
     (case av_state r of
        Completed v t \<Rightarrow> map_sum id (\<lambda>w. r\<lparr>av_state := Completed w t\<rparr>) (json_clone v)
      | Cancelled_by v t \<Rightarrow> map_sum id (\<lambda>w. r\<lparr>av_state := Cancelled_by w t\<rparr>) (json_clone v)
      | _ \<Rightarrow> Inr r)"

definition activity_conflict :: err where
  "activity_conflict = JsError ''ActivityConflictError'' ''Activity conflict for id''"

definition activity_not_runnable :: "activity_state \<Rightarrow> err" where
  "activity_not_runnable st = JsError ''ActivityNotRunnableError'' (''Activity is already recorded as '' @ activity_status st)"

definition assertBoundedString :: "string \<Rightarrow> string \<Rightarrow> nat \<Rightarrow> err + unit" where
  "assertBoundedString field v maxLength =
     (if length v < 1 \<or> maxLength < length v then Inl (RangeError (field @ '' must be a non-empty string'')) else Inr ())"

section \<open>The memory store\<close>

record memory_store =
  as_max :: nat
  as_records :: "(string \<times> activity_record) list"

definition createMemoryActivityStore :: "jsnum option \<Rightarrow> err + memory_store" where
  "createMemoryActivityStore maxRecords =
     bind_res (positive_count ''maxRecords'' (or_default maxRecords (Fin 10000))) (\<lambda>n.
       Inr \<lparr>as_max = n, as_records = []\<rparr>)"

text \<open>The answer of \<open>start\<close>: whether the id was claimed, and the record.\<close>

definition memory_start :: "activity_record \<Rightarrow> memory_store \<Rightarrow> (err + bool \<times> activity_record) \<times> memory_store" where
  "memory_start r s =
     (case map_of (as_records s) (av_activityId r) of
        Some existing \<Rightarrow> (map_sum id (Pair False) (cloneRecord existing), s)
      | None \<Rightarrow>
          let kept = (if as_max s \<le> length (as_records s) then drop 1 (as_records s) else as_records s);
              s1 = s\<lparr>as_records := kept\<rparr>
          in (case cloneRecord r of
                Inl e \<Rightarrow> (Inl e, s1)
              | Inr c \<Rightarrow> (Inr (True, c), s1\<lparr>as_records := kept @ [(av_activityId r, c)]\<rparr>)))"

text \<open>What both stores check before they record an outcome.\<close>

definition check_finish :: "activity_record option \<Rightarrow> activity_record \<Rightarrow> err + unit" where
  "check_finish existing r =
     (case existing of
        None \<Rightarrow> Inl activity_conflict
      | Some e \<Rightarrow>
          if av_inputHash e \<noteq> av_inputHash r then Inl activity_conflict
          else if av_state e \<noteq> Started then Inl (activity_not_runnable (av_state e))
          else Inr ())"

definition memory_finish :: "activity_record \<Rightarrow> memory_store \<Rightarrow> (err + activity_record) \<times> memory_store" where
  "memory_finish r s =
     (case check_finish (map_of (as_records s) (av_activityId r)) r of
        Inl e \<Rightarrow> (Inl e, s)
      | Inr _ \<Rightarrow>
          (case cloneRecord r of
             Inl e \<Rightarrow> (Inl e, s)
           | Inr c \<Rightarrow> (Inr c, s\<lparr>as_records := AList.update (av_activityId r) c (as_records s)\<rparr>)))"

definition memory_lookup :: "string \<Rightarrow> memory_store \<Rightarrow> err + activity_record option" where
  "memory_lookup i s =
     (case map_of (as_records s) i of None \<Rightarrow> Inr None | Some r \<Rightarrow> map_sum id Some (cloneRecord r))"

section \<open>The file store\<close>

text \<open>
  The names in the directory: a file is named by the encoding of its id, a temporary file also by
  process and clock. Writing a file is one step, and so is each operation of the store: its record
  is created exclusively (\<open>wx\<close>), and replaced by a rename.
\<close>

datatype activity_file = ActivityFile string | ActivityTemp string nat jsnum

type_synonym activity_dir = "(activity_file \<times> activity_record) list"

definition createFileActivityStore :: "string \<Rightarrow> err + activity_dir" where
  "createFileActivityStore dir = map_sum id (\<lambda>_. []) (assertBoundedString ''dir'' dir 4096)"

definition activityPath :: "string \<Rightarrow> err + activity_file" where
  "activityPath activityId = map_sum id (\<lambda>_. ActivityFile activityId) (assertBoundedString ''activityId'' activityId 512)"

definition readActivityRecord :: "activity_file \<Rightarrow> activity_dir \<Rightarrow> activity_record option" where
  "readActivityRecord f dir = map_of dir f"

definition writeNewActivityRecord :: "activity_file \<Rightarrow> activity_record \<Rightarrow> activity_dir \<Rightarrow> (err + bool \<times> activity_record) \<times> activity_dir" where
  "writeNewActivityRecord f r dir =
     (case cloneRecord r of
        Inl e \<Rightarrow> (Inl e, dir)
      | Inr c \<Rightarrow>
          (case map_of dir f of
             Some existing \<Rightarrow> (Inr (False, existing), dir)
           | None \<Rightarrow> (Inr (True, c), AList.update f c dir)))"

definition file_start :: "activity_record \<Rightarrow> activity_dir \<Rightarrow> (err + bool \<times> activity_record) \<times> activity_dir" where
  "file_start r dir =
     (case activityPath (av_activityId r) of
        Inl e \<Rightarrow> (Inl e, dir)
      | Inr f \<Rightarrow>
          (case writeNewActivityRecord f r dir of
             (Inl e, dir') \<Rightarrow> (Inl e, dir')
           | (Inr (created, stored), dir') \<Rightarrow> (map_sum id (Pair created) (cloneRecord stored), dir')))"

definition writeActivityRecord :: "nat \<Rightarrow> jsnum \<Rightarrow> activity_file \<Rightarrow> activity_record \<Rightarrow> activity_dir \<Rightarrow> (err + unit) \<times> activity_dir" where
  "writeActivityRecord pid now f r dir =
     (case cloneRecord r of
        Inl e \<Rightarrow> (Inl e, dir)
      | Inr c \<Rightarrow>
          let temp = ActivityTemp (av_activityId r) pid now
          in (Inr (), AList.update f c (AList.delete temp (AList.update temp c dir))))"

definition file_finish :: "nat \<Rightarrow> jsnum \<Rightarrow> activity_record \<Rightarrow> activity_dir \<Rightarrow> (err + activity_record) \<times> activity_dir" where
  "file_finish pid now r dir =
     (case activityPath (av_activityId r) of
        Inl e \<Rightarrow> (Inl e, dir)
      | Inr f \<Rightarrow>
          (case check_finish (readActivityRecord f dir) r of
             Inl e \<Rightarrow> (Inl e, dir)
           | Inr _ \<Rightarrow>
               (case writeActivityRecord pid now f r dir of
                  (Inl e, dir') \<Rightarrow> (Inl e, dir')
                | (Inr _, dir') \<Rightarrow> (cloneRecord r, dir'))))"

definition file_lookup :: "string \<Rightarrow> activity_dir \<Rightarrow> err + activity_record option" where
  "file_lookup i dir = map_sum id (\<lambda>f. readActivityRecord f dir) (activityPath i)"

section \<open>Running an activity\<close>

record activity_spec =
  sp_activityId :: string
  sp_input :: jsval
  sp_name :: "string option"
  sp_version :: "string option"

text \<open>A boundary: what \<open>runActivity\<close> computes when it wraps a task.\<close>

record boundary =
  bo_activityId :: string
  bo_name :: string
  bo_version :: string
  bo_inputHash :: string

definition runActivity :: "(json \<Rightarrow> string) \<Rightarrow> activity_spec \<Rightarrow> err + boundary" where
  "runActivity hash spec =
     bind_res (assertBoundedString ''activityId'' (sp_activityId spec) 512) (\<lambda>_.
     bind_res (hashInput hash (sp_input spec)) (\<lambda>h.
       Inr \<lparr>bo_activityId = sp_activityId spec, bo_name = or_default (sp_name spec) (sp_activityId spec),
            bo_version = or_default (sp_version spec) ''v1'', bo_inputHash = h\<rparr>))"

definition makeStartedRecord :: "boundary \<Rightarrow> jsnum \<Rightarrow> activity_record" where
  "makeStartedRecord b startedAt =
     \<lparr>av_activityId = bo_activityId b, av_inputHash = bo_inputHash b, av_startedAt = startedAt, av_updatedAt = startedAt,
      av_name = bo_name b, av_version = bo_version b, av_state = Started\<rparr>"

fun typeof_text :: "jsval \<Rightarrow> string" where
  "typeof_text VUndef = ''undefined''"
| "typeof_text (VBool _) = ''boolean''"
| "typeof_text (VNum _) = ''number''"
| "typeof_text (VStr _) = ''string''"
| "typeof_text (VBigInt _) = ''bigint''"
| "typeof_text VSymbol = ''symbol''"
| "typeof_text VFun = ''function''"
| "typeof_text _ = ''object''"

definition activity_error :: "(jsval \<Rightarrow> string) \<Rightarrow> err \<Rightarrow> receipt_error" where
  "activity_error show e =
     (case e of
        Thrown (VErr n m) \<Rightarrow> \<lparr>er_name = n, er_message = m\<rparr>
      | Thrown v \<Rightarrow> \<lparr>er_name = typeof_text v, er_message = show v\<rparr>
      | _ \<Rightarrow> normalizeError show e)"

definition replayExisting :: "activity_record \<Rightarrow> err + jsval" where
  "replayExisting r = (case av_state r of Completed v _ \<Rightarrow> Inr v | st \<Rightarrow> Inl (activity_not_runnable st))"

text \<open>
  The phases of a call: about to claim; running the task; about to record the outcome; settled.
  \<open>recovery\<close> is the record that is stored when an error reaches the \<open>catch\<close> block.
\<close>

datatype call_phase =
    Claiming
  | Executing activity_record
  | Recording activity_record activity_record "err + jsval"
  | Returned "err + jsval"

record activity_call =
  cl_boundary :: boundary
  cl_phase :: call_phase

definition recovery :: "(jsval \<Rightarrow> string) \<Rightarrow> activity_record \<Rightarrow> jsnum \<Rightarrow> err \<Rightarrow> activity_record" where
  "recovery show started now e =
     started\<lparr>av_updatedAt := now, av_state :=
       (case err_reason e of
          Some reason \<Rightarrow> Cancelled_by (reason_value reason) now
        | None \<Rightarrow> Failed_with (er_name (activity_error show e)) (er_message (activity_error show e)) now)\<rparr>"

definition claim_step :: "(activity_record \<Rightarrow> 's \<Rightarrow> (err + bool \<times> activity_record) \<times> 's) \<Rightarrow> jsnum \<Rightarrow> boundary \<Rightarrow> 's \<Rightarrow> call_phase \<times> 's" where
  "claim_step start now b s =
     (let started = makeStartedRecord b now
      in case start started s of
           (Inl e, s') \<Rightarrow> (Returned (Inl e), s')
         | (Inr (claimed, r), s') \<Rightarrow>
             (if av_inputHash r \<noteq> bo_inputHash b then Returned (Inl activity_conflict)
              else if \<not> claimed then Returned (replayExisting r)
              else Executing started, s'))"

definition execute_step :: "(jsval \<Rightarrow> string) \<Rightarrow> jsnum \<Rightarrow> err + jsval \<Rightarrow> activity_record \<Rightarrow> call_phase" where
  "execute_step show now outcome started =
     (case bind_res outcome normalizeActivityPayload of
        Inr v \<Rightarrow> Recording started (started\<lparr>av_state := Completed v now, av_updatedAt := now\<rparr>) (Inr v)
      | Inl e \<Rightarrow> Recording started (recovery show started now e) (Inl e))"

definition record_step :: "(jsval \<Rightarrow> string) \<Rightarrow> (activity_record \<Rightarrow> 's \<Rightarrow> (err + activity_record) \<times> 's) \<Rightarrow> jsnum \<Rightarrow>
    activity_record \<Rightarrow> activity_record \<Rightarrow> err + jsval \<Rightarrow> 's \<Rightarrow> call_phase \<times> 's" where
  "record_step show finish now started r outcome s =
     (case finish r s of
        (Inr _, s') \<Rightarrow> (Returned outcome, s')
      | (Inl e, s') \<Rightarrow>
          (case outcome of
             Inr _ \<Rightarrow> (Recording started (recovery show started now e) (Inl e), s')
           | Inl _ \<Rightarrow> (Returned (Inl e), s')))"

text \<open>Calls over one store, and the ids of the activities whose task was started, in order.\<close>

record 's activity_world =
  aw_store :: 's
  aw_calls :: "activity_call list"
  aw_log :: "string list"

definition call_step :: "(jsval \<Rightarrow> string) \<Rightarrow> (activity_record \<Rightarrow> 's \<Rightarrow> (err + bool \<times> activity_record) \<times> 's) \<Rightarrow>
    (activity_record \<Rightarrow> 's \<Rightarrow> (err + activity_record) \<times> 's) \<Rightarrow> nat \<times> jsnum \<times> (err + jsval) \<Rightarrow> 's activity_world \<Rightarrow> 's activity_world" where
  "call_step show start finish action w =
     (let (k, now, outcome) = action
      in if length (aw_calls w) \<le> k then w
         else
           let call = aw_calls w ! k;
               b = cl_boundary call;
               move = (\<lambda>(phase, s'). w\<lparr>aw_store := s', aw_calls := (aw_calls w)[k := call\<lparr>cl_phase := phase\<rparr>],
                   aw_log := (case phase of Executing _ \<Rightarrow> aw_log w @ [bo_activityId b] | _ \<Rightarrow> aw_log w)\<rparr>)
           in case cl_phase call of
                Claiming \<Rightarrow> move (claim_step start now b (aw_store w))
              | Executing started \<Rightarrow> move (execute_step show now outcome started, aw_store w)
              | Recording started r out \<Rightarrow> move (record_step show finish now started r out (aw_store w))
              | Returned _ \<Rightarrow> w)"

end
