(* ===== verification/Activity_Props.thy ===== *)
theory Activity_Props
  imports Activity
begin

text \<open>
  What activity boundaries promise. \<open>activity_store\<close> is the contract of the stores,
  \<open>durable_activity_store\<close> adds that a claim never drops another record. Its client lemmas hold for
  any interleaving of any number of calls: a task runs at most once for each id, and all calls that
  return a value return the recorded one. The file store is durable; the memory store is not.
\<close>

section \<open>Payloads\<close>

text \<open>The values an activity can take or return.\<close>

primrec storable :: "jsval \<Rightarrow> bool" where
  "storable VUndef \<longleftrightarrow> False"
| "storable VNull \<longleftrightarrow> True"
| "storable (VBool b) \<longleftrightarrow> True"
| "storable (VNum n) \<longleftrightarrow> is_finite n"
| "storable (VStr s) \<longleftrightarrow> True"
| "storable (VBigInt i) \<longleftrightarrow> False"
| "storable VSymbol \<longleftrightarrow> False"
| "storable VFun \<longleftrightarrow> False"
| "storable (VDate d) \<longleftrightarrow> True"
| "storable (VErr n m) \<longleftrightarrow> True"
| "storable (VArr xs) \<longleftrightarrow> list_all id (map storable xs)"
| "storable (VObj ps) \<longleftrightarrow> list_all snd (map (map_prod id storable) ps)"

lemma storable_arr: "storable (VArr xs) \<longleftrightarrow> (\<forall>x \<in> set xs. storable x)"
  by (simp add: list_all_iff)

lemma storable_obj: "storable (VObj ps) \<longleftrightarrow> (\<forall>p \<in> set ps. storable (snd p))"
  by (auto simp: list_all_iff)

lemma succeeds_seq_res: "succeeds (seq_res ms) \<longleftrightarrow> (\<forall>m \<in> set ms. succeeds m)"
proof (induction ms)
  case (Cons m ms)
  then show ?case by (cases m; cases "seq_res ms") auto
qed simp

lemma succeeds_pair_res: "succeeds (pair_res p) \<longleftrightarrow> succeeds (snd p)"
  by (cases "snd p") (simp_all add: pair_res_def)

lemma seq_res_map: "seq_res (map f xs) = Inr ys \<longleftrightarrow> list_all2 (\<lambda>x y. f x = Inr y) xs ys"
  by (induction xs arbitrary: ys) (auto simp: res_simps list_all2_Cons1)

lemma succeeds_sortPayload: "succeeds (sortPayload v) \<longleftrightarrow> storable v"
proof (induction v)
  case (VArr xs)
  have "succeeds (sortPayload (VArr xs)) \<longleftrightarrow> succeeds (seq_res (map sortPayload xs))"
    by (auto simp: succeeds_bind) (simp add: succeeds_def)
  with VArr show ?case unfolding storable_arr by (simp add: succeeds_seq_res)
next
  case (VObj ps)
  have "succeeds (sortPayload (VObj ps)) \<longleftrightarrow> succeeds (seq_res (map pair_res (sort_key fst (map (map_prod id sortPayload) ps))))"
    by (auto simp: succeeds_bind) (simp add: succeeds_def)
  also have "\<dots> \<longleftrightarrow> (\<forall>p \<in> set ps. succeeds (sortPayload (snd p)))"
    by (simp add: succeeds_seq_res succeeds_pair_res)
  also have "\<dots> \<longleftrightarrow> (\<forall>p \<in> set ps. storable (snd p))"
    using VObj by (metis prod.collapse snds.intros)
  finally show ?case unfolding storable_obj .
qed auto

text \<open>A sorted payload is a JSON value, in which sorting again changes nothing.\<close>

lemma insort_map_snd: "insort_key fst (map_prod id f p) (map (map_prod id f) qs) = map (map_prod id f) (insort_key fst p qs)"
  by (induction qs) auto

lemma sort_map_snd: "sort_key fst (map (map_prod id f) ps) = map (map_prod id f) (sort_key fst ps)"
proof (induction ps)
  case (Cons p ps)
  show ?case unfolding list.map sort_key_simps Cons insort_map_snd ..
qed simp

lemma sortPayload_obj:
  "sortPayload (VObj ps) = Inr w \<longleftrightarrow>
     (\<exists>qs. list_all2 (\<lambda>p q. fst q = fst p \<and> sortPayload (snd p) = Inr (snd q)) (sort_key fst ps) qs \<and>
        w = VObj (filter (\<lambda>q. fst q \<noteq> ''__proto__'') qs))"
proof -
  have step: "pair_res (map_prod id sortPayload p) = Inr q \<longleftrightarrow> fst q = fst p \<and> sortPayload (snd p) = Inr (snd q)" for p q
    by (cases q) (auto simp: pair_res_def res_simps)
  have "seq_res (map pair_res (sort_key fst (map (map_prod id sortPayload) ps))) = Inr qs \<longleftrightarrow>
      list_all2 (\<lambda>p q. fst q = fst p \<and> sortPayload (snd p) = Inr (snd q)) (sort_key fst ps) qs" for qs
    unfolding sort_map_snd map_map seq_res_map comp_def step ..
  then show ?thesis by (simp add: sortPayload.simps(12) bind_res_Inr) blast
qed

declare sortPayload.simps(12) [simp del]

lemma list_all2_values: "list_all2 R xs ys \<Longrightarrow> y \<in> set ys \<Longrightarrow> \<exists>x \<in> set xs. R x y"
  by (induction rule: list_all2_induct) auto

lemma sortPayload_json: "sortPayload v = Inr w \<Longrightarrow> (\<exists>j. w = from_json j) \<and> sortPayload w = Inr w"
proof (induction v arbitrary: w)
  case (VNum n)
  then show ?case by (cases n) (auto intro: exI [of _ "JNum _"])
next
  case (VDate d)
  then show ?case by (cases d) (auto intro: exI [of _ "JStr _"] exI [of _ JNull])
next
  case (VErr n m)
  then have w: "w = VObj []" by simp
  have "sortPayload (VObj []) = Inr (VObj [])" by (simp add: sortPayload_obj)
  then show ?case unfolding w by (intro conjI exI [of _ "JObj []"]) simp_all
next
  case (VArr xs)
  then obtain ys where ys: "list_all2 (\<lambda>x y. sortPayload x = Inr y) xs ys" and w: "w = VArr ys"
    by (auto simp: res_simps seq_res_map)
  have val: "(\<exists>j. y = from_json j) \<and> sortPayload y = Inr y" if "y \<in> set ys" for y
    using list_all2_values [OF ys that] VArr.IH by blast
  then obtain f where "\<And>y. y \<in> set ys \<Longrightarrow> y = from_json (f y)" by metis
  then have "w = from_json (JArr (map f ys))" by (simp add: w map_idI)
  moreover have "seq_res (map sortPayload ys) = Inr ys" using val by (simp add: seq_res_map list_all2_same)
  then have "sortPayload w = Inr w" by (simp add: w)
  ultimately show ?case by blast
next
  case (VObj ps)
  then obtain qs where qs: "list_all2 (\<lambda>p q. fst q = fst p \<and> sortPayload (snd p) = Inr (snd q)) (sort_key fst ps) qs"
    and w: "w = VObj (filter (\<lambda>q. fst q \<noteq> ''__proto__'') qs)"
    by (auto simp: sortPayload_obj)
  let ?qs = "filter (\<lambda>q. fst q \<noteq> ''__proto__'') qs"
  have val: "(\<exists>j. snd q = from_json j) \<and> sortPayload (snd q) = Inr (snd q)" if "q \<in> set ?qs" for q
    using list_all2_values [OF qs, of q] that VObj.IH by fastforce
  then obtain f where "\<And>q. q \<in> set ?qs \<Longrightarrow> snd q = from_json (f q)" by metis
  then have "map (map_prod id from_json) (map (\<lambda>q. (fst q, f q)) ?qs) = ?qs"
    by (auto intro!: map_idI simp: prod_eq_iff)
  then have "w = from_json (JObj (map (\<lambda>q. (fst q, f q)) ?qs))" by (simp only: w from_json.simps)
  moreover have "map fst qs = map fst (sort_key fst ps)"
    using qs by (auto simp: list_all2_conv_all_nth list_eq_iff_nth_eq)
  then have "sorted (map fst ?qs)" by (intro sorted_filter) simp
  then have "sort_key fst ?qs = ?qs" by (rule sort_key_id_if_sorted)
  then have "sortPayload w = Inr w"
    unfolding w sortPayload_obj using val by (intro exI [of _ ?qs]) (simp add: list_all2_same)
  ultimately show ?case by blast
qed (auto intro: exI [of _ JNull] exI [of _ "JBool _"] exI [of _ "JStr _"])

lemma payload_Inr: "normalizeActivityPayload v = Inr w \<longleftrightarrow> sortPayload v = Inr w"
proof -
  have "normalizeActivityPayload v = Inr u" if u: "sortPayload v = Inr u" for u
  proof -
    obtain j where j: "u = from_json j" using sortPayload_json [OF u] by blast
    have "payload_text v = Inr j" by (simp add: payload_text_def u j stringify_from_json)
    then show ?thesis by (simp add: normalizeActivityPayload_def j)
  qed
  then show ?thesis
    by (cases "sortPayload v") (auto simp: normalizeActivityPayload_def payload_text_def)
qed

lemma payload_clone: "normalizeActivityPayload v = Inr w \<Longrightarrow> json_clone w = Inr w"
  unfolding payload_Inr by (drule sortPayload_json) auto


section \<open>The contract of a store\<close>

definition bounded_id :: "string \<Rightarrow> bool" where
  "bounded_id i \<longleftrightarrow> 1 \<le> length i \<and> length i \<le> 512"

definition record_ok :: "string \<Rightarrow> activity_record \<Rightarrow> bool" where
  "record_ok i r \<longleftrightarrow> av_activityId r = i \<and> cloneRecord r = Inr r"

lemma cloneRecord_idem: "cloneRecord r = Inr c \<Longrightarrow> cloneRecord c = Inr c \<and> av_activityId c = av_activityId r \<and>
    av_inputHash c = av_inputHash r \<and> activity_status (av_state c) = activity_status (av_state r)"
  by (cases "av_state r") (auto simp: cloneRecord_def map_sum_Inr dest: json_clone_idem)

lemma clone_started [simp]: "av_state r = Started \<Longrightarrow> cloneRecord r = Inr r"
  by (simp add: cloneRecord_def)

locale activity_store =
  fixes start :: "activity_record \<Rightarrow> 's \<Rightarrow> (err + bool \<times> activity_record) \<times> 's"
    and finish :: "'c \<Rightarrow> activity_record \<Rightarrow> 's \<Rightarrow> (err + activity_record) \<times> 's"
    and find :: "'s \<Rightarrow> string \<Rightarrow> activity_record option"
    and inv :: "'s \<Rightarrow> bool"
  assumes start_inv: "inv s \<Longrightarrow> bounded_id (av_activityId r) \<Longrightarrow> av_state r = Started \<Longrightarrow> inv (snd (start r s))"
    and start_fresh: "inv s \<Longrightarrow> bounded_id (av_activityId r) \<Longrightarrow> av_state r = Started \<Longrightarrow> find s (av_activityId r) = None \<Longrightarrow>
      fst (start r s) = Inr (True, r) \<and> find (snd (start r s)) (av_activityId r) = Some r"
    and start_existing: "inv s \<Longrightarrow> bounded_id (av_activityId r) \<Longrightarrow> av_state r = Started \<Longrightarrow> find s (av_activityId r) = Some e \<Longrightarrow>
      fst (start r s) = Inr (False, e) \<and> find (snd (start r s)) = find s"
    and finish_inv: "inv s \<Longrightarrow> bounded_id (av_activityId r) \<Longrightarrow> inv (snd (finish c r s))"
    and finish_ok: "inv s \<Longrightarrow> bounded_id (av_activityId r) \<Longrightarrow> check_finish (find s (av_activityId r)) r = Inr () \<Longrightarrow>
      cloneRecord r = Inr r' \<Longrightarrow> fst (finish c r s) = Inr r' \<and> find (snd (finish c r s)) = (find s)(av_activityId r \<mapsto> r')"
    and finish_refused: "inv s \<Longrightarrow> bounded_id (av_activityId r) \<Longrightarrow> check_finish (find s (av_activityId r)) r = Inl x \<Longrightarrow>
      fst (finish c r s) = Inl x \<and> find (snd (finish c r s)) = find s"
    and finish_unclonable: "inv s \<Longrightarrow> bounded_id (av_activityId r) \<Longrightarrow> check_finish (find s (av_activityId r)) r = Inr () \<Longrightarrow>
      cloneRecord r = Inl x \<Longrightarrow> fst (finish c r s) = Inl x \<and> find (snd (finish c r s)) = find s"
begin

text \<open>What a call gets for an id that is recorded already, and what it does for a new one.\<close>

lemma claim_known:
  assumes "inv s" and "bounded_id (bo_activityId b)" and "find s (bo_activityId b) = Some e"
  shows "fst (claim_step start now b s) =
      Returned (if av_inputHash e \<noteq> bo_inputHash b then Inl activity_conflict else replayExisting e) \<and>
    find (snd (claim_step start now b s)) = find s"
proof -
  have "fst (start (makeStartedRecord b now) s) = Inr (False, e) \<and> find (snd (start (makeStartedRecord b now) s)) = find s"
    using start_existing [OF assms(1), of "makeStartedRecord b now"] assms(2,3) by (simp add: makeStartedRecord_def)
  then show ?thesis by (auto simp: claim_step_def Let_def split: prod.splits)
qed

lemma claim_new:
  assumes "inv s" and "bounded_id (bo_activityId b)" and "find s (bo_activityId b) = None"
  shows "fst (claim_step start now b s) = Executing (makeStartedRecord b now) \<and>
    find (snd (claim_step start now b s)) (bo_activityId b) = Some (makeStartedRecord b now)"
proof -
  let ?r = "makeStartedRecord b now"
  have "fst (start ?r s) = Inr (True, ?r) \<and> find (snd (start ?r s)) (bo_activityId b) = Some ?r"
    using start_fresh [OF assms(1), of ?r] assms(2,3) by (simp add: makeStartedRecord_def)
  then show ?thesis by (auto simp: claim_step_def Let_def makeStartedRecord_def split: prod.splits)
qed

lemma claim_inv: "inv s \<Longrightarrow> bounded_id (bo_activityId b) \<Longrightarrow> inv (snd (claim_step start now b s))"
  using start_inv [of s "makeStartedRecord b now"]
  by (auto simp: claim_step_def Let_def makeStartedRecord_def split: prod.splits sum.splits)

end

text \<open>Calls begin and make their steps in any order; \<open>config\<close> is the process and clock of a file write.\<close>

inductive activity_moves :: "(jsval \<Rightarrow> string) \<Rightarrow> (activity_record \<Rightarrow> 's \<Rightarrow> (err + bool \<times> activity_record) \<times> 's) \<Rightarrow>
    ('c \<Rightarrow> activity_record \<Rightarrow> 's \<Rightarrow> (err + activity_record) \<times> 's) \<Rightarrow> 's activity_world \<Rightarrow> 's activity_world \<Rightarrow> bool"
  for "show" start finish where
  begin_call: "bounded_id (bo_activityId b) \<Longrightarrow>
    activity_moves show start finish w (w\<lparr>aw_calls := aw_calls w @ [\<lparr>cl_boundary = b, cl_phase = Claiming\<rparr>]\<rparr>)"
| step_call: "activity_moves show start finish w (call_step show start (finish config) action w)"

definition started_by :: "boundary \<Rightarrow> activity_record \<Rightarrow> bool" where
  "started_by b r \<longleftrightarrow> av_activityId r = bo_activityId b \<and> av_inputHash r = bo_inputHash b \<and> av_state r = Started"

text \<open>What the phase of a call says of the records \<open>m\<close> of the store.\<close>

definition phase_ok :: "(string \<Rightarrow> activity_record option) \<Rightarrow> boundary \<Rightarrow> call_phase \<Rightarrow> bool" where
  "phase_ok m b phase \<longleftrightarrow>
     (case phase of
        Executing st \<Rightarrow> started_by b st
      | Recording st r out \<Rightarrow> started_by b st \<and> av_activityId r = bo_activityId b \<and> av_inputHash r = bo_inputHash b \<and>
          (\<forall>v. out = Inr v \<longrightarrow> json_clone v = Inr v \<and> (\<exists>t. av_state r = Completed v t))
      | Returned (Inr v) \<Rightarrow> \<exists>r t. m (bo_activityId b) = Some r \<and> av_inputHash r = bo_inputHash b \<and> av_state r = Completed v t
      | _ \<Rightarrow> True)"

text \<open>How the records of a durable store may change: claims are added, and a started record gets its outcome.\<close>

definition later :: "(string \<Rightarrow> activity_record option) \<Rightarrow> (string \<Rightarrow> activity_record option) \<Rightarrow> bool" where
  "later m m' \<longleftrightarrow> (\<forall>i r. m i = Some r \<longrightarrow> (\<exists>r'. m' i = Some r' \<and> (av_state r \<noteq> Started \<longrightarrow> r' = r)))"

lemma later_refl [simp]: "later m m"
  by (simp add: later_def)

lemma phase_ok_later: "phase_ok m b phase \<Longrightarrow> later m m' \<Longrightarrow> phase_ok m' b phase"
  unfolding phase_ok_def later_def by (auto split: call_phase.splits sum.splits) (metis activity_state.distinct(1))

lemma recovery_fields [simp]:
  "av_activityId (recovery show st now e) = av_activityId st" "av_inputHash (recovery show st now e) = av_inputHash st"
  by (simp_all add: recovery_def)

lemma execute_step_ok: "started_by b st \<Longrightarrow> phase_ok m b (execute_step show now outcome st)"
  unfolding execute_step_def
  by (auto simp: phase_ok_def started_by_def bind_res_Inr dest: payload_clone split: sum.split)

lemma execute_step_phase [simp]: "execute_step show now outcome st \<noteq> Executing st'"
  by (simp add: execute_step_def split: sum.split)

locale durable_activity_store = activity_store +
  assumes start_other: "inv s \<Longrightarrow> bounded_id (av_activityId r) \<Longrightarrow> av_state r = Started \<Longrightarrow> i \<noteq> av_activityId r \<Longrightarrow>
      find (snd (start r s)) i = find s i"
begin

lemma claim_step_ok:
  assumes "inv s" and "bounded_id (bo_activityId b)"
  shows "later (find s) (find (snd (claim_step start now b s))) \<and>
    phase_ok (find (snd (claim_step start now b s))) b (fst (claim_step start now b s)) \<and>
    (\<forall>st. fst (claim_step start now b s) = Executing st \<longrightarrow>
       find s (bo_activityId b) = None \<and> find (snd (claim_step start now b s)) (bo_activityId b) \<noteq> None)"
proof (cases "find s (bo_activityId b)")
  case None
  have other: "find (snd (claim_step start now b s)) i = find s i" if "i \<noteq> bo_activityId b" for i
    using start_other [OF assms(1), of "makeStartedRecord b now" i] assms(2) that
    by (auto simp: claim_step_def Let_def makeStartedRecord_def split: prod.splits sum.splits)
  have "later (find s) (find (snd (claim_step start now b s)))"
    unfolding later_def using None other by (metis option.distinct(1))
  with claim_new [OF assms None, of now] None show ?thesis
    by (simp add: phase_ok_def started_by_def makeStartedRecord_def)
next
  case (Some e)
  then show ?thesis
    using claim_known [OF assms Some, of now]
    by (auto simp: phase_ok_def replayExisting_def split: activity_state.splits sum.splits)
qed

lemma record_step_ok:
  assumes "inv s" and "bounded_id (bo_activityId b)" and ok: "phase_ok (find s) b (Recording st r out)"
  shows "later (find s) (find (snd (record_step show (finish c) now st r out s))) \<and>
    phase_ok (find (snd (record_step show (finish c) now st r out s))) b (fst (record_step show (finish c) now st r out s)) \<and>
    (\<forall>st'. fst (record_step show (finish c) now st r out s) \<noteq> Executing st')"
proof -
  have r: "av_activityId r = bo_activityId b" "av_inputHash r = bo_inputHash b" "started_by b st"
    and v: "\<And>v. out = Inr v \<Longrightarrow> json_clone v = Inr v \<and> (\<exists>t. av_state r = Completed v t)"
    using ok by (auto simp: phase_ok_def)
  have bounded: "bounded_id (av_activityId r)" using assms(2) r(1) by simp
  consider (refused) e where "check_finish (find s (av_activityId r)) r = Inl e"
    | (unclonable) e where "check_finish (find s (av_activityId r)) r = Inr ()" "cloneRecord r = Inl e"
    | (fine) r' where "check_finish (find s (av_activityId r)) r = Inr ()" "cloneRecord r = Inr r'"
    by (cases "check_finish (find s (av_activityId r)) r"; cases "cloneRecord r") auto
  then have "(\<exists>e. fst (finish c r s) = Inl e \<and> find (snd (finish c r s)) = find s) \<or>
    (\<exists>r' e. fst (finish c r s) = Inr r' \<and> find (snd (finish c r s)) = (find s)(av_activityId r \<mapsto> r') \<and> cloneRecord r = Inr r' \<and>
       find s (av_activityId r) = Some e \<and> av_state e = Started)"
  proof cases
    case refused
    then show ?thesis using finish_refused [OF assms(1) bounded] by blast
  next
    case unclonable
    then show ?thesis using finish_unclonable [OF assms(1) bounded] by blast
  next
    case fine
    then obtain e where "find s (av_activityId r) = Some e" "av_state e = Started"
      by (auto simp: check_finish_def split: option.splits if_splits)
    with finish_ok [OF assms(1) bounded fine] fine show ?thesis by blast
  qed
  then show ?thesis
  proof (elim disjE exE conjE)
    fix e assume "fst (finish c r s) = Inl e" "find (snd (finish c r s)) = find s"
    then show ?thesis
      using r by (auto simp: record_step_def phase_ok_def started_by_def split: prod.splits sum.splits)
  next
    fix r' e assume f: "fst (finish c r s) = Inr r'" "find (snd (finish c r s)) = (find s)(av_activityId r \<mapsto> r')"
      and c: "cloneRecord r = Inr r'" and e: "find s (av_activityId r) = Some e" "av_state e = Started"
    have "later (find s) (find (snd (finish c r s)))" using f(2) e by (simp add: later_def)
    moreover have "r' = r" if "out = Inr v" for v
      using c v [OF that] by (auto simp: cloneRecord_def)
    ultimately show ?thesis
      using f v r by (cases out) (auto simp: record_step_def phase_ok_def split: prod.splits)
  qed
qed

text \<open>The invariant of the calls over a store: the log has each id once, and only recorded ids.\<close>

definition calls_ok where
  "calls_ok w \<longleftrightarrow> inv (aw_store w) \<and> distinct (aw_log w) \<and> (\<forall>i \<in> set (aw_log w). find (aw_store w) i \<noteq> None) \<and>
     (\<forall>c \<in> set (aw_calls w). bounded_id (bo_activityId (cl_boundary c)) \<and> phase_ok (find (aw_store w)) (cl_boundary c) (cl_phase c))"

lemma calls_ok_move:
  assumes w: "calls_ok w" and k: "k < length (aw_calls w)" and inv': "inv s'"
    and l: "later (find (aw_store w)) (find s')" and ok: "phase_ok (find s') (cl_boundary (aw_calls w ! k)) ph"
    and new: "\<And>st. ph = Executing st \<Longrightarrow> find (aw_store w) (bo_activityId (cl_boundary (aw_calls w ! k))) = None \<and>
      find s' (bo_activityId (cl_boundary (aw_calls w ! k))) \<noteq> None"
  shows "calls_ok (w\<lparr>aw_store := s', aw_calls := (aw_calls w)[k := (aw_calls w ! k)\<lparr>cl_phase := ph\<rparr>],
    aw_log := (case ph of Executing _ \<Rightarrow> aw_log w @ [bo_activityId (cl_boundary (aw_calls w ! k))] | _ \<Rightarrow> aw_log w)\<rparr>)"
proof -
  let ?c = "aw_calls w ! k"
  have "bounded_id (bo_activityId (cl_boundary ?c))" using w k by (simp add: calls_ok_def)
  then have calls: "bounded_id (bo_activityId (cl_boundary c)) \<and> phase_ok (find s') (cl_boundary c) (cl_phase c)"
    if "c \<in> set ((aw_calls w)[k := ?c\<lparr>cl_phase := ph\<rparr>])" for c
    using set_update_subset_insert [of "aw_calls w" k "?c\<lparr>cl_phase := ph\<rparr>"] that w ok phase_ok_later [OF _ l]
    by (auto simp: calls_ok_def)
  have logged: "find s' i \<noteq> None" if "i \<in> set (aw_log w)" for i
    using w l that by (fastforce simp: calls_ok_def later_def)
  have "\<forall>i \<in> set (aw_log w). find (aw_store w) i \<noteq> None" using w by (simp add: calls_ok_def)
  then have "bo_activityId (cl_boundary ?c) \<notin> set (aw_log w) \<and> find s' (bo_activityId (cl_boundary ?c)) \<noteq> None"
    if "ph = Executing st" for st using new [OF that] by blast
  with calls logged inv' w show ?thesis by (auto simp: calls_ok_def split: call_phase.split)
qed

lemma record_inv: "inv s \<Longrightarrow> bounded_id (av_activityId r) \<Longrightarrow> inv (snd (record_step show (finish c) now st r out s))"
  using finish_inv [of s r c] by (auto simp: record_step_def split: prod.splits sum.splits)

lemma moves_ok: "activity_moves show start finish w w' \<Longrightarrow> calls_ok w \<Longrightarrow> calls_ok w'"
proof (induction rule: activity_moves.induct)
  case (begin_call b w)
  then show ?case by (auto simp: calls_ok_def phase_ok_def)
next
  case (step_call w config action)
  obtain k now outcome where a: "action = (k, now, outcome)" by (cases action)
  show ?case
  proof (cases "k < length (aw_calls w)")
    case True
    let ?c = "aw_calls w ! k"
    have c: "inv (aw_store w)" "bounded_id (bo_activityId (cl_boundary ?c))" "phase_ok (find (aw_store w)) (cl_boundary ?c) (cl_phase ?c)"
      using step_call True by (auto simp: calls_ok_def)
    note move = calls_ok_move [OF step_call True]
    show ?thesis
    proof (cases "cl_phase ?c")
      case Claiming
      then show ?thesis
        using True move [OF claim_inv [OF c(1,2)]] claim_step_ok [OF c(1,2), of now]
        by (simp add: call_step_def a Let_def case_prod_unfold)
    next
      case (Executing st)
      then have "started_by (cl_boundary ?c) st" using c(3) by (simp add: phase_ok_def)
      from move [OF c(1) later_refl execute_step_ok [OF this]] show ?thesis
        using True Executing by (simp add: call_step_def a Let_def)
    next
      case (Recording st r out)
      have "phase_ok (find (aw_store w)) (cl_boundary ?c) (Recording st r out)" using c(3) Recording by simp
      note ok = record_step_ok [OF c(1,2) this, of "show" config now]
      have "bounded_id (av_activityId r)" using c(2,3) Recording by (simp add: phase_ok_def)
      from move [OF record_inv [OF c(1) this] conjunct1 [OF ok] conjunct1 [OF conjunct2 [OF ok]]] ok show ?thesis
        using True Recording by (simp add: call_step_def a Let_def case_prod_unfold)
    next
      case (Returned res)
      then show ?thesis using True step_call by (simp add: call_step_def a Let_def)
    qed
  next
    case False
    then show ?thesis using step_call by (simp add: call_step_def a)
  qed
qed

lemma fresh_calls_ok: "inv s \<Longrightarrow> calls_ok \<lparr>aw_store = s, aw_calls = [], aw_log = []\<rparr>"
  by (simp add: calls_ok_def)

end

section \<open>The stores\<close>

definition memory_store_ok :: "memory_store \<Rightarrow> bool" where
  "memory_store_ok s \<longleftrightarrow> 1 \<le> as_max s \<and> length (as_records s) \<le> as_max s \<and>
     (\<forall>p \<in> set (as_records s). cloneRecord (snd p) = Inr (snd p))"

lemma memory_store_clone: "memory_store_ok s \<Longrightarrow> map_of (as_records s) i = Some r \<Longrightarrow> cloneRecord r = Inr r"
  by (fastforce simp: memory_store_ok_def dest: map_of_SomeD)

lemma in_set_update: "p \<in> set (AList.update k v xs) \<Longrightarrow> p = (k, v) \<or> p \<in> set xs"
  by (induction xs) (auto split: if_splits)

lemma length_update_known: "map_of xs k = Some u \<Longrightarrow> length (AList.update k v xs) = length xs"
  by (induction xs) (auto split: if_splits)

lemma map_of_drop_None: "map_of xs k = None \<Longrightarrow> map_of (drop n xs) k = None"
  by (auto simp: map_of_eq_None_iff dest: in_set_dropD)

lemma memory_start_ok:
  assumes "memory_store_ok s" and "av_state r = Started"
  shows "memory_store_ok (snd (memory_start r s))"
proof (cases "map_of (as_records s) (av_activityId r)")
  case None
  then show ?thesis
    using assms by (auto simp: memory_start_def Let_def memory_store_ok_def dest: in_set_dropD)
next
  case (Some e)
  then show ?thesis using assms(1) by (simp add: memory_start_def)
qed

lemma memory_finish_ok:
  assumes "memory_store_ok s"
  shows "memory_store_ok (snd (memory_finish r s))"
proof -
  have "memory_store_ok (s\<lparr>as_records := AList.update (av_activityId r) c (as_records s)\<rparr>)"
    if check: "check_finish (map_of (as_records s) (av_activityId r)) r = Inr ()" and clone: "cloneRecord r = Inr c" for c
  proof -
    obtain e where "map_of (as_records s) (av_activityId r) = Some e" using check by (cases "map_of (as_records s) (av_activityId r)") (auto simp: check_finish_def)
    then show ?thesis
      using assms cloneRecord_idem [OF clone]
      by (auto simp: memory_store_ok_def length_update_known dest!: in_set_update)
  qed
  then show ?thesis using assms by (auto simp: memory_finish_def split: sum.split)
qed

interpretation memory_activities: activity_store memory_start "\<lambda>_ :: unit. memory_finish" "\<lambda>s. map_of (as_records s)" memory_store_ok
proof unfold_locales
  fix s :: memory_store and r e :: activity_record
  assume "memory_store_ok s" and e: "map_of (as_records s) (av_activityId r) = Some e"
  then have "cloneRecord e = Inr e" by (rule memory_store_clone)
  with e show "fst (memory_start r s) = Inr (False, e) \<and> map_of (as_records (snd (memory_start r s))) = map_of (as_records s)"
    by (simp add: memory_start_def)
qed ((rule memory_start_ok memory_finish_ok; assumption) | (simp add: memory_finish_def update_conv'; fail) |
  (simp add: memory_start_def Let_def map_of_drop_None map_add_def; fail))+

definition activity_find :: "activity_dir \<Rightarrow> string \<Rightarrow> activity_record option" where
  "activity_find dir i = map_of dir (ActivityFile i)"

definition activity_dir_ok :: "activity_dir \<Rightarrow> bool" where
  "activity_dir_ok dir \<longleftrightarrow> (\<forall>f r. map_of dir f = Some r \<longrightarrow> cloneRecord r = Inr r)"

lemma activityPath_bounded: "bounded_id i \<Longrightarrow> activityPath i = Inr (ActivityFile i)"
  by (auto simp: bounded_id_def activityPath_def assertBoundedString_def)

lemma file_start_cases:
  assumes "activity_dir_ok dir" and "bounded_id (av_activityId r)" and "av_state r = Started"
  shows "file_start r dir =
    (case activity_find dir (av_activityId r) of
       Some e \<Rightarrow> (Inr (False, e), dir)
     | None \<Rightarrow> (Inr (True, r), AList.update (ActivityFile (av_activityId r)) r dir))"
  using assms
  by (auto simp: file_start_def activityPath_bounded writeNewActivityRecord_def activity_find_def activity_dir_ok_def split: option.split)

lemma file_finish_cases:
  assumes "bounded_id (av_activityId r)"
  shows "file_finish pid now r dir =
    (case check_finish (activity_find dir (av_activityId r)) r of
       Inl e \<Rightarrow> (Inl e, dir)
     | Inr _ \<Rightarrow> (case cloneRecord r of
           Inl e \<Rightarrow> (Inl e, dir)
         | Inr c \<Rightarrow> (Inr c, AList.update (ActivityFile (av_activityId r)) c
             (AList.delete (ActivityTemp (av_activityId r) pid now) (AList.update (ActivityTemp (av_activityId r) pid now) c dir)))))"
  using assms
  by (auto simp: file_finish_def activityPath_bounded readActivityRecord_def writeActivityRecord_def activity_find_def Let_def
      split: sum.split)

lemma activity_dir_ok_simps:
  "activity_dir_ok []"
  "cloneRecord r = Inr r \<Longrightarrow> activity_dir_ok dir \<Longrightarrow> activity_dir_ok (AList.update f r dir)"
  "activity_dir_ok dir \<Longrightarrow> activity_dir_ok (AList.delete f dir)"
  by (auto simp: activity_dir_ok_def update_conv' delete_conv' split: if_splits)

lemma activity_find_update:
  "activity_find (AList.update (ActivityFile i) r dir) = (activity_find dir)(i \<mapsto> r)"
  "activity_find (AList.update (ActivityTemp i pid now) r dir) = activity_find dir"
  "activity_find (AList.delete (ActivityTemp i pid now) dir) = activity_find dir"
  by (auto simp: activity_find_def update_conv' delete_conv' fun_eq_iff)

interpretation file_activities: durable_activity_store file_start "\<lambda>(pid, now). file_finish pid now" activity_find activity_dir_ok
proof unfold_locales
  fix dir and r :: activity_record and config :: "nat \<times> jsnum"
  assume "activity_dir_ok dir" and "bounded_id (av_activityId r)"
  then show "activity_dir_ok (snd ((case config of (pid, now) \<Rightarrow> file_finish pid now) r dir))"
    by (cases config) (auto simp: file_finish_cases activity_dir_ok_simps dest: cloneRecord_idem split: sum.split)
qed (auto simp: file_start_cases file_finish_cases activity_dir_ok_simps activity_find_update split: option.split)

section \<open>Properties of the calls\<close>

definition no_activities :: "activity_dir activity_world" where
  "no_activities = \<lparr>aw_store = [], aw_calls = [], aw_log = []\<rparr>"

abbreviation file_moves_to :: "(jsval \<Rightarrow> string) \<Rightarrow> activity_dir activity_world \<Rightarrow> activity_dir activity_world \<Rightarrow> bool" where
  "file_moves_to show \<equiv> activity_moves show file_start (\<lambda>(pid, now). file_finish pid now)"

interpretation file_calls: invariant_system "\<lambda>w. w = no_activities" "file_moves_to show" file_activities.calls_ok
  for "show"
  by unfold_locales (auto simp: no_activities_def activity_dir_ok_simps intro: file_activities.fresh_calls_ok dest: file_activities.moves_ok)

text \<open>
  C6: Over a file store, whatever calls of whatever boundaries in whatever processes interleave and
  however their tasks end, the task of an activity id is started at most once, and then the id is
  recorded forever.
\<close>

theorem activity_at_most_once:
  assumes "reachable (\<lambda>w. w = no_activities) (file_moves_to show) w"
  shows "distinct (aw_log w) \<and> (\<forall>i \<in> set (aw_log w). \<exists>r. readActivityRecord (ActivityFile i) (aw_store w) = Some r)"
  using file_calls.reachable_inv [OF assms]
  by (auto simp: file_activities.calls_ok_def activity_find_def readActivityRecord_def)


text \<open>A demonstration: two calls of one boundary, of which the first runs the task.\<close>

definition demo_boundary :: "string \<Rightarrow> boundary" where
  "demo_boundary i = \<lparr>bo_activityId = i, bo_name = i, bo_version = ''v1'', bo_inputHash = ''sha256:x''\<rparr>"

definition waiting :: "string \<Rightarrow> activity_call" where
  "waiting i = \<lparr>cl_boundary = demo_boundary i, cl_phase = Claiming\<rparr>"

definition file_run :: "(nat \<times> jsnum \<times> (err + jsval)) list \<Rightarrow> activity_dir activity_world \<Rightarrow> activity_dir activity_world" where
  "file_run = fold (\<lambda>(k, now, outcome). call_step (\<lambda>_. []) file_start ((\<lambda>(pid, t). file_finish pid t) (0, now)) (k, now, outcome))"

definition demo_activities :: "activity_dir activity_world" where
  "demo_activities = file_run
     [(0, Fin 1, Inr VNull), (1, Fin 2, Inr VNull), (0, Fin 3, Inr (VStr ''paid'')), (0, Fin 4, Inr VNull), (2, Fin 5, Inr VNull)]
     \<lparr>aw_store = [], aw_calls = [waiting ''pay'', waiting ''pay'', waiting ''pay''], aw_log = []\<rparr>"

lemma file_run_reachable:
  "reachable (\<lambda>w. w = no_activities) (file_moves_to (\<lambda>_. [])) w \<Longrightarrow>
     reachable (\<lambda>w. w = no_activities) (file_moves_to (\<lambda>_. [])) (file_run actions w)"
proof (induction actions arbitrary: w)
  case (Cons a actions)
  obtain k now outcome where a: "a = (k, now, outcome)" by (cases a)
  from Cons.prems have "reachable (\<lambda>w. w = no_activities) (file_moves_to (\<lambda>_. []))
      (call_step (\<lambda>_. []) file_start ((\<lambda>(pid, t). file_finish pid t) (0, now)) (k, now, outcome) w)"
    by (blast intro: reach_step step_call)
  from Cons.IH [OF this] show ?case by (simp add: file_run_def a)
qed (simp add: file_run_def)

lemma waiting_reachable:
  "list_all bounded_id is \<Longrightarrow> reachable (\<lambda>w. w = no_activities) (file_moves_to (\<lambda>_. []))
     \<lparr>aw_store = [], aw_calls = map waiting is, aw_log = []\<rparr>"
proof (induction "is" rule: rev_induct)
  case Nil
  then show ?case by (auto intro: reach_init simp: no_activities_def)
next
  case (snoc i "is")
  have "file_moves_to (\<lambda>_. []) \<lparr>aw_store = [], aw_calls = map waiting is, aw_log = []\<rparr>
      (\<lparr>aw_store = [], aw_calls = map waiting is, aw_log = []\<rparr>
        \<lparr>aw_calls := map waiting is @ [\<lparr>cl_boundary = demo_boundary i, cl_phase = Claiming\<rparr>]\<rparr>)"
    using snoc.prems begin_call [of "demo_boundary i" "\<lambda>_. []" file_start "\<lambda>(pid, now). file_finish pid now"
        "\<lparr>aw_store = [], aw_calls = map waiting is, aw_log = []\<rparr>"]
    by (simp add: demo_boundary_def)
  moreover have "reachable (\<lambda>w. w = no_activities) (file_moves_to (\<lambda>_. [])) \<lparr>aw_store = [], aw_calls = map waiting is, aw_log = []\<rparr>"
    using snoc by simp
  ultimately have "reachable (\<lambda>w. w = no_activities) (file_moves_to (\<lambda>_. []))
      (\<lparr>aw_store = [], aw_calls = map waiting is, aw_log = []\<rparr>
        \<lparr>aw_calls := map waiting is @ [\<lparr>cl_boundary = demo_boundary i, cl_phase = Claiming\<rparr>]\<rparr>)"
    by (rule reach_step [rotated])
  then show ?case by (simp add: waiting_def [of i])
qed

lemma demo_reachable: "reachable (\<lambda>w. w = no_activities) (file_moves_to (\<lambda>_. [])) demo_activities"
  using file_run_reachable [OF waiting_reachable [of "[''pay'', ''pay'', ''pay'']"]]
  by (simp add: demo_activities_def bounded_id_def)

lemma demo_calls: "map cl_phase (aw_calls demo_activities) =
    [Returned (Inr (VStr ''paid'')), Returned (Inl (activity_not_runnable Started)), Returned (Inr (VStr ''paid''))]"
  "aw_log demo_activities = [''pay'']"
  by code_simp+

lemma activity_at_most_once_witness:
  "distinct (aw_log demo_activities) \<and> aw_log demo_activities = [''pay''] \<and>
   readActivityRecord (ActivityFile ''pay'') (aw_store demo_activities) \<noteq> None"
  using activity_at_most_once [OF demo_reachable] by (auto simp: demo_calls)


text \<open>
  The memory store gives up the claim of an activity that is still running as soon as its
  capacity is reached by another id: then a second call of the same id runs the task again.
\<close>

theorem evicted_claim_runs_twice:
  assumes "bo_activityId a \<noteq> bo_activityId b"
    and "w = fold (call_step show memory_start memory_finish) [(0, t0, x), (1, t1, x), (2, t2, x)]
      \<lparr>aw_store = \<lparr>as_max = 1, as_records = []\<rparr>,
       aw_calls = map (\<lambda>c. \<lparr>cl_boundary = c, cl_phase = Claiming\<rparr>) [a, b, a], aw_log = []\<rparr>"
  shows "aw_log w = [bo_activityId a, bo_activityId b, bo_activityId a]"
  using assms
  by (simp add: call_step_def claim_step_def memory_start_def makeStartedRecord_def Let_def)

lemma evicted_claim_runs_twice_witness:
  "aw_log (fold (call_step (\<lambda>_. []) memory_start memory_finish) [(0, Fin 1, Inr VNull), (1, Fin 2, Inr VNull), (2, Fin 3, Inr VNull)]
      \<lparr>aw_store = \<lparr>as_max = 1, as_records = []\<rparr>,
       aw_calls = map (\<lambda>c. \<lparr>cl_boundary = c, cl_phase = Claiming\<rparr>) [demo_boundary ''a'', demo_boundary ''b'', demo_boundary ''a''],
       aw_log = []\<rparr>) = [''a'', ''b'', ''a'']"
  using evicted_claim_runs_twice [OF _ refl, of "demo_boundary ''a''" "demo_boundary ''b''" "\<lambda>_. []"] by (simp add: demo_boundary_def)

text \<open>
  A task that completes without a value is recorded as failed: the call rejects with a
  serialization error although the task succeeded, and every later call is refused.
\<close>

theorem void_activity_fails:
  assumes "bounded_id (bo_activityId b)"
    and "w = fold (call_step show file_start (file_finish pid t)) [(0, t0, x), (0, t1, Inr VUndef), (0, t2, x), (1, t3, x)]
      \<lparr>aw_store = [], aw_calls = [\<lparr>cl_boundary = b, cl_phase = Claiming\<rparr>, \<lparr>cl_boundary = b, cl_phase = Claiming\<rparr>], aw_log = []\<rparr>"
  shows "aw_log w = [bo_activityId b] \<and>
    map cl_phase (aw_calls w) =
      [Returned (Inl (payload_error ''undefined is not valid JSON'')),
       Returned (Inl (JsError ''ActivityNotRunnableError'' ''Activity is already recorded as failed''))]"
  using assms(1)
  by (simp add: assms(2) call_step_def claim_step_def execute_step_def record_step_def file_start_cases file_finish_cases
    activity_dir_ok_def activity_find_def makeStartedRecord_def Let_def check_finish_def recovery_def cloneRecord_def
    payload_error_def normalizeActivityPayload_def payload_text_def replayExisting_def activity_not_runnable_def
    update_conv' delete_conv')

lemma void_activity_fails_witness:
  "aw_log (fold (call_step (\<lambda>_. []) file_start (file_finish 0 (Fin 9)))
      [(0, Fin 1, Inr VNull), (0, Fin 2, Inr VUndef), (0, Fin 3, Inr VNull), (1, Fin 4, Inr VNull)]
      \<lparr>aw_store = [], aw_calls = [waiting ''n'', waiting ''n''], aw_log = []\<rparr>) = [''n'']"
  using void_activity_fails [OF _ refl, of "demo_boundary ''n''" "\<lambda>_. []" 0 "Fin 9" "Fin 1" "Inr VNull" "Fin 2" "Fin 3" "Fin 4"]
  by (simp add: waiting_def demo_boundary_def bounded_id_def)

end
