(* ===== verification/Plan_Soundness.thy ===== *)
theory Plan_Soundness
  imports Time_Policy_Props Run_Groups
begin

text \<open>
  The planner of \<open>time-policy/index.ts\<close> against the wrappers of \<open>run/index.ts\<close>: a task that is
  composed as a policy says, from attempts that keep their declared durations, never takes longer
  than the upper bound the planner computes for the policy.
\<close>

section \<open>Tasks composed as a policy says\<close>

text \<open>The values of a group's children, as the array value they are.\<close>

definition array_task :: "jsval list task \<Rightarrow> jsval task" where
  "array_task task ctx now = (let (res, lg) = task ctx now in (map_option (map_prod id (map_sum id VArr)) res, lg))"

text \<open>
  \<open>clock\<close> is the time at which the policy is planned and \<open>s\<close> a lower bound of the time at which the
  task is started; a deadline is planned no later than that.
\<close>

inductive implements :: "jsnum \<Rightarrow> rat \<Rightarrow> policy \<Rightarrow> jsval task \<Rightarrow> bool" for clock s where
  impl_attempt: "parseDuration d = Inr ms \<Longrightarrow> bounded_by s ms task \<Longrightarrow> implements clock s (Attempt d label) task"
| impl_series: "list_all2 (implements clock s) ps tasks \<Longrightarrow> implements clock s (Series ps) (array_task (run_series tasks))"
| impl_parallel: "list_all2 (implements clock s) ps tasks \<Longrightarrow>
    implements clock s (Parallel ps) (array_task (run_all first_id tasks))"
| impl_retry: "implements clock s p task \<Longrightarrow> retry task opts charge rnd = Inr wrapped \<Longrightarrow> \<forall>n. 0 \<le> rnd n \<and> rnd n < 1 \<Longrightarrow>
    implements clock s (RetryP p opts) wrapped"
| impl_hedge: "implements clock s p task \<Longrightarrow> implements clock s (Hedge p after mx) (hedge abort_first task after mx)"
| impl_timeout: "implements clock s p task \<Longrightarrow> timeout timer_first task d = Inr wrapped \<Longrightarrow>
    implements clock s (Timeout d p) wrapped"
| impl_deadline: "implements clock s p task \<Longrightarrow> or_default planned clock = Fin n \<Longrightarrow> n \<le> s \<Longrightarrow>
    implements clock s (Deadline (Fin dl) planned p) (deadline_task timer_first task dl)"
monos list_all2_mono

section \<open>Each combinator keeps the planned bound\<close>

text \<open>The plan's upper bound is finite and the task keeps it.\<close>

definition keeps_plan :: "rat \<Rightarrow> time_plan \<Rightarrow> 'v task \<Rightarrow> bool" where
  "keeps_plan s tp task \<longleftrightarrow> (\<exists>u. upperBoundMs tp = Fin u \<and> bounded_by s u task)"

lemma array_task_bounded: "bounded_by s d task \<Longrightarrow> bounded_by s d (array_task task)"
proof -
  have "fst (array_task task ctx now) = map_option (map_prod id (map_sum id VArr)) (fst (task ctx now))" for ctx now
    by (simp add: array_task_def case_prod_unfold Let_def)
  then show "bounded_by s d task \<Longrightarrow> bounded_by s d (array_task task)" by (fastforce simp: bounded_by_def)
qed

lemma keeps_list:
  assumes "list_all2 (keeps_plan s) cs tasks"
  obtains us where "map upperBoundMs cs = map Fin us" and "list_all2 (bounded_by s) us tasks"
  using assms
proof (induction cs tasks arbitrary: thesis rule: list_all2_induct)
  case Nil
  then show ?case by simp
next
  case (Cons c cs task tasks)
  obtain us where "map upperBoundMs cs = map Fin us" "list_all2 (bounded_by s) us tasks"
    using Cons.IH by blast
  moreover obtain u where "upperBoundMs c = Fin u" "bounded_by s u task"
    using Cons.hyps(1) by (auto simp: keeps_plan_def)
  ultimately show ?case by (intro Cons.prems [of "u # us"]) auto
qed

lemma series_keeps:
  assumes "list_all2 (keeps_plan s) cs tasks"
  shows "keeps_plan s (combineSeries cs) (run_series tasks)"
proof -
  obtain us where "map upperBoundMs cs = map Fin us" "list_all2 (bounded_by s) us tasks"
    using keeps_list [OF assms] .
  then show ?thesis using series_bounded by (auto simp: keeps_plan_def combineSeries_def js_sum_Fin)
qed

lemma parallel_keeps:
  assumes "list_all2 (keeps_plan s) cs tasks" and "cs \<noteq> []"
  shows "keeps_plan s (combineParallel cs) (run_all first_id tasks)"
proof -
  obtain us where us: "map upperBoundMs cs = map Fin us" "list_all2 (bounded_by s) us tasks"
    using keeps_list [OF assms(1)] .
  then have "us \<noteq> []" using assms(2) by auto
  have each: "bounded_by s (Max (set us)) task" if t: "task \<in> set tasks" for task
  proof -
    obtain u where "u \<in> set us" "bounded_by s u task"
      using us(2) t by (induction rule: list_all2_induct) auto
    then show ?thesis by (blast intro: bounded_by_mono Max_ge)
  qed
  obtain u where "u \<in> set us" "0 \<le> u"
    using us(2) \<open>us \<noteq> []\<close> by (cases us) (auto simp: list_all2_Cons1 dest: bounded_by_nonneg)
  then have "0 \<le> u" "u \<le> Max (set us)" by auto
  then have "0 \<le> Max (set us)" by simp
  from all_bounded [OF _ this] each us(1) \<open>us \<noteq> []\<close> show ?thesis
    by (auto simp: keeps_plan_def combineParallel_def js_maximum_Fin)
qed

lemma empty_keeps: "keeps_plan s emptyPlan (run_series [])" "keeps_plan s emptyPlan (run_all first_id [])"
  using series_bounded [of s "[]" "[]"] all_bounded [of "[]" s 0 first_id] by (simp_all add: keeps_plan_def emptyPlan_def)

text \<open>The delays of a retry: what the planner adds up covers what the loop draws.\<close>

definition planned_delay :: "retry_policy \<Rightarrow> nat \<Rightarrow> rat" where
  "planned_delay policy n = (case estimateRetryDelay n policy of Inr (d, _) \<Rightarrow> d | Inl _ \<Rightarrow> 0)"

lemma planned_delay_nonneg: "0 \<le> planned_delay policy n"
  using estimateRetryDelay_nonneg by (auto simp: planned_delay_def split: sum.split)

lemma planned_delay_cap: "delay_cap policy (planned_delay policy)"
  unfolding delay_cap_def
proof (intro allI impI)
  fix n d rnd
  assume c: "0 \<le> rnd \<and> rnd < 1 \<and> computeRetryDelay n policy rnd = Inr d"
  then obtain e w where "estimateRetryDelay n policy = Inr (e, w)"
    by (fastforce simp: computeRetryDelay_def estimateRetryDelay_def res_simps intro: prod.exhaust)
  with planned_delay_covers [OF this] c show "0 \<le> d \<and> d \<le> planned_delay policy n"
    by (auto simp: planned_delay_def)
qed

lemma retry_keeps:
  assumes "keeps_plan s c task" and "retryPlan c opts = Inr tp" and "retry task opts charge rnd = Inr wrapped"
    and "\<forall>n. 0 \<le> rnd n \<and> rnd n < 1"
  shows "keeps_plan s tp wrapped"
proof -
  obtain u where u: "upperBoundMs c = Fin u" "bounded_by s u task" using assms(1) by (auto simp: keeps_plan_def)
  from assms(2) obtain p ds where p: "normalizeRetry opts = Inr p"
    and ds: "map_res (\<lambda>n. estimateRetryDelay n p) [1..<rp_times p] = Inr ds"
    and ub: "upperBoundMs tp = upperBoundMs c * Fin (of_nat (rp_times p)) + Fin (sum_list (map fst ds))"
    by (auto simp: retryPlan_def res_simps(1,2) Let_def)
  have "map fst ds = map (planned_delay p) [1..<rp_times p]"
    using ds by (auto simp: res_simps list_all2_conv_all_nth list_eq_iff_nth_eq planned_delay_def split: prod.split)
  then have "sum_list (map fst ds) = (\<Sum>i = 1..<rp_times p. planned_delay p i)"
    by (simp add: interv_sum_list_conv_sum_set_nat)
  moreover have "0 < rp_times p" using normalizeRetry_times [OF p] by simp
  ultimately show ?thesis
    using retry_bounded [OF assms(3) p u(2) planned_delay_cap assms(4)] planned_delay_nonneg
    by (simp add: keeps_plan_def ub u(1) mult.commute)
qed

lemma hedge_keeps:
  assumes "keeps_plan s c task" and "hedgePlan c after mx = Inr tp" and "checkHedgeMax mx = Inr ()"
  shows "keeps_plan s tp (hedge abort_first task after mx)"
proof -
  obtain u where u: "upperBoundMs c = Fin u" "bounded_by s u task" using assms(1) by (auto simp: keeps_plan_def)
  obtain n where n: "mx = Fin (of_nat n)" "1 \<le> n" using assms(3) by (auto simp: checkHedgeMax_ok valid_hedge_def)
  obtain a where a: "parseDuration after = Inr a" "upperBoundMs tp = upperBoundMs c + Fin a * (mx - Fin 1)"
    using assms(2) by (auto simp: hedgePlan_def res_simps Let_def)
  have "of_nat (n - 1) = (of_nat n - 1 :: rat)" using n(2) by (simp add: of_nat_diff)
  with hedge_bounded [OF u(2) a(1) n(2)] show ?thesis
    by (simp add: keeps_plan_def a(2) u(1) n(1) mult.commute add.commute)
qed

lemma timeout_keeps:
  assumes "keeps_plan s c task" and "timeoutPlan c d types = Inr tp" and "timeout timer_first task d = Inr wrapped"
  shows "keeps_plan s tp wrapped"
proof -
  obtain u where u: "upperBoundMs c = Fin u" "bounded_by s u task" using assms(1) by (auto simp: keeps_plan_def)
  obtain ms where ms: "parseDuration d = Inr ms" using assms(3) by (auto simp: timeout_def res_simps)
  have "upperBoundMs tp = Fin (min u ms)"
    using assms(2) ms u(1) by (auto simp: timeoutPlan_def Let_def split: if_splits)
  with timeout_bounded [OF assms(3) ms u(2)] show ?thesis by (simp add: keeps_plan_def)
qed

lemma deadline_keeps:
  assumes "keeps_plan s c task" and "or_default planned clock = Fin n" and "n \<le> s"
  shows "keeps_plan s (deadlinePlan clock c (Fin dl) planned) (deadline_task timer_first task dl)"
proof -
  obtain u where u: "upperBoundMs c = Fin u" "bounded_by s u task" using assms(1) by (auto simp: keeps_plan_def)
  have ub: "upperBoundMs (deadlinePlan clock c (Fin dl) planned) = Fin (min u (max 0 (dl - n)))"
    using assms(2) u(1) by (auto simp: deadlinePlan_def Let_def min_def)
  have "bounded_by s (min u (max 0 (dl - n))) (deadline_task timer_first task dl)"
    unfolding bounded_by_def
  proof (intro allI impI)
    fix ctx :: ctx and now
    assume "s \<le> now"
    then have "max 0 (dl - now) \<le> max 0 (dl - n)" using assms(3) by simp
    with deadline_bounded [OF u(2) \<open>s \<le> now\<close>, of timer_first dl ctx]
    show "\<exists>t r. fst (deadline_task timer_first task dl ctx now) = Some (t, r) \<and> now \<le> t \<and> t \<le> now + min u (max 0 (dl - n))"
      by (fastforce simp: min_le_iff_disj)
  qed
  with ub show ?thesis by (simp add: keeps_plan_def)
qed

section \<open>The plan bounds the run\<close>

lemma implements_plan: "implements clock s p task \<Longrightarrow> plan clock p k = Inr tp \<Longrightarrow> keeps_plan s tp task"
proof (induction arbitrary: k tp rule: implements.induct)
  case (impl_attempt d ms task label)
  then show ?case by (auto simp: leafPlan_def keeps_plan_def split: if_splits)
next
  case (impl_series ps tasks)
  show ?case
  proof (cases "ps = []")
    case True
    then show ?thesis using impl_series empty_keeps(1) array_task_bounded
      by (fastforce simp: keeps_plan_def split: if_splits)
  next
    case False
    then obtain cs where cs: "list_all2 (\<lambda>p c. plan clock p (k + 1) = Inr c) ps cs" "tp = combineSeries cs"
      using impl_series.prems by (auto simp: res_simps split: if_splits)
    have "list_all2 (keeps_plan s) cs tasks"
      using impl_series.IH cs(1) by (auto simp: list_all2_conv_all_nth)
    from series_keeps [OF this] show ?thesis using array_task_bounded by (auto simp: cs(2) keeps_plan_def)
  qed
next
  case (impl_parallel ps tasks first_id)
  show ?case
  proof (cases "ps = []")
    case True
    then show ?thesis using impl_parallel empty_keeps(2) array_task_bounded
      by (fastforce simp: keeps_plan_def split: if_splits)
  next
    case False
    then obtain cs where cs: "list_all2 (\<lambda>p c. plan clock p (k + 1) = Inr c) ps cs" "tp = combineParallel cs"
      using impl_parallel.prems by (auto simp: res_simps split: if_splits)
    have "list_all2 (keeps_plan s) cs tasks"
      using impl_parallel.IH cs(1) by (auto simp: list_all2_conv_all_nth)
    moreover have "cs \<noteq> []" using cs(1) False by auto
    ultimately have "keeps_plan s tp (run_all first_id tasks)" unfolding cs(2) by (rule parallel_keeps)
    then show ?thesis using array_task_bounded by (auto simp: keeps_plan_def)
  qed
next
  case (impl_retry p task opts charge rnd wrapped)
  then show ?case by (auto simp: res_simps(1) split: if_splits intro: retry_keeps)
next
  case (impl_hedge p task after mx abort_first)
  then show ?case by (auto simp: res_simps(1) split: if_splits intro: hedge_keeps)
next
  case (impl_timeout p task timer_first d wrapped)
  then show ?case by (auto simp: res_simps(1) split: if_splits intro: timeout_keeps)
next
  case (impl_deadline p task planned n dl timer_first)
  then show ?case by (auto simp: res_simps(1) split: if_splits intro: deadline_keeps)
qed

text \<open>
  C14: The planner's upper bound is a bound of the run: a task composed as the policy says, by series,
  all, retry, hedge, timeout and deadline from attempts that keep their declared durations, settles
  no later than the planned upper bound after its start, under any signal, whatever the
  attempts answer and whatever random delays are drawn.
\<close>

theorem plan_bounds_run:
  assumes "planTimePolicy clock policy snapshots = Inr tp" and "implements clock s policy task" and "s \<le> now"
  shows "\<exists>t r u. fst (task ctx now) = Some (t, r) \<and> now \<le> t \<and> upperBoundMs tp = Fin u \<and> t \<le> now + u"
proof -
  obtain base where base: "plan clock policy 0 = Inr base" "upperBoundMs tp = upperBoundMs base"
    using assms(1) by (auto simp: planTimePolicy_def applyRetryBudgetPlan_def res_simps Let_def split: if_splits)
  from implements_plan [OF assms(2) base(1)] assms(3) show ?thesis
    by (fastforce simp: keeps_plan_def bounded_by_def base(2))
qed

text \<open>A retry of a failing attempt of 50 ms under a timeout of 120 ms.\<close>

definition failing_attempt :: "jsval task" where
  "failing_attempt ctx now = (Some (now + 50, Inl (PlainError ''down'')), [])"

lemma plan_bounds_run_witness:
  "\<exists>wrapped limited t r. retry failing_attempt (RTimes (Fin 2)) (\<lambda>_. None) (\<lambda>_. 0) = Inr wrapped \<and>
     timeout True wrapped (DNum (Fin 120)) = Inr limited \<and> fst (limited root_ctx 0) = Some (t, r) \<and> t \<le> 120"
proof -
  let ?p = "Timeout (DNum (Fin 120)) (RetryP (Attempt (DNum (Fin 50)) None) (RTimes (Fin 2)))"
  have d: "parseDuration (DNum (Fin 50)) = Inr 50" by (simp add: MAX_TIMEOUT_MS_def)
  have "bounded_by 0 50 failing_attempt" by (simp add: bounded_by_def failing_attempt_def)
  then have a: "implements (Fin 0) 0 (Attempt (DNum (Fin 50)) None) failing_attempt" using d by (intro impl_attempt)
  obtain pol where "normalizeRetry (RTimes (Fin 2)) = Inr pol"
    using normalizeRetry_error [of "RTimes (Fin 2)"]
    by (cases "normalizeRetry (RTimes (Fin 2))")
      (auto simp: normalizeRetry_def validateRetryPolicy_def Let_def MAX_RETRY_ATTEMPTS_def split: if_splits)
  then obtain wrapped where w: "retry failing_attempt (RTimes (Fin 2)) (\<lambda>_. None) (\<lambda>_. 0) = Inr wrapped"
    by (auto simp: retry_def)
  obtain limited where l: "timeout True wrapped (DNum (Fin 120)) = Inr limited"
    by (auto simp: timeout_def MAX_TIMEOUT_MS_def)
  have i: "implements (Fin 0) 0 ?p limited"
    by (rule impl_timeout [OF impl_retry [OF a w] l]) simp
  have "map_sum id upperBoundMs (planTimePolicy (Fin 0) ?p []) = Inr (Fin 120)"
    by (simp add: planTimePolicy_def applyRetryBudgetPlan_def retryPlan_def timeoutPlan_def leafPlan_def normalizeRetry_def
      validateRetryPolicy_def estimateRetryDelay_def MAX_RETRY_ATTEMPTS_def MAX_POLICY_DEPTH_def MAX_TIMEOUT_MS_def Let_def
      upt_rec num_simps)
  then obtain tp where tp: "planTimePolicy (Fin 0) ?p [] = Inr tp" "upperBoundMs tp = Fin 120"
    by (auto simp: map_sum_Inr)
  from plan_bounds_run [OF tp(1) i, of 0 root_ctx] tp(2) w l show ?thesis by auto
qed

end
