(* ===== verification/Candidates.thy ===== *)
theory Candidates
  imports Replay Run_Groups
begin

text \<open>
  Candidate selection, \<open>packages/core/src/candidates\<close>: \<open>firstAcceptable\<close> tries candidates in order,
  each under the retry policy, classifies failures, and returns the first accepted value with the
  evidence of all attempts.

  Tasks are those of \<open>Run_Tasks\<close>. What an attempt pushes to the two evidence buffers is part of its
  log: \<open>EvDecided\<close> a decision, \<open>EvRecorded\<close> an attempt; such entries of the caller's own tasks belong to
  other selections and are left out. The log of an attempt that lost against the deadline ends there,
  because the selection then ends; what it pushes at that very instant comes before what the
  deadline pushes, as in the order of the promise jobs. Times are those of \<open>Run_Tasks\<close>, also for the
  recorder's clock.
\<close>

section \<open>Classification of failures\<close>

record candidate_decision =
  cd_disposition :: string
  cd_reasonCode :: string

definition ACTION_DISPOSITIONS :: "string list" where
  "ACTION_DISPOSITIONS = [''retry_same_candidate'', ''try_next_candidate'', ''terminal'', ''requires_user_input'']"

definition classifyWorkItFailure :: "err \<Rightarrow> candidate_decision option" where
  "classifyWorkItFailure e =
     (if is_budget_exceeded e then Some \<lparr>cd_disposition = ''terminal'', cd_reasonCode = ''workit_budget_exhausted''\<rparr>
      else if is_timeout e then Some \<lparr>cd_disposition = ''terminal'', cd_reasonCode = ''workit_timeout''\<rparr>
      else if is_cancellation e then Some \<lparr>cd_disposition = ''cancelled'', cd_reasonCode = ''workit_cancelled''\<rparr>
      else None)"

definition assertReasonCode :: "jsval \<Rightarrow> err + string" where
  "assertReasonCode v =
     (case v of
        VStr s \<Rightarrow> if matches_reason_code s then Inr s else Inl (RangeError ''reasonCode must match'')
      | _ \<Rightarrow> Inl (RangeError ''reasonCode must match''))"

fun isRecord :: "jsval \<Rightarrow> bool" where
  "isRecord (VObj _) = True"
| "isRecord (VArr _) = True"
| "isRecord (VErr _ _) = True"
| "isRecord (VDate _) = True"
| "isRecord _ = False"

text \<open>\<open>None\<close> accepts, \<open>Some code\<close> rejects with a reason.\<close>

definition normalizeAcceptanceDecision :: "jsval \<Rightarrow> err + string option" where
  "normalizeAcceptanceDecision v =
     (if \<not> isRecord v then Inl (TypeError ''accept must return an AcceptanceDecision'')
      else bind_res (get_prop ''accepted'' v) (\<lambda>accepted.
        case accepted of
          VBool True \<Rightarrow> Inr None
        | VBool False \<Rightarrow> bind_res (get_prop ''reasonCode'' v) (\<lambda>code. map_sum id Some (assertReasonCode code))
        | _ \<Rightarrow> Inl (TypeError ''accept must return an AcceptanceDecision'')))"

definition normalizeActionDecision :: "jsval \<Rightarrow> err + candidate_decision" where
  "normalizeActionDecision v =
     (if \<not> isRecord v then Inl (TypeError ''classifyFailure returned an invalid disposition'')
      else bind_res (get_prop ''disposition'' v) (\<lambda>disposition.
        case disposition of
          VStr d \<Rightarrow>
            if d \<in> set ACTION_DISPOSITIONS
            then bind_res (get_prop ''reasonCode'' v) (\<lambda>code.
                   map_sum id (\<lambda>c. \<lparr>cd_disposition = d, cd_reasonCode = c\<rparr>) (assertReasonCode code))
            else Inl (TypeError ''classifyFailure returned an invalid disposition'')
        | _ \<Rightarrow> Inl (TypeError ''classifyFailure returned an invalid disposition'')))"

section \<open>One attempt\<close>

record ('c, 't) candidate_policy =
  cp_execute :: "'c \<Rightarrow> 't task"
  cp_accept :: "'t \<Rightarrow> 'c \<Rightarrow> jsval task"
  cp_classifyFailure :: "jsval \<Rightarrow> 'c \<Rightarrow> jsval task"
  cp_retry :: retry_opts
  cp_deadlineAt :: "rat option"
  cp_metadata :: "('c \<Rightarrow> nat \<Rightarrow> err + jsval) option"

text \<open>The entries of the evidence buffers, and the log of the caller's code without them.\<close>

fun evidence_entry :: "rat \<times> run_event \<Rightarrow> bool" where
  "evidence_entry (_, EvDecided _ _ _) = True"
| "evidence_entry (_, EvRecorded _ _ _ _) = True"
| "evidence_entry _ = False"

definition caller_task :: "'v task \<Rightarrow> 'v task" where
  "caller_task task ctx now = (let (res, lg) = task ctx now in (res, filter (\<lambda>x. \<not> evidence_entry x) lg))"

text \<open>What an error is to \<open>classifyFailure\<close>: the value thrown.\<close>

definition callback_error :: "err \<Rightarrow> err" where
  "callback_error e = (if classifyWorkItFailure e \<noteq> None then e else CandidateCallbackError e)"

definition classifyCandidateError :: "('c, 't) candidate_policy \<Rightarrow> 'c \<Rightarrow> err \<Rightarrow> candidate_decision task" where
  "classifyCandidateError p c e ctx now =
     (case classifyWorkItFailure e of
        Some d \<Rightarrow> (Some (now, if cd_disposition d = ''cancelled'' then Inl e else Inr d), [])
      | None \<Rightarrow>
          (case caller_task (cp_classifyFailure p (thrown_value e) c) ctx now of
             (None, lg) \<Rightarrow> (None, lg)
           | (Some (t, r), lg) \<Rightarrow>
               (Some (t, case bind_res r normalizeActionDecision of Inl x \<Rightarrow> Inl (callback_error x) | Inr d \<Rightarrow> Inr d), lg)))"

definition throw_classified :: "('c, 't) candidate_policy \<Rightarrow> 'c \<Rightarrow> nat \<Rightarrow> err \<Rightarrow> 'v task" where
  "throw_classified p c i e ctx now =
     (case classifyCandidateError p c e ctx now of
        (None, lg) \<Rightarrow> (None, lg)
      | (Some (t, Inl x), lg) \<Rightarrow> (Some (t, Inl x), lg)
      | (Some (t, Inr d), lg) \<Rightarrow>
          (Some (t, Inl (ClassifiedCandidateError e (cd_disposition d) (cd_reasonCode d))),
           lg @ [(t, EvDecided i (cd_disposition d) (Some (cd_reasonCode d)))]))"

text \<open>The result of an attempt: the accepted value, or \<open>None\<close> for one of insufficient quality.\<close>

definition createAttemptTask :: "('c, 't) candidate_policy \<Rightarrow> 'c \<Rightarrow> nat \<Rightarrow> 't option task" where
  "createAttemptTask p c i ctx now =
     (case caller_task (cp_execute p c) ctx now of
        (None, lg) \<Rightarrow> (None, lg)
      | (Some (t, Inl e), lg) \<Rightarrow> (let (res, log2) = throw_classified p c i e ctx t in (res, lg @ log2))
      | (Some (t, Inr v), lg) \<Rightarrow>
          (case caller_task (cp_accept p v c) ctx t of
             (None, log2) \<Rightarrow> (None, lg @ log2)
           | (Some (u, r), log2) \<Rightarrow>
               (case bind_res r normalizeAcceptanceDecision of
                  Inr None \<Rightarrow> (Some (u, Inr (Some v)), lg @ log2 @ [(u, EvDecided i ''accepted'' None)])
                | Inr (Some code) \<Rightarrow> (Some (u, Inr None), lg @ log2 @ [(u, EvDecided i ''quality_rejected'' (Some code))])
                | Inl e \<Rightarrow> (Some (u, Inl (callback_error e)), lg @ log2))))"

definition bounded_attempt :: "bool \<Rightarrow> ('c, 't) candidate_policy \<Rightarrow> 'v task \<Rightarrow> 'v task" where
  "bounded_attempt timer_first p task ctx now =
     (case cp_deadlineAt p of
        None \<Rightarrow> task ctx now
      | Some d \<Rightarrow>
          (let (res, lg) = deadline_task timer_first task d ctx now
           in (res, filter (\<lambda>(t, _). case res of Some (u, _) \<Rightarrow> t \<le> u | None \<Rightarrow> True) lg)))"

fun classified_or_callback :: "err \<Rightarrow> bool" where
  "classified_or_callback (ClassifiedCandidateError _ _ _) = True"
| "classified_or_callback (CandidateCallbackError _) = True"
| "classified_or_callback _ = False"

definition classifyDeadlineFailure :: "('c, 't) candidate_policy \<Rightarrow> 'c \<Rightarrow> nat \<Rightarrow> 'v task \<Rightarrow> 'v task" where
  "classifyDeadlineFailure p c i task ctx now =
     (case task ctx now of
        (Some (t, Inl e), lg) \<Rightarrow>
          if classified_or_callback e then (Some (t, Inl e), lg)
          else (let (res, log2) = throw_classified p c i e ctx t in (res, lg @ log2))
      | (res, lg) \<Rightarrow> (res, lg))"

text \<open>\<open>recorder.wrap\<close>: the attempt is recorded when it settles.\<close>

definition recorded :: "nat \<Rightarrow> 'v task \<Rightarrow> 'v task" where
  "recorded i task ctx now =
     (case task ctx now of
        (None, lg) \<Rightarrow> (None, lg)
      | (Some (t, r), lg) \<Rightarrow>
          (Some (t, r), lg @ [(t, EvRecorded i (cx_attempt ctx) now (case r of Inl e \<Rightarrow> Some e | Inr _ \<Rightarrow> None))]))"

fun retry_same :: "err \<Rightarrow> bool" where
  "retry_same (ClassifiedCandidateError _ d _) \<longleftrightarrow> d = ''retry_same_candidate''"
| "retry_same _ \<longleftrightarrow> False"

definition withClassifierRetry :: "retry_opts \<Rightarrow> retry_opts" where
  "withClassifierRetry r = r\<lparr>ro_retryIf := Some (\<lambda>e _. retry_same e)\<rparr>"

section \<open>One candidate\<close>

text \<open>
  What a selection takes from its surroundings: whether a timer or a settlement of the same instant
  comes first, the charges of the retry budget and the random numbers for each candidate, the task
  identifiers, the text of a value that is no error, and the size of a JSON text.
\<close>

record surroundings =
  su_timer_first :: bool
  su_charge :: "nat \<Rightarrow> nat \<Rightarrow> err option"
  su_random :: "nat \<Rightarrow> nat \<Rightarrow> rat"
  su_task_id :: "nat \<Rightarrow> task_id"
  su_show :: "jsval \<Rightarrow> string"
  su_bytes :: "json \<Rightarrow> nat"

definition candidate_metadata :: "('c, 't) candidate_policy \<Rightarrow> 'c \<Rightarrow> nat \<Rightarrow> err + jsval" where
  "candidate_metadata p c i =
     bind_res (case cp_metadata p of None \<Rightarrow> Inr VUndef | Some f \<Rightarrow> f c i) (\<lambda>m.
       map_sum id (\<lambda>ps. VObj (AList.update ''candidateIndex'' (count_val i) ps))
         (case m of
            VUndef \<Rightarrow> Inr []
          | VObj ps \<Rightarrow> Inr ps
          | VErr _ _ \<Rightarrow> Inr []
          | VDate _ \<Rightarrow> Inr []
          | _ \<Rightarrow> Inl (TypeError ''candidateMetadata must return an object when defined'')))"

definition candidate_attempt :: "bool \<Rightarrow> ('c, 't) candidate_policy \<Rightarrow> 'c \<Rightarrow> nat \<Rightarrow> 't option task" where
  "candidate_attempt timer_first p c i =
     recorded i (classifyDeadlineFailure p c i (bounded_attempt timer_first p (createAttemptTask p c i)))"

definition buildCandidateTask :: "surroundings \<Rightarrow> nat \<Rightarrow> ('c, 't) candidate_policy \<Rightarrow> 'c \<Rightarrow> nat \<Rightarrow>
    err + jsval option \<times> 't option task" where
  "buildCandidateTask su maxBytes p c i =
     bind_res (candidate_metadata p c i) (\<lambda>m.
     bind_res (normalizeAttemptMetadata (su_bytes su) (Some m) maxBytes) (\<lambda>metadata.
     bind_res (retry (candidate_attempt (su_timer_first su) p c i) (ROpts (withClassifierRetry (cp_retry p)))
         (su_charge su i) (su_random su i)) (\<lambda>task.
       Inr (metadata, task))))"

section \<open>Evidence\<close>

record decision_record =
  dr_candidateIndex :: nat
  dr_decision :: string
  dr_reasonCode :: "string option"

record evidence_buffers =
  eb_recorder :: attempt_recorder
  eb_decisions :: "decision_record list"

definition recordDecision :: "decision_record \<Rightarrow> evidence_buffers \<Rightarrow> evidence_buffers" where
  "recordDecision d b =
     (if length (eb_decisions b) < ar_max (eb_recorder b) then b\<lparr>eb_decisions := eb_decisions b @ [d]\<rparr> else b)"

fun classified_reason :: "err \<Rightarrow> string option" where
  "classified_reason (ClassifiedCandidateError _ _ code) = Some code"
| "classified_reason _ = None"

fun push_entry :: "surroundings \<Rightarrow> jsval option \<Rightarrow> rat \<times> run_event \<Rightarrow> evidence_buffers \<Rightarrow> evidence_buffers" where
  "push_entry su metadata (t, EvDecided i d code) b =
     recordDecision \<lparr>dr_candidateIndex = i, dr_decision = d, dr_reasonCode = code\<rparr> b"
| "push_entry su metadata (t, EvRecorded i attempt startedAt e) b =
     b\<lparr>eb_recorder := record_attempt (su_show su) (Some classified_reason) metadata (su_task_id su i) attempt startedAt t e
         (eb_recorder b)\<rparr>"
| "push_entry su metadata _ b = b"

record candidate_evidence = attempt_evidence +
  ce_candidateIndex :: nat
  ce_decision :: string

definition boundError :: "receipt_error \<Rightarrow> receipt_error" where
  "boundError e = \<lparr>er_name = take 128 (er_name e), er_message = take 1024 (er_message e)\<rparr>"

definition evidence_of :: "attempt_evidence \<Rightarrow> decision_record \<Rightarrow> candidate_evidence" where
  "evidence_of a d =
     attempt_evidence.extend
       (a\<lparr>ae_reasonCode := (case dr_reasonCode d of None \<Rightarrow> ae_reasonCode a | Some c \<Rightarrow> Some c),
          ae_error := map_option boundError (ae_error a)\<rparr>)
       \<lparr>ce_candidateIndex = dr_candidateIndex d, ce_decision = dr_decision d\<rparr>"

definition mapCandidateEvidence :: "attempt_evidence list \<Rightarrow> decision_record list \<Rightarrow> err + candidate_evidence list" where
  "mapCandidateEvidence attempts decisions =
     map_res (\<lambda>(index, a). if index < length decisions then Inr (evidence_of a (decisions ! index))
        else Inl (TypeError ''Cannot read properties of undefined'')) (enumerate 0 attempts)"

definition readEvidence :: "evidence_buffers \<Rightarrow> err + candidate_evidence list \<times> nat" where
  "readEvidence b =
     map_sum id (\<lambda>ev. (ev, ar_dropped (eb_recorder b))) (mapCandidateEvidence (ar_attempts (eb_recorder b)) (eb_decisions b))"

section \<open>The selection\<close>

datatype ('c, 't) candidate_status =
    CandidateAccepted 'c nat 't
  | CandidatesExhausted
  | CandidateTerminal string err
  | CandidateNeedsInput string

record ('c, 't) candidate_result =
  cr_status :: "('c, 't) candidate_status"
  cr_evidence :: "candidate_evidence list"
  cr_dropped :: nat

definition with_evidence :: "('c, 't) candidate_status \<Rightarrow> evidence_buffers \<Rightarrow> err + ('c, 't) candidate_result" where
  "with_evidence st b =
     map_sum id (\<lambda>(ev, dropped). \<lparr>cr_status = st, cr_evidence = ev, cr_dropped = dropped\<rparr>) (readEvidence b)"

text \<open>\<open>resultFromFailure\<close>: \<open>None\<close> lets the selection go on.\<close>

definition resultFromFailure :: "err \<Rightarrow> string \<Rightarrow> string \<Rightarrow> evidence_buffers \<Rightarrow> err + ('c, 't) candidate_result option" where
  "resultFromFailure original disposition code b =
     (if disposition = ''terminal'' then map_sum id Some (with_evidence (CandidateTerminal code original) b)
      else if disposition = ''requires_user_input'' then map_sum id Some (with_evidence (CandidateNeedsInput code) b)
      else map_sum id (\<lambda>_. None) (readEvidence b))"

fun unwrapCallbackError :: "err \<Rightarrow> err" where
  "unwrapCallbackError (CandidateCallbackError e) = e"
| "unwrapCallbackError e = e"

text \<open>\<open>run.group\<close> with one child: the child runs under the signal of the scope and settles the group.\<close>

primrec candidate_loop :: "'c list \<Rightarrow> surroundings \<Rightarrow> nat \<Rightarrow> ('c, 't) candidate_policy \<Rightarrow> nat \<Rightarrow> evidence_buffers \<Rightarrow> ctx \<Rightarrow> rat \<Rightarrow>
    ('c, 't) candidate_result outcome" where
  "candidate_loop [] su maxBytes p i b ctx now = Some (now, with_evidence CandidatesExhausted b)"
| "candidate_loop (c # cs) su maxBytes p i b ctx now =
     (case buildCandidateTask su maxBytes p c i of
        Inl e \<Rightarrow> Some (now, Inl e)
      | Inr (metadata, task) \<Rightarrow>
          (case task (child_ctx None None ctx) now of
             (None, lg) \<Rightarrow> None
           | (Some (t, r), lg) \<Rightarrow>
               let b' = fold (push_entry su metadata) lg b
               in case r of
                    Inr (Some v) \<Rightarrow> Some (t, with_evidence (CandidateAccepted c i v) b')
                  | Inr None \<Rightarrow> candidate_loop cs su maxBytes p (i + 1) b' ctx t
                  | Inl (ClassifiedCandidateError original d code) \<Rightarrow>
                      (case resultFromFailure original d code b' of
                         Inl e \<Rightarrow> Some (t, Inl e)
                       | Inr (Some result) \<Rightarrow> Some (t, Inr result)
                       | Inr None \<Rightarrow> candidate_loop cs su maxBytes p (i + 1) b' ctx t)
                  | Inl e \<Rightarrow> Some (t, Inl (unwrapCallbackError e))))"

section \<open>Options\<close>

record ('c, 't) selection_opts =
  so_execute :: "'c \<Rightarrow> 't task"
  so_accept :: "'t \<Rightarrow> 'c \<Rightarrow> jsval task"
  so_classifyFailure :: "jsval \<Rightarrow> 'c \<Rightarrow> jsval task"
  so_retry :: "retry_arg option"
  so_maxCandidates :: "jsnum option"
  so_deadlineAt :: "jsnum option"
  so_maxAttempts :: "jsnum option"
  so_maxMetadataBytes :: "jsnum option"
  so_metadata :: "('c \<Rightarrow> nat \<Rightarrow> err + jsval) option"

definition snapshotRetryPolicy :: "retry_arg option \<Rightarrow> err + retry_opts" where
  "snapshotRetryPolicy value =
     (let arg = or_default value (RTimes (Fin 1))
      in if (case arg of ROpts r \<Rightarrow> ro_retryIf r \<noteq> None | RTimes _ \<Rightarrow> False)
         then Inl (TypeError ''candidate retry policy must not define retryIf'')
         else bind_res (validateRetryPolicy arg) (\<lambda>_. Inr (arg_opts arg)))"

definition normalizeDeadline :: "jsnum option \<Rightarrow> err + rat option" where
  "normalizeDeadline value =
     (case value of
        None \<Rightarrow> Inr None
      | Some (Fin q) \<Rightarrow> Inr (Some q)
      | Some _ \<Rightarrow> Inl (RangeError ''deadlineAt must be a finite timestamp or valid Date''))"

definition normalizeCandidatePolicy :: "'c list \<Rightarrow> ('c, 't) selection_opts \<Rightarrow> err + ('c, 't) candidate_policy" where
  "normalizeCandidatePolicy candidates opts =
     (let maxCandidates = or_default (so_maxCandidates opts) (Fin 16)
      in if \<not> is_integer maxCandidates \<or> maxCandidates < Fin 1 \<or> Fin 1000 < maxCandidates
         then Inl (RangeError ''maxCandidates must be an integer between 1 and 1000'')
         else if maxCandidates < Fin (of_nat (length candidates))
         then Inl (RangeError ''candidates length exceeds maxCandidates'')
         else bind_res (snapshotRetryPolicy (so_retry opts)) (\<lambda>retry.
           if Fin 10000 < Fin (of_nat (length candidates)) * ro_times retry
           then Inl (RangeError ''total candidate attempts must not exceed 10000'')
           else bind_res (normalizeDeadline (so_deadlineAt opts)) (\<lambda>deadlineAt.
             Inr \<lparr>cp_execute = so_execute opts, cp_accept = so_accept opts, cp_classifyFailure = so_classifyFailure opts,
                  cp_retry = retry, cp_deadlineAt = deadlineAt, cp_metadata = so_metadata opts\<rparr>)))"

definition firstAcceptable :: "surroundings \<Rightarrow> 'c list \<Rightarrow> ('c, 't) selection_opts \<Rightarrow> ctx \<Rightarrow> rat \<Rightarrow> ('c, 't) candidate_result outcome" where
  "firstAcceptable su candidates opts ctx now =
     (case bind_res (normalizeCandidatePolicy candidates opts) (\<lambda>p.
             map_sum id (Pair p) (createAttemptRecorder (Some (or_default (so_maxAttempts opts) (Fin 256))) (so_maxMetadataBytes opts))) of
        Inl e \<Rightarrow> Some (now, Inl e)
      | Inr (p, r) \<Rightarrow>
          candidate_loop candidates su (ar_maxBytes r) p 0 \<lparr>eb_recorder = r, eb_decisions = []\<rparr> ctx now)"

end
