(* ===== verification/Candidates_Props.thy ===== *)
theory Candidates_Props
  imports Candidates
begin

text \<open>
  What the evidence of a candidate selection tells (\<open>Candidates\<close>). \<open>search_trace\<close> says which sequences
  of decisions a selection with a given number of attempts per candidate can take; the main theorem
  says that the evidence of a selection without a deadline is such a sequence for its result,
  cut at the evidence bound, each decision attached to the attempt it was taken on.
\<close>

section \<open>The decisions of one attempt\<close>

fun is_classified :: "err \<Rightarrow> bool" where
  "is_classified (ClassifiedCandidateError _ _ _) = True"
| "is_classified _ = False"

type_synonym verdict = "string \<times> string option"

text \<open>The verdict that goes with the outcome of an attempt.\<close>

fun decides :: "verdict \<Rightarrow> err + 'v option \<Rightarrow> bool" where
  "decides (d, code) (Inr (Some v)) \<longleftrightarrow> d = ''accepted'' \<and> code = None"
| "decides (d, code) (Inr None) \<longleftrightarrow> d = ''quality_rejected'' \<and> code \<noteq> None"
| "decides (d, code) (Inl (ClassifiedCandidateError e d' c)) \<longleftrightarrow>
     d = d' \<and> d \<in> set ACTION_DISPOSITIONS \<and> code = Some c \<and> matches_reason_code c"
| "decides _ _ \<longleftrightarrow> False"

definition error_of :: "err + 'v \<Rightarrow> err option" where
  "error_of r = (case r of Inl e \<Rightarrow> Some e | Inr _ \<Rightarrow> None)"

abbreviation entries :: "run_log \<Rightarrow> run_log" where
  "entries lg \<equiv> filter evidence_entry lg"

lemma matches_builtin: "matches_reason_code ''workit_budget_exhausted''" "matches_reason_code ''workit_timeout''"
  by (simp_all add: matches_reason_code_def lower_letter_def reason_code_char_def Let_def)

lemma builtin_decision:
  assumes "classifyWorkItFailure e = Some d"
  shows "\<not> is_classified e \<and> (cd_disposition d = ''cancelled'' \<or>
    cd_disposition d \<in> set ACTION_DISPOSITIONS \<and> matches_reason_code (cd_reasonCode d))"
  using assms
  by (cases e) (auto simp: classifyWorkItFailure_def ACTION_DISPOSITIONS_def matches_builtin split: if_splits)

lemma assertReasonCode_ok: "assertReasonCode v = Inr c \<Longrightarrow> matches_reason_code c"
  by (cases v) (auto simp: assertReasonCode_def split: if_splits)

lemma normalizeActionDecision_ok:
  assumes "normalizeActionDecision v = Inr d"
  shows "cd_disposition d \<in> set ACTION_DISPOSITIONS \<and> matches_reason_code (cd_reasonCode d)"
proof -
  obtain disp where "get_prop ''disposition'' v = Inr disp"
    using assms by (auto simp: normalizeActionDecision_def res_simps split: if_splits)
  with assms show ?thesis
    by (cases disp) (auto simp: normalizeActionDecision_def res_simps map_sum_Inr assertReasonCode_ok split: if_splits)
qed

lemma callback_error_unclassified: "\<not> is_classified (callback_error e)"
  by (cases e) (simp_all add: callback_error_def classifyWorkItFailure_def)

lemma entries_caller [simp]: "caller_task task ctx now = (res, lg) \<Longrightarrow> entries lg = []"
  by (auto simp: caller_task_def split: prod.splits)

text \<open>A classified failure pushes its decision; an error that is thrown on pushes none.\<close>

lemma throw_classified_entries:
  assumes "throw_classified p c i e ctx now = (Some (t, r), lg)"
  shows "(\<exists>d code. entries lg = [(t, EvDecided i d (Some code))] \<and> r = Inl (ClassifiedCandidateError e d code) \<and>
      d \<in> set ACTION_DISPOSITIONS \<and> matches_reason_code code) \<or>
    (\<exists>x. entries lg = [] \<and> r = Inl x \<and> \<not> is_classified x)"
proof (cases "classifyWorkItFailure e")
  case (Some d)
  then show ?thesis
    using assms builtin_decision [OF Some]
    by (auto simp: throw_classified_def classifyCandidateError_def split: if_splits)
next
  case None
  obtain res lg' where task: "caller_task (cp_classifyFailure p (thrown_value e) c) ctx now = (res, lg')" by fastforce
  show ?thesis
  proof (cases res)
    case None
    then show ?thesis
      using assms \<open>classifyWorkItFailure e = None\<close> by (simp add: throw_classified_def classifyCandidateError_def task)
  next
    case (Some tr)
    then show ?thesis
      using assms \<open>classifyWorkItFailure e = None\<close> entries_caller [OF task]
      by (cases tr; cases "bind_res (snd tr) normalizeActionDecision")
        (fastforce simp: throw_classified_def classifyCandidateError_def task res_simps(1) callback_error_unclassified
          dest: normalizeActionDecision_ok)+
  qed
qed

lemma throw_builtin_entries:
  assumes "throw_classified p c i e ctx now = (Some (t, r), lg)" and "classifyWorkItFailure e \<noteq> None"
  shows "(\<exists>d code. entries lg = [(t, EvDecided i d (Some code))] \<and> decides (d, Some code) r) \<or>
    (\<exists>x. entries lg = [] \<and> r = Inl x \<and> \<not> is_classified x)"
  using throw_classified_entries [OF assms(1)] by auto

definition attempt_entries :: "nat \<Rightarrow> err + 'v option \<Rightarrow> run_log \<Rightarrow> bool" where
  "attempt_entries i r es \<longleftrightarrow>
     (\<exists>u d code. es = [(u, EvDecided i d code)] \<and> decides (d, code) r) \<or>
     (\<exists>x. es = [] \<and> r = Inl x \<and> \<not> is_classified x)"

lemma attempt_entries_classified:
  "throw_classified p c i e ctx now = (Some (t, r), lg) \<Longrightarrow> attempt_entries i r (entries lg)"
  using throw_classified_entries [of p c i e ctx now t r lg] by (fastforce simp: attempt_entries_def)

lemma createAttemptTask_entries:
  fixes p :: "('c, 't) candidate_policy"
  assumes "createAttemptTask p c i ctx now = (Some (t, r), lg)"
  shows "attempt_entries i r (entries lg)"
proof -
  obtain res lg1 where ex: "caller_task (cp_execute p c) ctx now = (res, lg1)" by fastforce
  from assms obtain t1 r1 where res: "res = Some (t1, r1)"
    by (cases res) (auto simp: createAttemptTask_def ex)
  show ?thesis
  proof (cases r1)
    case (Inl e)
    obtain res2 lg2 where th: "throw_classified p c i e ctx t1 = (res2 :: 't option outcome, lg2)" by fastforce
    show ?thesis
      using assms attempt_entries_classified [of p c i e ctx t1 t r lg2] entries_caller [OF ex] th
      by (auto simp: createAttemptTask_def ex res Inl)
  next
    case (Inr v)
    obtain res2 lg2 where ac: "caller_task (cp_accept p v c) ctx t1 = (res2, lg2)" by fastforce
    from assms obtain u r2 where res2: "res2 = Some (u, r2)"
      by (cases res2) (auto simp: createAttemptTask_def ex res Inr ac)
    show ?thesis
      using assms entries_caller [OF ex] entries_caller [OF ac] callback_error_unclassified
      by (auto simp: createAttemptTask_def ex res Inr ac res2 attempt_entries_def split: sum.splits option.splits)
  qed
qed

lemma unclassified_attempt:
  assumes "attempt_entries i (Inl e) es" and "\<not> classified_or_callback e"
  shows "es = []"
  using assms by (cases e) (auto simp: attempt_entries_def)

lemma candidate_attempt_entries:
  fixes p :: "('c, 't) candidate_policy"
  assumes "candidate_attempt tf p c i ctx now = (Some (t, r), lg)" and "cp_deadlineAt p = None"
  shows "\<exists>es. entries lg = es @ [(t, EvRecorded i (cx_attempt ctx) now (error_of r))] \<and> attempt_entries i r es"
proof -
  obtain res lg1 where at: "createAttemptTask p c i ctx now = (res, lg1)" by fastforce
  from assms obtain t1 r1 where res: "res = Some (t1, r1)"
    by (cases res) (auto simp: candidate_attempt_def recorded_def classifyDeadlineFailure_def bounded_attempt_def at)
  note inner = createAttemptTask_entries [of p c i ctx now t1 r1 lg1]
  show ?thesis
  proof (cases "\<exists>e. r1 = Inl e \<and> \<not> classified_or_callback e")
    case True
    then obtain e where e: "r1 = Inl e" "\<not> classified_or_callback e" by blast
    obtain res2 lg2 where th: "throw_classified p c i e ctx t1 = (res2 :: 't option outcome, lg2)" by fastforce
    have "entries lg1 = []" using inner at res e unclassified_attempt by blast
    then show ?thesis
      using assms attempt_entries_classified [of p c i e ctx t1 t r lg2] th e
      by (auto simp: candidate_attempt_def recorded_def classifyDeadlineFailure_def bounded_attempt_def at res error_of_def
        split: option.splits)
  next
    case False
    then have "classifyDeadlineFailure p c i (createAttemptTask p c i) ctx now = (Some (t1, r1), lg1)"
      by (cases r1) (auto simp: classifyDeadlineFailure_def at res)
    then show ?thesis
      using assms inner at res
      by (auto simp: candidate_attempt_def recorded_def bounded_attempt_def error_of_def cong: if_cong
        simp: classifyDeadlineFailure_def)
  qed
qed

section \<open>The attempts of one candidate\<close>

text \<open>The two entries an attempt pushes when it has decided.\<close>

definition attempt_block :: "nat \<Rightarrow> verdict \<Rightarrow> err option \<Rightarrow> run_log \<Rightarrow> bool" where
  "attempt_block i v e es \<longleftrightarrow> (\<exists>u t n s. es = [(u, EvDecided i (fst v) (snd v)), (t, EvRecorded i n s e)])"

definition retry_block :: "nat \<Rightarrow> run_log \<Rightarrow> bool" where
  "retry_block i es \<longleftrightarrow> (\<exists>code e. attempt_block i (''retry_same_candidate'', Some code)
     (Some (ClassifiedCandidateError e ''retry_same_candidate'' code)) es \<and> matches_reason_code code)"

lemma computeBackoffDelay_unclassified: "computeBackoffDelay n b a m j r = Inl c \<Longrightarrow> \<not> is_classified c"
  by (auto simp: computeBackoffDelay_def res_simps Let_def dest: parseDuration_error split: backoff.splits)

lemma computeRetryDelay_unclassified: "computeRetryDelay n p r = Inl c \<Longrightarrow> \<not> is_classified c"
  by (auto simp: computeRetryDelay_def res_simps dest: parseDuration_error computeBackoffDelay_unclassified)

definition unclassified_signal :: "signal \<Rightarrow> bool" where
  "unclassified_signal sig \<longleftrightarrow> (case sig of None \<Rightarrow> True | Some (_, e) \<Rightarrow> \<not> is_classified e)"

lemma sleep_unclassified: "sleep ms sig now = (t, Inl c) \<Longrightarrow> unclassified_signal sig \<Longrightarrow> \<not> is_classified c"
  by (auto simp: sleep_def unclassified_signal_def split: option.splits prod.splits if_splits)

lemma entries_attempt_log [simp]: "entries (attempt_log owns n s t oc) = []"
  by (simp add: attempt_log_def)

lemma classified_cancellation: "is_classified e \<Longrightarrow> \<not> is_cancellation e"
  by (cases e) auto

text \<open>
  A candidate's attempts: retries and a last attempt whose verdict goes with the result; the last
  verdict asks for a retry only if no attempt is left.
\<close>

definition candidate_entries :: "nat \<Rightarrow> nat \<Rightarrow> err + 'v option \<Rightarrow> run_log \<Rightarrow> bool" where
  "candidate_entries i n r es \<longleftrightarrow>
     (\<exists>bs v fin. es = concat bs @ fin \<and> length bs < n \<and> list_all (retry_block i) bs \<and>
        attempt_block i v (error_of r) fin \<and> decides v r \<and> (fst v = ''retry_same_candidate'' \<longrightarrow> Suc (length bs) = n))"

lemma candidate_entriesI:
  "es = concat bs @ fin \<Longrightarrow> length bs < n \<Longrightarrow> list_all (retry_block i) bs \<Longrightarrow> attempt_block i v (error_of r) fin \<Longrightarrow>
     decides v r \<Longrightarrow> (fst v = ''retry_same_candidate'' \<Longrightarrow> Suc (length bs) = n) \<Longrightarrow> candidate_entries i n r es"
  unfolding candidate_entries_def by blast

lemma candidate_entries_retry:
  assumes "retry_block i es" and "candidate_entries i n r es'"
  shows "candidate_entries i (Suc n) r (es @ es')"
proof -
  obtain bs v fin where "es' = concat bs @ fin" "length bs < n" "list_all (retry_block i) bs"
    "attempt_block i v (error_of r) fin" "decides v r" "fst v = ''retry_same_candidate'' \<longrightarrow> Suc (length bs) = n"
    using assms(2) unfolding candidate_entries_def by blast
  then show ?thesis
    using assms(1) by (intro candidate_entriesI [where bs = "es # bs" and v = v and fin = fin]) simp_all
qed

lemma retry_loop_entries:
  fixes p :: "('c, 't) candidate_policy"
  assumes "retry_loop n (candidate_attempt tf p c i) policy charge rnd ctx a now = (Some (t, r), lg)"
    and "cp_deadlineAt p = None" and "rp_retryIf policy = (\<lambda>e _. retry_same e)" and "a + n = Suc (rp_times policy)"
    and "\<And>m e. charge m = Some e \<Longrightarrow> \<not> is_classified e" and "unclassified_signal (cx_signal ctx)"
  shows "candidate_entries i n r (entries lg) \<or> (\<exists>e. r = Inl e \<and> \<not> is_classified e)"
  using assms(1,4)
proof (induction n arbitrary: a now lg)
  case (Suc n)
  obtain res lg1 where at: "candidate_attempt tf p c i (ctx\<lparr>cx_attempt := a, cx_wr := True\<rparr>) now = (res, lg1)" by fastforce
  from Suc.prems obtain t1 r1 where res: "res = Some (t1, r1)" by (cases res) (auto simp: at Let_def)
  obtain es where es: "entries lg1 = es @ [(t1, EvRecorded i a now (error_of r1))]" "attempt_entries i r1 es"
    using candidate_attempt_entries [OF at [unfolded res] assms(2)] by auto
  show ?case
  proof (cases "\<exists>e. r1 = Inl e \<and> \<not> is_classified e")
    case True
    then obtain e where e: "r1 = Inl e" "\<not> is_classified e" by blast
    then have "\<not> retry_same e" by (cases e) auto
    then show ?thesis using Suc.prems(1) e by (auto simp: at res Let_def assms(3))
  next
    case False
    then obtain u d code where block: "es = [(u, EvDecided i d code)]" "decides (d, code) r1"
      using es(2) by (auto simp: attempt_entries_def)
    then have last: "attempt_block i (d, code) (error_of r1) (entries lg1)"
      using es(1) by (auto simp: attempt_block_def)
    show ?thesis
    proof (cases "\<exists>e. r1 = Inl e \<and> retry_same e \<and> n > 0")
      case True
      then obtain e where e: "r1 = Inl e" "retry_same e" "n > 0" by blast
      then obtain o' code' where cl: "e = ClassifiedCandidateError o' ''retry_same_candidate'' code'"
        by (cases e) auto
      have rb: "retry_block i (entries lg1)"
        using last block(2) e(1) by (auto simp: retry_block_def cl error_of_def)
      have more: "\<not> rp_times policy \<le> a" using Suc.prems(2) e(3) by linarith
      show ?thesis
      proof (cases "charge a")
        case (Some x)
        then show ?thesis using Suc.prems(1) e more assms(5) by (auto simp: at res Let_def assms(3) cl)
      next
        case None
        show ?thesis
        proof (cases "computeRetryDelay a policy (rnd a)")
          case (Inl x)
          then show ?thesis
            using Suc.prems(1) e more None computeRetryDelay_unclassified [OF Inl] by (auto simp: at res Let_def assms(3) cl)
        next
          case (Inr ms)
          obtain t2 sl where sl: "sleep ms (cx_signal ctx) t1 = (t2, sl)" by fastforce
          show ?thesis
          proof (cases sl)
            case (Inl x)
            then show ?thesis
              using Suc.prems(1) e more None \<open>computeRetryDelay a policy (rnd a) = Inr ms\<close> sl
                sleep_unclassified [OF sl [unfolded Inl] assms(6)]
              by (auto simp: at res Let_def assms(3) cl)
          next
            case (Inr _)
            obtain res3 lg3 where rec: "retry_loop n (candidate_attempt tf p c i) policy charge rnd ctx (a + 1) t2 = (res3, lg3)"
              by fastforce
            then have res3: "res3 = Some (t, r)" and lg: "entries lg = entries lg1 @ entries lg3"
              using Suc.prems(1) e more None \<open>computeRetryDelay a policy (rnd a) = Inr ms\<close> sl Inr
              by (auto simp: at res Let_def assms(3) cl)
            from Suc.IH [OF rec [unfolded res3]] Suc.prems(2) candidate_entries_retry [OF rb] show ?thesis
              unfolding lg by auto
          qed
        qed
      qed
    next
      case stop: False
      have "r = r1 \<and> entries lg = entries lg1"
      proof (cases r1)
        case (Inl e)
        then have "is_cancellation e \<or> rp_times policy \<le> a \<or> \<not> retry_same e"
          using stop Suc.prems(2) by auto
        then show ?thesis using Suc.prems(1) by (auto simp: at res Let_def assms(3) Inl)
      next
        case (Inr v)
        then show ?thesis using Suc.prems(1) by (auto simp: at res Let_def)
      qed
      moreover have "d = ''retry_same_candidate'' \<longrightarrow> n = 0"
        using stop block(2) False by (cases r1; cases "projl r1"; cases "projr r1") auto
      ultimately have "candidate_entries i (Suc n) r (entries lg)"
        using last block(2) by (intro candidate_entriesI [where bs = "[]" and v = "(d, code)" and fin = "entries lg1"]) simp_all
      then show ?thesis ..
    qed
  qed
qed simp

section \<open>The evidence buffers\<close>

type_synonym trace = "(nat \<times> verdict) list"

text \<open>The record of an attempt and the decision taken on it belong together.\<close>

definition fits :: "surroundings \<Rightarrow> 'z attempt_evidence_scheme \<Rightarrow> nat \<times> verdict \<Rightarrow> bool" where
  "fits su a x \<longleftrightarrow> ae_taskId a = su_task_id su (fst x) \<and>
     (if fst (snd x) \<in> {''accepted'', ''quality_rejected''} then ae_outcome a = AttemptSucceeded \<and> ae_reasonCode a = None
      else ae_outcome a = AttemptFailed \<and> ae_reasonCode a = snd (snd x))"

definition decision_of :: "nat \<times> verdict \<Rightarrow> decision_record" where
  "decision_of x = \<lparr>dr_candidateIndex = fst x, dr_decision = fst (snd x), dr_reasonCode = snd (snd x)\<rparr>"

definition reflects :: "surroundings \<Rightarrow> nat \<Rightarrow> evidence_buffers \<Rightarrow> trace \<Rightarrow> bool" where
  "reflects su mx b tr \<longleftrightarrow> ar_max (eb_recorder b) = mx \<and> eb_decisions b = take mx (map decision_of tr) \<and>
     list_all2 (fits su) (ar_attempts (eb_recorder b)) (take mx tr) \<and> ar_dropped (eb_recorder b) = length tr - mx"

lemma fold_push_entries: "fold (push_entry su md) lg b = fold (push_entry su md) (entries lg) b"
proof (induction lg arbitrary: b)
  case (Cons x lg)
  obtain t ev where "x = (t, ev)" by (cases x)
  then show ?case using Cons by (cases ev) simp_all
qed simp

lemma decides_fits:
  assumes "decides v r" and "ae_taskId a = su_task_id su i"
    and "ae_outcome a = (case error_of r of None \<Rightarrow> AttemptSucceeded | Some x \<Rightarrow> if is_cancellation x then AttemptCancelled else AttemptFailed)"
    and "ae_reasonCode a = Option.bind (error_of r) (readAttemptReasonCode (Some classified_reason))"
  shows "fits su a (i, v)"
proof -
  obtain d code where v: "v = (d, code)" by (cases v)
  show ?thesis
  proof (cases r)
    case (Inl e)
    then obtain e' c where "e = ClassifiedCandidateError e' d c" "d \<in> set ACTION_DISPOSITIONS" "code = Some c" "matches_reason_code c"
      using assms(1) by (cases e) (auto simp: v)
    then show ?thesis
      using assms by (auto simp: v Inl fits_def error_of_def readAttemptReasonCode_def ACTION_DISPOSITIONS_def)
  next
    case (Inr x)
    then show ?thesis using assms by (cases x) (auto simp: v fits_def error_of_def)
  qed
qed

lemma push_block:
  assumes "attempt_block i v (error_of r) es" and "decides v r" and "reflects su mx b tr"
  shows "reflects su mx (fold (push_entry su md) es b) (tr @ [(i, v)])"
proof -
  obtain u t n s where es: "es = [(u, EvDecided i (fst v) (snd v)), (t, EvRecorded i n s (error_of r))]"
    using assms(1) by (auto simp: attempt_block_def)
  have len: "length (ar_attempts (eb_recorder b)) = min (length tr) mx"
    using assms(3) by (auto simp: reflects_def dest!: list_all2_lengthD)
  show ?thesis
  proof (cases "length tr < mx")
    case True
    then show ?thesis
      using assms(3) len
      by (auto simp: es reflects_def recordDecision_def record_attempt_def decision_of_def
        intro!: list_all2_appendI decides_fits [OF assms(2)])
  next
    case False
    then show ?thesis
      using assms(3) len by (auto simp: es reflects_def recordDecision_def record_attempt_def)
  qed
qed

section \<open>Runs of the selection\<close>

text \<open>The decisions on a candidate: retries, and a last one that asks for another only if none is left.\<close>

definition tries :: "nat \<Rightarrow> nat \<Rightarrow> verdict \<Rightarrow> trace \<Rightarrow> bool" where
  "tries most i v tr \<longleftrightarrow>
     (\<exists>codes. tr = map (\<lambda>c. (i, ''retry_same_candidate'', Some c)) codes @ [(i, v)] \<and> length codes < most \<and>
        (fst v = ''retry_same_candidate'' \<longrightarrow> Suc (length codes) = most))"

inductive search_trace :: "nat \<Rightarrow> 'c list \<Rightarrow> nat \<Rightarrow> trace \<Rightarrow> ('c, 't) candidate_status \<Rightarrow> bool" for most where
  none_left: "search_trace most [] i [] CandidatesExhausted"
| accepted: "tries most i (''accepted'', None) tr \<Longrightarrow> search_trace most (c # cs) i tr (CandidateAccepted c i v)"
| terminal: "tries most i (''terminal'', Some code) tr \<Longrightarrow> search_trace most (c # cs) i tr (CandidateTerminal code e)"
| user_input: "tries most i (''requires_user_input'', Some code) tr \<Longrightarrow>
    search_trace most (c # cs) i tr (CandidateNeedsInput code)"
| next_one: "tries most i (d, code) tr \<Longrightarrow> d \<in> {''quality_rejected'', ''try_next_candidate'', ''retry_same_candidate''} \<Longrightarrow>
    search_trace most cs (Suc i) tr' status \<Longrightarrow> search_trace most (c # cs) i (tr @ tr') status"

lemma push_retries:
  assumes "list_all (retry_block i) bs" and "reflects su mx b tr"
  shows "\<exists>codes. length codes = length bs \<and>
    reflects su mx (fold (push_entry su md) (concat bs) b) (tr @ map (\<lambda>c. (i, ''retry_same_candidate'', Some c)) codes)"
  using assms
proof (induction bs arbitrary: b tr)
  case (Cons es bs)
  obtain code e where block: "attempt_block i (''retry_same_candidate'', Some code)
      (error_of (Inl (ClassifiedCandidateError e ''retry_same_candidate'' code) :: err + unit option)) es" "matches_reason_code code"
    using Cons.prems(1) by (auto simp: retry_block_def error_of_def)
  have "reflects su mx (fold (push_entry su md) es b) (tr @ [(i, ''retry_same_candidate'', Some code)])"
    using push_block [OF block(1) _ Cons.prems(2)] block(2) by (simp add: ACTION_DISPOSITIONS_def)
  from Cons.IH [OF _ this] Cons.prems(1) obtain codes where "length codes = length bs"
    "reflects su mx (fold (push_entry su md) (concat bs) (fold (push_entry su md) es b))
       ((tr @ [(i, ''retry_same_candidate'', Some code)]) @ map (\<lambda>c. (i, ''retry_same_candidate'', Some c)) codes)" by auto
  then show ?case by (intro exI [of _ "code # codes"]) simp
qed (auto intro: exI [of _ "[]"])

lemma push_candidate:
  assumes "candidate_entries i most r (entries lg)" and "reflects su mx b tr"
  shows "\<exists>v tr'. tries most i v tr' \<and> decides v r \<and> reflects su mx (fold (push_entry su md) lg b) (tr @ tr')"
proof -
  obtain bs v fin where e: "entries lg = concat bs @ fin" "length bs < most" "list_all (retry_block i) bs"
    "attempt_block i v (error_of r) fin" "decides v r" "fst v = ''retry_same_candidate'' \<longrightarrow> Suc (length bs) = most"
    using assms(1) unfolding candidate_entries_def by blast
  obtain codes where codes: "length codes = length bs"
    "reflects su mx (fold (push_entry su md) (concat bs) b) (tr @ map (\<lambda>c. (i, ''retry_same_candidate'', Some c)) codes)"
    using push_retries [OF e(3) assms(2)] by blast
  have "tries most i v (map (\<lambda>c. (i, ''retry_same_candidate'', Some c)) codes @ [(i, v)])"
    using codes(1) e(2,6) by (auto simp: tries_def)
  moreover have "reflects su mx (fold (push_entry su md) lg b)
      (tr @ map (\<lambda>c. (i, ''retry_same_candidate'', Some c)) codes @ [(i, v)])"
    using push_block [OF e(4,5) codes(2)] fold_push_entries [of su md lg b] by (simp add: e(1))
  ultimately show ?thesis using e(5) by blast
qed

definition evidence_matches :: "surroundings \<Rightarrow> nat \<Rightarrow> trace \<Rightarrow> ('c, 't) candidate_result \<Rightarrow> bool" where
  "evidence_matches su mx tr res \<longleftrightarrow> cr_dropped res = length tr - mx \<and>
     list_all2 (\<lambda>e x. ce_candidateIndex e = fst x \<and> ce_decision e = fst (snd x) \<and> ae_reasonCode e = snd (snd x) \<and>
         ae_taskId e = su_task_id su (fst x) \<and>
         (ae_outcome e = AttemptSucceeded \<longleftrightarrow> fst (snd x) \<in> {''accepted'', ''quality_rejected''}))
       (cr_evidence res) (take mx tr)"

lemma map_res_enumerate:
  "(\<And>k. k < length xs \<Longrightarrow> f (n + k, xs ! k) = Inr (g k)) \<Longrightarrow> map_res f (enumerate n xs) = Inr (map g [0..<length xs])"
proof (induction xs arbitrary: n g)
  case (Cons x xs)
  have "map_res f (enumerate (Suc n) xs) = Inr (map (g \<circ> Suc) [0..<length xs])"
    using Cons.prems [of "Suc _"] by (intro Cons.IH) simp
  then show ?case
    using Cons.prems [of 0] by (simp add: upt_conv_Cons map_Suc_upt [symmetric] del: upt_Suc)
qed simp

lemma with_evidence_matches:
  assumes "reflects su mx b tr"
  shows "\<exists>res. with_evidence st b = Inr res \<and> cr_status res = st \<and> evidence_matches su mx tr res"
proof -
  let ?as = "ar_attempts (eb_recorder b)"
  have all: "list_all2 (fits su) ?as (take mx tr)" and dec: "eb_decisions b = map decision_of (take mx tr)"
    using assms by (simp_all add: reflects_def take_map)
  have len: "length ?as = length (take mx tr)" using all by (rule list_all2_lengthD)
  let ?ev = "map (\<lambda>k. evidence_of (?as ! k) (decision_of (take mx tr ! k))) [0..<length ?as]"
  have "mapCandidateEvidence ?as (eb_decisions b) = Inr ?ev"
    unfolding mapCandidateEvidence_def by (rule map_res_enumerate) (use len in \<open>simp add: dec\<close>)
  then have "with_evidence st b = Inr \<lparr>cr_status = st, cr_evidence = ?ev, cr_dropped = length tr - mx\<rparr>"
    using assms by (simp add: with_evidence_def readEvidence_def reflects_def)
  moreover have "evidence_matches su mx tr \<lparr>cr_status = st, cr_evidence = ?ev, cr_dropped = length tr - mx\<rparr>"
    using all len
    by (auto simp: evidence_matches_def list_all2_conv_all_nth fits_def evidence_of_def decision_of_def attempt_evidence.defs
      split: if_splits option.splits)
  ultimately show ?thesis by auto
qed

lemma buildCandidateTask_entries:
  fixes p :: "('c, 't) candidate_policy"
  assumes "buildCandidateTask su mb p c i = Inr (md, task)" and "task (child_ctx None None ctx) now = (Some (t, r), lg)"
    and "cp_deadlineAt p = None" and "ro_times (cp_retry p) = Fin (of_nat most)"
    and "\<And>i n e. su_charge su i n = Some e \<Longrightarrow> \<not> is_classified e" and "unclassified_signal (cx_scope_signal ctx)"
  shows "candidate_entries i most r (entries lg) \<or> (\<exists>e. r = Inl e \<and> \<not> is_classified e)"
proof -
  let ?opts = "ROpts (withClassifierRetry (cp_retry p))"
  obtain policy charge where pol: "normalizeRetry ?opts = Inr policy" and charge: "charge = (\<lambda>_. None) \<or> charge = su_charge su i"
    and task: "task = (\<lambda>ctx now. retry_loop (rp_times policy) (candidate_attempt (su_timer_first su) p c i) policy charge
      (su_random su i) ctx 1 now)"
    using assms(1) by (auto simp: buildCandidateTask_def retry_def res_simps Let_def split: option.splits)
  have "rp_retryIf policy = (\<lambda>e _. retry_same e)"
    using pol by (auto simp: normalizeRetry_def res_simps withClassifierRetry_def Let_def)
  moreover have "rp_times policy = most"
    using normalizeRetry_times [OF pol] assms(4) by (simp add: withClassifierRetry_def)
  moreover have "unclassified_signal (cx_signal (child_ctx None None ctx))"
    using assms(6) by (auto simp: child_ctx_def any_signal_def unclassified_signal_def Let_def split: option.splits)
  ultimately show ?thesis
    using retry_loop_entries [OF assms(2) [unfolded task] assms(3)] charge assms(5) by (auto split: option.splits)
qed

lemma candidate_loop_trace:
  fixes p :: "('c, 't) candidate_policy"
  assumes "candidate_loop cs su mb p i b ctx now = Some (t, Inr res)" and "reflects su mx b tr"
    and "cp_deadlineAt p = None" and "ro_times (cp_retry p) = Fin (of_nat most)"
    and "\<And>i n e. su_charge su i n = Some e \<Longrightarrow> \<not> is_classified e" and "unclassified_signal (cx_scope_signal ctx)"
  shows "\<exists>tr'. search_trace most cs i tr' (cr_status res) \<and> evidence_matches su mx (tr @ tr') res"
  using assms(1,2)
proof (induction cs arbitrary: i b now tr)
  case Nil
  have "with_evidence CandidatesExhausted b = Inr res" using Nil.prems(1) by simp
  moreover obtain res' where "with_evidence (CandidatesExhausted :: ('c, 't) candidate_status) b = Inr res'" "cr_status res' = CandidatesExhausted"
    "evidence_matches su mx tr res'"
    using with_evidence_matches [OF Nil.prems(2), of "CandidatesExhausted :: ('c, 't) candidate_status"] by auto
  ultimately show ?case by (intro exI [of _ "[]"]) (auto intro: none_left)
next
  case (Cons c cs)
  obtain md task where build: "buildCandidateTask su mb p c i = Inr (md, task)"
    using Cons.prems(1) by (auto split: sum.splits)
  obtain u r lg where run: "task (child_ctx None None ctx) now = (Some (u, r), lg)"
    using Cons.prems(1) by (cases "task (child_ctx None None ctx) now") (auto simp: build split: option.splits)
  let ?b = "fold (push_entry su md) lg b"
  have ents: "candidate_entries i most r (entries lg)"
  proof (rule ccontr)
    have "candidate_entries i most r (entries lg) \<or> (\<exists>e. r = Inl e \<and> \<not> is_classified e)"
      by (rule buildCandidateTask_entries [OF build run assms(3,4) _ assms(6)]) (rule assms(5))
    moreover assume "\<not> ?thesis"
    ultimately obtain e where "r = Inl e" "\<not> is_classified e" by blast
    then show False using Cons.prems(1) by (cases e) (simp_all add: build run Let_def)
  qed
  obtain v tr1 where tr1: "tries most i v tr1" "decides v r" "reflects su mx ?b (tr @ tr1)"
    using push_candidate [OF ents Cons.prems(2)] by blast
  obtain d code where v: "v = (d, code)" by (cases v)
  have go_on: ?case if more: "candidate_loop cs su mb p (Suc i) ?b ctx u = Some (t, Inr res)"
    and d: "d \<in> {''quality_rejected'', ''try_next_candidate'', ''retry_same_candidate''}"
  proof -
    obtain tr' where "search_trace most cs (Suc i) tr' (cr_status res)" "evidence_matches su mx ((tr @ tr1) @ tr') res"
      using Cons.IH [OF more tr1(3)] by blast
    then show ?case using next_one [OF tr1(1) [unfolded v] d] by (intro exI [of _ "tr1 @ tr'"]) auto
  qed
  have stop: ?case if "with_evidence st ?b = Inr res" "search_trace most (c # cs) i tr1 st" for st
    using with_evidence_matches [OF tr1(3), of st] that by auto
  show ?case
  proof (cases r)
    case (Inr x)
    then show ?thesis
      using Cons.prems(1) tr1(1,2) stop [of "CandidateAccepted c i (the x)"] accepted [of most i tr1 c cs "the x"] go_on
      by (cases x) (auto simp: build run v Let_def)
  next
    case (Inl e)
    then obtain e' c' where e: "e = ClassifiedCandidateError e' d c'" "code = Some c'" "d \<in> set ACTION_DISPOSITIONS"
      using tr1(2) by (cases e) (auto simp: v)
    consider "d = ''terminal''" | "d = ''requires_user_input''" | "d \<in> {''try_next_candidate'', ''retry_same_candidate''}"
      using e(3) by (auto simp: ACTION_DISPOSITIONS_def)
    then show ?thesis
    proof cases
      case 1
      then show ?thesis
        using Cons.prems(1) tr1(1) stop [of "CandidateTerminal c' e'"] terminal [of most i c' tr1 c cs e']
        by (auto simp: build run v Inl e resultFromFailure_def Let_def map_sum_Inr split: sum.splits)
    next
      case 2
      then show ?thesis
        using Cons.prems(1) tr1(1) stop [of "CandidateNeedsInput c'"] user_input [of most i c' tr1 c cs]
        by (auto simp: build run v Inl e resultFromFailure_def Let_def map_sum_Inr split: sum.splits)
    next
      case 3
      then show ?thesis
        using Cons.prems(1) go_on
        by (auto simp: build run v Inl e resultFromFailure_def Let_def map_sum_Inr split: sum.splits)
    qed
  qed
qed

lemma arg_times_snapshot:
  assumes "snapshotRetryPolicy arg = Inr r"
  obtains n where "ro_times r = Fin (of_nat n)" and "arg_times (or_default arg (RTimes (Fin 1))) = Fin (of_nat n)" and "1 \<le> n"
proof -
  have "validateRetryPolicy (or_default arg (RTimes (Fin 1))) = Inr ()" and "r = arg_opts (or_default arg (RTimes (Fin 1)))"
    using assms by (auto simp: snapshotRetryPolicy_def res_simps Let_def split: if_splits)
  then show thesis using that by (auto simp: validateRetryPolicy_ok)
qed

text \<open>
  C9: The evidence of a candidate selection without a deadline tells how it went: cut at the bound on
  attempts, with the rest counted, it lists for each candidate in order its retries and one last
  attempt, at most as many as the retry policy allows; every candidate before the one that ends
  the selection was rejected, given up or out of attempts, and the status is that of the last verdict.
  Each entry carries the decision that was taken on its own attempt.
\<close>

theorem candidate_evidence_trace:
  assumes "firstAcceptable su cs opts ctx now = Some (t, Inr res)" and "so_deadlineAt opts = None"
    and "\<And>i n e. su_charge su i n = Some e \<Longrightarrow> \<not> is_classified e" and "unclassified_signal (cx_scope_signal ctx)"
  shows "\<exists>tr most mx. search_trace most cs 0 tr (cr_status res) \<and> evidence_matches su mx tr res \<and>
    arg_times (or_default (so_retry opts) (RTimes (Fin 1))) = Fin (of_nat most) \<and>
    positive_count ''maxAttempts'' (or_default (so_maxAttempts opts) (Fin 256)) = Inr mx"
proof -
  obtain p r where pol: "normalizeCandidatePolicy cs opts = Inr p"
    and rec: "createAttemptRecorder (Some (or_default (so_maxAttempts opts) (Fin 256))) (so_maxMetadataBytes opts) = Inr r"
    and loop: "candidate_loop cs su (ar_maxBytes r) p 0 \<lparr>eb_recorder = r, eb_decisions = []\<rparr> ctx now = Some (t, Inr res)"
    using assms(1) by (auto simp: firstAcceptable_def res_simps map_sum_Inr split: sum.splits)
  obtain retry where retry: "snapshotRetryPolicy (so_retry opts) = Inr retry" "cp_retry p = retry" "cp_deadlineAt p = None"
    using pol assms(2) by (auto simp: normalizeCandidatePolicy_def normalizeDeadline_def res_simps Let_def split: if_splits)
  obtain n where n: "ro_times retry = Fin (of_nat n)" "arg_times (or_default (so_retry opts) (RTimes (Fin 1))) = Fin (of_nat n)"
    using arg_times_snapshot [OF retry(1)] by blast
  have r: "positive_count ''maxAttempts'' (or_default (so_maxAttempts opts) (Fin 256)) = Inr (ar_max r)"
    "ar_attempts r = []" "ar_dropped r = 0"
    using rec by (auto simp: createAttemptRecorder_def res_simps)
  then have "reflects su (ar_max r) \<lparr>eb_recorder = r, eb_decisions = []\<rparr> []" by (simp add: reflects_def)
  then have "\<exists>tr. search_trace n cs 0 tr (cr_status res) \<and> evidence_matches su (ar_max r) ([] @ tr) res"
    by (rule candidate_loop_trace [OF loop _ retry(3) n(1) [folded retry(2)] _ assms(4)]) (rule assms(3))
  then show ?thesis using n(2) r(1) by auto
qed

definition demo_surroundings :: surroundings where
  "demo_surroundings = \<lparr>su_timer_first = True, su_charge = (\<lambda>_ _. None), su_random = (\<lambda>_ _. 0), su_task_id = (\<lambda>i. i + 1),
     su_show = (\<lambda>_. []), su_bytes = (\<lambda>_. 10)\<rparr>"

text \<open>Two candidates, the first of which gives a poor answer.\<close>

definition demo_selection :: "(nat, nat) selection_opts" where
  "demo_selection = \<lparr>so_execute = (\<lambda>c ctx now. (Some (now + 1, Inr c), [])),
     so_accept = (\<lambda>v c ctx now. (Some (now, Inr (if v = 0
        then VObj [(''accepted'', VBool False), (''reasonCode'', VStr ''poor'')] else VObj [(''accepted'', VBool True)])), [])),
     so_classifyFailure = (\<lambda>e c ctx now. (Some (now, Inr (VObj [(''disposition'', VStr ''try_next_candidate''),
        (''reasonCode'', VStr ''down'')])), [])),
     so_retry = None, so_maxCandidates = None, so_deadlineAt = None, so_maxAttempts = None, so_maxMetadataBytes = None,
     so_metadata = None\<rparr>"

lemma demo_metadata:
  "normalizeAttemptMetadata (\<lambda>_. 10) (Some (VObj [(''candidateIndex'', num_val 0)])) 4096 = Inr (Some (VObj [(''candidateIndex'', num_val 0)]))"
  "normalizeAttemptMetadata (\<lambda>_. 10) (Some (VObj [(''candidateIndex'', num_val 1)])) 4096 = Inr (Some (VObj [(''candidateIndex'', num_val 1)]))"
  by code_simp+

text \<open>The definitions that evaluate a selection.\<close>

lemmas selection_defs = firstAcceptable_def normalizeCandidatePolicy_def snapshotRetryPolicy_def validateRetryPolicy_def normalizeDeadline_def
  createAttemptRecorder_def positive_count_def buildCandidateTask_def candidate_metadata_def retry_def normalizeRetry_def
  withClassifierRetry_def candidate_attempt_def recorded_def classifyDeadlineFailure_def bounded_attempt_def createAttemptTask_def
  caller_task_def throw_classified_def classifyCandidateError_def classifyWorkItFailure_def normalizeAcceptanceDecision_def
  normalizeActionDecision_def assertReasonCode_def with_evidence_def readEvidence_def mapCandidateEvidence_def evidence_of_def
  recordDecision_def record_attempt_def callback_error_def demo_surroundings_def demo_selection_def

lemma codes: "matches_reason_code ''poor''" "matches_reason_code ''down''" by code_simp+

lemma demo_selection_accepts:
  "map_option (map_prod id (map_sum id cr_status)) (firstAcceptable demo_surroundings [0, 1] demo_selection root_ctx 0) =
     Some (2, Inr (CandidateAccepted 1 1 1))"
  by (simp add: selection_defs codes demo_metadata Let_def num_simps MAX_RETRY_ATTEMPTS_def child_ctx_def root_ctx_def attempt_log_def)

lemma candidate_evidence_trace_witness:
  "\<exists>tr most mx res. search_trace most [0, 1] 0 tr (CandidateAccepted 1 1 1 :: (nat, nat) candidate_status) \<and>
     evidence_matches demo_surroundings mx tr (res :: (nat, nat) candidate_result)"
proof -
  obtain res where res: "firstAcceptable demo_surroundings [0, 1] demo_selection root_ctx 0 = Some (2, Inr res)"
    "cr_status res = CandidateAccepted 1 1 1"
    using demo_selection_accepts by (auto simp: map_sum_Inr)
  have "so_deadlineAt demo_selection = None" by (simp add: demo_selection_def)
  from candidate_evidence_trace [OF res(1) this] res(2) show ?thesis
    by (fastforce simp: demo_surroundings_def unclassified_signal_def root_ctx_def)
qed

section \<open>A deadline takes the decision of the attempt it ends\<close>

text \<open>
  An attempt that rejects at the instant its deadline fires, as one does that listens to its signal,
  pushes its own decision before the deadline pushes the one that counts: the selection ends with
  \<open>workit_timeout\<close> and its only entry of evidence says that the next candidate is tried.
\<close>

definition late_selection :: "(nat, nat) selection_opts" where
  "late_selection = demo_selection\<lparr>so_deadlineAt := Some (Fin 5),
     so_execute := (\<lambda>c ctx now. (Some (now + 5, Inl (PlainError ''aborted'')), []))\<rparr>"

lemma deadline_evidence_mismatch:
  "case firstAcceptable demo_surroundings [0, 1] late_selection root_ctx 0 of
     Some (t, Inr res) \<Rightarrow> t = 5 \<and> cr_status res = CandidateTerminal ''workit_timeout'' (TimeoutError 5) \<and>
       map (\<lambda>e. (ce_decision e, ae_reasonCode e)) (cr_evidence res) = [(''try_next_candidate'', Some ''down'')]
   | _ \<Rightarrow> False"
  by (simp add: selection_defs codes demo_metadata Let_def num_simps MAX_RETRY_ATTEMPTS_def child_ctx_def root_ctx_def attempt_log_def
    late_selection_def deadline_task_def timeout_run_def timeout_ctx_def race_timer_def timer_delay_def ACTION_DISPOSITIONS_def
    resultFromFailure_def attempt_evidence.defs MAX_TIMEOUT_MS_def)
end
