(* ===== verification/Exporter.thy ===== *)
theory Exporter
  imports Events Json Retry
begin

text \<open>
  The export helpers of \<open>packages/core/src/observability/index.ts\<close>: the bounded queue with its circuit
  breaker, sampling and sanitizing of events, scope summaries, and the guard on metric labels.

  The queue is a state machine: a step runs up to the next \<open>await\<close>. An event that was handed to the
  exporter is in flight until its promise settles. The caller's functions are arguments: the size
  estimate gives \<open>None\<close> and the state listener \<open>False\<close> when it throws. The promise \<open>export\<close> returns is
  voided by the callers, so its rejection is counted as unhandled.
\<close>

section \<open>The exporter queue and its breaker\<close>

datatype export_state = ExClosed | ExOpen | ExHalfOpen
datatype change_reason = FailureThreshold | ResetElapsed | ExportSuccess

record export_change =
  ec_from :: export_state
  ec_to :: export_state
  ec_at :: rat
  ec_reason :: change_reason

record 'e export_opts =
  eo_failureThreshold :: jsnum
  eo_openForMs :: rat
  eo_maxItems :: jsnum
  eo_maxBytes :: jsnum
  eo_estimate :: "'e \<Rightarrow> rat option"
  eo_onStateChange :: "export_change \<Rightarrow> bool"

record 'e exporter =
  ex_state :: export_state
  ex_failures :: nat
  ex_openedUntil :: rat
  ex_exported :: nat
  ex_dropped :: nat
  ex_draining :: bool
  ex_queuedBytes :: rat
  ex_queue :: "('e \<times> rat) list"
  ex_inflight :: "'e option"
  ex_unhandled :: nat

definition createExporterCircuitBreaker :: "'e exporter" where
  "createExporterCircuitBreaker = \<lparr>ex_state = ExClosed, ex_failures = 0, ex_openedUntil = 0, ex_exported = 0, ex_dropped = 0,
     ex_draining = False, ex_queuedBytes = 0, ex_queue = [], ex_inflight = None, ex_unhandled = 0\<rparr>"

definition default_export_opts :: "('e \<Rightarrow> rat) \<Rightarrow> 'e export_opts" where
  "default_export_opts bytes_of = \<lparr>eo_failureThreshold = Fin 3, eo_openForMs = 60000, eo_maxItems = Fin 1024, eo_maxBytes = PInf,
     eo_estimate = Some \<circ> bytes_of, eo_onStateChange = (\<lambda>_. True)\<rparr>"

text \<open>The second component says whether the state listener returned.\<close>

definition transition :: "'e export_opts \<Rightarrow> export_state \<Rightarrow> change_reason \<Rightarrow> rat \<Rightarrow> 'e exporter \<Rightarrow> 'e exporter \<times> bool" where
  "transition opts new reason now x =
     (if ex_state x = new then (x, True)
      else (x\<lparr>ex_state := new\<rparr>, eo_onStateChange opts \<lparr>ec_from = ex_state x, ec_to = new, ec_at = now, ec_reason = reason\<rparr>))"

text \<open>An error that leaves the drain loop: \<open>finally\<close> resets the flag, the promise rejects.\<close>

definition drain_throws :: "'e exporter \<Rightarrow> 'e exporter" where
  "drain_throws x = x\<lparr>ex_draining := False, ex_unhandled := ex_unhandled x + 1\<rparr>"

definition drop_event :: "'e exporter \<Rightarrow> 'e exporter" where
  "drop_event x = x\<lparr>ex_dropped := ex_dropped x + 1\<rparr>"

text \<open>One round of the drain loop, up to the call of the exporter.\<close>

definition drain_step :: "'e export_opts \<Rightarrow> rat \<Rightarrow> 'e exporter \<Rightarrow> 'e exporter" where
  "drain_step opts now x =
     (case ex_queue x of
        [] \<Rightarrow> x\<lparr>ex_draining := False\<rparr>
      | (e, b) # q \<Rightarrow>
          let x1 = x\<lparr>ex_queue := q, ex_queuedBytes := ex_queuedBytes x - b\<rparr>
          in if ex_state x1 = ExOpen then
               (if now < ex_openedUntil x1 then drop_event x1
                else let (x2, ok) = transition opts ExHalfOpen ResetElapsed now x1
                     in if ok then x2\<lparr>ex_inflight := Some e\<rparr> else drain_throws x2)
             else x1\<lparr>ex_inflight := Some e\<rparr>)"

definition fail_export :: "'e export_opts \<Rightarrow> rat \<Rightarrow> 'e exporter \<Rightarrow> 'e exporter" where
  "fail_export opts now x =
     (let x1 = (drop_event x)\<lparr>ex_failures := ex_failures x + 1\<rparr>
      in if ex_state x1 = ExHalfOpen \<or> eo_failureThreshold opts \<le> Fin (of_nat (ex_failures x1))
         then let (x2, ok) = transition opts ExOpen FailureThreshold now x1
              in if ok then x2\<lparr>ex_openedUntil := now + eo_openForMs opts\<rparr> else drain_throws x2
         else x1)"

text \<open>The promise of the exporter settles: \<open>ok\<close> says how.\<close>

definition settle_export :: "'e export_opts \<Rightarrow> rat \<Rightarrow> bool \<Rightarrow> 'e exporter \<Rightarrow> 'e exporter" where
  "settle_export opts now ok x =
     (let x0 = x\<lparr>ex_inflight := None\<rparr>
      in if ok then
           let x1 = x0\<lparr>ex_exported := ex_exported x0 + 1, ex_failures := 0\<rparr>
           in if ex_state x1 = ExHalfOpen
              then let (x2, good) = transition opts ExClosed ExportSuccess now x1
                   in if good then x2 else fail_export opts now x2
              else x1\<lparr>ex_state := ExClosed\<rparr>
         else fail_export opts now x0)"

text \<open>The oldest entries leave the queue while the new one does not fit.\<close>

fun evict_bytes :: "jsnum \<Rightarrow> rat \<Rightarrow> 'e exporter \<Rightarrow> ('e \<times> rat) list \<Rightarrow> 'e exporter" where
  "evict_bytes mx bytes x [] = x\<lparr>ex_queue := []\<rparr>"
| "evict_bytes mx bytes x ((e, b) # q) =
     (if mx < Fin (ex_queuedBytes x + bytes)
      then evict_bytes mx bytes ((drop_event x)\<lparr>ex_queuedBytes := ex_queuedBytes x - b\<rparr>) q
      else x\<lparr>ex_queue := (e, b) # q\<rparr>)"

definition evict_item :: "jsnum \<Rightarrow> 'e exporter \<Rightarrow> 'e exporter" where
  "evict_item mx x =
     (if mx \<le> Fin (of_nat (length (ex_queue x)))
      then (case ex_queue x of
              [] \<Rightarrow> drop_event x
            | (e, b) # q \<Rightarrow> (drop_event x)\<lparr>ex_queue := q, ex_queuedBytes := ex_queuedBytes x - b\<rparr>)
      else x)"

definition export_event :: "'e export_opts \<Rightarrow> rat \<Rightarrow> 'e \<Rightarrow> 'e exporter \<Rightarrow> 'e exporter" where
  "export_event opts now e x =
     (case eo_estimate opts e of
        None \<Rightarrow> x\<lparr>ex_unhandled := ex_unhandled x + 1\<rparr>
      | Some bytes \<Rightarrow>
          if eo_maxItems opts < Fin 1 \<or> eo_maxBytes opts < Fin 1 \<or> eo_maxBytes opts < Fin bytes then drop_event x
          else
            let x1 = evict_item (eo_maxItems opts) x;
                x2 = evict_bytes (eo_maxBytes opts) bytes x1 (ex_queue x1);
                x3 = x2\<lparr>ex_queue := ex_queue x2 @ [(e, bytes)], ex_queuedBytes := ex_queuedBytes x2 + bytes\<rparr>
            in if ex_draining x3 then x3 else drain_step opts now (x3\<lparr>ex_draining := True\<rparr>))"

section \<open>Sampling and sanitizing\<close>

datatype sampling = SampleOff | SampleAll | SampleHead rat | SampleErrorsAndSlow rat

fun shouldExport :: "task_event \<Rightarrow> sampling \<Rightarrow> bool \<Rightarrow> bool" where
  "shouldExport e SampleAll head = True"
| "shouldExport e (SampleHead rate) head = head"
| "shouldExport e (SampleErrorsAndSlow slow) head =
     (case e of
        TaskFailed _ _ _ _ \<Rightarrow> True
      | TaskCleanupFailed _ _ _ \<Rightarrow> True
      | TaskCleanupTimeout _ _ _ \<Rightarrow> True
      | ScopeCleanupFailed _ _ _ \<Rightarrow> True
      | ScopeCleanupTimeout _ _ _ \<Rightarrow> True
      | TaskCancelled _ _ _ _ \<Rightarrow> True
      | TaskSucceeded _ durationMs _ \<Rightarrow> slow \<le> durationMs
      | _ \<Rightarrow> False)"
| "shouldExport e SampleOff head = False"

text \<open>The sanitizer may throw, drop the event or change it; in the first two cases it is dropped.\<close>

definition sanitizeTaskEvent :: "(task_event \<Rightarrow> err + task_event option) option \<Rightarrow> task_event \<Rightarrow> task_event option" where
  "sanitizeTaskEvent sanitize e =
     (case sanitize of None \<Rightarrow> Some e | Some f \<Rightarrow> (case f e of Inr (Some e') \<Rightarrow> Some e' | _ \<Rightarrow> None))"

definition head_accepted :: "sampling \<Rightarrow> rat \<Rightarrow> bool" where
  "head_accepted sampling random = (case sampling of SampleHead rate \<Rightarrow> random < rate | _ \<Rightarrow> True)"

definition telemetry_event :: "task_event export_opts \<Rightarrow> (task_event \<Rightarrow> err + task_event option) option \<Rightarrow> sampling \<Rightarrow> bool \<Rightarrow>
    rat \<Rightarrow> task_event \<Rightarrow> task_event exporter \<Rightarrow> task_event exporter" where
  "telemetry_event opts sanitize sampling head now e x =
     (if sampling = SampleOff then x
      else case sanitizeTaskEvent sanitize e of
             None \<Rightarrow> drop_event x
           | Some e' \<Rightarrow> if \<not> shouldExport e' sampling head then drop_event x else export_event opts now e' x)"

section \<open>Scope summaries\<close>

record summary_counts =
  sm_started :: nat
  sm_succeeded :: nat
  sm_failed :: nat
  sm_cancelled :: nat
  sm_retried :: nat
  sm_cleanupFailed :: nat

record scope_summary = summary_counts +
  sm_scopeId :: scope_id
  sm_parentId :: "scope_id option"
  sm_outcome :: closing_reason
  sm_dropped :: nat

record summary_state =
  ss_summaries :: "scope_id \<rightharpoonup> scope_summary"
  ss_owners :: "task_id \<rightharpoonup> scope_id"

fun event_scope :: "task_event \<Rightarrow> scope_id option" where
  "event_scope (TaskStarted _ s _ _ _) = Some s"
| "event_scope (ScopeOpened s _ _) = Some s"
| "event_scope (ScopeCleanupFailed s _ _) = Some s"
| "event_scope (ScopeCleanupTimeout s _ _) = Some s"
| "event_scope (ScopeClosing s _ _) = Some s"
| "event_scope (ScopeClosed s _ _ _) = Some s"
| "event_scope _ = None"

text \<open>The scope whose summary an event goes to.\<close>

definition summary_scope :: "(task_id \<rightharpoonup> scope_id) \<Rightarrow> task_event \<Rightarrow> scope_id option" where
  "summary_scope owners e = (case event_scope e of Some s \<Rightarrow> Some s | None \<Rightarrow> Option.bind (event_task e) owners)"

definition findEventSummary :: "summary_state \<Rightarrow> task_event \<Rightarrow> scope_summary option" where
  "findEventSummary st e = Option.bind (summary_scope (ss_owners st) e) (ss_summaries st)"

fun count_event :: "task_event \<Rightarrow> scope_summary \<Rightarrow> scope_summary" where
  "count_event (TaskStarted _ _ _ _ _) m = m\<lparr>sm_started := sm_started m + 1\<rparr>"
| "count_event (TaskSucceeded _ _ _) m = m\<lparr>sm_succeeded := sm_succeeded m + 1\<rparr>"
| "count_event (TaskFailed _ _ _ _) m = m\<lparr>sm_failed := sm_failed m + 1, sm_outcome := Errored\<rparr>"
| "count_event (TaskCleanupFailed _ _ _) m = m\<lparr>sm_cleanupFailed := sm_cleanupFailed m + 1, sm_outcome := Errored\<rparr>"
| "count_event (TaskCleanupTimeout _ _ _) m = m\<lparr>sm_cleanupFailed := sm_cleanupFailed m + 1, sm_outcome := Errored\<rparr>"
| "count_event (ScopeCleanupFailed _ _ _) m = m\<lparr>sm_cleanupFailed := sm_cleanupFailed m + 1, sm_outcome := Errored\<rparr>"
| "count_event (ScopeCleanupTimeout _ _ _) m = m\<lparr>sm_cleanupFailed := sm_cleanupFailed m + 1, sm_outcome := Errored\<rparr>"
| "count_event (TaskCancelled _ _ _ _) m =
     m\<lparr>sm_cancelled := sm_cancelled m + 1, sm_outcome := (if sm_outcome m \<noteq> Errored then WasCancelled else Errored)\<rparr>"
| "count_event (TaskRetrying _ _ _ _ _) m = m\<lparr>sm_retried := sm_retried m + 1\<rparr>"
| "count_event (ScopeClosing _ reason _) m = m\<lparr>sm_outcome := (if sm_outcome m \<noteq> Errored then reason else Errored)\<rparr>"
| "count_event (ScopeClosed _ _ dropped _) m = m\<lparr>sm_dropped := max (sm_dropped m) (or_default dropped 0)\<rparr>"
| "count_event _ m = m"

definition new_summary :: "scope_id \<Rightarrow> scope_id option \<Rightarrow> nat \<Rightarrow> scope_summary" where
  "new_summary s parent dropped = \<lparr>sm_started = 0, sm_succeeded = 0, sm_failed = 0, sm_cancelled = 0, sm_retried = 0,
     sm_cleanupFailed = 0, sm_scopeId = s, sm_parentId = parent, sm_outcome = Completed, sm_dropped = dropped\<rparr>"

definition ingestSummaryEvent :: "nat \<Rightarrow> task_event \<Rightarrow> summary_state \<Rightarrow> summary_state" where
  "ingestSummaryEvent dropped e st =
     (case e of
        ScopeOpened s parent _ \<Rightarrow> st\<lparr>ss_summaries := (ss_summaries st)(s \<mapsto> new_summary s parent dropped)\<rparr>
      | _ \<Rightarrow>
          let st1 = (case e of TaskStarted t s _ _ _ \<Rightarrow> st\<lparr>ss_owners := (ss_owners st)(t \<mapsto> s)\<rparr> | _ \<Rightarrow> st)
          in case findEventSummary st1 e of
               None \<Rightarrow> st1
             | Some m \<Rightarrow> st1\<lparr>ss_summaries := (ss_summaries st1)(sm_scopeId m \<mapsto>
                 count_event e (m\<lparr>sm_dropped := max (sm_dropped m) dropped\<rparr>))\<rparr>)"

record exported_summary = summary_counts +
  xs_scopeId :: scope_id
  xs_parentId :: "scope_id option"
  xs_durationMs :: rat
  xs_outcome :: closing_reason
  xs_dropped :: nat

definition toScopeSummary :: "scope_summary \<Rightarrow> rat \<Rightarrow> nat \<Rightarrow> exported_summary" where
  "toScopeSummary m durationMs dropped =
     \<lparr>sm_started = sm_started m, sm_succeeded = sm_succeeded m, sm_failed = sm_failed m, sm_cancelled = sm_cancelled m,
      sm_retried = sm_retried m, sm_cleanupFailed = sm_cleanupFailed m, xs_scopeId = sm_scopeId m, xs_parentId = sm_parentId m,
      xs_durationMs = durationMs, xs_outcome = sm_outcome m, xs_dropped = max (sm_dropped m) dropped\<rparr>"

text \<open>The listener of \<open>attachScopeSummaryExporter\<close>.\<close>

definition summary_event :: "exported_summary export_opts \<Rightarrow> (task_event \<Rightarrow> err + task_event option) option \<Rightarrow> rat \<Rightarrow> task_event \<Rightarrow>
    summary_state \<times> exported_summary exporter \<Rightarrow> summary_state \<times> exported_summary exporter" where
  "summary_event opts sanitize now e w =
     (let (st, x) = w
      in case sanitizeTaskEvent sanitize e of
           None \<Rightarrow> (st, drop_event x)
         | Some e' \<Rightarrow>
             let st1 = ingestSummaryEvent (ex_dropped x) e' st
             in case e' of
                  ScopeClosed s durationMs _ _ \<Rightarrow>
                    (case ss_summaries st1 s of
                       None \<Rightarrow> (st1, x)
                     | Some m \<Rightarrow> (st1\<lparr>ss_summaries := (ss_summaries st1)(s := None)\<rparr>,
                         export_event opts now (toScopeSummary m durationMs (ex_dropped x)) x))
                | _ \<Rightarrow> (st1, x))"

section \<open>Metric labels\<close>

datatype label_value = LStr string | LNum jsnum | LBool bool

record metric_point =
  mp_name :: string
  mp_value :: jsnum
  mp_labels :: "(string \<times> label_value) list option"

definition letter :: "char \<Rightarrow> bool" where
  "letter c \<longleftrightarrow> (let n = of_char c :: nat in 65 \<le> n \<and> n \<le> 90 \<or> 97 \<le> n \<and> n \<le> 122)"

definition metric_name :: "string \<Rightarrow> bool" where
  "metric_name s \<longleftrightarrow>
     (case s of
        [] \<Rightarrow> False
      | c # cs \<Rightarrow> (letter c \<or> c \<in> {CHR ''_'', CHR '':''}) \<and>
          list_all (\<lambda>d. letter d \<or> is_digit d \<or> d \<in> {CHR ''_'', CHR '':'', CHR ''.'', CHR ''-''}) cs)"

definition FORBIDDEN_LABELS :: "string list" where
  "FORBIDDEN_LABELS = [''id'', ''taskId'', ''scopeId'', ''requestId'', ''traceId'', ''spanId'', ''messageId'',
     ''providerRequestId'', ''url'', ''filename'', ''path'', ''userText'']"

definition ends_with :: "string \<Rightarrow> string \<Rightarrow> bool" where
  "ends_with suf s \<longleftrightarrow> length suf \<le> length s \<and> drop (length s - length suf) s = suf"

definition check_label :: "string list option \<Rightarrow> string \<times> label_value \<Rightarrow> err + unit" where
  "check_label allowed l =
     (let (key, v) = l
      in if key \<in> set FORBIDDEN_LABELS \<or> ends_with ''Id'' key then Inl (PlainError ''Metric label is not cardinality-safe'')
         else if (case allowed of None \<Rightarrow> False | Some ks \<Rightarrow> key \<notin> set ks) then Inl (PlainError ''Metric label is not in the allowed label set'')
         else if (case v of LStr s \<Rightarrow> 64 < length s | _ \<Rightarrow> False) then Inl (PlainError ''Metric label value is too long'')
         else if key = ''taskKind'' \<and> v \<notin> LStr ` {''io'', ''llm'', ''tool'', ''cpu'', ''custom''}
              then Inl (PlainError ''Metric label value is not bounded'')
         else Inr ())"

definition validateMetric :: "string list option \<Rightarrow> metric_point \<Rightarrow> err + unit" where
  "validateMetric allowed m =
     (if \<not> metric_name (mp_name m) then Inl (PlainError ''Invalid metric name'')
      else if \<not> is_finite (mp_value m) then Inl (PlainError ''Metric requires a finite numeric value'')
      else map_sum id (\<lambda>_. ()) (map_res (check_label allowed) (or_default (mp_labels m) [])))"

definition createCardinalitySafeMetricExporter :: "(metric_point \<Rightarrow> err + unit) \<Rightarrow> string list option \<Rightarrow> metric_point \<Rightarrow> err + unit" where
  "createCardinalitySafeMetricExporter exporter allowed m = bind_res (validateMetric allowed m) (\<lambda>_. exporter m)"

end
