(* ===== verification/Exporter_Props.thy ===== *)
theory Exporter_Props
  imports Exporter "HOL-Library.Sublist"
begin

text \<open>
  What the export queue guarantees (\<open>Exporter\<close>) in every interleaving of offers, drops, drain rounds
  and settlements, while the caller's estimate and listener return: no event is lost from the books,
  reordered or sent twice, the queue keeps its bounds, and a half-open breaker has one probe. The
  summaries count the events of their scope. The labels of an accepted metric are bounded.
\<close>

section \<open>Interleavings\<close>

text \<open>The events offered to the queue and those handed to the exporter, in order; drops before the queue.\<close>

record 'e export_world =
  xw_exporter :: "'e exporter"
  xw_offered :: "'e list"
  xw_sent :: "'e list"
  xw_drops :: nat

definition sent_by :: "'e exporter \<Rightarrow> 'e exporter \<Rightarrow> 'e list" where
  "sent_by x x' = (case ex_inflight x' of Some e \<Rightarrow> if ex_inflight x = None then [e] else [] | None \<Rightarrow> [])"

definition run_exporter :: "'e exporter \<Rightarrow> 'e export_world \<Rightarrow> 'e export_world" where
  "run_exporter x' w = w\<lparr>xw_exporter := x', xw_sent := xw_sent w @ sent_by (xw_exporter w) x'\<rparr>"

inductive export_step :: "'e export_opts \<Rightarrow> 'e export_world \<Rightarrow> 'e export_world \<Rightarrow> bool" for opts where
  offer: "export_step opts w ((run_exporter (export_event opts now e (xw_exporter w)) w)\<lparr>xw_offered := xw_offered w @ [e]\<rparr>)"
| drop_one: "export_step opts w (w\<lparr>xw_exporter := drop_event (xw_exporter w), xw_drops := xw_drops w + 1\<rparr>)"
| round: "ex_draining (xw_exporter w) \<Longrightarrow> ex_inflight (xw_exporter w) = None \<Longrightarrow>
    export_step opts w (run_exporter (drain_step opts now (xw_exporter w)) w)"
| settled: "ex_inflight (xw_exporter w) \<noteq> None \<Longrightarrow>
    export_step opts w (run_exporter (settle_export opts now ok (xw_exporter w)) w)"

definition no_exports :: "'e export_world" where
  "no_exports = \<lparr>xw_exporter = createExporterCircuitBreaker, xw_offered = [], xw_sent = [], xw_drops = 0\<rparr>"

section \<open>The books of the queue\<close>

text \<open>The caller's functions return, and an estimate is not negative.\<close>

definition callbacks_return :: "'e export_opts \<Rightarrow> bool" where
  "callbacks_return opts \<longleftrightarrow> (\<forall>e. \<exists>b \<ge> 0. eo_estimate opts e = Some b) \<and> (\<forall>c. eo_onStateChange opts c)"

definition fits_in :: "jsnum \<Rightarrow> jsnum \<Rightarrow> bool" where
  "fits_in n mx \<longleftrightarrow> \<not> mx < n"

text \<open>Room for one more entry beside \<open>n\<close>; a limit need not be an integer.\<close>

definition room_beside :: "nat \<Rightarrow> jsnum \<Rightarrow> bool" where
  "room_beside n mx \<longleftrightarrow> \<not> mx \<le> Fin (of_nat n)"

definition queue_ok :: "'e export_opts \<Rightarrow> 'e exporter \<Rightarrow> bool" where
  "queue_ok opts x \<longleftrightarrow> ex_queuedBytes x = sum_list (map snd (ex_queue x)) \<and> list_all (\<lambda>y. 0 \<le> snd y) (ex_queue x) \<and>
     (ex_queue x \<noteq> [] \<longrightarrow> room_beside (length (ex_queue x) - 1) (eo_maxItems opts) \<and>
        fits_in (Fin (ex_queuedBytes x)) (eo_maxBytes opts))"

definition breaker_ok :: "'e exporter \<Rightarrow> bool" where
  "breaker_ok x \<longleftrightarrow> (ex_state x = ExHalfOpen \<longrightarrow> ex_inflight x \<noteq> None) \<and> (ex_state x = ExOpen \<longrightarrow> ex_inflight x = None) \<and>
     (ex_inflight x \<noteq> None \<or> ex_queue x \<noteq> [] \<longrightarrow> ex_draining x) \<and> ex_unhandled x = 0"

definition settled_count :: "'e exporter \<Rightarrow> nat" where
  "settled_count x = ex_exported x + ex_dropped x + length (ex_queue x) + (if ex_inflight x = None then 0 else 1)"

definition books_ok :: "'e export_world \<Rightarrow> bool" where
  "books_ok w \<longleftrightarrow> settled_count (xw_exporter w) = length (xw_offered w) + xw_drops w \<and>
     subseq (xw_sent w @ map fst (ex_queue (xw_exporter w))) (xw_offered w)"

definition export_inv :: "'e export_opts \<Rightarrow> 'e export_world \<Rightarrow> bool" where
  "export_inv opts w \<longleftrightarrow> queue_ok opts (xw_exporter w) \<and> breaker_ok (xw_exporter w) \<and> books_ok w"

lemma fits_in_mono: "fits_in (Fin a) mx \<Longrightarrow> b \<le> a \<Longrightarrow> fits_in (Fin b) mx"
  by (cases mx) (auto simp: fits_in_def less_jsnum_def)

lemma room_beside_mono: "room_beside n mx \<Longrightarrow> m \<le> n \<Longrightarrow> room_beside m mx"
  by (cases mx) (auto simp: room_beside_def intro: order_trans of_nat_mono)

lemma transition_simps [simp]:
  "callbacks_return opts \<Longrightarrow> transition opts new reason now x = (x\<lparr>ex_state := new\<rparr>, True)"
  by (auto simp: transition_def callbacks_return_def)

lemma queue_ok_tail:
  assumes "queue_ok opts x" and "ex_queue x = (e, b) # q"
  shows "queue_ok opts (x\<lparr>ex_queue := q, ex_queuedBytes := ex_queuedBytes x - b\<rparr>)"
proof -
  have "0 \<le> b" using assms by (simp add: queue_ok_def)
  then show ?thesis
    using assms room_beside_mono [of "length q" "eo_maxItems opts" "length q - 1"]
      fits_in_mono [of "ex_queuedBytes x" "eo_maxBytes opts" "ex_queuedBytes x - b"]
    by (auto simp: queue_ok_def)
qed

lemma queue_ok_cong: "ex_queue x' = ex_queue x \<Longrightarrow> ex_queuedBytes x' = ex_queuedBytes x \<Longrightarrow> queue_ok opts x' = queue_ok opts x"
  by (simp add: queue_ok_def)

text \<open>A round of the drain loop sends at most the head of the queue, and counts what it drops.\<close>

lemma drain_step_ok:
  assumes "callbacks_return opts" and "queue_ok opts x" and "ex_inflight x = None" and "ex_draining x" and "ex_unhandled x = 0"
    and "ex_state x \<noteq> ExHalfOpen"
  shows "queue_ok opts (drain_step opts now x) \<and> breaker_ok (drain_step opts now x) \<and>
    settled_count (drain_step opts now x) = settled_count x \<and>
    subseq (sent_by x (drain_step opts now x) @ map fst (ex_queue (drain_step opts now x))) (map fst (ex_queue x))"
proof (cases "ex_queue x")
  case Nil
  then show ?thesis using assms by (auto simp: drain_step_def queue_ok_def breaker_ok_def settled_count_def sent_by_def)
next
  case (Cons y q)
  obtain e b where y: "y = (e, b)" by (cases y)
  have "queue_ok opts (drain_step opts now x)"
    using queue_ok_tail [OF assms(2) Cons [unfolded y]] assms(1)
    by (auto simp: drain_step_def Cons y Let_def drop_event_def elim!: queue_ok_cong [THEN iffD1, rotated -1])
  then show ?thesis
    using assms by (auto simp: drain_step_def Cons y Let_def drop_event_def breaker_ok_def settled_count_def sent_by_def)
qed

lemma fail_export_ok:
  assumes "callbacks_return opts" and "ex_inflight x = None" and "ex_unhandled x = 0" and "ex_draining x" and "ex_state x \<noteq> ExOpen"
  shows "breaker_ok (fail_export opts now x) \<and> settled_count (fail_export opts now x) = Suc (settled_count x) \<and>
    ex_queue (fail_export opts now x) = ex_queue x \<and> ex_queuedBytes (fail_export opts now x) = ex_queuedBytes x \<and>
    ex_inflight (fail_export opts now x) = None"
  using assms by (auto simp: fail_export_def drop_event_def breaker_ok_def settled_count_def Let_def)

lemma settle_export_ok:
  assumes "callbacks_return opts" and "breaker_ok x" and "ex_inflight x = Some e"
  shows "breaker_ok (settle_export opts now ok x) \<and> settled_count (settle_export opts now ok x) = settled_count x \<and>
    ex_queue (settle_export opts now ok x) = ex_queue x \<and> ex_queuedBytes (settle_export opts now ok x) = ex_queuedBytes x \<and>
    ex_inflight (settle_export opts now ok x) = None"
proof (cases ok)
  case True
  then show ?thesis using assms by (auto simp: settle_export_def Let_def breaker_ok_def settled_count_def)
next
  case False
  then show ?thesis
    using assms fail_export_ok [of opts "x\<lparr>ex_inflight := None\<rparr>" now]
    by (auto simp: settle_export_def Let_def breaker_ok_def settled_count_def)
qed

lemma evict_item_ok:
  assumes "queue_ok opts x" and "\<not> eo_maxItems opts < Fin 1"
  shows "queue_ok opts (evict_item (eo_maxItems opts) x) \<and>
    room_beside (length (ex_queue (evict_item (eo_maxItems opts) x))) (eo_maxItems opts) \<and>
    settled_count (evict_item (eo_maxItems opts) x) = settled_count x \<and>
    suffix (ex_queue (evict_item (eo_maxItems opts) x)) (ex_queue x)"
proof (cases "eo_maxItems opts \<le> Fin (of_nat (length (ex_queue x)))")
  case False
  then show ?thesis
    using assms(1) by (simp add: evict_item_def room_beside_def)
next
  case True
  then obtain e b q where q: "ex_queue x = (e, b) # q"
    using assms(2) by (cases "ex_queue x"; cases "eo_maxItems opts") (auto simp: less_jsnum_def)
  then show ?thesis
    using queue_ok_tail [OF assms(1) q] assms(1) True
    by (auto simp: evict_item_def drop_event_def settled_count_def queue_ok_def suffix_Cons)
qed

lemma evict_bytes_ok:
  assumes "ex_queuedBytes x = sum_list (map snd q)" and "list_all (\<lambda>y. 0 \<le> snd y) q" and "\<not> mx < Fin bytes"
  shows "(let x' = evict_bytes mx bytes x q in
     ex_queuedBytes x' = sum_list (map snd (ex_queue x')) \<and> list_all (\<lambda>y. 0 \<le> snd y) (ex_queue x') \<and>
     fits_in (Fin (ex_queuedBytes x' + bytes)) mx \<and> suffix (ex_queue x') q \<and>
     ex_dropped x' + length (ex_queue x') = ex_dropped x + length q \<and>
     ex_state x' = ex_state x \<and> ex_inflight x' = ex_inflight x \<and> ex_draining x' = ex_draining x \<and> ex_unhandled x' = ex_unhandled x \<and>
     ex_exported x' = ex_exported x)"
  using assms
proof (induction q arbitrary: x)
  case Nil
  then show ?case by (simp add: Let_def fits_in_def)
next
  case (Cons y q)
  obtain e b where y: "y = (e, b)" by (cases y)
  show ?case
  proof (cases "mx < Fin (ex_queuedBytes x + bytes)")
    case False
    then show ?thesis using Cons.prems by (simp add: y Let_def fits_in_def)
  next
    case True
    then show ?thesis
      using Cons.IH [of "(drop_event x)\<lparr>ex_queuedBytes := ex_queuedBytes x - b\<rparr>"] Cons.prems
      by (auto simp: y Let_def drop_event_def suffix_Cons)
  qed
qed

text \<open>An offer drops, evicts or enters at the tail, and starts the drain loop when it rests.\<close>

lemma export_event_ok:
  assumes cb: "callbacks_return opts" and q: "queue_ok opts x" and br: "breaker_ok x"
  shows "queue_ok opts (export_event opts now e x) \<and> breaker_ok (export_event opts now e x) \<and>
    settled_count (export_event opts now e x) = Suc (settled_count x) \<and>
    subseq (sent_by x (export_event opts now e x) @ map fst (ex_queue (export_event opts now e x))) (map fst (ex_queue x) @ [e])"
proof -
  obtain bytes where b: "eo_estimate opts e = Some bytes" "0 \<le> bytes" using cb by (auto simp: callbacks_return_def)
  show ?thesis
  proof (cases "eo_maxItems opts < Fin 1 \<or> eo_maxBytes opts < Fin 1 \<or> eo_maxBytes opts < Fin bytes")
    case True
    then show ?thesis
      using q br by (auto simp: export_event_def b drop_event_def queue_ok_def breaker_ok_def settled_count_def sent_by_def
          split: option.splits)
  next
    case False
    define x1 where "x1 = evict_item (eo_maxItems opts) x"
    define x2 where "x2 = evict_bytes (eo_maxBytes opts) bytes x1 (ex_queue x1)"
    define x3 where "x3 = x2\<lparr>ex_queue := ex_queue x2 @ [(e, bytes)], ex_queuedBytes := ex_queuedBytes x2 + bytes\<rparr>"
    have e: "export_event opts now e x = (if ex_draining x3 then x3 else drain_step opts now (x3\<lparr>ex_draining := True\<rparr>))"
      using False by (simp add: export_event_def b x1_def x2_def x3_def Let_def)
    have s1: "queue_ok opts x1" "room_beside (length (ex_queue x1)) (eo_maxItems opts)" "settled_count x1 = settled_count x"
        "suffix (ex_queue x1) (ex_queue x)"
      using evict_item_ok [OF q] False by (auto simp: x1_def)
    have f1: "ex_state x1 = ex_state x" "ex_inflight x1 = ex_inflight x" "ex_draining x1 = ex_draining x"
        "ex_unhandled x1 = ex_unhandled x"
      by (auto simp: x1_def evict_item_def drop_event_def split: list.splits)
    have s2: "ex_queuedBytes x2 = sum_list (map snd (ex_queue x2))" "list_all (\<lambda>y. 0 \<le> snd y) (ex_queue x2)"
        "fits_in (Fin (ex_queuedBytes x2 + bytes)) (eo_maxBytes opts)" "suffix (ex_queue x2) (ex_queue x1)"
        "ex_dropped x2 + length (ex_queue x2) = ex_dropped x1 + length (ex_queue x1)"
        "ex_state x2 = ex_state x1" "ex_inflight x2 = ex_inflight x1" "ex_draining x2 = ex_draining x1"
        "ex_unhandled x2 = ex_unhandled x1" "ex_exported x2 = ex_exported x1"
      using evict_bytes_ok [of x1 "ex_queue x1" "eo_maxBytes opts" bytes] s1(1) False
      by (auto simp: x2_def queue_ok_def Let_def)
    have len: "length (ex_queue x2) \<le> length (ex_queue x1)" using s2(4) by (auto simp: suffix_def)
    have q3: "queue_ok opts x3"
      using s2(1,2,3) b(2) room_beside_mono [OF s1(2) len] by (simp add: queue_ok_def x3_def)
    have c3: "settled_count x3 = Suc (settled_count x)" using s2(5,7,10) s1(3) by (simp add: settled_count_def x3_def)
    have "suffix (ex_queue x2) (ex_queue x)" using s2(4) s1(4) by (rule suffix_order.trans)
    then have "subseq (map fst (ex_queue x2)) (map fst (ex_queue x))" by (intro subseq_map suffix_imp_subseq)
    then have sub: "subseq (map fst (ex_queue x3)) (map fst (ex_queue x) @ [e])" by (simp add: x3_def)
    have f3: "ex_state x3 = ex_state x" "ex_inflight x3 = ex_inflight x" "ex_draining x3 = ex_draining x"
        "ex_unhandled x3 = ex_unhandled x"
      by (simp_all add: x3_def s2 f1)
    show ?thesis
    proof (cases "ex_draining x")
      case True
      then show ?thesis using q3 c3 sub br f3 by (auto simp: e breaker_ok_def sent_by_def split: option.splits)
    next
      case False
      define x4 where "x4 = x3\<lparr>ex_draining := True\<rparr>"
      have "ex_inflight x = None" "ex_state x \<noteq> ExHalfOpen" "ex_unhandled x = 0" using br False by (auto simp: breaker_ok_def)
      then have "queue_ok opts (drain_step opts now x4) \<and> breaker_ok (drain_step opts now x4) \<and>
          settled_count (drain_step opts now x4) = settled_count x4 \<and>
          subseq (sent_by x4 (drain_step opts now x4) @ map fst (ex_queue (drain_step opts now x4))) (map fst (ex_queue x4))"
        using cb q3 f3 queue_ok_cong [of x4 x3 opts] by (intro drain_step_ok) (simp_all add: x4_def)
      moreover have "settled_count x4 = settled_count x3" "ex_queue x4 = ex_queue x3"
        by (simp_all add: x4_def settled_count_def)
      moreover have "sent_by x4 = sent_by x" by (auto simp: fun_eq_iff sent_by_def x4_def f3 split: option.splits)
      ultimately show ?thesis using False f3 c3 sub by (auto simp: e x4_def intro: subseq_order.trans)
    qed
  qed
qed

lemma subseq_replace: "subseq (s @ q) offered \<Longrightarrow> subseq q' q \<Longrightarrow> subseq (s @ q') offered"
  by (rule subseq_order.trans [of _ "s @ q"]) (auto intro: list_emb_append_mono)

lemma export_inv_init: "export_inv opts no_exports"
  by (simp add: export_inv_def no_exports_def createExporterCircuitBreaker_def queue_ok_def breaker_ok_def books_ok_def
      settled_count_def)

lemma export_inv_step:
  assumes cb: "callbacks_return opts" and inv: "export_inv opts w" and step: "export_step opts w w'"
  shows "export_inv opts w'"
  using step
proof cases
  case (offer e now)
  have "subseq (xw_sent w @ (map fst (ex_queue (xw_exporter w)) @ [e])) (xw_offered w @ [e])"
    using inv by (simp add: export_inv_def books_ok_def flip: append_assoc)
  then show ?thesis
    using export_event_ok [OF cb, of "xw_exporter w" now e] inv
    by (auto simp: offer export_inv_def books_ok_def run_exporter_def elim: subseq_replace)
next
  case drop_one
  then show ?thesis
    using inv by (auto simp: export_inv_def books_ok_def queue_ok_def breaker_ok_def settled_count_def drop_event_def)
next
  case (round now)
  then have "ex_state (xw_exporter w) \<noteq> ExHalfOpen" "ex_unhandled (xw_exporter w) = 0"
    using inv by (auto simp: export_inv_def breaker_ok_def)
  then show ?thesis
    using drain_step_ok [OF cb, of "xw_exporter w" now] inv round
    by (auto simp: export_inv_def books_ok_def run_exporter_def elim: subseq_replace)
next
  case (settled now ok)
  then obtain e where e: "ex_inflight (xw_exporter w) = Some e" by auto
  show ?thesis
    using settle_export_ok [OF cb _ e, of now ok] inv settled(1)
    by (auto simp: export_inv_def books_ok_def run_exporter_def sent_by_def queue_ok_def)
qed

text \<open>The steps with a listener and an estimate that return.\<close>

definition calm_step :: "'e export_opts \<Rightarrow> 'e export_world \<Rightarrow> 'e export_world \<Rightarrow> bool" where
  "calm_step opts w w' \<longleftrightarrow> callbacks_return opts \<and> export_step opts w w'"

interpretation exports: invariant_system "\<lambda>w. w = no_exports" "calm_step opts" "export_inv opts" for opts
  by unfold_locales (auto simp: calm_step_def intro: export_inv_init export_inv_step)

lemma calm_reachable:
  assumes "callbacks_return opts" and "reachable (\<lambda>w. w = no_exports) (export_step opts) w"
  shows "export_inv opts w"
proof -
  have "calm_step opts = export_step opts" using assms(1) by (simp add: fun_eq_iff calm_step_def)
  then show ?thesis using exports.reachable_inv [of opts w] assms(2) by simp
qed

text \<open>
  C10: Every event offered to the export queue of a telemetry attachment, and every one dropped before it,
  is counted exactly once: as exported or dropped, or it is still queued or in flight. Events reach
  the exporter in the order they were offered and none twice. The queue never holds more entries or
  bytes than its limits, a half-open breaker has exactly one probe in flight, an open one has none,
  work is never left behind by a resting drain loop, and no promise of the queue is rejected.
\<close>

theorem export_accounting:
  fixes w :: "'e export_world"
  defines "x \<equiv> xw_exporter w"
  assumes "callbacks_return opts" and "reachable (\<lambda>w. w = no_exports) (export_step opts) w"
  shows "ex_exported x + ex_dropped x + length (ex_queue x) + (case ex_inflight x of None \<Rightarrow> 0 | Some _ \<Rightarrow> 1)
           = length (xw_offered w) + xw_drops w \<and>
         subseq (xw_sent w @ map fst (ex_queue x)) (xw_offered w) \<and>
         (ex_queue x = [] \<or> room_beside (length (ex_queue x) - 1) (eo_maxItems opts)) \<and>
         ex_queuedBytes x = (\<Sum>y\<leftarrow>ex_queue x. snd y) \<and> (ex_queue x = [] \<or> fits_in (Fin (ex_queuedBytes x)) (eo_maxBytes opts)) \<and>
         (case ex_state x of ExHalfOpen \<Rightarrow> ex_inflight x \<noteq> None | ExOpen \<Rightarrow> ex_inflight x = None | ExClosed \<Rightarrow> True) \<and>
         (ex_draining x \<or> ex_queue x = [] \<and> ex_inflight x = None) \<and> ex_unhandled x = 0"
  using calm_reachable [OF assms(2,3)]
  by (auto simp: export_inv_def queue_ok_def breaker_ok_def books_ok_def settled_count_def x_def
      split: option.splits export_state.splits)

definition demo_opts :: "nat export_opts" where
  "demo_opts = default_export_opts (\<lambda>_. 10)"

definition demo_world :: "nat export_world" where
  "demo_world =
     (let x1 = export_event demo_opts 0 1 createExporterCircuitBreaker; x2 = export_event demo_opts 1 2 x1; x3 = settle_export demo_opts 2 True x2
      in \<lparr>xw_exporter = drain_step demo_opts 3 x3, xw_offered = [1, 2], xw_sent = [1, 2], xw_drops = 0\<rparr>)"

lemmas demo_export_defs = demo_world_def demo_opts_def default_export_opts_def export_event_def drain_step_def settle_export_def
  createExporterCircuitBreaker_def run_exporter_def sent_by_def evict_item_def no_exports_def less_jsnum_def Let_def

lemma demo_world_reachable: "reachable (\<lambda>w. w = no_exports) (export_step demo_opts) demo_world"
proof -
  let ?run = "reachable (\<lambda>w. w = no_exports) (export_step demo_opts)"
  let ?w1 = "(run_exporter (export_event demo_opts 0 1 (xw_exporter no_exports)) no_exports)\<lparr>xw_offered := xw_offered no_exports @ [1]\<rparr>"
  let ?w2 = "(run_exporter (export_event demo_opts 1 2 (xw_exporter ?w1)) ?w1)\<lparr>xw_offered := xw_offered ?w1 @ [2]\<rparr>"
  let ?w3 = "run_exporter (settle_export demo_opts 2 True (xw_exporter ?w2)) ?w2"
  let ?w4 = "run_exporter (drain_step demo_opts 3 (xw_exporter ?w3)) ?w3"
  have "?run no_exports" by (rule reach_init) simp
  then have "?run ?w1" by (rule reach_step) (rule export_step.offer)
  then have "?run ?w2" by (rule reach_step) (rule export_step.offer)
  then have "?run ?w3" by (rule reach_step) (rule export_step.settled, simp add: demo_export_defs)
  then have "?run ?w4" by (rule reach_step) (rule export_step.round, simp_all add: demo_export_defs)
  moreover have "?w4 = demo_world" by (simp add: demo_export_defs)
  ultimately show ?thesis by simp
qed

theorem export_accounting_witness:
  "ex_exported (xw_exporter demo_world) = 1 \<and> ex_inflight (xw_exporter demo_world) = Some 2 \<and>
   subseq (xw_sent demo_world @ map fst (ex_queue (xw_exporter demo_world))) (xw_offered demo_world)"
proof -
  have "callbacks_return demo_opts" by (simp add: callbacks_return_def demo_opts_def default_export_opts_def)
  then have "subseq (xw_sent demo_world @ map fst (ex_queue (xw_exporter demo_world))) (xw_offered demo_world)"
    using export_accounting [of demo_opts demo_world] demo_world_reachable by blast
  moreover have "ex_exported (xw_exporter demo_world) = 1" "ex_inflight (xw_exporter demo_world) = Some 2"
    by (simp_all add: demo_export_defs)
  ultimately show ?thesis by blast
qed

section \<open>A listener that throws\<close>

text \<open>
  The listener of state changes runs inside the drain loop and is not guarded. When it throws on the
  way to the open state, the loop ends with a rejection that nobody handles, and the end of the open
  period is never set, so the breaker does not hold back the next event. When it throws on the way
  back to the closed state, the exported event is counted as dropped too.
\<close>

lemma throwing_listener_rejects:
  assumes "\<And>c. \<not> eo_onStateChange opts c" and "ex_state x = ExClosed" and "eo_failureThreshold opts \<le> Fin (of_nat (ex_failures x + 1))"
  shows "ex_unhandled (settle_export opts now False x) = ex_unhandled x + 1 \<and> \<not> ex_draining (settle_export opts now False x) \<and>
    ex_state (settle_export opts now False x) = ExOpen \<and> ex_openedUntil (settle_export opts now False x) = ex_openedUntil x"
  using assms by (auto simp: settle_export_def fail_export_def drop_event_def drain_throws_def transition_def Let_def)

lemma throwing_listener_counts_twice:
  assumes "\<And>c. \<not> eo_onStateChange opts c" and "ex_state x = ExHalfOpen"
  shows "ex_exported (settle_export opts now True x) = ex_exported x + 1 \<and>
    ex_dropped (settle_export opts now True x) = ex_dropped x + 1"
  using assms by (auto simp: settle_export_def fail_export_def drop_event_def drain_throws_def transition_def Let_def)

section \<open>Summaries and metrics\<close>

text \<open>A summary is stored under its scope; unless it says errored, nothing failed in that scope.\<close>

definition summaries_ok :: "summary_state \<Rightarrow> bool" where
  "summaries_ok st \<longleftrightarrow> (\<forall>s m. ss_summaries st s = Some m \<longrightarrow>
     sm_scopeId m = s \<and> (sm_outcome m = Errored \<or> sm_failed m = 0 \<and> sm_cleanupFailed m = 0))"

lemma count_event_scope [simp]: "sm_scopeId (count_event e m) = sm_scopeId m"
  by (cases e) auto

lemma count_event_ok:
  "sm_outcome m = Errored \<or> sm_failed m = 0 \<and> sm_cleanupFailed m = 0 \<Longrightarrow>
   sm_outcome (count_event e m) = Errored \<or> sm_failed (count_event e m) = 0 \<and> sm_cleanupFailed (count_event e m) = 0"
  by (cases e) auto

lemma ingestSummaryEvent_ok:
  assumes "summaries_ok st"
  shows "summaries_ok (ingestSummaryEvent dropped e st)"
proof (cases "\<exists>s p a. e = ScopeOpened s p a")
  case True
  then show ?thesis using assms by (fastforce simp: ingestSummaryEvent_def summaries_ok_def new_summary_def split: if_splits)
next
  case False
  define st1 where "st1 = (case e of TaskStarted t s _ _ _ \<Rightarrow> st\<lparr>ss_owners := (ss_owners st)(t \<mapsto> s)\<rparr> | _ \<Rightarrow> st)"
  have st1: "ss_summaries st1 = ss_summaries st" by (simp add: st1_def split: task_event.splits)
  have e: "ingestSummaryEvent dropped e st =
      (case findEventSummary st1 e of None \<Rightarrow> st1
       | Some m \<Rightarrow> st1\<lparr>ss_summaries := (ss_summaries st1)(sm_scopeId m \<mapsto>
           count_event e (m\<lparr>sm_dropped := max (sm_dropped m) dropped\<rparr>))\<rparr>)"
    using False unfolding st1_def ingestSummaryEvent_def by (cases e; hypsubst) (simp_all only: task_event.case Let_def, blast+)
  show ?thesis
  proof (cases "findEventSummary st1 e")
    case None
    then show ?thesis using assms by (simp add: e summaries_ok_def st1)
  next
    case (Some m)
    then have "sm_outcome m = Errored \<or> sm_failed m = 0 \<and> sm_cleanupFailed m = 0"
      using assms st1 by (auto simp: findEventSummary_def summaries_ok_def bind_eq_Some_conv)
    then show ?thesis
      using assms count_event_ok [of "m\<lparr>sm_dropped := max (sm_dropped m) dropped\<rparr>" e]
      by (simp add: e Some summaries_ok_def st1)
  qed
qed

lemma completed_summary_is_clean:
  assumes "ss_summaries (fold (ingestSummaryEvent dropped) evs \<lparr>ss_summaries = Map.empty, ss_owners = Map.empty\<rparr>) s = Some m"
    and "sm_outcome m \<noteq> Errored"
  shows "sm_scopeId m = s \<and> sm_failed m = 0 \<and> sm_cleanupFailed m = 0"
proof -
  have "summaries_ok (fold (ingestSummaryEvent dropped) evs st)" if "summaries_ok st" for st
    using that by (induction evs arbitrary: st) (auto intro: ingestSummaryEvent_ok)
  from this [of "\<lparr>ss_summaries = Map.empty, ss_owners = Map.empty\<rparr>"]
  have "summaries_ok (fold (ingestSummaryEvent dropped) evs \<lparr>ss_summaries = Map.empty, ss_owners = Map.empty\<rparr>)"
    by (simp add: summaries_ok_def)
  with assms show ?thesis unfolding summaries_ok_def by blast
qed

lemma check_label_Inr:
  "check_label allowed (key, v) = Inr () \<longleftrightarrow>
     key \<notin> set FORBIDDEN_LABELS \<and> \<not> ends_with ''Id'' key \<and> (\<forall>ks. allowed = Some ks \<longrightarrow> key \<in> set ks) \<and>
     (\<forall>s. v = LStr s \<longrightarrow> length s \<le> 64) \<and> (key = ''taskKind'' \<longrightarrow> v \<in> LStr ` {''io'', ''llm'', ''tool'', ''cpu'', ''custom''})"
  by (auto simp: check_label_def split: option.splits label_value.splits)

lemma metric_reaches_exporter:
  assumes "createCardinalitySafeMetricExporter exporter allowed m = Inr ()"
  shows "exporter m = Inr () \<and> metric_name (mp_name m) \<and> is_finite (mp_value m) \<and>
    (\<forall>(key, v) \<in> set (or_default (mp_labels m) []). check_label allowed (key, v) = Inr ())"
proof -
  obtain us where "exporter m = Inr ()" "metric_name (mp_name m)" "is_finite (mp_value m)"
    and l: "list_all2 (\<lambda>x y. check_label allowed x = Inr y) (or_default (mp_labels m) []) us"
    using assms by (auto simp: createCardinalitySafeMetricExporter_def validateMetric_def res_simps map_sum_Inr split: if_splits)
  moreover have "check_label allowed x = Inr ()" if "x \<in> set (or_default (mp_labels m) [])" for x
    using l that by (induction rule: list_all2_induct) auto
  ultimately show ?thesis by blast
qed

end
