(* ===== verification/Worker.thy ===== *)
theory Worker
  imports Replay Exporter
begin

text \<open>
  Worker offload, \<open>packages/core/src/worker\<close>: the check of the module reference (\<open>module-url.ts\<close>), the check
  of the input, the promise of one offloaded call (\<open>index.ts\<close>) and the runner in the thread
  (\<open>runner.ts\<close>).

  The thread itself, the URL parser, the module loader and the structured clone of a result belong to
  the platform and are arguments. Objects live in a store, because the check of the input follows
  references and may meet a cycle; \<open>show\<close> is the text \<open>String(v)\<close> of a thrown value. Stack traces are
  left out. The depth of the recursion is the fuel of \<open>check_value\<close>.
\<close>

section \<open>Module references\<close>

datatype module_ref = PathRef string | UrlRef string string \<comment> \<open>a \<open>URL\<close> object: \<open>href\<close> and \<open>protocol\<close>\<close>

definition js_space :: "char \<Rightarrow> bool" where
  "js_space c \<longleftrightarrow> (let n = of_char c :: nat in 9 \<le> n \<and> n \<le> 13 \<or> n = 32 \<or> n = 160)"

fun split_segments :: "string \<Rightarrow> string list" where
  "split_segments [] = [[]]"
| "split_segments (c # cs) =
     (if c \<in> {CHR ''/'', CHR 92} then [] # split_segments cs
      else case split_segments cs of [] \<Rightarrow> [[c]] | s # ss \<Rightarrow> (c # s) # ss)"

definition url_scheme :: "string \<Rightarrow> bool" where
  "url_scheme s \<longleftrightarrow>
     (case s of
        [] \<Rightarrow> False
      | c # cs \<Rightarrow> letter c \<and>
          (case dropWhile (\<lambda>d. letter d \<or> is_digit d \<or> d \<in> {CHR ''+'', CHR ''.'', CHR ''-''}) cs of
             [] \<Rightarrow> False
           | d # _ \<Rightarrow> d = CHR '':''))"

definition windows_drive_path :: "string \<Rightarrow> bool" where
  "windows_drive_path s \<longleftrightarrow> (case s of c # d # e # _ \<Rightarrow> letter c \<and> d = CHR '':'' \<and> e \<in> {CHR ''/'', CHR 92} | _ \<Rightarrow> False)"

definition assertAllowedProtocol :: "string \<Rightarrow> err + unit" where
  "assertAllowedProtocol protocol =
     (if protocol \<noteq> ''file:'' then Inl (TypeError ''Worker moduleURL must be a local file URL or path'') else Inr ())"

definition assertNoParentTraversal :: "string \<Rightarrow> err + unit" where
  "assertNoParentTraversal href =
     (if ''..'' \<in> set (split_segments href) then Inl (TypeError ''Worker moduleURL must not contain parent directory segments'')
      else Inr ())"

fun ref_href :: "module_ref \<Rightarrow> string" where
  "ref_href (PathRef s) = s"
| "ref_href (UrlRef href _) = href"

definition normalizeWorkerModuleURL :: "(string \<Rightarrow> err + string) \<Rightarrow> module_ref \<Rightarrow> err + string" where
  "normalizeWorkerModuleURL url_protocol ref =
     (if list_all js_space (ref_href ref) then Inl (TypeError ''Worker moduleURL must not be empty'')
      else bind_res (assertNoParentTraversal (ref_href ref)) (\<lambda>_.
        case ref of
          UrlRef href protocol \<Rightarrow> bind_res (assertAllowedProtocol protocol) (\<lambda>_. Inr href)
        | PathRef href \<Rightarrow>
            if url_scheme href \<and> \<not> windows_drive_path href
            then bind_res (url_protocol href) (\<lambda>p. bind_res (assertAllowedProtocol p) (\<lambda>_. Inr href))
            else Inr href))"

section \<open>The input\<close>

text \<open>A value, and an object by the first test of the code it passes: \<open>OOther\<close> passes none.\<close>

datatype cval = CPrim | CSymbol | CFunction | CRef nat

datatype cobj =
    OBuiltIn
  | OArray "cval list"
  | OMap "(cval \<times> cval) list"
  | OSet "cval list"
  | OPlain "cval list"
  | OOther

type_synonym cstore = "cobj list"

abbreviation not_plain :: err where
  "not_plain \<equiv> TypeError ''Worker offload input must be plain structured-clone data''"

fun object_items :: "cobj \<Rightarrow> cval list option" where
  "object_items OBuiltIn = Some []"
| "object_items (OArray vs) = Some vs"
| "object_items (OMap ps) = Some (concat (map (\<lambda>(k, v). [k, v]) ps))"
| "object_items (OSet vs) = Some vs"
| "object_items (OPlain vs) = Some vs"
| "object_items OOther = None"

text \<open>\<open>None\<close> stands for a stack that overflows; otherwise the addresses seen, or the error thrown.\<close>

fun check_value :: "cstore \<Rightarrow> nat \<Rightarrow> cval \<Rightarrow> nat list \<Rightarrow> (err + nat list) option"
and check_items :: "cstore \<Rightarrow> nat \<Rightarrow> cval list \<Rightarrow> nat list \<Rightarrow> (err + nat list) option" where
  "check_value h n CPrim seen = Some (Inr seen)"
| "check_value h n CSymbol seen = Some (Inl not_plain)"
| "check_value h n CFunction seen = Some (Inl not_plain)"
| "check_value h n (CRef a) seen =
     (if a \<in> set seen then Some (Inr seen)
      else case n of
        0 \<Rightarrow> None
      | Suc m \<Rightarrow> (case object_items (h ! a) of None \<Rightarrow> Some (Inl not_plain) | Some vs \<Rightarrow> check_items h m vs (a # seen)))"
| "check_items h n [] seen = Some (Inr seen)"
| "check_items h n (v # vs) seen =
     (case check_value h n v seen of Some (Inr seen') \<Rightarrow> check_items h n vs seen' | r \<Rightarrow> r)"

definition assertPlainStructuredCloneData :: "cstore \<Rightarrow> cval \<Rightarrow> err + unit" where
  "assertPlainStructuredCloneData h v =
     (case check_value h (length h) v [] of
        None \<Rightarrow> Inl (RangeError ''Maximum call stack size exceeded'')
      | Some r \<Rightarrow> map_sum id (\<lambda>_. ()) r)"

section \<open>The promise of an offloaded call\<close>

text \<open>What \<open>offload\<close> checks at once; the task function it returns holds the module and the timeout.\<close>

definition offload :: "(string \<Rightarrow> err + string) \<Rightarrow> cstore \<Rightarrow> module_ref \<Rightarrow> cval \<Rightarrow> duration option \<Rightarrow> err + string \<times> rat option" where
  "offload url_protocol h ref input timeout =
     bind_res (normalizeWorkerModuleURL url_protocol ref) (\<lambda>href.
     bind_res (assertPlainStructuredCloneData h input) (\<lambda>_.
       case timeout of
         None \<Rightarrow> Inr (href, None)
       | Some d \<Rightarrow> bind_res (parseDuration d) (\<lambda>ms. Inr (href, Some ms))))"

record serialized_error =
  se_name :: "string option"
  se_message :: string

datatype 'r worker_reply = ReplyOk 'r | ReplyFailed "serialized_error option"

definition toError :: "serialized_error option \<Rightarrow> err" where
  "toError e = (case e of
     None \<Rightarrow> JsError ''WorkerTaskError'' ''Worker task failed''
   | Some s \<Rightarrow> JsError (or_default (se_name s) ''WorkerTaskError'') (se_message s))"

datatype 'r worker_event = OnAbort err | OnTimeout | OnMessage "'r worker_reply" | OnError err | OnExit int

record 'r offload_call =
  oc_spawned :: bool
  oc_settled :: "(err + 'r) option"
  oc_listening :: bool
  oc_timer :: bool
  oc_terminated :: bool

definition start_call :: "rat option \<Rightarrow> err option \<Rightarrow> 'r offload_call" where
  "start_call timeoutMs aborted =
     (case aborted of
        Some e \<Rightarrow> \<lparr>oc_spawned = False, oc_settled = Some (Inl e), oc_listening = False, oc_timer = False, oc_terminated = False\<rparr>
      | None \<Rightarrow> \<lparr>oc_spawned = True, oc_settled = None, oc_listening = True, oc_timer = timeoutMs \<noteq> None, oc_terminated = False\<rparr>)"

definition settle_offload :: "bool \<Rightarrow> err + 'r \<Rightarrow> 'r offload_call \<Rightarrow> 'r offload_call" where
  "settle_offload terminate r c =
     (case oc_settled c of
        Some _ \<Rightarrow> c
      | None \<Rightarrow> c\<lparr>oc_settled := Some r, oc_listening := False, oc_timer := False, oc_terminated := oc_terminated c \<or> terminate\<rparr>)"

fun on_event :: "rat option \<Rightarrow> 'r worker_event \<Rightarrow> 'r offload_call \<Rightarrow> 'r offload_call" where
  "on_event timeoutMs (OnAbort e) c = (if oc_listening c then settle_offload True (Inl e) c else c)"
| "on_event timeoutMs OnTimeout c =
     (case timeoutMs of Some ms \<Rightarrow> if oc_timer c then settle_offload True (Inl (TimeoutError ms)) c else c | None \<Rightarrow> c)"
| "on_event timeoutMs (OnMessage (ReplyOk v)) c = (if oc_listening c then settle_offload False (Inr v) c else c)"
| "on_event timeoutMs (OnMessage (ReplyFailed e)) c = (if oc_listening c then settle_offload False (Inl (toError e)) c else c)"
| "on_event timeoutMs (OnError e) c = (if oc_listening c then settle_offload False (Inl e) c else c)"
| "on_event timeoutMs (OnExit code) c =
     (if oc_listening c \<and> code \<noteq> 0 then settle_offload False (Inl (PlainError ''Worker stopped with exit code'')) c else c)"

section \<open>The runner\<close>

datatype ('i, 'r) export = ExportFun "'i \<Rightarrow> err + 'r" | ExportOther

fun error_name :: "err \<Rightarrow> string option" where
  "error_name (Thrown (VErr n _)) = Some n"
| "error_name (Thrown _) = None"
| "error_name e = Some (er_name (normalizeError (\<lambda>_. []) e))"

fun errorMessage :: "(jsval \<Rightarrow> string) \<Rightarrow> err \<Rightarrow> string" where
  "errorMessage show (Thrown (VErr _ m)) = m"
| "errorMessage show (Thrown v) = show v"
| "errorMessage show e = er_message (normalizeError show e)"

definition serializeError :: "(jsval \<Rightarrow> string) \<Rightarrow> err \<Rightarrow> serialized_error" where
  "serializeError show e = \<lparr>se_name = error_name e, se_message = errorMessage show e\<rparr>"

definition runner :: "(string \<Rightarrow> err + string) \<Rightarrow> (string \<Rightarrow> err + (string \<rightharpoonup> ('i, 'r) export)) \<Rightarrow> ('r \<Rightarrow> err + 'r) \<Rightarrow>
    (jsval \<Rightarrow> string) \<Rightarrow> string \<Rightarrow> string \<Rightarrow> 'i \<Rightarrow> 'r worker_reply" where
  "runner url_protocol import_module clone show moduleURL exportName input =
     (case bind_res (normalizeWorkerModuleURL url_protocol (PathRef moduleURL)) (\<lambda>href.
           bind_res (import_module href) (\<lambda>exports.
             case exports exportName of
               Some (ExportFun f) \<Rightarrow> bind_res (f input) clone
             | _ \<Rightarrow> Inl (TypeError ''Worker export is not a function'')))
      of Inr v \<Rightarrow> ReplyOk v
       | Inl e \<Rightarrow> ReplyFailed (Some (serializeError show e)))"

end
