(* ===== verification/Worker_Props.thy ===== *)
theory Worker_Props
  imports Worker
begin

text \<open>
  What the worker boundary guarantees (\<open>Worker\<close>): the check of the input accepts exactly the values
  from which only plain data is reachable, whatever cycles the objects form; the promise of a call is
  settled by the first event that settles it and leaves no listener or timer; a module reference the
  caller's side accepts is accepted by the runner; an error crosses the boundary with its name and
  message. Where the code does less than its comments say, a lemma shows the case.
\<close>

section \<open>The input\<close>

inductive reaches :: "cstore \<Rightarrow> cval \<Rightarrow> cval \<Rightarrow> bool" for h v where
  reaches_self: "reaches h v v"
| reaches_item: "reaches h v (CRef a) \<Longrightarrow> object_items (h ! a) = Some ws \<Longrightarrow> w \<in> set ws \<Longrightarrow> reaches h v w"

fun plain_value :: "cstore \<Rightarrow> cval \<Rightarrow> bool" where
  "plain_value h CPrim \<longleftrightarrow> True"
| "plain_value h (CRef a) \<longleftrightarrow> object_items (h ! a) \<noteq> None"
| "plain_value h _ \<longleftrightarrow> False"

text \<open>References stay inside the store.\<close>

fun in_store :: "cstore \<Rightarrow> cval \<Rightarrow> bool" where
  "in_store h (CRef a) \<longleftrightarrow> a < length h"
| "in_store h _ \<longleftrightarrow> True"

definition store_ok :: "cstore \<Rightarrow> bool" where
  "store_ok h \<longleftrightarrow> (\<forall>ob \<in> set h. \<forall>vs. object_items ob = Some vs \<longrightarrow> list_all (in_store h) vs)"

definition unseen :: "cstore \<Rightarrow> nat list \<Rightarrow> nat" where
  "unseen h seen = card ({..<length h} - set seen)"

lemma unseen_Cons: "a < length h \<Longrightarrow> a \<notin> set seen \<Longrightarrow> unseen h seen = Suc (unseen h (a # seen))"
  unfolding unseen_def by (subst card_Suc_Diff1 [of _ a, symmetric]) (auto intro: arg_cong [of _ _ card])

lemma unseen_mono: "set seen \<subseteq> set seen' \<Longrightarrow> unseen h seen' \<le> unseen h seen"
  unfolding unseen_def by (intro card_mono) auto

lemma check_grows:
  "check_value h n v seen = Some (Inr seen') \<Longrightarrow> set seen \<subseteq> set seen'"
  "check_items h n vs seen = Some (Inr seen') \<Longrightarrow> set seen \<subseteq> set seen'"
  by (induction h n v seen and h n vs seen arbitrary: seen' and seen' rule: check_value_check_items.induct)
    (fastforce split: if_splits nat.splits option.splits sum.splits)+

text \<open>Each level of the recursion sees a new object, so the number of objects bounds its depth.\<close>

lemma check_returns:
  assumes "store_ok h"
  shows "in_store h v \<Longrightarrow> unseen h seen \<le> n \<Longrightarrow> check_value h n v seen \<noteq> None"
    and "list_all (in_store h) vs \<Longrightarrow> unseen h seen \<le> n \<Longrightarrow> check_items h n vs seen \<noteq> None"
  using assms
proof (induction h n v seen and h n vs seen rule: check_value_check_items.induct)
  case (4 h n a seen)
  show ?case
  proof (cases "a \<in> set seen")
    case True
    then show ?thesis by simp
  next
    case False
    have u: "unseen h seen = Suc (unseen h (a # seen))" using False 4 by (intro unseen_Cons) auto
    then obtain m where m: "n = Suc m" "unseen h (a # seen) \<le> m" using 4 by (cases n) auto
    have "list_all (in_store h) vs" if "object_items (h ! a) = Some vs" for vs
      using \<open>store_ok h\<close> that \<open>in_store h (CRef a)\<close> unfolding store_ok_def by (metis in_store.simps(1) nth_mem)
    then show ?thesis using False 4 m by (cases "object_items (h ! a)") auto
  qed
next
  case (6 h n v vs seen)
  show ?case
  proof (cases "check_value h n v seen")
    case None
    then show ?thesis using 6 by simp
  next
    case (Some r)
    show ?thesis
    proof (cases r)
      case (Inl e)
      then show ?thesis using Some by simp
    next
      case (Inr seen')
      then have "unseen h seen' \<le> n" using 6 Some unseen_mono [OF check_grows(1)] by (meson le_trans)
      then show ?thesis using 6 Some Inr by simp
    qed
  qed
qed auto

text \<open>An error points to a value that is not plain.\<close>

lemma check_error:
  "check_value h n v seen = Some (Inl e) \<Longrightarrow> e = not_plain \<and> (\<exists>w. reaches h v w \<and> \<not> plain_value h w)"
  "check_items h n vs seen = Some (Inl e) \<Longrightarrow> e = not_plain \<and> (\<exists>v \<in> set vs. \<exists>w. reaches h v w \<and> \<not> plain_value h w)"
proof (induction h n v seen and h n vs seen arbitrary: e and e rule: check_value_check_items.induct)
  case (4 h n a seen)
  show ?case
  proof (cases "object_items (h ! a)")
    case None
    then have "reaches h (CRef a) (CRef a) \<and> \<not> plain_value h (CRef a)" by (simp add: reaches_self)
    then show ?thesis using 4 None by (auto split: if_splits nat.splits)
  next
    case (Some vs)
    then obtain m where "a \<notin> set seen" "n = Suc m" "check_items h m vs (a # seen) = Some (Inl e)"
      using 4 by (auto split: if_splits nat.splits)
    then obtain v w where "e = not_plain" "v \<in> set vs" "reaches h v w" "\<not> plain_value h w" using 4 Some by blast
    moreover have "reaches h (CRef a) w"
      using \<open>reaches h v w\<close> by induction (auto intro: reaches.intros Some \<open>v \<in> set vs\<close>)
    ultimately show ?thesis by blast
  qed
next
  case (6 h n v vs seen)
  then show ?case by (auto split: option.splits sum.splits)
qed (auto intro: reaches_self exI [of _ CSymbol] exI [of _ CFunction])

text \<open>What the walk has seen is plain, and the items of what it saw on the way are seen too.\<close>

definition walked :: "cstore \<Rightarrow> nat list \<Rightarrow> cval \<Rightarrow> bool" where
  "walked h seen v \<longleftrightarrow> (case v of CPrim \<Rightarrow> True | CRef a \<Rightarrow> a \<in> set seen | _ \<Rightarrow> False)"

definition closed_from :: "cstore \<Rightarrow> nat list \<Rightarrow> nat list \<Rightarrow> bool" where
  "closed_from h seen seen' \<longleftrightarrow>
     (\<forall>a \<in> set seen' - set seen. \<exists>vs. object_items (h ! a) = Some vs \<and> list_all (walked h seen') vs)"

lemma walked_mono: "walked h seen v \<Longrightarrow> set seen \<subseteq> set seen' \<Longrightarrow> walked h seen' v"
  by (auto simp: walked_def split: cval.splits)

lemma closed_from_trans:
  assumes "closed_from h s0 s1" and "closed_from h s1 s2" and "set s1 \<subseteq> set s2"
  shows "closed_from h s0 s2"
  unfolding closed_from_def
proof
  fix a assume a: "a \<in> set s2 - set s0"
  show "\<exists>vs. object_items (h ! a) = Some vs \<and> list_all (walked h s2) vs"
  proof (cases "a \<in> set s1")
    case True
    then obtain vs where "object_items (h ! a) = Some vs" "list_all (walked h s1) vs"
      using assms(1) a unfolding closed_from_def by blast
    then show ?thesis using walked_mono [OF _ assms(3)] by (auto simp: list_all_iff)
  next
    case False
    then show ?thesis using assms(2) a unfolding closed_from_def by blast
  qed
qed

lemma check_closes:
  "check_value h n v seen = Some (Inr seen') \<Longrightarrow> walked h seen' v \<and> closed_from h seen seen'"
  "check_items h n vs seen = Some (Inr seen') \<Longrightarrow> list_all (walked h seen') vs \<and> closed_from h seen seen'"
proof (induction h n v seen and h n vs seen arbitrary: seen' and seen' rule: check_value_check_items.induct)
  case (4 h n a seen)
  show ?case
  proof (cases "a \<in> set seen")
    case True
    then show ?thesis using 4 by (simp add: walked_def closed_from_def)
  next
    case False
    then obtain m vs where m: "n = Suc m" "object_items (h ! a) = Some vs" "check_items h m vs (a # seen) = Some (Inr seen')"
      using 4 by (auto split: if_splits nat.splits option.splits)
    then have "list_all (walked h seen') vs" "closed_from h (a # seen) seen'" using 4 False by blast+
    then show ?thesis using m check_grows(2) [OF m(3)] by (auto simp: walked_def closed_from_def)
  qed
next
  case (6 h n v vs seen)
  then obtain s where s: "check_value h n v seen = Some (Inr s)" "check_items h n vs s = Some (Inr seen')"
    by (auto split: option.splits sum.splits)
  then show ?case
    using 6 check_grows(2) [OF s(2)] closed_from_trans [of h seen s seen'] walked_mono [of h s v seen'] by auto
qed (auto simp: walked_def closed_from_def)

lemma walked_all_plain:
  assumes "closed_from h [] seen" and "walked h seen v" and "reaches h v w"
  shows "plain_value h w"
proof -
  have "walked h seen w"
    using assms(3)
  proof induction
    case reaches_self
    then show ?case by (rule assms(2))
  next
    case (reaches_item a ws w)
    then show ?case using assms(1) by (fastforce simp: closed_from_def walked_def list_all_iff)
  qed
  then show ?thesis using assms(1) by (cases w) (auto simp: walked_def closed_from_def)
qed

text \<open>
  C12: The check of a worker's input always returns, and accepts a value exactly when every value reachable
  from it, through arrays, maps, sets and plain objects and along any cycle, is a primitive, a built-in
  or a plain container; otherwise it throws its \<open>TypeError\<close>.
\<close>

theorem clone_check_exact:
  assumes "store_ok h" and "in_store h v"
  shows "assertPlainStructuredCloneData h v =
    (if \<forall>w. reaches h v w \<longrightarrow> plain_value h w then Inr () else Inl not_plain)"
proof -
  have "unseen h [] \<le> length h" by (simp add: unseen_def)
  then obtain r where r: "check_value h (length h) v [] = Some r" using check_returns(1) [OF assms, of "[]"] by blast
  show ?thesis
  proof (cases r)
    case (Inl e)
    then show ?thesis using check_error(1) [of h "length h" v "[]" e] r by (auto simp: assertPlainStructuredCloneData_def)
  next
    case (Inr seen)
    then show ?thesis
      using check_closes(1) [of h "length h" v "[]" seen] walked_all_plain [of h seen v] r
      by (auto simp: assertPlainStructuredCloneData_def)
  qed
qed

definition cyclic_store :: cstore where
  "cyclic_store = [OPlain [CPrim, CRef 1], OMap [(CPrim, CRef 0)], OOther]"

theorem clone_check_exact_witness:
  "assertPlainStructuredCloneData cyclic_store (CRef 0) = Inr () \<and> reaches cyclic_store (CRef 0) (CRef 1) \<and>
   plain_value cyclic_store (CRef 1)"
proof -
  have "store_ok cyclic_store" "in_store cyclic_store (CRef 0)" by (simp_all add: cyclic_store_def store_ok_def)
  then have "assertPlainStructuredCloneData cyclic_store (CRef 0) =
      (if \<forall>w. reaches cyclic_store (CRef 0) w \<longrightarrow> plain_value cyclic_store w then Inr () else Inl not_plain)"
    by (rule clone_check_exact)
  moreover have "assertPlainStructuredCloneData cyclic_store (CRef 0) = Inr ()" by code_simp
  moreover have "reaches cyclic_store (CRef 0) (CRef 1)"
    by (rule reaches_item [OF reaches_self, of _ _ "[CPrim, CRef 1]"]) (simp_all add: cyclic_store_def)
  ultimately show ?thesis by (auto split: if_splits)
qed

section \<open>Module references\<close>

lemma accepted_module:
  assumes "normalizeWorkerModuleURL url_protocol ref = Inr href"
  shows "href = ref_href ref \<and> \<not> list_all js_space href \<and> ''..'' \<notin> set (split_segments href) \<and>
    (case ref of
       UrlRef _ protocol \<Rightarrow> protocol = ''file:''
     | PathRef s \<Rightarrow> url_scheme s \<longrightarrow> windows_drive_path s \<or> url_protocol s = Inr ''file:'')"
  using assms
  by (auto simp: normalizeWorkerModuleURL_def assertNoParentTraversal_def assertAllowedProtocol_def res_simps
      split: if_splits module_ref.splits)

text \<open>
  The runner checks the reference again, as a text. It accepts what the caller's side accepted, since
  the protocol of the text of a \<open>URL\<close> object is the object's protocol.
\<close>

lemma runner_accepts_module:
  assumes "normalizeWorkerModuleURL url_protocol ref = Inr href"
    and "\<And>s protocol. ref = UrlRef s protocol \<Longrightarrow> url_protocol s = Inr protocol"
  shows "normalizeWorkerModuleURL url_protocol (PathRef href) = Inr href"
  using assms
  by (cases ref) (auto simp: normalizeWorkerModuleURL_def assertNoParentTraversal_def assertAllowedProtocol_def res_simps
      split: if_splits)

text \<open>
  The scheme is looked for at the first character of the text, but a URL parser skips leading blanks:
  an inline module after a blank is accepted as if it were a path, whatever the parser says. The
  segments are compared before the parser decodes them: a percent-encoded parent segment is accepted.
\<close>

lemma blank_hides_scheme:
  "normalizeWorkerModuleURL url_protocol (PathRef '' data:text/javascript,x'') = Inr '' data:text/javascript,x''"
  "normalizeWorkerModuleURL (\<lambda>_. Inr ''data:'') (PathRef ''data:text/javascript,x'') =
     Inl (TypeError ''Worker moduleURL must be a local file URL or path'')"
proof -
  have "\<not> url_scheme '' data:text/javascript,x''" "\<not> list_all js_space '' data:text/javascript,x''"
    "assertNoParentTraversal '' data:text/javascript,x'' = Inr ()" by code_simp+
  then show "normalizeWorkerModuleURL url_protocol (PathRef '' data:text/javascript,x'') = Inr '' data:text/javascript,x''"
    by (simp add: normalizeWorkerModuleURL_def)
  show "normalizeWorkerModuleURL (\<lambda>_. Inr ''data:'') (PathRef ''data:text/javascript,x'') =
      Inl (TypeError ''Worker moduleURL must be a local file URL or path'')" by code_simp
qed

lemma encoded_parent_accepted:
  "normalizeWorkerModuleURL (\<lambda>_. Inr ''file:'') (PathRef ''file:///app/%2e%2e/x.mjs'') = Inr ''file:///app/%2e%2e/x.mjs''"
  "normalizeWorkerModuleURL (\<lambda>_. Inr ''file:'') (PathRef ''file:///app/../x.mjs'') =
     Inl (TypeError ''Worker moduleURL must not contain parent directory segments'')"
  by code_simp+

text \<open>Nothing of a call is started before all three arguments are checked.\<close>

lemma offload_Inr:
  "offload url_protocol h ref input timeout = Inr (href, ms) \<longleftrightarrow>
     normalizeWorkerModuleURL url_protocol ref = Inr href \<and> assertPlainStructuredCloneData h input = Inr () \<and>
     (case timeout of None \<Rightarrow> ms = None | Some d \<Rightarrow> \<exists>t. parseDuration d = Inr t \<and> ms = Some t)"
  by (auto simp: offload_def res_simps split: option.splits)

section \<open>The promise of a call\<close>

text \<open>How an event settles a call that waits; \<open>None\<close>: it does not.\<close>

fun event_answer :: "rat option \<Rightarrow> 'r worker_event \<Rightarrow> (err + 'r) option" where
  "event_answer timeoutMs (OnAbort e) = Some (Inl e)"
| "event_answer timeoutMs OnTimeout = map_option (\<lambda>ms. Inl (TimeoutError ms)) timeoutMs"
| "event_answer timeoutMs (OnMessage (ReplyOk v)) = Some (Inr v)"
| "event_answer timeoutMs (OnMessage (ReplyFailed e)) = Some (Inl (toError e))"
| "event_answer timeoutMs (OnError e) = Some (Inl e)"
| "event_answer timeoutMs (OnExit code) = (if code = 0 then None else Some (Inl (PlainError ''Worker stopped with exit code'')))"

definition run_call :: "rat option \<Rightarrow> 'r worker_event list \<Rightarrow> 'r offload_call" where
  "run_call timeoutMs evs = fold (on_event timeoutMs) evs (start_call timeoutMs None)"

definition waiting_call :: "rat option \<Rightarrow> 'r offload_call" where
  "waiting_call timeoutMs = \<lparr>oc_spawned = True, oc_settled = None, oc_listening = True, oc_timer = timeoutMs \<noteq> None, oc_terminated = False\<rparr>"

lemma on_event_waiting:
  "on_event timeoutMs ev (waiting_call timeoutMs) =
     (case event_answer timeoutMs ev of
        None \<Rightarrow> waiting_call timeoutMs
      | Some r \<Rightarrow> \<lparr>oc_spawned = True, oc_settled = Some r, oc_listening = False, oc_timer = False,
          oc_terminated = (case ev of OnAbort _ \<Rightarrow> True | OnTimeout \<Rightarrow> True | _ \<Rightarrow> False)\<rparr>)"
proof (cases ev)
  case (OnMessage r)
  then show ?thesis by (cases r) (simp_all add: waiting_call_def settle_offload_def)
qed (auto simp: waiting_call_def settle_offload_def split: option.splits)

lemma on_event_settled:
  assumes "\<not> oc_listening c" and "\<not> oc_timer c"
  shows "on_event timeoutMs ev c = c"
proof (cases ev)
  case (OnMessage r)
  then show ?thesis using assms by (cases r) simp_all
qed (use assms in \<open>auto split: option.splits\<close>)

text \<open>The first event that can settle a call does; every later one finds no listener and no timer.\<close>

lemma offload_settles_once:
  "oc_settled (run_call timeoutMs evs) =
     (case filter (\<lambda>ev. event_answer timeoutMs ev \<noteq> None) evs of [] \<Rightarrow> None | ev # _ \<Rightarrow> event_answer timeoutMs ev) \<and>
   (oc_settled (run_call timeoutMs evs) \<noteq> None \<longrightarrow> \<not> oc_listening (run_call timeoutMs evs) \<and> \<not> oc_timer (run_call timeoutMs evs))"
proof -
  have settled: "fold (on_event timeoutMs) evs c = c" if "\<not> oc_listening c" "\<not> oc_timer c" for c :: "'a offload_call" and evs
    using that by (induction evs) (simp_all add: on_event_settled)
  have "run_call timeoutMs evs = fold (on_event timeoutMs) evs (waiting_call timeoutMs)" for evs :: "'a worker_event list"
    by (simp add: run_call_def start_call_def waiting_call_def)
  then show ?thesis
  proof (induction evs)
    case Nil
    then show ?case by (simp add: waiting_call_def)
  next
    case (Cons ev evs)
    then show ?case by (cases "event_answer timeoutMs ev") (simp_all add: on_event_waiting settled)
  qed
qed

text \<open>
  A thread that exits with code 0 before it replied, as \<open>process.exit(0)\<close> in the module does, leaves the
  promise of a call without a timeout pending for ever, unless its scope is cancelled.
\<close>

lemma clean_exit_never_settles:
  "oc_settled (run_call None [OnExit 0 :: 'r worker_event]) = None \<and> oc_listening (run_call None [OnExit 0 :: 'r worker_event])"
  by (simp add: run_call_def start_call_def)

section \<open>The runner\<close>

text \<open>An error that crosses the boundary is a plain \<open>Error\<close> with the name and message it had.\<close>

lemma error_crosses:
  "toError (Some (serializeError show e)) = JsError (or_default (error_name e) ''WorkerTaskError'') (errorMessage show e)"
  by (simp add: toError_def serializeError_def)

lemma js_error_crosses: "toError (Some (serializeError show (JsError n m))) = JsError n m"
  by (simp add: error_crosses)

text \<open>So a timeout inside the thread is no \<open>TimeoutError\<close> for the caller.\<close>

lemma timeout_crosses_as_plain_error:
  "toError (Some (serializeError show (TimeoutError ms))) = JsError ''TimeoutError'' ''Cancelled: timeout'' \<and>
   \<not> is_timeout (toError (Some (serializeError show (TimeoutError ms))))"
  by (simp add: error_crosses)

lemma runner_reply_ok:
  fixes import_module :: "string \<Rightarrow> err + (string \<rightharpoonup> ('i, 'r) export)" and input :: 'i and v :: 'r
  shows
  "runner url_protocol import_module clone show moduleURL exportName input = ReplyOk v \<longleftrightarrow>
     (\<exists>href exports f r. normalizeWorkerModuleURL url_protocol (PathRef moduleURL) = Inr href \<and> import_module href = Inr exports \<and>
        exports exportName = Some (ExportFun f) \<and> f input = Inr r \<and> clone r = Inr v)"
proof -
  have reply: "(case r of Inr v \<Rightarrow> ReplyOk v | Inl e \<Rightarrow> ReplyFailed (f e)) = ReplyOk v \<longleftrightarrow> r = Inr v"
    for r :: "err + 'r" and f and v by (cases r) auto
  have export: "(case m of Some (ExportFun f) \<Rightarrow> bind_res (f input) clone | _ \<Rightarrow> Inl e) = Inr v \<longleftrightarrow>
      (\<exists>f r. m = Some (ExportFun f) \<and> f input = Inr r \<and> clone r = Inr v)" for m :: "('i, 'r) export option" and e
  proof (cases m)
    case (Some x)
    then show ?thesis by (cases x) (auto simp: res_simps)
  qed simp
  show ?thesis unfolding runner_def reply bind_res_Inr export by blast
qed

end
