(* ===== verification/Work.thy ===== *)
theory Work
  imports Run_Groups
begin

text \<open>
  The work builder, \<open>packages/core/src/work/index.ts\<close>: its configuration, the task made for an item, the
  batch run of \<open>do\<close> and \<open>collect\<close> over \<open>run.pool\<close>, and the rate limiter. \<open>Work_Stream\<close> has the loop of \<open>stream\<close>.

  Tasks are the timed tasks of \<open>Run_Tasks\<close>. What an item's task meets outside of itself is the record
  \<open>work_env\<close>: the answer of the rate limiter to the item (\<open>limiter_wait\<close> is the limiter itself), the
  charges and random numbers of its retries, and which job runs first when a settlement and a timer
  meet. A skipped item has the value \<open>None\<close>. A handler answers \<open>Some e\<close> when it throws \<open>e\<close>. Items of an
  asynchronous source are read before the run, so \<open>do\<close> starts with a list.
\<close>

section \<open>Configuration\<close>

datatype 'v transform = TMap "'v \<Rightarrow> 'v task" | TFilter "'v \<Rightarrow> bool task" | TTap "'v \<Rightarrow> unit task"

datatype error_mode = ModeFail | ModeContinue | ModeCollect
datatype cancel_mode = CancelThrow | CancelPartial

datatype 'v item_result = DoneValue 'v | DoneCancelled cancel_reason | DoneFailed err

record 'v item_done =
  id_index :: nat
  id_item :: 'v
  id_result :: "'v item_result"

record ('v, 'p) work_progress =
  wp_index :: nat
  wp_item :: 'v
  wp_taskId :: task_id
  wp_progress :: 'p

record 'v work_config =
  wc_concurrency :: "jsnum option"
  wc_rateLimit :: "jsnum option"
  wc_retry :: "retry_arg option"
  wc_timeout :: "duration option"
  wc_deadlineAt :: "rat option"
  wc_errorMode :: "error_mode option"
  wc_cancelMode :: "cancel_mode option"
  wc_transforms :: "'v transform list"
  wc_itemDone :: "('v item_done \<Rightarrow> err option) list"

definition empty_config :: "'v work_config" where
  "empty_config = \<lparr>wc_concurrency = None, wc_rateLimit = None, wc_retry = None, wc_timeout = None, wc_deadlineAt = None,
     wc_errorMode = None, wc_cancelMode = None, wc_transforms = [], wc_itemDone = []\<rparr>"

definition inParallel :: "jsnum \<Rightarrow> 'v work_config \<Rightarrow> err + 'v work_config" where
  "inParallel n cfg =
     (if \<not> is_integer n \<or> n < Fin 1 then Inl (RangeError ''positive integer'') else Inr (cfg\<lparr>wc_concurrency := Some n\<rparr>))"

definition withRateLimit :: "jsnum \<Rightarrow> 'v work_config \<Rightarrow> err + 'v work_config" where
  "withRateLimit perSecond cfg =
     (if \<not> is_finite perSecond \<or> perSecond \<le> Fin 0 then Inl (RangeError ''positive finite'')
      else Inr (cfg\<lparr>wc_rateLimit := Some perSecond\<rparr>))"

definition add_transform :: "'v transform \<Rightarrow> 'v work_config \<Rightarrow> 'v work_config" where
  "add_transform f cfg = cfg\<lparr>wc_transforms := wc_transforms cfg @ [f]\<rparr>"

text \<open>\<open>withDeadline\<close> takes the milliseconds of a date; the handlers of \<open>onProgress\<close> are an argument of \<open>observed_report\<close>.\<close>

definition inSeries :: "'v work_config \<Rightarrow> err + 'v work_config" where
  "inSeries = inParallel (Fin 1)"

definition withConcurrencyLimit :: "jsnum \<Rightarrow> 'v work_config \<Rightarrow> err + 'v work_config" where
  "withConcurrencyLimit n = inParallel n"

definition withRetry :: "retry_arg \<Rightarrow> 'v work_config \<Rightarrow> 'v work_config" where
  "withRetry opts cfg = cfg\<lparr>wc_retry := Some opts\<rparr>"

definition withTimeout :: "duration \<Rightarrow> 'v work_config \<Rightarrow> 'v work_config" where
  "withTimeout d cfg = cfg\<lparr>wc_timeout := Some d\<rparr>"

definition withDeadline :: "rat \<Rightarrow> 'v work_config \<Rightarrow> 'v work_config" where
  "withDeadline ta cfg = cfg\<lparr>wc_deadlineAt := Some ta\<rparr>"

definition work_onError :: "error_mode \<Rightarrow> 'v work_config \<Rightarrow> 'v work_config" where
  "work_onError strategy cfg = cfg\<lparr>wc_errorMode := Some strategy\<rparr>"

definition work_onCancel :: "cancel_mode \<Rightarrow> 'v work_config \<Rightarrow> 'v work_config" where
  "work_onCancel strategy cfg = cfg\<lparr>wc_cancelMode := Some strategy\<rparr>"

definition onItemDone :: "('v item_done \<Rightarrow> err option) \<Rightarrow> 'v work_config \<Rightarrow> 'v work_config" where
  "onItemDone handler cfg = cfg\<lparr>wc_itemDone := wc_itemDone cfg @ [handler]\<rparr>"

section \<open>The task of an item\<close>

record work_env =
  we_wait :: "nat \<Rightarrow> signal \<Rightarrow> rat \<Rightarrow> rat \<times> (err + unit)"
  we_charge :: "nat \<Rightarrow> nat \<Rightarrow> err option"
  we_random :: "nat \<Rightarrow> nat \<Rightarrow> rat"
  we_timer_first :: bool
  we_first_id :: nat

text \<open>\<open>await\<close> on a task and the rest of the function.\<close>

definition await_task :: "'a outcome \<times> run_log \<Rightarrow> ('a \<Rightarrow> rat \<Rightarrow> 'b outcome \<times> run_log) \<Rightarrow> 'b outcome \<times> run_log" where
  "await_task r k =
     (case r of
        (Some (t, Inr v), lg) \<Rightarrow> (let (res, lg2) = k v t in (res, lg @ lg2))
      | (Some (t, Inl e), lg) \<Rightarrow> (Some (t, Inl e), lg)
      | (None, lg) \<Rightarrow> (None, lg))"

fun applyTransforms :: "'v transform list \<Rightarrow> 'v \<Rightarrow> ctx \<Rightarrow> rat \<Rightarrow> 'v option outcome \<times> run_log" where
  "applyTransforms [] current ctx now = (Some (now, Inr (Some current)), [])"
| "applyTransforms (TMap f # ts) current ctx now = await_task (f current ctx now) (\<lambda>v t. applyTransforms ts v ctx t)"
| "applyTransforms (TFilter f # ts) current ctx now =
     await_task (f current ctx now) (\<lambda>keep t. if keep then applyTransforms ts current ctx t else (Some (t, Inr None), []))"
| "applyTransforms (TTap f # ts) current ctx now = await_task (f current ctx now) (\<lambda>_ t. applyTransforms ts current ctx t)"

definition item_body :: "work_env \<Rightarrow> 'v work_config \<Rightarrow> nat \<Rightarrow> 'v \<Rightarrow> ('v \<Rightarrow> 'v task) \<Rightarrow> 'v option task" where
  "item_body env cfg i item fn ctx now =
     (let (t, r) = (if wc_rateLimit cfg \<noteq> None then we_wait env i (cx_signal ctx) now else (now, Inr ()))
      in case r of
           Inl e \<Rightarrow> (Some (t, Inl e), [])
         | Inr _ \<Rightarrow> await_task (applyTransforms (wc_transforms cfg) item ctx t) (\<lambda>transformed u.
             case transformed of
               None \<Rightarrow> (Some (u, Inr None), [])
             | Some v \<Rightarrow> await_task (fn v ctx u) (\<lambda>w x. (Some (x, Inr (Some w)), []))))"

text \<open>The handlers run in order; the first that throws ends them.\<close>

fun call_handlers :: "('e \<Rightarrow> err option) list \<Rightarrow> 'e \<Rightarrow> nat \<times> err option" where
  "call_handlers [] ev = (0, None)"
| "call_handlers (h # hs) ev =
     (case h ev of Some e \<Rightarrow> (1, Some e) | None \<Rightarrow> (let (n, r) = call_handlers hs ev in (Suc n, r)))"

fun result_status :: "'v item_result \<Rightarrow> item_status" where
  "result_status (DoneValue _) = ItemFulfilled"
| "result_status (DoneCancelled r) = ItemCancelled r"
| "result_status (DoneFailed e) = ItemRejected e"

definition emitItemDone :: "'v work_config \<Rightarrow> rat \<Rightarrow> 'v item_done \<Rightarrow> run_log \<times> err option" where
  "emitItemDone cfg t ev =
     (let (n, r) = call_handlers (wc_itemDone cfg) ev
      in (map (\<lambda>h. (t, EvItemDone h (id_index ev) (result_status (id_result ev)))) [0..<n], r))"

text \<open>\<open>observeContext\<close>: the report function an item sees; it answers the progress events and what it throws.\<close>

definition observed_report :: "(('v, 'p) work_progress \<Rightarrow> err option) list option \<Rightarrow> nat \<Rightarrow> 'v \<Rightarrow> task_id \<Rightarrow> ('p \<Rightarrow> err option) \<Rightarrow>
    'p \<Rightarrow> nat \<times> err option" where
  "observed_report handlers index item taskId report progress =
     (case report progress of
        Some e \<Rightarrow> (0, Some e)
      | None \<Rightarrow> call_handlers (or_default handlers [])
          \<lparr>wp_index = index, wp_item = item, wp_taskId = taskId, wp_progress = progress\<rparr>)"

definition filtered :: cancel_reason where
  "filtered = RManual ''filtered'' None"

text \<open>The \<open>catch\<close> branch of the wrapper, and the wrapper: the event of a success is sent inside the \<open>try\<close>.\<close>

definition item_failed :: "'v work_config \<Rightarrow> nat \<Rightarrow> 'v \<Rightarrow> rat \<Rightarrow> err \<Rightarrow> 'v option outcome \<times> run_log" where
  "item_failed cfg i item t e =
     (let r = (case err_reason e of Some reason \<Rightarrow> DoneCancelled reason | None \<Rightarrow> DoneFailed e);
          (lg, thrown) = emitItemDone cfg t \<lparr>id_index = i, id_item = item, id_result = r\<rparr>
      in (Some (t, Inl (or_default thrown e)), lg))"

definition observed_item :: "'v work_config \<Rightarrow> nat \<Rightarrow> 'v \<Rightarrow> 'v option task \<Rightarrow> 'v option task" where
  "observed_item cfg i item task ctx now =
     (case task ctx now of
        (None, lg) \<Rightarrow> (None, lg)
      | (Some (t, Inl e), lg) \<Rightarrow> (let (res, lg2) = item_failed cfg i item t e in (res, lg @ lg2))
      | (Some (t, Inr v), lg) \<Rightarrow>
          (let r = (case v of None \<Rightarrow> DoneCancelled filtered | Some x \<Rightarrow> DoneValue x);
               (lg2, thrown) = emitItemDone cfg t \<lparr>id_index = i, id_item = item, id_result = r\<rparr>
           in case thrown of
                None \<Rightarrow> (Some (t, Inr v), lg @ lg2)
              | Some e \<Rightarrow> (let (res, lg3) = item_failed cfg i item t e in (res, lg @ lg2 @ lg3))))"

definition makeTask :: "work_env \<Rightarrow> 'v work_config \<Rightarrow> ('v \<Rightarrow> 'v task) \<Rightarrow> nat \<times> 'v \<Rightarrow> err + 'v option task" where
  "makeTask env cfg fn = (\<lambda>(i, item).
     bind_res (case wc_retry cfg of
         None \<Rightarrow> Inr (item_body env cfg i item fn)
       | Some opts \<Rightarrow> retry (item_body env cfg i item fn) opts (we_charge env i) (we_random env i)) (\<lambda>task1.
     bind_res (case wc_timeout cfg of None \<Rightarrow> Inr task1 | Some d \<Rightarrow> timeout (we_timer_first env) task1 d) (\<lambda>task2.
       let task3 = (case wc_deadlineAt cfg of None \<Rightarrow> task2 | Some ta \<Rightarrow> deadline_task (we_timer_first env) task2 ta)
       in Inr (observed_item cfg i item task3))))"

section \<open>do, collect\<close>

record 'v item_error =
  ie_index :: nat
  ie_item :: 'v
  ie_error :: err
  ie_attempts :: nat

datatype 'v work_settled = WFulfilled 'v | WCancelled cancel_reason | WRejected "'v item_error"

datatype 'v work_output =
    OutFail "'v list"
  | OutPartial "'v list" "'v item_error list" "(nat \<times> 'v \<times> cancel_reason) list" cancel_reason
  | OutContinue "'v list" "'v item_error list"
  | OutCollect "'v work_settled list"

definition toItemError :: "nat \<Rightarrow> 'v \<Rightarrow> err \<Rightarrow> 'v item_error" where
  "toItemError index item e = \<lparr>ie_index = index, ie_item = item, ie_error = e, ie_attempts = 1\<rparr>"

definition settle_item :: "error_mode \<Rightarrow> nat \<Rightarrow> 'v \<Rightarrow> err + 'v option \<Rightarrow> err + 'v work_settled" where
  "settle_item mode i item r =
     (case r of
        Inr None \<Rightarrow> Inr (WCancelled filtered)
      | Inr (Some v) \<Rightarrow> Inr (WFulfilled v)
      | Inl e \<Rightarrow> (case err_reason e of
          Some reason \<Rightarrow> Inr (WCancelled reason)
        | None \<Rightarrow> if mode = ModeFail then Inl e else Inr (WRejected (toItemError i item e))))"

definition settled_task :: "error_mode \<Rightarrow> nat \<Rightarrow> 'v \<Rightarrow> 'v option task \<Rightarrow> 'v work_settled task" where
  "settled_task mode i item task ctx now =
     (let (res, lg) = task ctx now in (map_option (map_prod id (settle_item mode i item)) res, lg))"

fun fulfilled_of :: "'v work_settled \<Rightarrow> 'v option" where
  "fulfilled_of (WFulfilled v) = Some v"
| "fulfilled_of _ = None"

fun rejected_of :: "'v work_settled \<Rightarrow> 'v item_error option" where
  "rejected_of (WRejected e) = Some e"
| "rejected_of _ = None"

definition cancelled_items :: "'v list \<Rightarrow> 'v work_settled list \<Rightarrow> (nat \<times> 'v \<times> cancel_reason) list" where
  "cancelled_items items ws =
     List.map_filter (\<lambda>(i, w). case w of WCancelled r \<Rightarrow> Some (i, items ! i, r) | _ \<Rightarrow> None) (enumerate 0 ws)"

definition make_output :: "error_mode \<Rightarrow> 'v list \<Rightarrow> 'v work_settled list \<Rightarrow> 'v work_output" where
  "make_output mode items ws =
     (let results = List.map_filter fulfilled_of ws; errors = List.map_filter rejected_of ws
      in case mode of
           ModeCollect \<Rightarrow> OutCollect ws
         | ModeContinue \<Rightarrow> OutContinue results errors
         | ModeFail \<Rightarrow> (case cancelled_items items ws of
               [] \<Rightarrow> OutFail results
             | c # cs \<Rightarrow> OutPartial results errors (c # cs) (snd (snd c))))"

definition map_outcome :: "('a \<Rightarrow> 'b) \<Rightarrow> 'a outcome \<times> run_log \<Rightarrow> 'b outcome \<times> run_log" where
  "map_outcome f = map_prod (map_option (map_prod id (map_sum id f))) id"

definition work_do :: "work_env \<Rightarrow> 'v work_config \<Rightarrow> 'v list \<Rightarrow> ('v \<Rightarrow> 'v task) \<Rightarrow> 'v work_output task" where
  "work_do env cfg items fn ctx now =
     (let mode = or_default (wc_errorMode cfg) ModeFail;
          cancelMode = or_default (wc_cancelMode cfg) CancelThrow;
          concurrency = or_default (wc_concurrency cfg) (Fin 1)
      in case map_res (makeTask env cfg fn) (enumerate 0 items) of
           Inl e \<Rightarrow> (Some (now, Inl e), [])
         | Inr tasks \<Rightarrow>
             if mode = ModeFail \<and> cancelMode = CancelThrow
             then map_outcome (\<lambda>raw. OutFail (List.map_filter id raw)) (run_pool (we_first_id env) concurrency tasks ctx now)
             else map_outcome (make_output mode items)
                    (run_pool (we_first_id env) concurrency
                       (map (\<lambda>(i, task). settled_task mode i (items ! i) task) (enumerate 0 tasks)) ctx now))"

definition fail_results :: "'v work_output \<Rightarrow> err + 'v list" where
  "fail_results out = (case out of OutFail vs \<Rightarrow> Inr vs | _ \<Rightarrow> Inl (PlainError ''Unexpected collect mode''))"

definition work_collect :: "work_env \<Rightarrow> 'v work_config \<Rightarrow> 'v list \<Rightarrow> 'v list task" where
  "work_collect env cfg items ctx now =
     await_task (work_do env (cfg\<lparr>wc_errorMode := Some ModeFail\<rparr>) items (\<lambda>v c t. (Some (t, Inr v), [])) ctx now)
       (\<lambda>out t. (Some (t, fail_results out), []))"

section \<open>The rate limiter\<close>

text \<open>\<open>li_free\<close> is the time the last wait of the chain has settled.\<close>

record limiter =
  li_interval :: rat
  li_nextStart :: rat
  li_free :: rat

definition createRateLimiter :: "rat \<Rightarrow> limiter" where
  "createRateLimiter perSecond = \<lparr>li_interval = 1000 / perSecond, li_nextStart = 0, li_free = 0\<rparr>"

text \<open>A delay a timer does not accept is replaced by 1, as \<open>setTimeout\<close> documents.\<close>

definition sleepUntil :: "rat \<Rightarrow> signal \<Rightarrow> rat \<Rightarrow> rat \<times> (err + unit)" where
  "sleepUntil until sig now =
     (let delayMs = max 0 (until - now) in if delayMs = 0 then (now, Inr ()) else sleep (timer_delay delayMs) sig now)"

definition limiter_wait :: "signal \<Rightarrow> rat \<Rightarrow> limiter \<Rightarrow> (rat \<times> (err + unit)) \<times> limiter" where
  "limiter_wait sig arrival l =
     (let now = max arrival (li_free l)
      in case (case sig of Some (ta, e) \<Rightarrow> if ta \<le> now then Some e else None | None \<Rightarrow> None) of
           Some e \<Rightarrow> ((now, Inl e), l\<lparr>li_free := now\<rparr>)
         | None \<Rightarrow>
             (let startAt = max now (li_nextStart l); (t, r) = sleepUntil startAt sig now
              in ((t, r), l\<lparr>li_nextStart := startAt + li_interval l, li_free := t\<rparr>)))"

end
