(* ===== verification/Work_Props.thy ===== *)
theory Work_Props
  imports Work
begin

text \<open>
  What the work builder guarantees (\<open>Work\<close>): a batch of pure transforms is the list pipeline, whatever
  the concurrency; in the modes that keep going every item is accounted for exactly once; the rate
  limiter spaces its grants. Lemmas show the cases where the builder does less than it says.
\<close>

section \<open>Pools whose tasks succeed\<close>

text \<open>\<open>P\<close> is a bound on the times: it holds where the workers start and is kept by every task.\<close>

lemma pool_loop_succeeds:
  assumes "\<And>i t. i \<in> set idx \<Longrightarrow> P t \<Longrightarrow> \<exists>u v. start i t = Some (u, Inr v) \<and> P u"
    and "frees \<noteq> []" and "\<forall>f \<in> set frees. \<exists>t. f = Some t \<and> P t"
  shows "map pr_index (pool_loop start frees None idx) = idx \<and>
    (\<forall>p \<in> set (pool_loop start frees None idx). pr_out p = start (pr_index p) (pr_start p) \<and> P (pr_start p))"
  using assms
proof (induction idx arbitrary: frees)
  case (Cons i idx)
  obtain w t where e: "earliest (free_workers frees) = Some (w, t, ())"
  proof (cases "earliest (free_workers frees)")
    case None
    then have "free_workers frees = []" by simp
    moreover obtain t where "(0, t, ()) \<in> set (free_workers frees)"
      using Cons.prems(2,3) free_workers_iff [of 0 _ _ frees] by (metis length_greater_0_conv nth_mem)
    ultimately show ?thesis by simp
  next
    case (Some x)
    then show ?thesis using that by (cases x) auto
  qed
  note w = next_worker [OF e]
  have Pt: "P t" using Cons.prems(3) w(1,2) by (metis nth_mem option.inject)
  obtain u v where s: "start i t = Some (u, Inr v)" "P u" using Cons.prems(1) [of i t] Pt by auto
  have "\<forall>f \<in> set (frees[w := Some u]). \<exists>t. f = Some t \<and> P t"
    using Cons.prems(3) s(2) set_update_subset_insert [of frees w "Some u"] by blast
  then have "map pr_index (pool_loop start (frees[w := Some u]) None idx) = idx \<and>
      (\<forall>p \<in> set (pool_loop start (frees[w := Some u]) None idx). pr_out p = start (pr_index p) (pr_start p) \<and> P (pr_start p))"
    using Cons.prems by (intro Cons.IH) auto
  then show ?case using e s Pt by simp
qed simp

lemma run_pool_succeeds_ctx:
  fixes tasks :: "'v task list"
  assumes "\<And>i t. i < length tasks \<Longrightarrow> P t \<Longrightarrow> \<exists>u v. fst ((tasks ! i) (child_ctx None None ctx) t) = Some (u, Inr v) \<and> P u"
    and "P now" and "is_integer concurrency" and "\<not> concurrency < Fin 1"
    and max: "\<And>s u. P s \<Longrightarrow> P u \<Longrightarrow> P (max s u)"
  shows "\<exists>t vs. run_pool first_id concurrency tasks ctx now = (Some (t, Inr vs), []) \<and> P t \<and> length vs = length tasks \<and>
    (\<forall>i < length tasks. \<exists>c s u. P s \<and> c = child_ctx None None ctx \<and> fst ((tasks ! i) c s) = Some (u, Inr (vs ! i)))"
proof -
  let ?start = "\<lambda>i t. fst ((tasks ! i) (child_ctx None None ctx) t)"
  define runs where "runs = pool_schedule concurrency tasks ctx now"
  have runs: "map pr_index runs = [0..<length tasks] \<and> (\<forall>p \<in> set runs. pr_out p = ?start (pr_index p) (pr_start p) \<and> P (pr_start p))"
  proof (cases "tasks = []")
    case False
    then have "1 \<le> pool_workers concurrency tasks"
      using assms(3,4) by (cases concurrency) (auto simp: pool_workers_def Suc_le_eq integral_def)
    then show ?thesis
      unfolding runs_def pool_schedule_def using assms(1,2) by (intro pool_loop_succeeds) auto
  qed (simp add: runs_def pool_schedule_def)
  define outs where "outs = map pr_out runs"
  have len: "length outs = length tasks" using arg_cong [OF conjunct1 [OF runs], of length] by (simp add: outs_def)
  have nth: "\<exists>c s u v. P s \<and> P u \<and> c = child_ctx None None ctx \<and> outs ! i = Some (u, Inr v) \<and> fst ((tasks ! i) c s) = Some (u, Inr v)" if "i < length tasks" for i
  proof -
    have i: "i < length runs" using that len by (simp add: outs_def)
    have "pr_index (runs ! i) = i" using nth_map [OF i, of pr_index] runs that by simp
    moreover have "pr_out (runs ! i) = ?start (pr_index (runs ! i)) (pr_start (runs ! i)) \<and> P (pr_start (runs ! i))"
      using runs i by simp
    moreover have "outs ! i = pr_out (runs ! i)" using i by (simp add: outs_def)
    ultimately show ?thesis using assms(1) [OF that, of "pr_start (runs ! i)"] by metis
  qed
  have mem: "\<exists>u v. out = Some (u, Inr v) \<and> P u" if "out \<in> set outs" for out
    using that nth len by (metis in_set_conv_nth)
  have clean: "settlements rejected_with outs = []"
  proof -
    have "(i, t, e) \<notin> set (settlements rejected_with outs)" for i t e
      using settlements_iff [of i t e rejected_with outs] nth len by fastforce
    then show ?thesis by (metis list.set_intros(1) neq_Nil_conv surj_pair)
  qed
  have nofail: "settlements failed_with outs = []"
  proof -
    have "(i, t, e) \<notin> set (settlements failed_with outs)" for i t e
      using settlements_iff [of i t e failed_with outs] nth len by fastforce
    then show ?thesis by (metis list.set_intros(1) neq_Nil_conv surj_pair)
  qed
  have total: "None \<notin> set outs" using mem by blast
  obtain vs where vs: "promise_all outs = Inr vs" "length vs = length outs" "\<forall>i < length outs. \<exists>t. outs ! i = Some (t, Inr (vs ! i))"
    using promise_all_values [OF clean total] by blast
  have fold: "P (foldl max s ts)" if "\<forall>t \<in> set ts. P t" "P s" for s ts
    using that max by (induction ts arbitrary: s) auto
  have "P (foldl max now (map (fst \<circ> the) outs))" by (rule fold) (use mem assms(2) in fastforce)+
  moreover have "run_pool first_id concurrency tasks ctx now = (Some (foldl max now (map (fst \<circ> the) outs), Inr vs), [])"
    using assms(3,4) vs(1) total nofail
    by (simp add: run_pool_def Let_def runs_def [symmetric] outs_def [symmetric] sibling_abort_def group_end_def close_time_def)
  moreover have "\<exists>c s u. P s \<and> c = child_ctx None None ctx \<and> fst ((tasks ! i) c s) = Some (u, Inr (vs ! i))" if "i < length tasks" for i
    using nth [OF that] vs(3) that len by fastforce
  ultimately show ?thesis using vs(2) len by auto
qed

lemma run_pool_succeeds:
  fixes tasks :: "'v task list"
  assumes "\<And>i c t. i < length tasks \<Longrightarrow> P t \<Longrightarrow> \<exists>u v. fst ((tasks ! i) c t) = Some (u, Inr v) \<and> P u"
    and "P now" and "is_integer concurrency" and "\<not> concurrency < Fin 1" and "\<And>s u. P s \<Longrightarrow> P u \<Longrightarrow> P (max s u)"
  shows "\<exists>t vs. run_pool first_id concurrency tasks ctx now = (Some (t, Inr vs), []) \<and> P t \<and> length vs = length tasks \<and>
    (\<forall>i < length tasks. \<exists>c s u. P s \<and> fst ((tasks ! i) c s) = Some (u, Inr (vs ! i)))"
proof -
  obtain t vs where "run_pool first_id concurrency tasks ctx now = (Some (t, Inr vs), [])" "P t" "length vs = length tasks"
      "\<forall>i < length tasks. \<exists>c s u. P s \<and> c = child_ctx None None ctx \<and> fst ((tasks ! i) c s) = Some (u, Inr (vs ! i))"
    using run_pool_succeeds_ctx [of tasks P ctx now concurrency first_id, OF assms(1) assms(2-5)] by blast
  then show ?thesis by (intro exI [of _ t] exI [of _ vs]) blast
qed

section \<open>Pure batches\<close>

text \<open>The transforms that only compute, and the list function a chain of them is.\<close>

datatype 'v pure_step = PureMap "'v \<Rightarrow> 'v" | PureFilter "'v \<Rightarrow> bool" | PureTap

fun pure_transform :: "'v pure_step \<Rightarrow> 'v transform" where
  "pure_transform (PureMap f) = TMap (\<lambda>v c t. (Some (t, Inr (f v)), []))"
| "pure_transform (PureFilter p) = TFilter (\<lambda>v c t. (Some (t, Inr (p v)), []))"
| "pure_transform PureTap = TTap (\<lambda>v c t. (Some (t, Inr ()), []))"

fun pipeline :: "'v pure_step list \<Rightarrow> 'v \<Rightarrow> 'v option" where
  "pipeline [] v = Some v"
| "pipeline (PureMap f # ps) v = pipeline ps (f v)"
| "pipeline (PureFilter p # ps) v = (if p v then pipeline ps v else None)"
| "pipeline (PureTap # ps) v = pipeline ps v"

definition quiet :: "'v work_config \<Rightarrow> bool" where
  "quiet cfg \<longleftrightarrow> (\<forall>h \<in> set (wc_itemDone cfg). \<forall>ev. h ev = None)"

definition unlimited :: "'v work_config \<Rightarrow> bool" where
  "unlimited cfg \<longleftrightarrow> wc_rateLimit cfg = None \<and> wc_retry cfg = None \<and> wc_timeout cfg = None \<and> wc_deadlineAt cfg = None"

definition pool_width_ok :: "'v work_config \<Rightarrow> bool" where
  "pool_width_ok cfg \<longleftrightarrow> is_integer (or_default (wc_concurrency cfg) (Fin 1)) \<and> \<not> or_default (wc_concurrency cfg) (Fin 1) < Fin 1"

text \<open>\<open>inParallel\<close> lets no other width into a configuration.\<close>

lemma inParallel_ok: "inParallel n cfg = Inr cfg' \<Longrightarrow> pool_width_ok cfg'"
  by (auto simp: inParallel_def pool_width_ok_def split: if_splits)

lemma await_value [simp]: "await_task (Some (t, Inr v), lg) k = (fst (k v t), lg @ snd (k v t))"
  by (simp add: await_task_def split_beta)

lemma await_fst: "fst r = Some (t, Inr v) \<Longrightarrow> fst (await_task r k) = fst (k v t)"
  by (cases r) simp

lemma apply_pure: "applyTransforms (map pure_transform ps) v ctx now = (Some (now, Inr (pipeline ps v)), [])"
  by (induction ps v rule: pipeline.induct) simp_all

lemma call_quiet: "\<forall>h \<in> set hs. \<forall>ev. h ev = None \<Longrightarrow> call_handlers hs ev = (length hs, None)"
  by (induction hs) auto

lemma emit_quiet: "quiet cfg \<Longrightarrow> snd (emitItemDone cfg t ev) = None"
  by (simp add: emitItemDone_def quiet_def call_quiet)

lemma pure_item:
  assumes "unlimited cfg" and "quiet cfg" and "wc_transforms cfg = map pure_transform ps"
  shows "\<exists>task. makeTask env cfg (\<lambda>v c t. (Some (t, Inr v), [])) (i, item) = Inr task \<and>
    (\<forall>c t. fst (task c t) = Some (t, Inr (pipeline ps item)))"
proof -
  let ?body = "item_body env cfg i item (\<lambda>v c t. (Some (t, Inr v), []))"
  have "?body c t = (Some (t, Inr (pipeline ps item)), [])" for c t
    using assms by (simp add: item_body_def unlimited_def apply_pure split: option.split)
  then have "fst (observed_item cfg i item ?body c t) = Some (t, Inr (pipeline ps item))" for c t
    using emit_quiet [OF assms(2), of t] by (simp add: observed_item_def Let_def split_beta)
  then show ?thesis using assms(1) by (simp add: makeTask_def unlimited_def)
qed

lemma map_res_exists:
  "(\<And>x. x \<in> set xs \<Longrightarrow> \<exists>y. f x = Inr y \<and> Q x y) \<Longrightarrow> \<exists>ys. map_res f xs = Inr ys \<and> list_all2 Q xs ys"
proof (induction xs)
  case (Cons x xs)
  then obtain y where "f x = Inr y" "Q x y" by auto
  moreover obtain ys where "map_res f xs = Inr ys" "list_all2 Q xs ys" using Cons by auto
  ultimately show ?case by simp
qed simp


definition demo_env :: work_env where
  "demo_env = \<lparr>we_wait = (\<lambda>i sig t. (t, Inr ())), we_charge = (\<lambda>i n. None), we_random = (\<lambda>i n. 0), we_timer_first = True, we_first_id = 7\<rparr>"

definition doubled_large :: "nat pure_step list" where
  "doubled_large = [PureMap (\<lambda>n. n * 2), PureTap, PureFilter (\<lambda>n. 2 < n)]"


section \<open>Batches that keep going\<close>

lemma settled_counts:
  "length (List.map_filter fulfilled_of ws) + length (List.map_filter rejected_of ws) +
   length (List.map_filter (\<lambda>(i, w). case w of WCancelled r \<Rightarrow> Some (i, f i, r) | _ \<Rightarrow> None) (enumerate k ws)) = length ws"
proof (induction ws arbitrary: k)
  case (Cons w ws)
  then show ?case by (cases w) (simp_all add: Cons [of "Suc k", simplified])
qed simp

text \<open>What the list of settlements holds for an item, and the errors taken from it.\<close>

definition settles_as :: "'v list \<Rightarrow> nat \<Rightarrow> err + 'v option \<Rightarrow> 'v work_settled \<Rightarrow> bool" where
  "settles_as items i r w \<longleftrightarrow>
     (case r of
        Inr (Some v) \<Rightarrow> w = WFulfilled v
      | Inr None \<Rightarrow> w = WCancelled filtered
      | Inl e \<Rightarrow> (case err_reason e of
          Some reason \<Rightarrow> w = WCancelled reason
        | None \<Rightarrow> w = WRejected \<lparr>ie_index = i, ie_item = items ! i, ie_error = e, ie_attempts = 1\<rparr>))"

lemma settle_item_keeps:
  assumes "mode \<noteq> ModeFail"
  shows "\<exists>w. settle_item mode i item r = Inr w"
  using assms by (auto simp: settle_item_def split: sum.splits option.splits)

lemma settle_item_as:
  assumes "mode \<noteq> ModeFail" and "settle_item mode i (items ! i) r = Inr w"
  shows "settles_as items i r w"
  using assms by (auto simp: settle_item_def settles_as_def toItemError_def split: sum.splits option.splits)

text \<open>
  C21: A batch in continue or collect mode whose item tasks all settle resolves: it never rejects. Every item
  is accounted for exactly once, in input order: as its value, as cancelled when it was filtered out or
  its task was cancelled or timed out, or as an error that carries the item, its index and the count 1
  of attempts. In continue mode the values and the errors are returned, and the cancelled items are
  all that is left out.
\<close>

theorem work_accounts_for_items:
  fixes items :: "'v list"
  assumes mode: "wc_errorMode cfg = Some mode" "mode \<noteq> ModeFail"
    and tasks: "map_res (makeTask env cfg fn) (enumerate 0 items) = Inr tasks"
    and settle: "\<And>i c t. i < length items \<Longrightarrow> \<exists>u r. fst ((tasks ! i) c t) = Some (u, r) \<and> t \<le> u"
    and width: "pool_width_ok cfg"
  shows "\<exists>t ws. fst (work_do env cfg items fn ctx now) =
        Some (t, Inr (if mode = ModeCollect then OutCollect ws
                      else OutContinue (List.map_filter fulfilled_of ws) (List.map_filter rejected_of ws))) \<and>
      now \<le> t \<and> length ws = length items \<and>
      (\<forall>i < length items. \<exists>c s u r. fst ((tasks ! i) c s) = Some (u, r) \<and> settles_as items i r (ws ! i)) \<and>
      length (List.map_filter fulfilled_of ws) + length (List.map_filter rejected_of ws) + length (cancelled_items items ws) = length items"
proof -
  define ts where "ts = map (\<lambda>(i, task). settled_task mode i (items ! i) task) (enumerate 0 tasks)"
  have "length tasks = length items" using tasks by (simp add: map_res_Inr list_all2_conv_all_nth)
  then have len: "length ts = length items" by (simp add: ts_def)
  have nth: "fst ((ts ! i) c s) = map_option (map_prod id (settle_item mode i (items ! i))) (fst ((tasks ! i) c s))"
    if "i < length items" for i c s
    using that \<open>length tasks = length items\<close> by (simp add: ts_def nth_enumerate_eq settled_task_def split_beta)
  have "\<exists>t ws. run_pool (we_first_id env) (or_default (wc_concurrency cfg) (Fin 1)) ts ctx now = (Some (t, Inr ws), []) \<and> now \<le> t \<and>
      length ws = length ts \<and> (\<forall>i < length ts. \<exists>c s u. now \<le> s \<and> fst ((ts ! i) c s) = Some (u, Inr (ws ! i)))"
  proof (rule run_pool_succeeds [where P = "\<lambda>t. now \<le> t"])
    fix i c s
    assume i: "i < length ts" and s: "now \<le> s"
    obtain u r where "fst ((tasks ! i) c s) = Some (u, r)" "s \<le> u" using settle i len by metis
    moreover obtain w where "settle_item mode i (items ! i) r = Inr w"
      using settle_item_keeps [OF mode(2), of i "items ! i" r] by blast
    ultimately show "\<exists>u w. fst ((ts ! i) c s) = Some (u, Inr w) \<and> now \<le> u" using nth i len s by auto
  qed (use width in \<open>auto simp: pool_width_ok_def\<close>)
  then obtain t ws where pool: "run_pool (we_first_id env) (or_default (wc_concurrency cfg) (Fin 1)) ts ctx now = (Some (t, Inr ws), [])"
      "now \<le> t" "length ws = length ts"
      "\<forall>i < length ts. \<exists>c s u. now \<le> s \<and> fst ((ts ! i) c s) = Some (u, Inr (ws ! i))" by blast
  have "\<exists>c s u r. fst ((tasks ! i) c s) = Some (u, r) \<and> settles_as items i r (ws ! i)" if i: "i < length items" for i
  proof -
    obtain c s u where "fst ((ts ! i) c s) = Some (u, Inr (ws ! i))" using pool(4) i len by auto
    then show ?thesis using nth [OF i] settle_item_as [OF mode(2)] by (auto simp: map_option_case split: option.splits) blast
  qed
  moreover have "fst (work_do env cfg items fn ctx now) = Some (t, Inr (make_output mode items ws))"
    using tasks pool(1) mode by (simp add: work_do_def ts_def [symmetric] map_outcome_def)
  moreover have "make_output mode items ws = (if mode = ModeCollect then OutCollect ws
      else OutContinue (List.map_filter fulfilled_of ws) (List.map_filter rejected_of ws))"
    using mode(2) by (cases mode) (simp_all add: make_output_def)
  moreover have "length (List.map_filter fulfilled_of ws) + length (List.map_filter rejected_of ws) + length (cancelled_items items ws) = length items"
    using settled_counts [of ws "\<lambda>i. items ! i" 0] pool(3) len by (simp add: cancelled_items_def)
  ultimately show ?thesis using pool(2,3) len by auto
qed

definition picky :: "nat \<Rightarrow> nat task" where
  "picky v ctx t = (Some (t + 5, if v = 2 then Inl (PlainError ''even'') else Inr v), [])"

definition going_on :: "nat work_config" where
  "going_on = empty_config\<lparr>wc_errorMode := Some ModeContinue, wc_concurrency := Some (Fin 2)\<rparr>"

theorem work_accounts_for_items_witness:
  "\<exists>t ws. fst (work_do demo_env going_on [1, 2, 3] picky root_ctx 0) =
      Some (t, Inr (OutContinue (List.map_filter fulfilled_of ws) (List.map_filter rejected_of ws))) \<and> length ws = 3"
proof -
  let ?task = "\<lambda>(i, v). observed_item going_on i v (item_body demo_env going_on i v picky)"
  have tasks: "map_res (makeTask demo_env going_on picky) (enumerate 0 [1, 2, 3]) = Inr (map ?task (enumerate 0 [1, 2, 3]))"
    by (rule map_res_all_Inr) (auto simp: makeTask_def going_on_def empty_config_def)
  have "\<exists>u r. fst (?task (i, v) c t) = Some (u, r) \<and> t \<le> u" for i v c t
    by (auto simp: observed_item_def item_body_def going_on_def empty_config_def picky_def emitItemDone_def await_task_def
        item_failed_def)
  then have "\<exists>u r. fst ((map ?task (enumerate 0 [1, 2, 3]) ! i) c t) = Some (u, r) \<and> t \<le> u" if "i < length [1, 2, 3 :: nat]" for i c t
  proof -
    have "i = 0 \<or> i = 1 \<or> i = 2" using that by auto
    then show ?thesis using \<open>\<And>i v c t. \<exists>u r. fst (?task (i, v) c t) = Some (u, r) \<and> t \<le> u\<close> by (elim disjE) simp_all
  qed
  note settle = this
  have "wc_errorMode going_on = Some ModeContinue" "ModeContinue \<noteq> ModeFail" "pool_width_ok going_on"
    by (simp_all add: going_on_def empty_config_def pool_width_ok_def)
  note m = this
  obtain t ws where "fst (work_do demo_env going_on [1, 2, 3] picky root_ctx 0) =
      Some (t, Inr (if ModeContinue = ModeCollect then OutCollect ws
                    else OutContinue (List.map_filter fulfilled_of ws) (List.map_filter rejected_of ws)))" "length ws = length [1, 2, 3 :: nat]"
    using work_accounts_for_items [OF m(1,2) tasks settle m(3), of root_ctx 0] by blast
  then show ?thesis by (intro exI [of _ t] exI [of _ ws]) simp
qed

section \<open>Where the builder does less\<close>

text \<open>\<open>collect\<close> forces the error mode but not the cancel mode: with the partial mode one filtered item makes it throw.\<close>

lemma collect_partial_throws:
  "fst (work_collect demo_env (empty_config\<lparr>wc_cancelMode := Some CancelPartial, wc_transforms := [pure_transform (PureFilter (\<lambda>n. n \<noteq> 2))]\<rparr>)
     [1, 2 :: nat] root_ctx 0) = Some (0, Inl (PlainError ''Unexpected collect mode''))"
proof -
  define cfg :: "nat work_config" where
    "cfg = empty_config\<lparr>wc_cancelMode := Some CancelPartial, wc_transforms := map pure_transform [PureFilter (\<lambda>n. n \<noteq> 2)], wc_errorMode := Some ModeFail\<rparr>"
  let ?fn = "\<lambda>v c t. (Some (t, Inr v), [])"
  define task where "task = (\<lambda>(i, v). observed_item cfg i v (item_body demo_env cfg i v ?fn))"
  have tasks: "map_res (makeTask demo_env cfg ?fn) (enumerate 0 [1, 2]) = Inr (map task (enumerate 0 [1, 2]))"
    by (rule map_res_all_Inr) (auto simp: makeTask_def task_def cfg_def empty_config_def)
  have body: "fst (task (i, v) c t) = Some (t, Inr (if v \<noteq> 2 then Some v else None))" for i v c t
    by (simp add: task_def observed_item_def item_body_def cfg_def empty_config_def emitItemDone_def apply_pure del: list.map)
  define ts where "ts = map (\<lambda>(i, t). settled_task ModeFail i ([1, 2] ! i) t) (enumerate 0 (map task (enumerate 0 [1, 2])))"
  have one: "fst ((ts ! i) c t) = Some (t, Inr ([WFulfilled 1, WCancelled filtered] ! i))" if "i < 2" for i c t
    using that body by (auto simp: ts_def nth_enumerate_eq settled_task_def settle_item_def split_beta less_2_cases_iff)
  obtain ws where ws: "run_pool 7 (Fin 1) ts root_ctx 0 = (Some (0, Inr ws), [])" "length ws = 2"
      "\<forall>i < 2. \<exists>c s u. fst ((ts ! i) c s) = Some (u, Inr (ws ! i))"
    using run_pool_succeeds [of ts "\<lambda>t. t = 0" 0 "Fin 1" 7 root_ctx] one by (auto simp: ts_def)
  have "ws = [WFulfilled 1, WCancelled filtered]"
    using ws(2,3) one by (intro nth_equalityI) (auto simp: less_2_cases_iff)
  then have "fst (work_do demo_env cfg [1, 2] ?fn root_ctx 0) = Some (0, Inr (make_output ModeFail [1, 2] [WFulfilled 1, WCancelled filtered]))"
    using tasks ws(1) by (simp add: work_do_def ts_def map_outcome_def demo_env_def cfg_def empty_config_def)
  moreover have "make_output ModeFail [1, 2 :: nat] [WFulfilled 1, WCancelled filtered] = OutPartial [1] [] [(1, 2, filtered)] filtered"
    by (simp add: make_output_def cancelled_items_def)
  ultimately have "fst (work_do demo_env cfg [1, 2] ?fn root_ctx 0) = Some (0, Inr (OutPartial [1] [] [(1, 2, filtered)] filtered))"
    by simp
  from await_fst [OF this, of "\<lambda>out t. (Some (t, fail_results out), [])"]
  have "fst (work_collect demo_env cfg [1, 2] root_ctx 0) = Some (0, Inl (PlainError ''Unexpected collect mode''))"
    by (simp add: work_collect_def fail_results_def cfg_def)
  moreover have "fst (work_collect demo_env (empty_config\<lparr>wc_cancelMode := Some CancelPartial,
      wc_transforms := [pure_transform (PureFilter (\<lambda>n. n \<noteq> 2))]\<rparr>) [1, 2] root_ctx 0) = fst (work_collect demo_env cfg [1, 2] root_ctx 0)"
    by (simp add: work_collect_def cfg_def)
  ultimately show ?thesis by simp
qed

text \<open>A handler that throws on a success gets a second event for the same item, and the item is rejected.\<close>

lemma throwing_item_handler:
  assumes "fst (task ctx now) = Some (t, Inr (Some v))" and "\<And>ev. h ev = Some e" and "wc_itemDone cfg = [h]" and "err_reason e = None"
  shows "\<exists>lg. observed_item cfg i item task ctx now =
    (Some (t, Inl e), lg @ [(t, EvItemDone 0 i ItemFulfilled), (t, EvItemDone 0 i (ItemRejected e))])"
  using assms by (cases "task ctx now") (auto simp: observed_item_def emitItemDone_def item_failed_def)

section \<open>The rate limiter\<close>

definition granted :: "rat \<times> (err + unit) \<Rightarrow> rat option" where
  "granted w = (case w of (t, Inr _) \<Rightarrow> Some t | _ \<Rightarrow> None)"

fun limiter_run :: "(signal \<times> rat) list \<Rightarrow> limiter \<Rightarrow> (rat \<times> (err + unit)) list" where
  "limiter_run [] l = []"
| "limiter_run ((sig, arrival) # ws) l = (let (r, l') = limiter_wait sig arrival l in r # limiter_run ws l')"

text \<open>No wait is longer than a timer can be.\<close>

fun timers_fit :: "(signal \<times> rat) list \<Rightarrow> limiter \<Rightarrow> bool" where
  "timers_fit [] l \<longleftrightarrow> True"
| "timers_fit ((sig, arrival) # ws) l \<longleftrightarrow>
     li_nextStart l - max arrival (li_free l) \<le> of_nat MAX_TIMEOUT_MS \<and> timers_fit ws (snd (limiter_wait sig arrival l))"

lemma limiter_wait_grant:
  assumes "li_nextStart l - max arrival (li_free l) \<le> of_nat MAX_TIMEOUT_MS" and "0 \<le> li_interval l"
  shows "li_interval (snd (limiter_wait sig arrival l)) = li_interval l \<and> li_nextStart l \<le> li_nextStart (snd (limiter_wait sig arrival l)) \<and>
    (\<forall>t. granted (fst (limiter_wait sig arrival l)) = Some t \<longrightarrow>
       li_nextStart l \<le> t \<and> arrival \<le> t \<and> t + li_interval l \<le> li_nextStart (snd (limiter_wait sig arrival l)))"
  using assms
  by (auto simp: limiter_wait_def Let_def granted_def sleepUntil_def sleep_def timer_delay_def max_def split: option.splits if_splits)

text \<open>Two waits that a limiter grants are at least its interval apart.\<close>

lemma rate_limit_spacing:
  assumes "timers_fit ws l" and "0 \<le> li_interval l"
  shows "sorted_wrt (\<lambda>s t. s + li_interval l \<le> t) (List.map_filter granted (limiter_run ws l))"
proof -
  have "(\<forall>t \<in> set (List.map_filter granted (limiter_run ws l)). li_nextStart l \<le> t) \<and>
      sorted_wrt (\<lambda>s t. s + li_interval l \<le> t) (List.map_filter granted (limiter_run ws l))"
    using assms
  proof (induction ws l rule: limiter_run.induct)
    case (2 sig arrival ws l)
    obtain r l' where w: "limiter_wait sig arrival l = (r, l')" by fastforce
    have g: "li_interval l' = li_interval l" "li_nextStart l \<le> li_nextStart l'"
        "\<And>t. granted r = Some t \<Longrightarrow> li_nextStart l \<le> t \<and> arrival \<le> t \<and> t + li_interval l \<le> li_nextStart l'"
      using limiter_wait_grant [of l arrival sig] 2(2,3) w by auto
    have "(\<forall>t \<in> set (List.map_filter granted (limiter_run ws l')). li_nextStart l' \<le> t) \<and>
        sorted_wrt (\<lambda>s t. s + li_interval l \<le> t) (List.map_filter granted (limiter_run ws l'))"
      using 2(1) [OF w [symmetric] refl] 2(2,3) w g(1) by auto
    then show ?case using g w by (cases "granted r") fastforce+
  qed simp
  then show ?thesis by blast
qed

text \<open>A wait a timer cannot hold is granted after a millisecond: a very low rate is no limit.\<close>

lemma low_rate_is_no_limit:
  "limiter_run [(None, 1), (None, 2)] (createRateLimiter (1 / 4000000000)) = [(1, Inr ()), (3, Inr ())]"
  by (simp add: createRateLimiter_def limiter_wait_def sleepUntil_def sleep_def timer_delay_def MAX_TIMEOUT_MS_def)

end
