(* ===== verification/Work_Stream.thy ===== *)
theory Work_Stream
  imports Work "HOL-Library.Multiset"
begin

text \<open>
  The loop of \<open>stream\<close> in \<open>packages/core/src/work/index.ts\<close> as a state machine: a step runs up to the next
  \<open>await\<close> or \<open>yield\<close>. The environment settles the active items, in any order and with any result
  (\<open>None\<close>: filtered), cancels the scope from outside, and resumes or closes the consumer's side. An
  item that fails cancels the scope of the stream, as the scope engine does; \<open>spawn\<close> throws on a
  cancelled scope. \<open>st_taken\<close> records the keys of the settlements the loop has taken.
\<close>

section \<open>The loop\<close>

datatype 'v stream_phase =
    SFilling
  | SPulling bool \<comment> \<open>awaits the source; called from the fill loop or after a settlement\<close>
  | SRacing
  | SYielded
  | SEnded
  | SFailed err
  | SConsumerClosed

record 'v stream =
  st_src :: "(err + 'v) list"
  st_done :: bool
  st_next :: nat
  st_active :: "nat list"
  st_settled :: "(nat \<times> (err + 'v option)) list"
  st_aborted :: bool
  st_taken :: "nat list"
  st_out :: "'v list"
  st_phase :: "'v stream_phase"

definition open_stream :: "(err + 'v) list \<Rightarrow> 'v stream" where
  "open_stream src = \<lparr>st_src = src, st_done = False, st_next = 0, st_active = [], st_settled = [], st_aborted = False,
     st_taken = [], st_out = [], st_phase = SFilling\<rparr>"

definition back_to :: "bool \<Rightarrow> 'v stream_phase" where
  "back_to filling = (if filling then SFilling else SRacing)"

text \<open>\<open>launchNext\<close>, up to the \<open>await\<close> on the source.\<close>

definition launchNext :: "bool \<Rightarrow> 'v stream \<Rightarrow> 'v stream" where
  "launchNext filling s = s\<lparr>st_phase := (if st_done s \<or> st_aborted s then back_to filling else SPulling filling)\<rparr>"

definition stream_failed :: "err \<Rightarrow> 'v stream \<Rightarrow> 'v stream" where
  "stream_failed e s = s\<lparr>st_aborted := True, st_phase := SFailed e\<rparr>"

abbreviation cannot_spawn :: err where
  "cannot_spawn \<equiv> PlainError ''Cannot spawn on a scope that does not run''"

text \<open>The rest of \<open>launchNext\<close>, when the source has answered.\<close>

definition pulled :: "bool \<Rightarrow> 'v stream \<Rightarrow> 'v stream" where
  "pulled filling s =
     (case st_src s of
        [] \<Rightarrow> s\<lparr>st_done := True, st_phase := back_to filling\<rparr>
      | Inl e # src \<Rightarrow> stream_failed e (s\<lparr>st_src := src\<rparr>)
      | Inr x # src \<Rightarrow>
          if st_aborted s then stream_failed cannot_spawn (s\<lparr>st_src := src, st_next := st_next s + 1\<rparr>)
          else s\<lparr>st_src := src, st_next := st_next s + 1, st_active := st_active s @ [st_next s], st_phase := back_to filling\<rparr>)"

definition fill :: "nat \<Rightarrow> 'v stream \<Rightarrow> 'v stream" where
  "fill concurrency s =
     (if length (st_active s) < concurrency \<and> \<not> st_done s then launchNext True s else s\<lparr>st_phase := SRacing\<rparr>)"

definition item_settles :: "nat \<Rightarrow> err + 'v option \<Rightarrow> 'v stream \<Rightarrow> 'v stream" where
  "item_settles k r s = s\<lparr>st_settled := st_settled s @ [(k, r)], st_aborted := st_aborted s \<or> (\<exists>e. r = Inl e \<and> is_failure e)\<rparr>"

definition take_settlement :: "nat \<Rightarrow> err + 'v option \<Rightarrow> 'v stream \<Rightarrow> 'v stream" where
  "take_settlement k r s =
     (let s1 = s\<lparr>st_active := remove1 k (st_active s), st_settled := filter (\<lambda>x. fst x \<noteq> k) (st_settled s), st_taken := st_taken s @ [k]\<rparr>
      in case r of
           Inl e \<Rightarrow> stream_failed e s1
         | Inr None \<Rightarrow> launchNext False s1
         | Inr (Some v) \<Rightarrow> s1\<lparr>st_out := st_out s1 @ [v], st_phase := SYielded\<rparr>)"

inductive stream_step :: "nat \<Rightarrow> 'v stream \<Rightarrow> 'v stream \<Rightarrow> bool" for concurrency where
  filling: "st_phase s = SFilling \<Longrightarrow> stream_step concurrency s (fill concurrency s)"
| answered: "st_phase s = SPulling filling \<Longrightarrow> stream_step concurrency s (pulled filling s)"
| settles: "k \<in> set (st_active s) \<Longrightarrow> k \<notin> fst ` set (st_settled s) \<Longrightarrow> stream_step concurrency s (item_settles k r s)"
| cancelled: "stream_step concurrency s (s\<lparr>st_aborted := True\<rparr>)"
| raced: "st_phase s = SRacing \<Longrightarrow> (k, r) \<in> set (st_settled s) \<Longrightarrow> stream_step concurrency s (take_settlement k r s)"
| resumed: "st_phase s = SYielded \<Longrightarrow> stream_step concurrency s (launchNext False s)"
| consumer_closed: "st_phase s = SYielded \<Longrightarrow> stream_step concurrency s (s\<lparr>st_aborted := True, st_phase := SConsumerClosed\<rparr>)"
| ended: "st_phase s = SRacing \<Longrightarrow> st_active s = [] \<Longrightarrow> stream_step concurrency s (s\<lparr>st_phase := SEnded\<rparr>)"

section \<open>Backpressure\<close>

definition open_phase :: "'v stream_phase \<Rightarrow> bool" where
  "open_phase p \<longleftrightarrow> (case p of SFailed _ \<Rightarrow> False | _ \<Rightarrow> True)"

definition reserved :: "'v stream_phase \<Rightarrow> nat" where
  "reserved p = (case p of SPulling _ \<Rightarrow> 1 | SYielded \<Rightarrow> 1 | _ \<Rightarrow> 0)"

text \<open>Every key handed out is active or was taken once; a slot is free while the source is awaited.\<close>

definition keys_ok :: "'v stream \<Rightarrow> bool" where
  "keys_ok s \<longleftrightarrow> distinct (st_taken s @ st_active s) \<and> set (st_taken s @ st_active s) \<subseteq> {..<st_next s} \<and>
     (open_phase (st_phase s) \<longrightarrow> length (st_taken s) + length (st_active s) = st_next s) \<and>
     fst ` set (st_settled s) \<subseteq> set (st_active s) \<and> length (st_out s) \<le> length (st_taken s)"

definition slots_ok :: "nat \<Rightarrow> 'v stream \<Rightarrow> bool" where
  "slots_ok concurrency s \<longleftrightarrow> length (st_active s) + reserved (st_phase s) \<le> concurrency \<and>
     st_next s \<le> length (st_taken s) + concurrency"

definition source_ok :: "(err + 'v) list \<Rightarrow> 'v stream \<Rightarrow> bool" where
  "source_ok src s \<longleftrightarrow> st_next s \<le> length src \<and> (open_phase (st_phase s) \<longrightarrow> st_src s = drop (st_next s) src) \<and>
     (st_done s \<longrightarrow> st_src s = []) \<and>
     (st_aborted s \<or> st_done s \<or> st_phase s \<noteq> SEnded \<and> (st_phase s = SRacing \<longrightarrow> st_active s \<noteq> [])) \<and>
     (st_phase s = SEnded \<longrightarrow> st_active s = [])"

definition stream_inv :: "nat \<Rightarrow> (err + 'v) list \<Rightarrow> 'v stream \<Rightarrow> bool" where
  "stream_inv concurrency src s \<longleftrightarrow> keys_ok s \<and> slots_ok concurrency s \<and> source_ok src s"

named_theorems stream_defs \<open>the operations of the loop\<close>

declare fill_def [stream_defs] launchNext_def [stream_defs] back_to_def [stream_defs] stream_failed_def [stream_defs]
  item_settles_def [stream_defs] open_phase_def [stream_defs] reserved_def [stream_defs]

lemma launchNext_inv:
  assumes "keys_ok s" and "length (st_active s) < concurrency" and "st_next s \<le> length (st_taken s) + concurrency"
    and "st_next s \<le> length src" and "st_src s = drop (st_next s) src" and "st_done s \<longrightarrow> st_src s = []"
    and "length (st_taken s) + length (st_active s) = st_next s"
  shows "stream_inv concurrency src (launchNext filling s)"
  using assms by (auto simp: stream_inv_def keys_ok_def slots_ok_def source_ok_def stream_defs split: if_splits)

lemma pulled_inv:
  assumes inv: "stream_inv concurrency src s" and ph: "st_phase s = SPulling filling"
  shows "stream_inv concurrency src (pulled filling s)"
proof (cases "st_src s")
  case Nil
  then show ?thesis
    using inv ph by (auto simp: pulled_def stream_inv_def keys_ok_def slots_ok_def source_ok_def stream_defs)
next
  case (Cons x rest)
  have drop: "x # rest = drop (st_next s) src" using inv ph Cons by (auto simp: stream_inv_def source_ok_def stream_defs)
  then have "st_next s < length src" by (metis drop_all linorder_not_le list.distinct(1))
  moreover from this have "rest = drop (Suc (st_next s)) src" using drop Cons_nth_drop_Suc [of "st_next s" src] by (metis list.inject)
  moreover have "\<not> st_done s" using inv Cons by (simp add: stream_inv_def source_ok_def)
  ultimately have rest: "st_next s < length src" "rest = drop (Suc (st_next s)) src" "\<not> st_done s" by blast+
  show ?thesis
  proof (cases x)
    case (Inl e)
    then have "pulled filling s = stream_failed e (s\<lparr>st_src := rest\<rparr>)" by (simp add: pulled_def Cons)
    then show ?thesis
      using rest(3) inv ph by (auto simp: stream_inv_def keys_ok_def slots_ok_def source_ok_def stream_defs)
  next
    case (Inr v)
    show ?thesis
    proof (cases "st_aborted s")
      case True
      then have "pulled filling s = stream_failed cannot_spawn (s\<lparr>st_src := rest, st_next := st_next s + 1\<rparr>)"
        by (simp add: pulled_def Cons Inr)
      then show ?thesis
        using rest inv ph by (auto simp: stream_inv_def keys_ok_def slots_ok_def source_ok_def stream_defs less_Suc_eq)
    next
      case False
      then have "pulled filling s = s\<lparr>st_src := rest, st_next := st_next s + 1, st_active := st_active s @ [st_next s], st_phase := back_to filling\<rparr>"
        by (simp add: pulled_def Cons Inr)
      then show ?thesis
        using rest inv ph by (auto simp: stream_inv_def keys_ok_def slots_ok_def source_ok_def stream_defs less_Suc_eq)
    qed
  qed
qed

lemma take_settlement_inv:
  assumes inv: "stream_inv concurrency src s" and ph: "st_phase s = SRacing" and kr: "(k, r) \<in> set (st_settled s)"
  shows "stream_inv concurrency src (take_settlement k r s)"
proof -
  define s1 where "s1 = s\<lparr>st_active := remove1 k (st_active s), st_settled := filter (\<lambda>x. fst x \<noteq> k) (st_settled s), st_taken := st_taken s @ [k]\<rparr>"
  have k: "k \<in> set (st_active s)" using inv kr by (force simp: stream_inv_def keys_ok_def)
  have len: "Suc (length (remove1 k (st_active s))) = length (st_active s)" using k by (simp add: length_remove1) (metis Suc_pred length_pos_if_in_set)
  have k1: "keys_ok s1" "length (st_taken s1) + length (st_active s1) = st_next s1"
    using inv k len ph by (auto simp: stream_inv_def keys_ok_def s1_def stream_defs)
  have a1: "length (st_active s1) < concurrency" "st_next s1 \<le> length (st_taken s1) + concurrency"
    using inv len ph by (auto simp: stream_inv_def slots_ok_def s1_def stream_defs)
  have src1: "st_next s1 \<le> length src" "st_src s1 = drop (st_next s1) src" "st_done s1 \<longrightarrow> st_src s1 = []"
    using inv ph by (auto simp: stream_inv_def source_ok_def s1_def stream_defs)
  show ?thesis
  proof (cases r)
    case (Inl e)
    then have "take_settlement k r s = stream_failed e s1" by (simp add: take_settlement_def s1_def)
    then show ?thesis
      using k1 a1 src1 by (auto simp: stream_inv_def keys_ok_def slots_ok_def source_ok_def stream_defs)
  next
    case (Inr v)
    show ?thesis
    proof (cases v)
      case None
      then have "take_settlement k r s = launchNext False s1" using Inr by (simp add: take_settlement_def s1_def)
      then show ?thesis using launchNext_inv [OF k1(1) a1 src1 k1(2)] by simp
    next
      case (Some w)
      then have "take_settlement k r s = s1\<lparr>st_out := st_out s1 @ [w], st_phase := SYielded\<rparr>"
        using Inr by (simp add: take_settlement_def s1_def)
      then show ?thesis
        using k1 a1 src1 inv by (auto simp: stream_inv_def keys_ok_def slots_ok_def source_ok_def stream_defs s1_def)
    qed
  qed
qed

lemma stream_inv_init: "stream_inv concurrency src (open_stream src)"
  by (simp add: stream_inv_def keys_ok_def slots_ok_def source_ok_def open_stream_def stream_defs)

lemma stream_inv_step:
  assumes conc: "0 < concurrency" and inv: "stream_inv concurrency src s" and step: "stream_step concurrency s s'"
  shows "stream_inv concurrency src s'"
  using step
proof cases
  case filling
  show ?thesis
  proof (cases "length (st_active s) < concurrency \<and> \<not> st_done s")
    case True
    then show ?thesis
      using inv filling launchNext_inv [of s concurrency src True]
      by (auto simp: fill_def stream_inv_def keys_ok_def slots_ok_def source_ok_def open_phase_def)
  next
    case False
    then show ?thesis
      using inv filling conc by (auto simp: stream_inv_def keys_ok_def slots_ok_def source_ok_def stream_defs)
  qed
next
  case (answered filling)
  then show ?thesis using pulled_inv [OF inv] by simp
next
  case (settles k r)
  then show ?thesis using inv by (auto simp: stream_inv_def keys_ok_def slots_ok_def source_ok_def stream_defs)
next
  case cancelled
  then show ?thesis using inv by (auto simp: stream_inv_def keys_ok_def slots_ok_def source_ok_def stream_defs)
next
  case (raced k r)
  then show ?thesis using take_settlement_inv [OF inv] by simp
next
  case resumed
  then show ?thesis
    using inv launchNext_inv [of s concurrency src False]
    by (auto simp: stream_inv_def keys_ok_def slots_ok_def source_ok_def stream_defs)
next
  case consumer_closed
  then show ?thesis using inv by (auto simp: stream_inv_def keys_ok_def slots_ok_def source_ok_def stream_defs)
next
  case ended
  then show ?thesis using inv by (auto simp: stream_inv_def keys_ok_def slots_ok_def source_ok_def stream_defs)
qed

interpretation streams: invariant_system "\<lambda>s. s = open_stream src" "stream_step (Suc k)" "stream_inv (Suc k) src" for src k
  by unfold_locales (auto intro: stream_inv_init stream_inv_step)

text \<open>
  C22: A stream never has more items in flight than its concurrency, and never takes more items from its
  source than it has handed to its consumer or dropped, plus that number. Every item taken from the
  source is settled at most once and yielded at most once. A stream that ends, without its scope having
  been cancelled, has taken the settlement of every item of the source.
\<close>

theorem stream_backpressure:
  assumes "0 < concurrency" and "reachable (\<lambda>s. s = open_stream src) (stream_step concurrency) s"
  shows "length (st_active s) \<le> concurrency \<and> st_next s \<le> length (st_taken s) + concurrency \<and>
    distinct (st_taken s @ st_active s) \<and> length (st_out s) \<le> length (st_taken s) \<and>
    (st_phase s = SEnded \<longrightarrow> st_active s = [] \<and> (st_aborted s \<or> set (st_taken s) = {..<length src}))"
proof -
  obtain k where "concurrency = Suc k" using assms(1) by (cases concurrency) auto
  then have inv: "stream_inv concurrency src s" using streams.reachable_inv assms(2) by blast
  have "set (st_taken s) = {..<length src}" if "st_phase s = SEnded" "\<not> st_aborted s"
  proof -
    have s: "st_active s = []" "st_next s = length src" "length (st_taken s) = st_next s" "distinct (st_taken s)"
        "set (st_taken s) \<subseteq> {..<st_next s}"
      using inv that by (auto simp: stream_inv_def keys_ok_def source_ok_def open_phase_def)
    then show ?thesis using card_subset_eq [of "{..<length src}" "set (st_taken s)"] distinct_card by fastforce
  qed
  then show ?thesis using inv by (auto simp: stream_inv_def keys_ok_def slots_ok_def source_ok_def)
qed

lemmas stream_run_defs = open_stream_def fill_def launchNext_def pulled_def back_to_def item_settles_def take_settlement_def
  stream_failed_def

text \<open>A run given by its states, each a step after the one before.\<close>

lemma run_reachable:
  "reachable init step s \<Longrightarrow> successively step (s # ss) \<Longrightarrow> reachable init step (List.last (s # ss))"
proof (induction ss arbitrary: s)
  case (Cons t ss)
  then have "reachable init step t" using reach_step [of init step s t] by simp
  with Cons show ?case by simp
qed simp

text \<open>Two items in flight at a time: the first has been spawned.\<close>

definition one_spawned :: "nat stream" where
  "one_spawned = pulled True (fill 2 (open_stream [Inr 10, Inr 20, Inr 30]))"

lemma one_spawned_reachable:
  "reachable (\<lambda>s. s = open_stream [Inr 10, Inr 20, Inr 30]) (stream_step 2) one_spawned"
proof -
  let ?s = "open_stream [Inr 10, Inr 20, Inr 30] :: nat stream"
  have "stream_step 2 ?s (fill 2 ?s)" by (rule stream_step.filling) (simp add: stream_run_defs)
  moreover have "stream_step 2 (fill 2 ?s) one_spawned"
    unfolding one_spawned_def by (rule stream_step.answered) (simp add: stream_run_defs)
  ultimately show ?thesis using run_reachable [of "\<lambda>s. s = ?s" "stream_step 2" ?s "[fill 2 ?s, one_spawned]"] by (simp add: reach_init)
qed

theorem stream_backpressure_witness:
  "length (st_active one_spawned) = 1 \<and> st_next one_spawned \<le> length (st_taken one_spawned) + 2"
  using stream_backpressure [OF _ one_spawned_reachable] by (simp add: one_spawned_def stream_run_defs)

section \<open>Cancelled streams\<close>

text \<open>The fill loop is at its head, its scope is cancelled, the source has more and a slot is free.\<close>

definition wedged :: "nat \<Rightarrow> 'v stream \<Rightarrow> bool" where
  "wedged concurrency s \<longleftrightarrow> st_phase s = SFilling \<and> st_aborted s \<and> \<not> st_done s \<and> length (st_active s) < concurrency"

text \<open>
  C31: When the scope of a stream is cancelled between two launches of its fill loop, as an item that fails
  then does, the loop never ends: \<open>launchNext\<close> returns at once and changes nothing, and the loop only looks
  at the number of active items and the source. No settlement is taken any more, and the consumer gets
  neither a value nor an error.
\<close>

theorem stream_fill_wedges:
  assumes "wedged concurrency s" and "(stream_step concurrency)\<^sup>*\<^sup>* s s'"
  shows "wedged concurrency s' \<and> st_out s' = st_out s \<and> st_taken s' = st_taken s"
  using assms(2)
proof induction
  case base
  then show ?case using assms(1) by simp
next
  case (step t u)
  from step(2) show ?case
    using step(3) by cases (auto simp: wedged_def fill_def launchNext_def back_to_def item_settles_def)
qed

theorem stream_fill_wedges_witness:
  "reachable (\<lambda>s. s = open_stream [Inr 10, Inr 20, Inr 30]) (stream_step 2) (item_settles 0 (Inl (PlainError ''x'')) one_spawned) \<and>
   wedged 2 (fill 2 (item_settles 0 (Inl (PlainError ''x'')) one_spawned))"
proof -
  let ?s = "item_settles 0 (Inl (PlainError ''x'')) one_spawned"
  have "stream_step 2 one_spawned ?s" by (rule stream_step.settles) (simp_all add: one_spawned_def stream_run_defs)
  then have "reachable (\<lambda>s. s = open_stream [Inr 10, Inr 20, Inr 30]) (stream_step 2) ?s"
    by (rule reach_step [OF one_spawned_reachable])
  moreover have "wedged 2 ?s" by (simp add: wedged_def one_spawned_def stream_run_defs is_failure_def)
  moreover have "(stream_step 2)\<^sup>*\<^sup>* ?s (fill 2 ?s)"
    by (intro r_into_rtranclp stream_step.filling) (simp add: one_spawned_def stream_run_defs)
  ultimately show ?thesis using stream_fill_wedges by blast
qed

text \<open>
  An item that fails while the next one is pulled is masked: the consumer gets the error of \<open>spawn\<close>.
\<close>

lemma item_error_masked:
  "st_phase (pulled True (item_settles 0 (Inl (PlainError ''x'')) (fill 2 one_spawned))) = SFailed cannot_spawn"
  by (simp add: one_spawned_def stream_run_defs is_failure_def)

text \<open>
  A stream whose scope is cancelled from outside ends as if its source were exhausted, when the items in
  flight still succeed.
\<close>

lemma cancelled_stream_looks_complete:
  "\<exists>s. reachable (\<lambda>s. s = open_stream [Inr 10, Inr 20 :: err + nat]) (stream_step 1) s \<and> st_phase s = SEnded \<and>
     st_out s = [10] \<and> st_src s = [Inr 20]"
proof -
  let ?s0 = "open_stream [Inr 10, Inr 20] :: nat stream"
  let ?s1 = "fill 1 ?s0" let ?s2 = "pulled True ?s1" let ?s3 = "fill 1 ?s2" let ?s4 = "?s3\<lparr>st_aborted := True\<rparr>"
  let ?s5 = "item_settles 0 (Inr (Some 10)) ?s4" let ?s6 = "take_settlement 0 (Inr (Some 10)) ?s5"
  let ?s7 = "launchNext False ?s6" let ?s8 = "?s7\<lparr>st_phase := SEnded\<rparr>"
  have "stream_step 1 ?s0 ?s1" by (rule stream_step.filling) (simp add: stream_run_defs)
  moreover have "stream_step 1 ?s1 ?s2" by (rule stream_step.answered) (simp add: stream_run_defs)
  moreover have "stream_step 1 ?s2 ?s3" by (rule stream_step.filling) (simp add: stream_run_defs)
  moreover have "stream_step 1 ?s3 ?s4" by (rule stream_step.cancelled)
  moreover have "stream_step 1 ?s4 ?s5" by (rule stream_step.settles) (simp_all add: stream_run_defs)
  moreover have "stream_step 1 ?s5 ?s6" by (rule stream_step.raced) (simp_all add: stream_run_defs)
  moreover have "stream_step 1 ?s6 ?s7" by (rule stream_step.resumed) (simp add: stream_run_defs)
  moreover have "stream_step 1 ?s7 ?s8" by (rule stream_step.ended) (simp_all add: stream_run_defs)
  ultimately have "reachable (\<lambda>s. s = ?s0) (stream_step 1) ?s8"
    using run_reachable [of "\<lambda>s. s = ?s0" "stream_step 1" ?s0 "[?s1, ?s2, ?s3, ?s4, ?s5, ?s6, ?s7, ?s8]"] by (simp add: reach_init)
  moreover have "st_out ?s8 = [10]" "st_src ?s8 = [Inr 20]" "st_phase ?s8 = SEnded" by (simp_all add: stream_run_defs)
  ultimately show ?thesis by blast
qed

end
