(* ===== verification/AI.thy ===== *)
theory AI
  imports Work Worker
begin

text \<open>
  The AI adapter utilities of \<open>packages/core/src/ai/index.ts\<close>: batch embedding with bisection of rejected
  batches, \<open>embedAll\<close>, and the event log of an agent with its tool calls.

  A provider is a timed task of its input, so it may answer differently at other times. The charge of a
  token budget is an argument that says what \<open>consume\<close> throws at that time. \<open>show\<close> is the text
  \<open>String(v)\<close> of a thrown value. An agent is a state machine, because its body may run tools
  concurrently: a step starts a tool call or ends one.
\<close>

section \<open>Embedding with bisection\<close>

datatype batch_verdict = SplitBatch | FailBatch

type_synonym ('i, 'v) bisection = "(nat \<times> 'v) list \<times> (nat \<times> 'i \<times> err) list"

definition chunkIndexed :: "nat \<Rightarrow> 'i list \<Rightarrow> (nat \<times> 'i) list list" where
  "chunkIndexed n items = map (\<lambda>k. enumerate (k * n) (take n (drop (k * n) items))) [0..<(length items + n - 1) div n]"

definition throwIfAborted :: "signal \<Rightarrow> rat \<Rightarrow> err option" where
  "throwIfAborted sig now = (case sig of Some (ta, e) \<Rightarrow> if ta \<le> now then Some e else None | None \<Rightarrow> None)"

abbreviation midpoint :: "'a list \<Rightarrow> nat" where
  "midpoint batch \<equiv> (length batch + 1) div 2"

function embedIndexedBatch :: "('i list \<Rightarrow> 'v list task) \<Rightarrow> (err \<Rightarrow> 'i list \<Rightarrow> batch_verdict) \<Rightarrow> ctx \<Rightarrow> (nat \<times> 'i) list \<Rightarrow>
    ('i, 'v) bisection \<Rightarrow> rat \<Rightarrow> ('i, 'v) bisection outcome \<times> run_log" where
  "embedIndexedBatch provider classify ctx batch acc now =
     (case throwIfAborted (cx_signal ctx) now of
        Some e \<Rightarrow> (Some (now, Inl e), [])
      | None \<Rightarrow>
          (case provider (map snd batch) ctx now of
             (None, lg) \<Rightarrow> (None, lg)
           | (Some (t, r), lg) \<Rightarrow>
               (case bind_res r (\<lambda>vectors. if length vectors \<noteq> length batch
                    then Inl (PlainError ''Embedding provider returned the wrong number of vectors'') else Inr vectors) of
                  Inr vectors \<Rightarrow> (Some (t, Inr (fst acc @ zip (map fst batch) vectors, snd acc)), lg)
                | Inl e \<Rightarrow>
                    if 1 < length batch \<and> classify e (map snd batch) = SplitBatch
                    then await_task
                           (await_task (Some (t, Inr acc), lg)
                              (\<lambda>acc1 t1. embedIndexedBatch provider classify ctx (take (midpoint batch) batch) acc1 t1))
                           (\<lambda>acc2 t2. embedIndexedBatch provider classify ctx (drop (midpoint batch) batch) acc2 t2)
                    else if length batch = 1
                    then (Some (t, Inr (fst acc, snd acc @ [(fst (hd batch), snd (hd batch), e)])), lg)
                    else (Some (t, Inl e), lg))))"
  by pat_completeness auto

termination
  by (relation "measure (\<lambda>(_, _, _, batch, _, _). length batch)") auto

declare embedIndexedBatch.simps [simp del]

record ('i, 'v) bisection_opts =
  bo_batchSize :: jsnum
  bo_concurrency :: jsnum
  bo_mode :: error_mode \<comment> \<open>fail or continue\<close>
  bo_countTokens :: "'i \<Rightarrow> rat"
  bo_classify :: "err \<Rightarrow> 'i list \<Rightarrow> batch_verdict"
  bo_retry :: "retry_arg option"
  bo_timeout :: "duration option"

text \<open>\<open>we_charge\<close> of the environment answers the retry budget; \<open>charge\<close> the token budget of a chunk.\<close>

definition chunk_body :: "('i, 'v) bisection_opts \<Rightarrow> ('i list \<Rightarrow> 'v list task) \<Rightarrow> (rat \<Rightarrow> rat \<Rightarrow> err option) \<Rightarrow> (nat \<times> 'i) list \<Rightarrow>
    ('i, 'v) bisection task" where
  "chunk_body opts provider charge chunk ctx now =
     (let tokenCost = (\<Sum>x\<leftarrow>chunk. bo_countTokens opts (snd x))
      in case (if 0 < tokenCost then charge tokenCost now else None) of
           Some e \<Rightarrow> (Some (now, Inl e), [])
         | None \<Rightarrow> embedIndexedBatch provider (bo_classify opts) ctx chunk ([], []) now)"

definition chunk_guard :: "error_mode \<Rightarrow> (nat \<times> 'i) list \<Rightarrow> ('i, 'v) bisection task \<Rightarrow> ('i, 'v) bisection task" where
  "chunk_guard mode chunk task ctx now =
     (case task ctx now of
        (Some (t, Inl e), lg) \<Rightarrow>
          if is_cancellation e \<or> mode = ModeFail then (Some (t, Inl e), lg)
          else (Some (t, Inr ([], [(fst (hd chunk), snd (hd chunk), e)])), lg)
      | r \<Rightarrow> r)"

definition chunk_task :: "work_env \<Rightarrow> ('i, 'v) bisection_opts \<Rightarrow> ('i list \<Rightarrow> 'v list task) \<Rightarrow> (rat \<Rightarrow> rat \<Rightarrow> err option) \<Rightarrow>
    nat \<times> (nat \<times> 'i) list \<Rightarrow> err + ('i, 'v) bisection task" where
  "chunk_task env opts provider charge = (\<lambda>(k, chunk).
     bind_res (case bo_retry opts of
         None \<Rightarrow> Inr (chunk_body opts provider charge chunk)
       | Some r \<Rightarrow> retry (chunk_body opts provider charge chunk) r (we_charge env k) (we_random env k)) (\<lambda>task1.
     bind_res (case bo_timeout opts of None \<Rightarrow> Inr task1 | Some d \<Rightarrow> timeout (we_timer_first env) task1 d) (\<lambda>task2.
       Inr (chunk_guard (bo_mode opts) chunk task2))))"

text \<open>The array the results are stored in by index: the last store wins, the holes are left out.\<close>

definition by_index :: "nat \<Rightarrow> (nat \<times> 'v) list \<Rightarrow> 'v list" where
  "by_index n rs = List.map_filter (map_of (rev rs)) [0..<n]"

definition bisection_output :: "error_mode \<Rightarrow> nat \<Rightarrow> ('i, 'v) bisection list \<Rightarrow> err + 'v list \<times> 'i item_error list" where
  "bisection_output mode n chunks =
     (let errors = sort_key ie_index
            (map (\<lambda>(i, item, e). \<lparr>ie_index = i, ie_item = item, ie_error = e, ie_attempts = 1\<rparr>) (concat (map snd chunks)))
      in case (if mode = ModeFail then errors else []) of
           e # _ \<Rightarrow> Inl (ie_error e)
         | [] \<Rightarrow> Inr (by_index n (concat (map fst chunks)), errors))"

definition embedAllBisection :: "work_env \<Rightarrow> ('i, 'v) bisection_opts \<Rightarrow> ('i list \<Rightarrow> 'v list task) \<Rightarrow> (rat \<Rightarrow> rat \<Rightarrow> err option) \<Rightarrow>
    'i list \<Rightarrow> ('v list \<times> 'i item_error list) task" where
  "embedAllBisection env opts provider charge items ctx now =
     (if \<not> is_integer (bo_batchSize opts) \<or> bo_batchSize opts < Fin 1
      then (Some (now, Inl (RangeError ''embedAllBisection batchSize must be a positive integer'')), [])
      else case map_res (chunk_task env opts provider charge) (enumerate 0 (chunkIndexed (num_nat (bo_batchSize opts)) items)) of
             Inl e \<Rightarrow> (Some (now, Inl e), [])
           | Inr tasks \<Rightarrow>
               await_task (run_pool (we_first_id env) (bo_concurrency opts) tasks ctx now)
                 (\<lambda>chunks t. (Some (t, bisection_output (bo_mode opts) (length items) chunks), [])))"

text \<open>\<open>embedAll\<close>: the work builder with four items in flight; input and vector are values of one type.\<close>

definition embed_item :: "('v \<Rightarrow> rat) \<Rightarrow> (rat \<Rightarrow> rat \<Rightarrow> err option) \<Rightarrow> ('v \<Rightarrow> 'v task) \<Rightarrow> 'v \<Rightarrow> 'v task" where
  "embed_item countTokens charge provider input ctx now =
     (let tokens = countTokens input
      in case (if 0 < tokens then charge tokens now else None) of
           Some e \<Rightarrow> (Some (now, Inl e), [])
         | None \<Rightarrow> provider input ctx now)"

definition embedAll :: "work_env \<Rightarrow> jsnum option \<Rightarrow> error_mode option \<Rightarrow> retry_arg option \<Rightarrow> duration option \<Rightarrow> ('v \<Rightarrow> rat) \<Rightarrow>
    (rat \<Rightarrow> rat \<Rightarrow> err option) \<Rightarrow> ('v \<Rightarrow> 'v task) \<Rightarrow> 'v list \<Rightarrow> 'v work_output task" where
  "embedAll env concurrency onError retryOpt timeoutOpt countTokens charge provider inputs ctx now =
     (case inParallel (or_default concurrency (Fin 4)) empty_config of
        Inl e \<Rightarrow> (Some (now, Inl e), [])
      | Inr cfg \<Rightarrow> work_do env (cfg\<lparr>wc_errorMode := Some (or_default onError ModeFail), wc_retry := retryOpt, wc_timeout := timeoutOpt\<rparr>)
          inputs (embed_item countTokens charge provider) ctx now)"

section \<open>wrapAI, transcribeStream\<close>

datatype ai_log = AiStarted string | AiSucceeded string | AiFailed string string

definition wrapAI :: "(jsval \<Rightarrow> string) \<Rightarrow> string \<Rightarrow> 'v task \<Rightarrow> ctx \<Rightarrow> rat \<Rightarrow> ('v outcome \<times> run_log) \<times> ai_log list" where
  "wrapAI show provider task ctx now =
     (let r = task ctx now
      in (r, AiStarted provider #
             (case fst r of
                None \<Rightarrow> []
              | Some (_, Inr _) \<Rightarrow> [AiSucceeded provider]
              | Some (_, Inl e) \<Rightarrow> [AiFailed provider (errorMessage show e)])))"

text \<open>
  The generator of \<open>transcribeStream\<close> for a consumer that asks at once: what it yields, and when and how
  it ends (\<open>None\<close>: never). A chunk comes with the time the source takes for it. Each chunk is
  transcribed in a group of its own.
\<close>

fun transcribe_loop :: "signal \<Rightarrow> ('i \<Rightarrow> 'o task) \<Rightarrow> (rat \<times> 'i) list \<Rightarrow> ctx \<Rightarrow> rat \<Rightarrow> 'o list \<times> (rat \<times> err option) option" where
  "transcribe_loop sig transcribe [] ctx now = ([], Some (now, throwIfAborted sig now))"
| "transcribe_loop sig transcribe ((delay, chunk) # rest) ctx now =
     (case throwIfAborted sig (now + delay) of
        Some e \<Rightarrow> ([], Some (max now (fst (the sig)), Some e))
      | None \<Rightarrow>
          let child = child_ctx None None ctx
          in case fst (transcribe chunk (child\<lparr>cx_signal := any_signal (cx_signal child) sig\<rparr>) (now + delay)) of
               None \<Rightarrow> ([], None)
             | Some (t, Inl e) \<Rightarrow> ([], Some (t, Some e))
             | Some (t, Inr v) \<Rightarrow> (let (vs, r) = transcribe_loop sig transcribe rest ctx t in (v # vs, r)))"

section \<open>Capabilities\<close>

datatype denial = CapabilityDenied | CapabilityNotAllowed

record authority =
  au_allowed :: "string list option"
  au_denied :: "string list option"

definition validateAgentLabel :: "string \<Rightarrow> string \<Rightarrow> err + unit" where
  "validateAgentLabel label v =
     (if v = [] \<or> 128 < length v then Inl (RangeError (label @ '' must be between 1 and 128 characters'')) else Inr ())"

definition evaluateCapability :: "authority option \<Rightarrow> string \<Rightarrow> string \<Rightarrow> err + denial option" where
  "evaluateCapability authority tool capability =
     bind_res (validateAgentLabel ''agent tool'' tool) (\<lambda>_.
     bind_res (validateAgentLabel ''agent capability'' capability) (\<lambda>_.
       Inr (case authority of
              None \<Rightarrow> None
            | Some a \<Rightarrow>
                if capability \<in> set (or_default (au_denied a) []) then Some CapabilityDenied
                else (case au_allowed a of
                        Some caps \<Rightarrow> if capability \<notin> set caps then Some CapabilityNotAllowed else None
                      | None \<Rightarrow> None))))"

section \<open>Agents\<close>

datatype agent_payload =
    AgentStarted
  | ToolStarted string
  | ToolDenied string string denial
  | ToolSucceeded string
  | ToolFailed string string
  | ToolCancelled string cancel_reason
  | AgentCompleted
  | AgentFailed string

record agent_event =
  ae_payload :: agent_payload
  ae_seq :: nat
  ae_agent :: nat
  ae_at :: rat

text \<open>\<open>ag_running\<close>: the tool calls whose promise is pending; \<open>ag_charged\<close>: what was consumed, by budget.\<close>

record agent =
  ag_id :: nat
  ag_events :: "agent_event list"
  ag_seq :: nat
  ag_running :: "(nat \<times> string) list"
  ag_calls :: nat
  ag_charged :: "(nat \<times> rat) list"

definition emit_agent :: "agent_payload \<Rightarrow> rat \<Rightarrow> agent \<Rightarrow> agent" where
  "emit_agent p now a =
     a\<lparr>ag_events := ag_events a @ [\<lparr>ae_payload = p, ae_seq = ag_seq a + 1, ae_agent = ag_id a, ae_at = now\<rparr>], ag_seq := ag_seq a + 1\<rparr>"

definition open_agent :: "nat \<Rightarrow> rat \<Rightarrow> agent" where
  "open_agent i now =
     emit_agent AgentStarted now \<lparr>ag_id = i, ag_events = [], ag_seq = 0, ag_running = [], ag_calls = 0, ag_charged = []\<rparr>"

record tool_opts =
  to_tokens :: "rat option"
  to_cost :: "rat option"
  to_toolCalls :: "rat option"
  to_capability :: "string option"

text \<open>The charges of a call, in order; budget 0 counts tokens, 1 cost, 2 tool calls.\<close>

definition tool_charges :: "tool_opts \<Rightarrow> (nat \<times> rat) list" where
  "tool_charges opts =
     List.map_filter (\<lambda>(k, amount). case amount of Some q \<Rightarrow> if 0 < q then Some (k, q) else None | None \<Rightarrow> None)
       [(0, to_tokens opts), (1, to_cost opts), (2, to_toolCalls opts)]"

fun charge_all :: "(nat \<Rightarrow> rat \<Rightarrow> err option) \<Rightarrow> (nat \<times> rat) list \<Rightarrow> (nat \<times> rat) list \<times> err option" where
  "charge_all consume [] = ([], None)"
| "charge_all consume ((k, q) # cs) =
     (case consume k q of
        Some e \<Rightarrow> ([], Some e)
      | None \<Rightarrow> (let (paid, r) = charge_all consume cs in ((k, q) # paid, r)))"

definition tool_failure :: "(jsval \<Rightarrow> string) \<Rightarrow> string \<Rightarrow> err \<Rightarrow> agent_payload" where
  "tool_failure show name e =
     (case err_reason e of Some reason \<Rightarrow> ToolCancelled name reason | None \<Rightarrow> ToolFailed name (errorMessage show e))"

text \<open>A call of \<open>tool\<close>, up to the start of its task: the error it rejects with, or \<open>None\<close> when it runs.\<close>

definition start_tool :: "(jsval \<Rightarrow> string) \<Rightarrow> authority option \<Rightarrow> string \<Rightarrow> tool_opts \<Rightarrow> (nat \<Rightarrow> rat \<Rightarrow> err option) \<Rightarrow> rat \<Rightarrow> agent \<Rightarrow>
    err option \<times> agent" where
  "start_tool show authority name opts consume now a =
     (case (case to_capability opts of None \<Rightarrow> Inr None | Some c \<Rightarrow> map_sum id (map_option (Pair c)) (evaluateCapability authority name c)) of
        Inl e \<Rightarrow> (Some e, a)
      | Inr (Some (c, reason)) \<Rightarrow> (Some (JsError ''AgentCapabilityError'' ''Agent tool denied capability''), emit_agent (ToolDenied name c reason) now a)
      | Inr None \<Rightarrow>
          (let a1 = emit_agent (ToolStarted name) now a;
               (charged, r) = charge_all consume (tool_charges opts);
               a2 = a1\<lparr>ag_charged := ag_charged a1 @ charged\<rparr>
           in case r of
                Some e \<Rightarrow> (Some e, emit_agent (tool_failure show name e) now a2)
              | None \<Rightarrow> (None, a2\<lparr>ag_running := ag_running a2 @ [(ag_calls a2, name)], ag_calls := ag_calls a2 + 1\<rparr>)))"

text \<open>The task of a running call settles.\<close>

definition end_tool :: "(jsval \<Rightarrow> string) \<Rightarrow> nat \<Rightarrow> string \<Rightarrow> err + unit \<Rightarrow> rat \<Rightarrow> agent \<Rightarrow> agent" where
  "end_tool show call name r now a =
     emit_agent (case r of Inr _ \<Rightarrow> ToolSucceeded name | Inl e \<Rightarrow> tool_failure show name e) now
       (a\<lparr>ag_running := filter (\<lambda>x. fst x \<noteq> call) (ag_running a)\<rparr>)"

definition end_body :: "(jsval \<Rightarrow> string) \<Rightarrow> err + unit \<Rightarrow> rat \<Rightarrow> agent \<Rightarrow> agent" where
  "end_body show r now a = emit_agent (case r of Inr _ \<Rightarrow> AgentCompleted | Inl e \<Rightarrow> AgentFailed (errorMessage show e)) now a"

end
