(* ===== verification/AI_Props.thy ===== *)
theory AI_Props
  imports AI Work_Props "HOL-Library.Multiset"
begin

text \<open>
  What the AI utilities guarantee (\<open>AI\<close>): the bisection of a batch accounts for each of its items once,
  and in fail mode the vectors returned are aligned with the inputs, each taken from the place of its
  item in a batch the provider answered; the log of an agent numbers its events without a gap and
  records one end for each tool call that started.
\<close>

section \<open>Values and their sources\<close>

lemma pool_loop_complete:
  assumes "\<forall>p \<in> set (pool_loop start frees None idx). \<exists>u v. pr_out p = Some (u, Inr v)"
    and "frees \<noteq> []" and "None \<notin> set frees"
  shows "map pr_index (pool_loop start frees None idx) = idx \<and>
    (\<forall>p \<in> set (pool_loop start frees None idx). pr_out p = start (pr_index p) (pr_start p))"
  using assms
proof (induction idx arbitrary: frees)
  case (Cons i idx)
  obtain w t where e: "earliest (free_workers frees) = Some (w, t, ())"
  proof (cases "earliest (free_workers frees)")
    case None
    then have "free_workers frees = []" by simp
    moreover obtain t where "(0, t, ()) \<in> set (free_workers frees)"
      using Cons.prems(2,3) free_workers_iff [of 0 _ _ frees] by (metis length_greater_0_conv not_None_eq nth_mem)
    ultimately show ?thesis by simp
  next
    case (Some x)
    then show ?thesis using that by (cases x) auto
  qed
  define out where "out = start i t"
  obtain u v where s: "start i t = Some (u, Inr v)" using Cons.prems(1) e by (auto simp: Let_def split: option.splits)
  have "None \<notin> set (frees[w := Some u])" using Cons.prems(3) set_update_subset_insert [of frees w "Some u"] by blast
  moreover have "\<forall>p \<in> set (pool_loop start (frees[w := Some u]) None idx). \<exists>u v. pr_out p = Some (u, Inr v)"
    using Cons.prems(1) e s by simp
  ultimately show ?case using Cons.IH [of "frees[w := Some u]"] Cons.prems(2) e s by simp
qed simp

text \<open>When a pool resolves, every task ran and gave the value at its place.\<close>

lemma run_pool_values:
  fixes tasks :: "'v task list"
  assumes "fst (run_pool first_id concurrency tasks ctx now) = Some (t, Inr vs)"
  shows "length vs = length tasks \<and> (\<forall>i < length tasks. \<exists>c s u. fst ((tasks ! i) c s) = Some (u, Inr (vs ! i)))"
proof -
  let ?start = "\<lambda>i t. fst ((tasks ! i) (child_ctx None None ctx) t)"
  define runs where "runs = pool_schedule concurrency tasks ctx now"
  define outs where "outs = map pr_out runs"
  define aborted where "aborted = sibling_abort first_id
    (\<lambda>abort. map (\<lambda>p. fst ((tasks ! pr_index p) (child_ctx abort None ctx) (pr_start p))) runs) outs"
  have conc: "is_integer concurrency" "\<not> concurrency < Fin 1" and all: "promise_all outs = Inr vs" and total: "None \<notin> set aborted"
    using assms by (auto simp: run_pool_def Let_def group_end_def close_time_def runs_def outs_def aborted_def split: if_splits)
  have clean: "settlements rejected_with outs = []"
    using all by (auto simp: promise_all_def split: option.splits)
  have "settlements failed_with outs = []"
  proof -
    have "(i, u, e) \<notin> set (settlements failed_with outs)" for i u e
      using settlements_iff [of i u e failed_with outs] settlements_iff [of i u e rejected_with outs] clean by auto
    then show ?thesis by (metis list.set_intros(1) neq_Nil_conv surj_pair)
  qed
  then have none: "None \<notin> set outs" using total by (simp add: aborted_def sibling_abort_def)
  obtain vs' where vs': "promise_all outs = Inr vs'" "length vs' = length outs" "\<forall>i < length outs. \<exists>t. outs ! i = Some (t, Inr (vs' ! i))"
    using promise_all_values [OF clean none] by blast
  then have vs: "length vs = length outs" "\<forall>i < length outs. \<exists>t. outs ! i = Some (t, Inr (vs ! i))" using all by auto
  have runs: "map pr_index runs = [0..<length tasks] \<and> (\<forall>p \<in> set runs. pr_out p = ?start (pr_index p) (pr_start p))"
  proof (cases "tasks = []")
    case False
    have "\<forall>p \<in> set runs. \<exists>u v. pr_out p = Some (u, Inr v)"
      using vs(2) by (auto simp: outs_def in_set_conv_nth) metis
    moreover have "1 \<le> pool_workers concurrency tasks"
      using False conc by (cases concurrency) (auto simp: pool_workers_def Suc_le_eq integral_def)
    ultimately show ?thesis
      unfolding runs_def pool_schedule_def by (intro pool_loop_complete) auto
  qed (simp add: runs_def pool_schedule_def)
  have len: "length outs = length tasks" using arg_cong [OF conjunct1 [OF runs], of length] by (simp add: outs_def)
  have "\<exists>c s u. fst ((tasks ! i) c s) = Some (u, Inr (vs ! i))" if i: "i < length tasks" for i
  proof -
    have j: "i < length runs" using i len by (simp add: outs_def)
    have "pr_index (runs ! i) = i" using nth_map [OF j, of pr_index] runs i by simp
    then have "outs ! i = ?start i (pr_start (runs ! i))" using runs j by (simp add: outs_def)
    then show ?thesis using vs(2) i len by metis
  qed
  then show ?thesis using vs(1) len by simp
qed

text \<open>A value that passes through retry or timeout was given by the task.\<close>

lemma retry_loop_value:
  "fst (retry_loop n task policy charge rnd ctx attempt now) = Some (t, Inr v) \<Longrightarrow> \<exists>c s u. fst (task c s) = Some (u, Inr v)"
proof (induction n arbitrary: attempt now)
  case (Suc n)
  let ?c = "ctx\<lparr>cx_attempt := attempt, cx_wr := True\<rparr>"
  obtain res lg where r: "task ?c now = (res, lg)" by (cases "task ?c now") auto
  show ?case
  proof (cases "\<exists>u w. res = Some (u, Inr w)")
    case True
    then show ?thesis using Suc.prems r by (auto simp: Let_def split_beta) (metis fst_conv)
  next
    case False
    then obtain u e where "res = Some (u, Inl e)" using Suc.prems r by (cases res) (auto split: sum.splits, metis sum.exhaust)
    then show ?thesis
      using Suc r by (auto simp: Let_def split_beta split: if_splits option.splits sum.splits prod.splits)
  qed
qed simp

lemma retry_value:
  assumes "retry task opts charge rnd = Inr task1" and "fst (task1 c s) = Some (u, Inr v)"
  shows "\<exists>c s u. fst (task c s) = Some (u, Inr v)"
  using assms retry_loop_value by (fastforce simp: retry_def res_simps Let_def)

lemma timeout_value:
  assumes "timeout timer_first task d = Inr task1" and "fst (task1 c s) = Some (u, Inr v)"
  shows "\<exists>c s u. fst (task c s) = Some (u, Inr v)"
  using assms
  by (auto simp: timeout_def res_simps timeout_run_def Let_def race_timer_def split_beta split: option.splits if_splits)
    (metis)+

section \<open>Bisection\<close>

text \<open>The provider answered a batch that holds the item, with the vector at the item's place.\<close>

definition from_provider :: "('i list \<Rightarrow> 'v list task) \<Rightarrow> 'i \<Rightarrow> 'v \<Rightarrow> bool" where
  "from_provider provider item v \<longleftrightarrow>
     (\<exists>c s u batch vs k. fst (provider batch c s) = Some (u, Inr vs) \<and> length vs = length batch \<and> k < length batch \<and>
        batch ! k = item \<and> vs ! k = v)"

text \<open>What a batch adds to the results and errors: each of its indices once.\<close>

definition accounts :: "('i list \<Rightarrow> 'v list task) \<Rightarrow> (nat \<times> 'i) list \<Rightarrow> ('i, 'v) bisection \<Rightarrow> bool" where
  "accounts provider batch acc \<longleftrightarrow>
     mset (map fst (fst acc)) + mset (map fst (snd acc)) = mset (map fst batch) \<and>
     (\<forall>(i, v) \<in> set (fst acc). \<exists>item. (i, item) \<in> set batch \<and> from_provider provider item v) \<and>
     (\<forall>(i, item, e) \<in> set (snd acc). (i, item) \<in> set batch)"

definition adds :: "('i list \<Rightarrow> 'v list task) \<Rightarrow> (nat \<times> 'i) list \<Rightarrow> ('i, 'v) bisection \<Rightarrow> ('i, 'v) bisection \<Rightarrow> bool" where
  "adds provider batch acc acc' \<longleftrightarrow>
     (\<exists>rs es. acc' = (fst acc @ rs, snd acc @ es) \<and> accounts provider batch (rs, es))"

lemma accounts_append:
  "accounts provider b1 (rs1, es1) \<Longrightarrow> accounts provider b2 (rs2, es2) \<Longrightarrow> accounts provider (b1 @ b2) (rs1 @ rs2, es1 @ es2)"
  unfolding accounts_def by (auto simp: add.assoc add.left_commute)

lemma adds_append: "adds provider b1 acc acc1 \<Longrightarrow> adds provider b2 acc1 acc2 \<Longrightarrow> adds provider (b1 @ b2) acc acc2"
  unfolding adds_def by (fastforce intro: accounts_append)

lemma await_Inr:
  assumes "fst (await_task r k) = Some (t, Inr v)"
  obtains u w lg where "r = (Some (u, Inr w), lg)" and "fst (k w u) = Some (t, Inr v)"
  using assms by (auto simp: await_task_def split: prod.splits option.splits sum.splits)

lemma provider_answer_accounts:
  assumes "fst (provider (map snd batch) c s) = Some (u, Inr vectors)" and "length vectors = length batch"
  shows "accounts provider batch (zip (map fst batch) vectors, [])"
proof -
  have "\<exists>item. (i, item) \<in> set batch \<and> from_provider provider item v"
    if iv: "(i, v) \<in> set (zip (map fst batch) vectors)" for i v
  proof -
    obtain k where k: "k < length batch" "i = fst (batch ! k)" "v = vectors ! k"
      using iv assms(2) by (auto simp: in_set_conv_nth [of "(i, v)"])
    have "from_provider provider (snd (batch ! k)) v"
      unfolding from_provider_def using assms k by (intro exI [of _ c] exI [of _ s] exI [of _ u] exI [of _ "map snd batch"]
          exI [of _ vectors] exI [of _ k]) simp
    moreover have "(i, snd (batch ! k)) \<in> set batch" using k by (metis nth_mem surjective_pairing)
    ultimately show ?thesis by blast
  qed
  moreover have "map fst (zip (map fst batch) vectors) = map fst batch" using assms(2) by (simp add: map_fst_zip)
  ultimately show ?thesis by (auto simp: accounts_def)
qed

lemma embed_adds:
  "fst (embedIndexedBatch provider classify ctx batch acc now) = Some (t, Inr acc') \<Longrightarrow> adds provider batch acc acc'"
proof (induction "length batch" arbitrary: batch acc now t acc' rule: less_induct)
  case less
  obtain u r lg where p: "throwIfAborted (cx_signal ctx) now = None" "provider (map snd batch) ctx now = (Some (u, r), lg)"
    using less.prems by (subst (asm) embedIndexedBatch.simps) (auto split: option.splits prod.splits)
  let ?r = "bind_res r (\<lambda>vectors. if length vectors \<noteq> length batch
      then Inl (PlainError ''Embedding provider returned the wrong number of vectors'') else Inr vectors)"
  show ?case
  proof (cases ?r)
    case (Inr vectors)
    then have v: "r = Inr vectors" "length vectors = length batch" by (auto simp: res_simps split: if_splits)
    then have "acc' = (fst acc @ zip (map fst batch) vectors, snd acc)"
      using less.prems p Inr by (subst (asm) embedIndexedBatch.simps) auto
    then show ?thesis
      using provider_answer_accounts [of provider batch ctx now u vectors] p v by (auto simp: adds_def)
  next
    case (Inl e)
    show ?thesis
    proof (cases "1 < length batch \<and> classify e (map snd batch) = SplitBatch")
      case True
      let ?m = "midpoint batch"
      have "fst (await_task (await_task (Some (u, Inr acc), lg)
              (\<lambda>acc1 t1. embedIndexedBatch provider classify ctx (take ?m batch) acc1 t1))
            (\<lambda>acc2 t2. embedIndexedBatch provider classify ctx (drop ?m batch) acc2 t2)) = Some (t, Inr acc')"
        using less.prems p Inl True by (subst (asm) embedIndexedBatch.simps) simp
      then obtain u1 acc1 lg1 where s1: "await_task (Some (u, Inr acc), lg)
            (\<lambda>acc1 t1. embedIndexedBatch provider classify ctx (take ?m batch) acc1 t1) = (Some (u1, Inr acc1), lg1)"
          and s2: "fst (embedIndexedBatch provider classify ctx (drop ?m batch) acc1 u1) = Some (t, Inr acc')"
        by (rule await_Inr)
      have "adds provider (take ?m batch) acc acc1" using s1 True by (intro less.hyps) (auto simp: prod_eq_iff)
      moreover have "adds provider (drop ?m batch) acc1 acc'" using s2 True by (intro less.hyps) auto
      ultimately have "adds provider (take ?m batch @ drop ?m batch) acc acc'" by (rule adds_append)
      then show ?thesis by simp
    next
      case False
      have one: "length batch = 1" "acc' = (fst acc, snd acc @ [(fst (hd batch), snd (hd batch), e)])"
        using less.prems p Inl False by (subst (asm) embedIndexedBatch.simps, auto split: if_splits)+
      then obtain x where "batch = [x]" by (cases batch) auto
      then show ?thesis using one(2) by (auto simp: adds_def accounts_def)
    qed
  qed
qed

lemma chunks_prefix:
  "concat (map (\<lambda>k. enumerate (k * n) (take n (drop (k * n) items))) [0..<m]) = enumerate 0 (take (m * n) items)"
proof (induction m)
  case (Suc m)
  have "take (Suc m * n) items = take (m * n) items @ take n (drop (m * n) items)"
    by (simp add: add.commute flip: take_add)
  then have "enumerate 0 (take (Suc m * n) items) =
      enumerate 0 (take (m * n) items) @ enumerate (length (take (m * n) items)) (take n (drop (m * n) items))"
    by (simp only: enumerate_append_eq add_0)
  also have "enumerate (length (take (m * n) items)) (take n (drop (m * n) items)) = enumerate (m * n) (take n (drop (m * n) items))"
    by (cases "m * n \<le> length items") auto
  finally show ?case using Suc by simp
qed simp

text \<open>The chunks hold every input once, with its index, in order.\<close>

lemma concat_chunkIndexed:
  assumes "0 < n"
  shows "concat (chunkIndexed n items) = enumerate 0 items"
proof -
  let ?m = "(length items + n - 1) div n"
  have "(length items + n - 1) mod n < n" using assms by simp
  then have "length items \<le> ?m * n" using div_mult_mod_eq [of "length items + n - 1" n] by linarith
  then show ?thesis by (simp add: chunkIndexed_def chunks_prefix)
qed

lemma accounts_concat:
  "list_all2 (accounts provider) batches accs \<Longrightarrow> accounts provider (concat batches) (concat (map fst accs), concat (map snd accs))"
proof (induction rule: list_all2_induct)
  case (Cons b bs a as)
  then show ?case using accounts_append [of provider b "fst a" "snd a" "concat bs"] by simp
qed (simp add: accounts_def)

lemma chunk_task_accounts:
  assumes task: "chunk_task env opts provider charge (k, chunk) = Inr task" and mode: "bo_mode opts = ModeFail"
    and gives: "fst (task c s) = Some (u, Inr acc)"
  shows "accounts provider chunk acc"
proof -
  obtain task1 task2 where t1: "(case bo_retry opts of None \<Rightarrow> Inr (chunk_body opts provider charge chunk)
        | Some r \<Rightarrow> retry (chunk_body opts provider charge chunk) r (we_charge env k) (we_random env k)) = Inr task1"
      and t2: "(case bo_timeout opts of None \<Rightarrow> Inr task1 | Some d \<Rightarrow> timeout (we_timer_first env) task1 d) = Inr task2"
      and t3: "task = chunk_guard (bo_mode opts) chunk task2"
    using task by (auto simp: chunk_task_def res_simps)
  have "fst (task2 c s) = Some (u, Inr acc)"
    using gives mode by (auto simp: t3 chunk_guard_def split: prod.splits option.splits sum.splits if_splits)
  then obtain c1 s1 u1 where "fst (task1 c1 s1) = Some (u1, Inr acc)"
    using t2 timeout_value by (cases "bo_timeout opts") fastforce+
  then obtain c2 s2 u2 where "fst (chunk_body opts provider charge chunk c2 s2) = Some (u2, Inr acc)"
    using t1 retry_value by (cases "bo_retry opts") fastforce+
  then have "fst (embedIndexedBatch provider (bo_classify opts) c2 chunk ([], []) s2) = Some (u2, Inr acc)"
    by (auto simp: chunk_body_def Let_def split: option.splits if_splits)
  then show ?thesis using embed_adds by (fastforce simp: adds_def)
qed

text \<open>
  C23: In fail mode, when a batch embedding with bisection resolves, it returns exactly one vector for each
  input, in input order, and no error; the vector of an input was returned by the provider for a batch
  that held this input, at the place of the input, however batches were split, retried and interleaved.
\<close>

theorem bisection_aligned:
  fixes items :: "'i list" and vectors :: "'v list"
  assumes mode: "bo_mode opts = ModeFail"
    and gives: "fst (embedAllBisection env opts provider charge items ctx now) = Some (t, Inr (vectors, errors))"
  shows "errors = [] \<and> length vectors = length items \<and> (\<forall>i < length items. from_provider provider (items ! i) (vectors ! i))"
proof -
  let ?chunks = "chunkIndexed (num_nat (bo_batchSize opts)) items"
  obtain tasks where size: "is_integer (bo_batchSize opts)" "\<not> bo_batchSize opts < Fin 1"
      and tasks: "map_res (chunk_task env opts provider charge) (enumerate 0 ?chunks) = Inr tasks"
      and run: "fst (await_task (run_pool (we_first_id env) (bo_concurrency opts) tasks ctx now)
                 (\<lambda>chunks t. (Some (t, bisection_output (bo_mode opts) (length items) chunks), []))) = Some (t, Inr (vectors, errors))"
    using gives by (auto simp: embedAllBisection_def split: if_splits sum.splits)
  obtain u accs lg where pool: "run_pool (we_first_id env) (bo_concurrency opts) tasks ctx now = (Some (u, Inr accs), lg)"
      and out: "bisection_output ModeFail (length items) accs = Inr (vectors, errors)"
    using run mode by (auto elim: await_Inr)
  have vals: "length accs = length tasks" "\<forall>i < length tasks. \<exists>c s u. fst ((tasks ! i) c s) = Some (u, Inr (accs ! i))"
    using run_pool_values [of "we_first_id env" "bo_concurrency opts" tasks ctx now u accs] pool by auto
  have made: "length tasks = length ?chunks" "\<forall>i < length ?chunks. chunk_task env opts provider charge (i, ?chunks ! i) = Inr (tasks ! i)"
    using tasks by (auto simp: map_res_Inr list_all2_conv_all_nth nth_enumerate_eq)
  have "list_all2 (accounts provider) ?chunks accs"
    unfolding list_all2_conv_all_nth using vals made chunk_task_accounts [OF _ mode] by metis
  then have acc: "accounts provider (concat ?chunks) (concat (map fst accs), concat (map snd accs))" by (rule accounts_concat)
  have "0 < num_nat (bo_batchSize opts)" using size by (cases "bo_batchSize opts") auto
  then have batch: "concat ?chunks = enumerate 0 items" by (rule concat_chunkIndexed)
  have sorted: "sort_key ie_index xs = [] \<longleftrightarrow> xs = []" for xs :: "'i item_error list" by (metis length_0_conv length_sort)
  have errs: "concat (map snd accs) = []" "errors = []" "vectors = by_index (length items) (concat (map fst accs))"
    using out by (auto simp: bisection_output_def Let_def sorted split: list.splits if_splits)
  define rs where "rs = concat (map fst accs)"
  have "mset (map fst rs) = mset [0..<length items]"
    using acc errs(1) by (simp add: accounts_def batch rs_def)
  then have keys: "distinct (map fst rs)" "set (map fst rs) = {..<length items}"
    using mset_eq_imp_distinct_iff distinct_upt by (blast, metis atLeast_upt mset_eq_setD)
  have lookup: "\<exists>v. map_of (rev rs) i = Some v \<and> (i, v) \<in> set rs" if "i < length items" for i
  proof -
    have "i \<in> fst ` set (rev rs)" using keys(2) that by (metis lessThan_iff set_map set_rev)
    then obtain v where "map_of (rev rs) i = Some v" by (metis domD dom_map_of_conv_image_fst)
    then show ?thesis using map_of_SomeD by fastforce
  qed
  then have v: "vectors = map (the \<circ> map_of (rev rs)) [0..<length items]"
    unfolding errs(3) by_index_def rs_def [symmetric] by (intro map_filter_total) (metis atLeastLessThan_iff option.distinct(1) set_upt)
  have "from_provider provider (items ! i) (vectors ! i)" if i: "i < length items" for i
  proof -
    obtain w where w: "map_of (rev rs) i = Some w" "(i, w) \<in> set rs" using lookup [OF i] by blast
    have "\<forall>(i, v) \<in> set rs. \<exists>item. (i, item) \<in> set (enumerate 0 items) \<and> from_provider provider item v"
      using acc unfolding accounts_def batch rs_def by simp
    with w(2) obtain item where "(i, item) \<in> set (enumerate 0 items)" "from_provider provider item w" by blast
    then show ?thesis using v w i by (auto simp: in_set_enumerate_eq)
  qed
  then show ?thesis using errs(2) v by simp
qed

text \<open>A provider that takes one input at a time, and says so with an error the classifier splits on.\<close>

definition one_by_one :: "nat list \<Rightarrow> nat list task" where
  "one_by_one xs c t = (Some (t, if length xs = 1 then Inr (map (\<lambda>x. x * 2) xs) else Inl (PlainError ''BadBatchError'')), [])"

definition split_opts :: "(nat, nat) bisection_opts" where
  "split_opts = \<lparr>bo_batchSize = Fin 2, bo_concurrency = Fin 2, bo_mode = ModeFail, bo_countTokens = (\<lambda>_. 1),
     bo_classify = (\<lambda>_ _. SplitBatch), bo_retry = None, bo_timeout = None\<rparr>"

lemma split_pair:
  assumes "cx_signal c = None"
  shows "fst (embedIndexedBatch one_by_one (\<lambda>_ _. SplitBatch) c [(0, 10), (1, 20)] ([], []) t) = Some (t, Inr ([(0, 20), (1, 40)], []))"
proof -
  have one: "embedIndexedBatch one_by_one (\<lambda>_ _. SplitBatch) c [(i, x)] acc t = (Some (t, Inr (fst acc @ [(i, x * 2)], snd acc)), [])" for i x acc t
    by (subst embedIndexedBatch.simps) (simp add: assms throwIfAborted_def one_by_one_def)
  show ?thesis
    by (subst embedIndexedBatch.simps) (simp add: assms throwIfAborted_def one_by_one_def one)
qed

theorem bisection_aligned_witness:
  "\<exists>vectors. fst (embedAllBisection demo_env split_opts one_by_one (\<lambda>_ _. None) [10, 20] root_ctx 0) = Some (0, Inr (vectors, [])) \<and>
     length vectors = 2 \<and> from_provider one_by_one 20 (vectors ! 1)"
proof -
  define task where "task = chunk_guard ModeFail [(0, 10), (1, 20)] (chunk_body split_opts one_by_one (\<lambda>_ _. None) [(0, 10), (1, 20)])"
  have chunks: "chunkIndexed (num_nat (bo_batchSize split_opts)) [10, 20 :: nat] = [[(0, 10), (1, 20)]]"
    by (simp add: chunkIndexed_def split_opts_def)
  have tasks: "map_res (chunk_task demo_env split_opts one_by_one (\<lambda>_ _. None))
      (enumerate 0 (chunkIndexed (num_nat (bo_batchSize split_opts)) [10, 20])) = Inr [task]"
    unfolding chunks by (simp add: chunk_task_def task_def split_opts_def)
  have body: "fst (task (child_ctx None None root_ctx) t) = Some (t, Inr ([(0, 20), (1, 40)], []))" for t
    using split_pair [of "child_ctx None None root_ctx" t]
    by (cases "embedIndexedBatch one_by_one (\<lambda>_ _. SplitBatch) (child_ctx None None root_ctx) [(0, 10), (1, 20)] ([], []) t")
      (simp add: task_def chunk_guard_def chunk_body_def split_opts_def child_ctx_def root_ctx_def any_signal_def)
  obtain vs where vs: "run_pool 7 (Fin 2) [task] root_ctx 0 = (Some (0, Inr vs), [])" "length vs = 1"
      "fst (task (child_ctx None None root_ctx) 0) = Some (0, Inr (vs ! 0))"
    using run_pool_succeeds_ctx [of "[task]" "\<lambda>t. t = 0" root_ctx 0 "Fin 2" 7] body by auto
  have "vs = [([(0, 20), (1, 40)], [])]" using vs(2,3) body by (cases vs) auto
  then have res: "fst (embedAllBisection demo_env split_opts one_by_one (\<lambda>_ _. None) [10, 20] root_ctx 0) = Some (0, Inr ([20, 40], []))"
    unfolding embedAllBisection_def tasks using vs(1)
    by (simp add: split_opts_def demo_env_def bisection_output_def by_index_def upt_rec)
  have "bo_mode split_opts = ModeFail" by (simp add: split_opts_def)
  from bisection_aligned [OF this res] have "\<forall>i < length [10, 20 :: nat]. from_provider one_by_one ([10, 20] ! i) ([20, 40] ! i)"
    by blast
  then have "from_provider one_by_one ([10, 20] ! 1) ([20, 40] ! 1)" by (elim allE [of _ 1] impE) simp_all
  then show ?thesis using res by (intro exI [of _ "[20, 40]"]) simp
qed

text \<open>
  In continue mode a chunk that is not split, or whose budget or timeout fails, is recorded as one error
  for its first item: its other items appear neither among the results nor among the errors.
\<close>

lemma failing_chunk_loses_items:
  assumes "fst (task ctx now) = Some (t, Inl e)" and "\<not> is_cancellation e"
  shows "fst (chunk_guard ModeContinue [(0, x), (1, y)] task ctx now) = Some (t, Inr ([], [(0, x, e)]))"
  using assms by (cases "task ctx now") (simp add: chunk_guard_def)

text \<open>The transcripts are those of the first chunks, in order, and all of them when the stream ends well.\<close>

lemma transcribe_prefix:
  "length (fst (transcribe_loop sig transcribe chunks ctx now)) \<le> length chunks \<and>
   (\<forall>i < length (fst (transcribe_loop sig transcribe chunks ctx now)). \<exists>c s u.
      fst (transcribe (snd (chunks ! i)) c s) = Some (u, Inr (fst (transcribe_loop sig transcribe chunks ctx now) ! i))) \<and>
   (\<forall>t. snd (transcribe_loop sig transcribe chunks ctx now) = Some (t, None) \<longrightarrow>
      length (fst (transcribe_loop sig transcribe chunks ctx now)) = length chunks)"
proof (induction sig transcribe chunks ctx now rule: transcribe_loop.induct)
  case (2 sig transcribe delay chunk rest ctx now)
  show ?case
  proof (cases "throwIfAborted sig (now + delay)")
    case (Some e)
    then show ?thesis by simp
  next
    case None
    let ?c = "(child_ctx None None ctx)\<lparr>cx_signal := any_signal (cx_signal (child_ctx None None ctx)) sig\<rparr>"
    show ?thesis
    proof (cases "\<exists>t v. fst (transcribe chunk ?c (now + delay)) = Some (t, Inr v)")
      case True
      then obtain t v where tv: "fst (transcribe chunk ?c (now + delay)) = Some (t, Inr v)" by blast
      obtain vs r where l: "transcribe_loop sig transcribe rest ctx t = (vs, r)" by fastforce
      have ih: "length vs \<le> length rest" "\<forall>i < length vs. \<exists>c s u. fst (transcribe (snd (rest ! i)) c s) = Some (u, Inr (vs ! i))"
          "\<forall>t. r = Some (t, None) \<longrightarrow> length vs = length rest"
        using 2 [OF None refl tv refl refl] l by auto
      have "\<exists>c s u. fst (transcribe (snd (((delay, chunk) # rest) ! i)) c s) = Some (u, Inr ((v # vs) ! i))" if "i < Suc (length vs)" for i
        using that ih(2) tv by (cases i) (simp_all, blast)
      then show ?thesis using None tv l ih by (simp add: Let_def)
    next
      case False
      then show ?thesis using None by (auto simp: Let_def split: option.splits sum.splits)
    qed
  qed
qed simp

section \<open>Capabilities and agents\<close>

lemma capability_granted:
  "evaluateCapability authority tool capability = Inr None \<longleftrightarrow>
     tool \<noteq> [] \<and> length tool \<le> 128 \<and> capability \<noteq> [] \<and> length capability \<le> 128 \<and>
     (\<forall>a. authority = Some a \<longrightarrow> capability \<notin> set (or_default (au_denied a) []) \<and>
        (\<forall>caps. au_allowed a = Some caps \<longrightarrow> capability \<in> set caps))"
  by (auto simp: evaluateCapability_def validateAgentLabel_def split: option.splits if_splits)

text \<open>A denied call charges nothing and starts nothing.\<close>

lemma denied_tool:
  assumes "to_capability opts = Some c" and "evaluateCapability authority name c = Inr (Some reason)"
  shows "\<exists>e. start_tool show authority name opts consume now a = (Some e, emit_agent (ToolDenied name c reason) now a)"
  using assms by (simp add: start_tool_def)

text \<open>The charges of a call are not undone: when a later budget refuses, the earlier ones stay charged though no task ran.\<close>

lemma partial_charge:
  "start_tool show None ''search'' \<lparr>to_tokens = Some 5, to_cost = Some 3, to_toolCalls = None, to_capability = None\<rparr>
     (\<lambda>k q. if k = 1 then Some (BudgetExceededError ''cost'' 1 3 0 None) else None) 0 (open_agent 1 0) =
   (Some (BudgetExceededError ''cost'' 1 3 0 None), a') \<Longrightarrow>
   ag_charged a' = [(0, 5)] \<and> ag_running a' = []"
  by (auto simp: start_tool_def tool_charges_def open_agent_def emit_agent_def Let_def)

inductive agent_step :: "(jsval \<Rightarrow> string) \<Rightarrow> authority option \<Rightarrow> agent \<Rightarrow> agent \<Rightarrow> bool" for shw authority where
  tool_called: "agent_step shw authority a (snd (start_tool shw authority name opts consume now a))"
| tool_ended: "(call, name) \<in> set (ag_running a) \<Longrightarrow> agent_step shw authority a (end_tool shw call name r now a)"
| body_ended: "agent_step shw authority a (end_body shw r now a)"

fun starts :: "string \<Rightarrow> agent_payload \<Rightarrow> bool" where
  "starts n (ToolStarted m) \<longleftrightarrow> m = n"
| "starts n _ \<longleftrightarrow> False"

fun ends :: "string \<Rightarrow> agent_payload \<Rightarrow> bool" where
  "ends n (ToolSucceeded m) \<longleftrightarrow> m = n"
| "ends n (ToolFailed m _) \<longleftrightarrow> m = n"
| "ends n (ToolCancelled m _) \<longleftrightarrow> m = n"
| "ends n _ \<longleftrightarrow> False"

definition count_events :: "(agent_payload \<Rightarrow> bool) \<Rightarrow> agent \<Rightarrow> nat" where
  "count_events P a = length (filter (\<lambda>ev. P (ae_payload ev)) (ag_events a))"

definition running_tools :: "string \<Rightarrow> agent \<Rightarrow> nat" where
  "running_tools n a = length (filter (\<lambda>x. snd x = n) (ag_running a))"

definition agent_inv :: "agent \<Rightarrow> bool" where
  "agent_inv a \<longleftrightarrow> map ae_seq (ag_events a) = [1..<ag_seq a + 1] \<and> list_all (\<lambda>ev. ae_agent ev = ag_id a) (ag_events a) \<and>
     distinct (map fst (ag_running a)) \<and> list_all (\<lambda>x. fst x < ag_calls a) (ag_running a) \<and>
     (\<forall>n. count_events (starts n) a = count_events (ends n) a + running_tools n a)"

lemma emit_agent_simps [simp]:
  "ag_running (emit_agent p now a) = ag_running a" "ag_calls (emit_agent p now a) = ag_calls a"
  "ag_id (emit_agent p now a) = ag_id a" "ag_seq (emit_agent p now a) = ag_seq a + 1"
  "count_events P (emit_agent p now a) = count_events P a + (if P p then 1 else 0)"
  "running_tools n (emit_agent p now a) = running_tools n a"
  by (simp_all add: emit_agent_def count_events_def running_tools_def)

lemma emit_agent_log:
  "map ae_seq (ag_events a) = [1..<ag_seq a + 1] \<Longrightarrow> list_all (\<lambda>ev. ae_agent ev = ag_id a) (ag_events a) \<Longrightarrow>
   map ae_seq (ag_events (emit_agent p now a)) = [1..<ag_seq a + 2] \<and> list_all (\<lambda>ev. ae_agent ev = ag_id a) (ag_events (emit_agent p now a))"
  by (simp add: emit_agent_def)

lemma agent_inv_emit:
  assumes "agent_inv a" and "\<And>n. \<not> starts n p" and "\<And>n. \<not> ends n p"
  shows "agent_inv (emit_agent p now a)"
  using assms emit_agent_log [of a p now] by (auto simp: agent_inv_def)

lemma start_tool_inv:
  assumes inv: "agent_inv a"
  shows "agent_inv (snd (start_tool show authority name opts consume now a))"
proof -
  let ?cap = "case to_capability opts of None \<Rightarrow> Inr None | Some c \<Rightarrow> map_sum id (map_option (Pair c)) (evaluateCapability authority name c)"
  show ?thesis
  proof (cases ?cap)
    case (Inl e)
    then show ?thesis using inv by (simp add: start_tool_def)
  next
    case (Inr d)
    show ?thesis
    proof (cases d)
      case (Some x)
      then show ?thesis using inv Inr by (cases x) (simp add: start_tool_def agent_inv_emit)
    next
      case None
      obtain charged r where ch: "charge_all consume (tool_charges opts) = (charged, r)" by fastforce
      let ?a1 = "emit_agent (ToolStarted name) now a"
      let ?a2 = "?a1\<lparr>ag_charged := ag_charged ?a1 @ charged\<rparr>"
      have log1: "map ae_seq (ag_events ?a1) = [1..<ag_seq ?a1 + 1]" "list_all (\<lambda>ev. ae_agent ev = ag_id ?a1) (ag_events ?a1)"
        using inv emit_agent_log [of a "ToolStarted name" now] by (auto simp: agent_inv_def)
      have cnt: "count_events P ?a2 = count_events P ?a1" "running_tools n ?a2 = running_tools n ?a1" for P n
        by (simp_all add: count_events_def running_tools_def)
      show ?thesis
      proof (cases r)
        case (Some e)
        have "\<not> starts n (tool_failure show name e)" "ends n (tool_failure show name e) \<longleftrightarrow> n = name" for n
          by (auto simp: tool_failure_def split: option.splits)
        moreover have "snd (start_tool show authority name opts consume now a) = emit_agent (tool_failure show name e) now ?a2"
          using Inr None ch Some by (simp add: start_tool_def Let_def)
        moreover have "map ae_seq (ag_events (emit_agent (tool_failure show name e) now ?a2)) = [1..<ag_seq ?a1 + 2] \<and>
            list_all (\<lambda>ev. ae_agent ev = ag_id a) (ag_events (emit_agent (tool_failure show name e) now ?a2))"
          using log1 emit_agent_log [of ?a2 "tool_failure show name e" now] by simp
        ultimately show ?thesis using inv cnt by (auto simp: agent_inv_def)
      next
        case None
        let ?a3 = "?a2\<lparr>ag_running := ag_running ?a2 @ [(ag_calls ?a2, name)], ag_calls := ag_calls ?a2 + 1\<rparr>"
        have "snd (start_tool show authority name opts consume now a) = ?a3"
          using Inr \<open>d = None\<close> ch None by (simp add: start_tool_def Let_def)
        moreover have "count_events P ?a3 = count_events P ?a1" "running_tools n ?a3 = running_tools n ?a1 + (if n = name then 1 else 0)" for P n
          by (auto simp: count_events_def running_tools_def)
        moreover have "ag_calls a \<notin> fst ` set (ag_running a)" using inv by (auto simp: agent_inv_def list_all_iff)
        ultimately show ?thesis using inv log1 by (auto simp: agent_inv_def list_all_iff less_Suc_eq)
      qed
    qed
  qed
qed

lemma end_tool_inv:
  assumes inv: "agent_inv a" and call: "(call, name) \<in> set (ag_running a)"
  shows "agent_inv (end_tool show call name r now a)"
proof -
  let ?p = "case r of Inr _ \<Rightarrow> ToolSucceeded name | Inl e \<Rightarrow> tool_failure show name e"
  let ?a1 = "a\<lparr>ag_running := filter (\<lambda>x. fst x \<noteq> call) (ag_running a)\<rparr>"
  have p: "\<not> starts n ?p" "ends n ?p \<longleftrightarrow> n = name" for n by (auto simp: tool_failure_def split: option.splits sum.splits)
  have run: "running_tools n a = running_tools n ?a1 + (if n = name then 1 else 0)" for n
  proof -
    have "length (filter (\<lambda>x. snd x = n) xs) = length (filter (\<lambda>x. snd x = n) (filter (\<lambda>x. fst x \<noteq> call) xs)) + (if n = name then 1 else 0)"
      if "distinct (map fst xs)" "(call, name) \<in> set xs" for xs :: "(nat \<times> string) list"
      using that
    proof (induction xs)
      case (Cons x xs)
      show ?case
      proof (cases "x = (call, name)")
        case True
        then have "filter (\<lambda>x. fst x \<noteq> call) xs = xs" using Cons.prems by (auto simp: filter_id_conv rev_image_eqI)
        then show ?thesis using True by simp
      next
        case False
        then have "fst x \<noteq> call" "(call, name) \<in> set xs" using Cons.prems by (auto simp: rev_image_eqI)
        then show ?thesis using Cons by auto
      qed
    qed simp
    then show ?thesis using inv call by (simp add: running_tools_def agent_inv_def)
  qed
  have cnt: "count_events P ?a1 = count_events P a" for P by (simp add: count_events_def)
  have "map ae_seq (ag_events (emit_agent ?p now ?a1)) = [1..<ag_seq a + 2] \<and>
      list_all (\<lambda>ev. ae_agent ev = ag_id a) (ag_events (emit_agent ?p now ?a1))"
    using inv emit_agent_log [of ?a1 ?p now] by (simp add: agent_inv_def)
  moreover have "distinct (map fst (filter (\<lambda>x. fst x \<noteq> call) (ag_running a)))"
    using inv by (simp add: agent_inv_def distinct_map_filter)
  ultimately show ?thesis using inv p run cnt by (auto simp: agent_inv_def end_tool_def list_all_iff)
qed

interpretation agents: invariant_system "\<lambda>a. \<exists>i now. a = open_agent i now" "agent_step shw authority" agent_inv for shw authority
proof unfold_locales
  fix a
  assume "\<exists>i now. a = open_agent i now"
  then show "agent_inv a" by (auto simp: open_agent_def agent_inv_def emit_agent_def count_events_def running_tools_def)
next
  fix a b
  assume inv: "agent_inv a" and step: "agent_step shw authority a b"
  from step show "agent_inv b"
  proof cases
    case (body_ended r now)
    have "\<not> starts n (case r of Inr _ \<Rightarrow> AgentCompleted | Inl e \<Rightarrow> AgentFailed (errorMessage shw e))"
      "\<not> ends n (case r of Inr _ \<Rightarrow> AgentCompleted | Inl e \<Rightarrow> AgentFailed (errorMessage shw e))" for n
      by (auto split: sum.splits)
    then show ?thesis unfolding body_ended end_body_def by (rule agent_inv_emit [OF inv])
  qed (use inv in \<open>auto intro: start_tool_inv end_tool_inv\<close>)
qed

text \<open>
  C34: However an agent's tool calls interleave, its events are numbered 1, 2, 3 and so on and carry its
  identifier, and for every tool name the events that say a call started are as many as those that say
  one succeeded, failed or was cancelled and the calls still running: a call has at most one end, and
  exactly one when its promise has settled. A denied call is neither.
\<close>

theorem agent_log_accounts:
  assumes "reachable (\<lambda>a. \<exists>i now. a = open_agent i now) (agent_step shw authority) a"
  shows "map ae_seq (ag_events a) = [1..<length (ag_events a) + 1] \<and> list_all (\<lambda>ev. ae_agent ev = ag_id a) (ag_events a) \<and>
    count_events (starts name) a = count_events (ends name) a + running_tools name a"
proof -
  have inv: "agent_inv a" using agents.reachable_inv assms by blast
  then have "map ae_seq (ag_events a) = [1..<ag_seq a + 1]" by (simp add: agent_inv_def)
  from arg_cong [OF this, of length] have "length (ag_events a) = ag_seq a" by simp
  then show ?thesis using inv by (simp add: agent_inv_def)
qed

definition busy_agent :: agent where
  "busy_agent = snd (start_tool (\<lambda>_. []) None ''search'' \<lparr>to_tokens = None, to_cost = None, to_toolCalls = None, to_capability = None\<rparr>
     (\<lambda>_ _. None) 5 (open_agent 1 0))"

theorem agent_log_accounts_witness:
  "count_events (starts ''search'') busy_agent = count_events (ends ''search'') busy_agent + 1"
proof -
  have "reachable (\<lambda>a. \<exists>i now. a = open_agent i now) (agent_step (\<lambda>_. []) None) busy_agent"
  proof (rule reach_step)
    show "reachable (\<lambda>a. \<exists>i now. a = open_agent i now) (agent_step (\<lambda>_. []) None) (open_agent 1 0)"
      by (rule reach_init) blast
    show "agent_step (\<lambda>_. []) None (open_agent 1 0) busy_agent" unfolding busy_agent_def by (rule agent_step.tool_called)
  qed
  moreover have "running_tools ''search'' busy_agent = 1"
    by (simp add: busy_agent_def start_tool_def tool_charges_def running_tools_def open_agent_def emit_agent_def Let_def)
  ultimately show ?thesis using agent_log_accounts [of "\<lambda>_. []" None busy_agent "''search''"] by simp
qed

end
