(* ===== verification/Resources.thy ===== *)
theory Resources
  imports WI_Prelude "HOL-Library.Multiset"
begin

text \<open>
  Lazy and shared resources, \<open>packages/core/src/resources/index.ts\<close>. The state behind \<open>bracketLazy\<close> and the
  state \<open>bracketShared\<close> keeps for a scope are one machine: a step is a call of \<open>get\<close> or the
  settlement of the running acquisition. What \<open>defer\<close> does with the release is an argument: it
  registers it, throws (too many cleanups, a bad timeout), or comes after the cleanups have run, so that
  the release is never called. Calls of \<open>get\<close> are numbered; \<open>rs_answers\<close> is what their promises give.
\<close>

section \<open>The acquisition machine\<close>

datatype defer_result = DeferRegistered | DeferThrows err | DeferTooLate

datatype acquire_promise = NotAcquiring | Acquiring | Acquired | AcquireRejected err

record 'r resource_state =
  rs_resource :: "'r option" \<comment> \<open>\<open>hasResource\<close> and \<open>resource\<close>\<close>
  rs_promise :: acquire_promise
  rs_releaseRegistered :: bool
  rs_releases :: "'r list"
  rs_waiting :: "nat list"
  rs_answers :: "(nat \<times> (err + 'r)) list"
  rs_calls :: nat
  rs_started :: nat

definition no_resource :: "'r resource_state" where
  "no_resource = \<lparr>rs_resource = None, rs_promise = NotAcquiring, rs_releaseRegistered = False, rs_releases = [], rs_waiting = [],
     rs_answers = [], rs_calls = 0, rs_started = 0\<rparr>"

definition get_resource :: "'r resource_state \<Rightarrow> 'r resource_state" where
  "get_resource s =
     (let call = rs_calls s; s1 = s\<lparr>rs_calls := call + 1\<rparr>
      in case rs_resource s of
           Some r \<Rightarrow> s1\<lparr>rs_answers := rs_answers s @ [(call, Inr r)]\<rparr>
         | None \<Rightarrow>
             (case rs_promise s of
                Acquiring \<Rightarrow> s1\<lparr>rs_waiting := rs_waiting s @ [call]\<rparr>
              | AcquireRejected e \<Rightarrow> s1\<lparr>rs_answers := rs_answers s @ [(call, Inl e)]\<rparr>
              | _ \<Rightarrow> s1\<lparr>rs_promise := Acquiring, rs_started := rs_started s + 1, rs_waiting := rs_waiting s @ [call]\<rparr>))"

definition answer_waiting :: "err + 'r \<Rightarrow> 'r resource_state \<Rightarrow> 'r resource_state" where
  "answer_waiting r s = s\<lparr>rs_answers := rs_answers s @ map (\<lambda>c. (c, r)) (rs_waiting s), rs_waiting := []\<rparr>"

text \<open>Only the shared state remembers that it registered its release, before it calls \<open>defer\<close>.\<close>

definition acquire_succeeds :: "bool \<Rightarrow> 'r \<Rightarrow> defer_result \<Rightarrow> 'r resource_state \<Rightarrow> 'r resource_state" where
  "acquire_succeeds shared v d s =
     (let s1 = s\<lparr>rs_resource := Some v\<rparr>
      in if shared \<and> rs_releaseRegistered s1 then answer_waiting (Inr v) (s1\<lparr>rs_promise := Acquired\<rparr>)
         else
           let s2 = s1\<lparr>rs_releaseRegistered := shared\<rparr>
           in case d of
                DeferThrows e \<Rightarrow> answer_waiting (Inl e) (s2\<lparr>rs_promise := AcquireRejected e\<rparr>)
              | DeferTooLate \<Rightarrow> answer_waiting (Inr v) (s2\<lparr>rs_promise := Acquired\<rparr>)
              | DeferRegistered \<Rightarrow> answer_waiting (Inr v) (s2\<lparr>rs_promise := Acquired, rs_releases := rs_releases s2 @ [v]\<rparr>))"

definition acquire_fails :: "err \<Rightarrow> 'r resource_state \<Rightarrow> 'r resource_state" where
  "acquire_fails e s = answer_waiting (Inl e) (s\<lparr>rs_promise := NotAcquiring\<rparr>)"

inductive resource_step :: "bool \<Rightarrow> (defer_result \<Rightarrow> bool) \<Rightarrow> 'r resource_state \<Rightarrow> 'r resource_state \<Rightarrow> bool" for shared defers where
  got: "resource_step shared defers s (get_resource s)"
| acquired: "rs_promise s = Acquiring \<Longrightarrow> defers d \<Longrightarrow> resource_step shared defers s (acquire_succeeds shared v d s)"
| failed: "rs_promise s = Acquiring \<Longrightarrow> resource_step shared defers s (acquire_fails e s)"

text \<open>\<open>bracketShared\<close> keeps one state for each scope, made on the first use.\<close>

definition getSharedState :: "(scope_id \<rightharpoonup> 'r resource_state) \<Rightarrow> scope_id \<Rightarrow> 'r resource_state" where
  "getSharedState states s = (case states s of Some st \<Rightarrow> st | None \<Rightarrow> no_resource)"

definition getSharedResource :: "scope_id \<Rightarrow> (scope_id \<rightharpoonup> 'r resource_state) \<Rightarrow> (scope_id \<rightharpoonup> 'r resource_state)" where
  "getSharedResource s states = states(s \<mapsto> get_resource (getSharedState states s))"

text \<open>\<open>scopeAcquire\<close>: the release is registered, then the resource returned.\<close>

definition scopeAcquire :: "'r \<Rightarrow> defer_result \<Rightarrow> 'r list \<Rightarrow> (err + 'r) \<times> 'r list" where
  "scopeAcquire resource d releases =
     (case d of
        DeferThrows e \<Rightarrow> (Inl e, releases)
      | DeferTooLate \<Rightarrow> (Inr resource, releases)
      | DeferRegistered \<Rightarrow> (Inr resource, releases @ [resource]))"

section \<open>One acquisition, one release\<close>

definition resource_inv :: "'r resource_state \<Rightarrow> bool" where
  "resource_inv s \<longleftrightarrow>
     (case rs_resource s of None \<Rightarrow> rs_releases s = [] \<and> rs_promise s \<in> {NotAcquiring, Acquiring} \<and> \<not> rs_releaseRegistered s
      | Some v \<Rightarrow> rs_releases s = [v] \<and> rs_promise s = Acquired) \<and>
     (rs_promise s \<noteq> Acquiring \<longrightarrow> rs_waiting s = []) \<and>
     (\<forall>(c, r) \<in> set (rs_answers s). \<forall>v. r = Inr v \<longrightarrow> rs_resource s = Some v) \<and>
     mset (map fst (rs_answers s) @ rs_waiting s) = mset [0..<rs_calls s]"

lemma answer_waiting_simps [simp]:
  "rs_resource (answer_waiting r s) = rs_resource s" "rs_promise (answer_waiting r s) = rs_promise s"
  "rs_releases (answer_waiting r s) = rs_releases s" "rs_calls (answer_waiting r s) = rs_calls s"
  "rs_releaseRegistered (answer_waiting r s) = rs_releaseRegistered s" "rs_waiting (answer_waiting r s) = []"
  "rs_answers (answer_waiting r s) = rs_answers s @ map (\<lambda>c. (c, r)) (rs_waiting s)"
  by (simp_all add: answer_waiting_def)

lemma get_resource_inv:
  assumes "resource_inv s"
  shows "resource_inv (get_resource s)"
proof (cases "rs_resource s")
  case None
  then show ?thesis
    using assms by (cases "rs_promise s") (auto simp: resource_inv_def get_resource_def Let_def)
next
  case (Some v)
  then show ?thesis
    using assms by (auto simp: resource_inv_def get_resource_def Let_def)
qed

lemma acquire_settles_inv:
  assumes "resource_inv s" and "rs_promise s = Acquiring"
  shows "resource_inv (acquire_succeeds shared v DeferRegistered s)" and "resource_inv (acquire_fails e s)"
  using assms by (auto simp: resource_inv_def acquire_succeeds_def acquire_fails_def Let_def o_def multiset.map_comp split: option.splits)

interpretation resources: invariant_system "\<lambda>s. s = no_resource" "resource_step shared (\<lambda>d. d = DeferRegistered)" resource_inv for shared
proof unfold_locales
  fix s t :: "'a resource_state"
  assume inv: "resource_inv s" and "resource_step shared (\<lambda>d. d = DeferRegistered) s t"
  from this(2) show "resource_inv t"
    by cases (use inv in \<open>auto intro: get_resource_inv acquire_settles_inv\<close>)
qed (simp add: resource_inv_def no_resource_def)


lemmas resource_defs = get_resource_def acquire_succeeds_def acquire_fails_def answer_waiting_def no_resource_def Let_def

definition shared_twice :: "nat resource_state" where
  "shared_twice = acquire_succeeds True 7 DeferRegistered (get_resource (get_resource (acquire_fails (PlainError ''x'') (get_resource no_resource))))"


text \<open>Scopes do not share their resources.\<close>

lemma shared_per_scope: "t \<noteq> s \<Longrightarrow> getSharedState (getSharedResource s states) t = getSharedState states t"
  by (simp add: getSharedState_def getSharedResource_def)

section \<open>Releases that get lost\<close>

text \<open>
  When \<open>defer\<close> throws after the acquisition, as it does for a timeout that does not parse, \<open>get\<close> is
  rejected and nothing is registered, but the resource counts as there: the next call gets it, and it
  is never released.
\<close>

lemma throwing_defer_leaks:
  assumes "rs_resource s = None" and "rs_promise s = Acquiring" and "rs_releases s = []" and "\<not> rs_releaseRegistered s"
  shows "rs_releases (get_resource (acquire_succeeds shared v (DeferThrows e) s)) = [] \<and>
    (rs_calls s, Inr v) \<in> set (rs_answers (get_resource (acquire_succeeds shared v (DeferThrows e) s)))"
  using assms by (auto simp: resource_defs)

text \<open>The same value is handed out, and not released, when the acquisition ends after the cleanups have run.\<close>

lemma late_acquisition_leaks:
  assumes "rs_promise s = Acquiring" and "rs_waiting s = [c]" and "rs_releases s = []"
  shows "rs_releases (acquire_succeeds False v DeferTooLate s) = [] \<and>
    (c, Inr v) \<in> set (rs_answers (acquire_succeeds False v DeferTooLate s))"
  using assms by (auto simp: resource_defs)

end
