(* ===== verification/Contracts.thy ===== *)
theory Contracts
  imports Run_Tasks
begin

text \<open>
  Cancellation contracts of tasks, \<open>packages/core/src/contracts/index.ts\<close>. Function objects are numbers; the
  world holds the brand property of a function, which can be defined but never changed, and the weak
  map of the metadata. A shielded task is a new function, made by \<open>run.uncancellable\<close> of the run
  component; \<open>ct_functions\<close> holds the tasks. The types that tell branded tasks apart exist at compile
  time only: the typed spawner passes whatever function it is given.
\<close>

datatype contract_kind = KCancellable | KShielded

datatype contract = Cancellable | Shielded duration "string option"

fun kind_of :: "contract \<Rightarrow> contract_kind" where
  "kind_of Cancellable = KCancellable"
| "kind_of (Shielded _ _) = KShielded"

record 'v contract_world =
  ct_functions :: "'v task list"
  ct_brands :: "nat \<rightharpoonup> contract_kind"
  ct_metadata :: "nat \<rightharpoonup> contract"

definition brandTask :: "nat \<Rightarrow> contract \<Rightarrow> 'v contract_world \<Rightarrow> (err + nat) \<times> 'v contract_world" where
  "brandTask f c w =
     (case ct_brands w f of
        Some k \<Rightarrow> if k \<noteq> kind_of c then (Inl (TypeError ''Cannot redefine property''), w)
                  else (Inr f, w\<lparr>ct_metadata := (ct_metadata w)(f \<mapsto> c)\<rparr>)
      | None \<Rightarrow> (Inr f, w\<lparr>ct_brands := (ct_brands w)(f \<mapsto> kind_of c), ct_metadata := (ct_metadata w)(f \<mapsto> c)\<rparr>))"

definition cancellable :: "nat \<Rightarrow> 'v contract_world \<Rightarrow> (err + nat) \<times> 'v contract_world" where
  "cancellable f w = brandTask f Cancellable w"

definition new_function :: "'v task \<Rightarrow> 'v contract_world \<Rightarrow> nat \<times> 'v contract_world" where
  "new_function task w = (length (ct_functions w), w\<lparr>ct_functions := ct_functions w @ [task]\<rparr>)"

definition brand_shielded :: "bool \<Rightarrow> nat \<Rightarrow> duration \<Rightarrow> string option \<Rightarrow> 'v contract_world \<Rightarrow> (err + nat) \<times> 'v contract_world" where
  "brand_shielded timer_first f timeoutOpt reason w =
     (case uncancellable timer_first (ct_functions w ! f) (Some timeoutOpt) of
        Inl e \<Rightarrow> (Inl e, w)
      | Inr task \<Rightarrow> (let (g, w1) = new_function task w in brandTask g (Shielded timeoutOpt reason) w1))"

definition shielded_contract :: "bool \<Rightarrow> nat \<Rightarrow> duration \<Rightarrow> 'v contract_world \<Rightarrow> (err + nat) \<times> 'v contract_world" where
  "shielded_contract timer_first f timeoutOpt w = brand_shielded timer_first f timeoutOpt None w"

definition blank :: "string \<Rightarrow> bool" where
  "blank s \<longleftrightarrow> list_all (\<lambda>c. let n = of_char c :: nat in 9 \<le> n \<and> n \<le> 13 \<or> n = 32 \<or> n = 160) s"

definition discardCancellation :: "bool \<Rightarrow> nat \<Rightarrow> string \<Rightarrow> duration \<Rightarrow> 'v contract_world \<Rightarrow> (err + nat) \<times> 'v contract_world" where
  "discardCancellation timer_first f reason timeoutOpt w =
     (if blank reason then (Inl (PlainError ''discardCancellation requires a non-empty reason''), w)
      else brand_shielded timer_first f timeoutOpt (Some reason) w)"

definition getTaskContract :: "'v contract_world \<Rightarrow> nat \<Rightarrow> contract option" where
  "getTaskContract w f = ct_metadata w f"

definition isCancellableTask :: "'v contract_world \<Rightarrow> nat \<Rightarrow> bool" where
  "isCancellableTask w f \<longleftrightarrow> map_option kind_of (getTaskContract w f) = Some KCancellable"

definition isShieldedTask :: "'v contract_world \<Rightarrow> nat \<Rightarrow> bool" where
  "isShieldedTask w f \<longleftrightarrow> map_option kind_of (getTaskContract w f) = Some KShielded"

text \<open>
  The typed spawner hands every call on to the spawner of the group, and \<open>typedGroup\<close> its body to
  \<open>group\<close>, which is an argument here: the scope component has it as steps on its world.
\<close>

record ('t, 'o, 'h) typed_spawner =
  ts_spawn :: "'t \<Rightarrow> 'o option \<Rightarrow> 'h"
  ts_background :: "'t \<Rightarrow> 'h"
  ts_shielded :: "'t \<Rightarrow> 'o option \<Rightarrow> 'h"

definition createTypedSpawner :: "('t \<Rightarrow> 'o option \<Rightarrow> 'h) \<Rightarrow> ('t \<Rightarrow> 'h) \<Rightarrow> ('t, 'o, 'h) typed_spawner" where
  "createTypedSpawner spawn background = \<lparr>ts_spawn = spawn, ts_background = background, ts_shielded = spawn\<rparr>"

definition typedGroup :: "((('t \<Rightarrow> 'o option \<Rightarrow> 'h) \<Rightarrow> ('t \<Rightarrow> 'h) \<Rightarrow> 'b) \<Rightarrow> 'r) \<Rightarrow> (('t, 'o, 'h) typed_spawner \<Rightarrow> 'b) \<Rightarrow> 'r" where
  "typedGroup run_group body = run_group (\<lambda>spawn background. body (createTypedSpawner spawn background))"

section \<open>Contracts are kept\<close>

inductive contract_step :: "bool \<Rightarrow> 'v contract_world \<Rightarrow> 'v contract_world \<Rightarrow> bool" for timer_first where
  make: "contract_step timer_first w (snd (new_function task w))"
| cancel: "f < length (ct_functions w) \<Longrightarrow> contract_step timer_first w (snd (cancellable f w))"
| shield: "f < length (ct_functions w) \<Longrightarrow> contract_step timer_first w (snd (shielded_contract timer_first f d w))"
| discard: "f < length (ct_functions w) \<Longrightarrow> contract_step timer_first w (snd (discardCancellation timer_first f reason d w))"

definition no_contracts :: "'v contract_world" where
  "no_contracts = \<lparr>ct_functions = [], ct_brands = Map.empty, ct_metadata = Map.empty\<rparr>"

text \<open>
  The metadata of a task says what its brand says, every shielded task is what \<open>uncancellable\<close> makes of
  some function with a positive timeout within the range of timers, and a discarded cancellation has a
  reason that is not blank.
\<close>

definition shield_ok :: "bool \<Rightarrow> 'v contract_world \<Rightarrow> nat \<Rightarrow> duration \<Rightarrow> string option \<Rightarrow> bool" where
  "shield_ok timer_first w f d reason \<longleftrightarrow>
     (\<exists>g < f. uncancellable timer_first (ct_functions w ! g) (Some d) = Inr (ct_functions w ! f)) \<and>
     (\<forall>s. reason = Some s \<longrightarrow> \<not> blank s)"

definition contracts_ok :: "bool \<Rightarrow> 'v contract_world \<Rightarrow> bool" where
  "contracts_ok timer_first w \<longleftrightarrow>
     (\<forall>f. map_option kind_of (ct_metadata w f) = ct_brands w f) \<and> (\<forall>f. ct_brands w f \<noteq> None \<longrightarrow> f < length (ct_functions w)) \<and>
     (\<forall>f d reason. ct_metadata w f = Some (Shielded d reason) \<longrightarrow> shield_ok timer_first w f d reason)"

lemma contracts_ok_make:
  assumes "contracts_ok timer_first w"
  shows "contracts_ok timer_first (w\<lparr>ct_functions := ct_functions w @ [task]\<rparr>)"
proof -
  have "shield_ok timer_first (w\<lparr>ct_functions := ct_functions w @ [task]\<rparr>) f d reason"
    if meta: "ct_metadata w f = Some (Shielded d reason)" for f d reason
  proof -
    have "ct_brands w f \<noteq> None" using assms meta unfolding contracts_ok_def by (metis map_option_is_None option.distinct(1))
    then have "f < length (ct_functions w)" using assms unfolding contracts_ok_def by blast
    moreover have shield: "shield_ok timer_first w f d reason" using assms meta by (simp add: contracts_ok_def)
    moreover obtain g where "g < f" "uncancellable timer_first (ct_functions w ! g) (Some d) = Inr (ct_functions w ! f)"
        "\<forall>s. reason = Some s \<longrightarrow> \<not> blank s"
      using shield unfolding shield_ok_def by auto
    ultimately show ?thesis unfolding shield_ok_def by (intro conjI exI [of _ g]) (simp_all add: nth_append)
  qed
  then show ?thesis using assms unfolding contracts_ok_def by (simp add: less_SucI)
qed

lemma contracts_ok_brand:
  assumes "contracts_ok timer_first w" and "f < length (ct_functions w)"
    and "\<And>d reason. c = Shielded d reason \<Longrightarrow> shield_ok timer_first w f d reason"
  shows "contracts_ok timer_first (snd (brandTask f c w))"
  using assms by (auto simp: contracts_ok_def brandTask_def shield_ok_def split: option.splits if_splits)

lemma contracts_ok_shield:
  assumes ok: "contracts_ok timer_first w" and f: "f < length (ct_functions w)" and reason: "\<forall>s. reason = Some s \<longrightarrow> \<not> blank s"
  shows "contracts_ok timer_first (snd (brand_shielded timer_first f d reason w))"
proof (cases "uncancellable timer_first (ct_functions w ! f) (Some d)")
  case (Inl e)
  then show ?thesis using ok by (simp add: brand_shielded_def)
next
  case (Inr task)
  let ?w = "w\<lparr>ct_functions := ct_functions w @ [task]\<rparr>"
  have "shield_ok timer_first ?w (length (ct_functions w)) d reason"
    using f Inr reason by (auto simp: shield_ok_def nth_append intro!: exI [of _ f])
  then have "contracts_ok timer_first (snd (brandTask (length (ct_functions w)) (Shielded d reason) ?w))"
    by (intro contracts_ok_brand contracts_ok_make ok) auto
  then show ?thesis by (simp add: brand_shielded_def Inr new_function_def)
qed

interpretation contracts: invariant_system "\<lambda>w. w = no_contracts" "contract_step timer_first" "contracts_ok timer_first" for timer_first
proof unfold_locales
  fix w w' :: "'a contract_world"
  assume ok: "contracts_ok timer_first w" and "contract_step timer_first w w'"
  from this(2) show "contracts_ok timer_first w'"
  proof cases
    case (make task)
    then show ?thesis using contracts_ok_make [OF ok] by (simp add: new_function_def)
  next
    case (cancel f)
    then show ?thesis using contracts_ok_brand [OF ok, of f Cancellable] by (simp add: cancellable_def)
  next
    case (shield f d)
    then show ?thesis using contracts_ok_shield [OF ok] by (simp add: shielded_contract_def)
  next
    case (discard f reason d)
    then show ?thesis using contracts_ok_shield [OF ok] ok by (simp add: discardCancellation_def)
  qed
qed (simp add: contracts_ok_def no_contracts_def)

lemma uncancellable_positive:
  "uncancellable timer_first task (Some d) = Inr task' \<Longrightarrow> \<exists>ms. parseDuration d = Inr ms \<and> 0 < ms \<and> ms \<le> of_nat MAX_TIMEOUT_MS"
  using parseDuration_range by (fastforce simp: uncancellable_def res_simps split: if_splits)

text \<open>No call takes a brand away, and brands and metadata agree.\<close>

lemma brand_is_final:
  "ct_brands w f = Some k \<Longrightarrow> ct_brands (snd (brandTask g c w)) f = Some k"
  by (auto simp: brandTask_def split: option.splits)

lemma contract_step_keeps_brand:
  "contract_step timer_first w w' \<Longrightarrow> ct_brands w f = Some k \<Longrightarrow> ct_brands w' f = Some k"
  by (induction rule: contract_step.induct)
    (auto simp: new_function_def cancellable_def shielded_contract_def discardCancellation_def brand_shielded_def
      intro: brand_is_final split: sum.split)

lemma steps_keep_brand:
  "(contract_step timer_first)\<^sup>*\<^sup>* w w' \<Longrightarrow> ct_brands w f = Some k \<Longrightarrow> ct_brands w' f = Some k"
  by (induction rule: rtranclp_induct) (blast intro: contract_step_keeps_brand)+

text \<open>
  C38: A task is never both cancellable and shielded, no sequence of calls ever turns the one into the other,
  and every task that says it is shielded was made by the shield of the run component with a timeout
  that parses, is positive and within the range of a timer; if it says that cancellation is discarded
  it has a reason.
\<close>

theorem contracts_hold:
  assumes "reachable (\<lambda>w. w = no_contracts) (contract_step timer_first) w" and "getTaskContract w f = Some (Shielded d reason)"
    and "(contract_step timer_first)\<^sup>*\<^sup>* w w'"
  shows "\<not> isCancellableTask w' f \<and> isShieldedTask w' f \<and>
    (\<exists>g < f. uncancellable timer_first (ct_functions w ! g) (Some d) = Inr (ct_functions w ! f)) \<and>
    (\<exists>ms. parseDuration d = Inr ms \<and> 0 < ms \<and> ms \<le> of_nat MAX_TIMEOUT_MS) \<and> (case reason of None \<Rightarrow> True | Some s \<Rightarrow> \<not> blank s)"
proof -
  have ok: "contracts_ok timer_first w" by (rule contracts.reachable_inv [OF assms(1)])
  then have "contracts_ok timer_first w'" by (rule contracts.steps_inv [OF assms(3)])
  moreover have "ct_brands w f = Some KShielded"
    using ok assms(2) unfolding contracts_ok_def getTaskContract_def by (metis kind_of.simps(2) option.simps(9))
  ultimately have kind: "map_option kind_of (getTaskContract w' f) = Some KShielded"
    using steps_keep_brand [OF assms(3)] by (simp add: contracts_ok_def getTaskContract_def)
  have "shield_ok timer_first w f d reason"
    using ok assms(2) by (simp add: contracts_ok_def getTaskContract_def)
  then obtain g where "g < f" "uncancellable timer_first (ct_functions w ! g) (Some d) = Inr (ct_functions w ! f)"
      "\<forall>s. reason = Some s \<longrightarrow> \<not> blank s" unfolding shield_ok_def by blast
  then show ?thesis
    using uncancellable_positive kind by (auto simp: isCancellableTask_def isShieldedTask_def split: option.split)
qed

definition shielded_world :: "jsval contract_world" where
  "shielded_world = snd (shielded_contract True 0 (DNum (Fin 5)) (snd (new_function (slow_task 1) no_contracts)))"

theorem contracts_hold_witness:
  "isShieldedTask shielded_world 1 \<and> (\<exists>ms. parseDuration (DNum (Fin 5)) = Inr ms \<and> 0 < ms)"
proof -
  let ?run = "reachable (\<lambda>w :: jsval contract_world. w = no_contracts) (contract_step True)"
  have "?run no_contracts" by (rule reach_init) simp
  then have "?run (snd (new_function (slow_task 1) no_contracts))" by (rule reach_step) (rule contract_step.make)
  then have "?run shielded_world"
    unfolding shielded_world_def by (rule reach_step) (rule contract_step.shield, simp add: new_function_def no_contracts_def)
  moreover have "getTaskContract shielded_world 1 = Some (Shielded (DNum (Fin 5)) None)"
    by (simp add: shielded_world_def shielded_contract_def brand_shielded_def new_function_def no_contracts_def brandTask_def
        uncancellable_def timeout_def getTaskContract_def MAX_TIMEOUT_MS_def)
  ultimately show ?thesis using contracts_hold [of True shielded_world 1 "DNum (Fin 5)" None shielded_world] by blast
qed

end
