(* ===== verification/Otel.thy ===== *)
theory Otel
  imports Worker "HOL-Library.Multiset"
begin

text \<open>
  The OpenTelemetry adapter, \<open>packages/core/src/otel/index.ts\<close>: the spans of tasks and the bounded metrics.
  The tracer and the meter belong to the application; \<open>ok c\<close> says whether the call \<open>c\<close> of them
  returns. \<open>ot_calls\<close> is the log of the calls that returned; spans are numbered. The summaries of
  scopes go through the summary exporter of \<open>Exporter\<close>, whose destination is \<open>recordScopeSummary\<close>.
  \<open>show\<close> is the text \<open>String(v)\<close> of a thrown value.
\<close>

section \<open>Spans and metrics\<close>

datatype attribute = AStr string | ANum rat | ABool bool

datatype span_status = StatusOk | StatusError string

datatype otel_call =
    StartSpan nat string "(string \<times> attribute) list"
  | AddSpanEvent nat string "(string \<times> attribute) list"
  | SetAttribute nat string attribute
  | SetStatus nat span_status
  | RecordException nat err
  | EndSpan nat
  | TaskCount task_kind string
  | TaskDuration task_kind string rat
  | ScopeCount closing_reason
  | ScopeDuration closing_reason rat

record span_state =
  sp_span :: nat
  sp_name :: string
  sp_kind :: task_kind

record otel =
  ot_spans :: "(task_id \<times> span_state) list"
  ot_next :: nat
  ot_calls :: "otel_call list"
  ot_exported :: nat
  ot_dropped :: nat

definition open_otel :: otel where
  "open_otel = \<lparr>ot_spans = [], ot_next = 0, ot_calls = [], ot_exported = 0, ot_dropped = 0\<rparr>"

text \<open>Calls in order; the first that throws ends them. The second component: all returned.\<close>

fun call_all :: "(otel_call \<Rightarrow> bool) \<Rightarrow> otel_call list \<Rightarrow> otel \<Rightarrow> otel \<times> bool" where
  "call_all ok [] o1 = (o1, True)"
| "call_all ok (c # cs) o1 = (if ok c then call_all ok cs (o1\<lparr>ot_calls := ot_calls o1 @ [c]\<rparr>) else (o1, False))"

definition safeEnd :: "(otel_call \<Rightarrow> bool) \<Rightarrow> nat \<Rightarrow> otel \<Rightarrow> otel" where
  "safeEnd ok sp o1 = fst (call_all ok [EndSpan sp] o1)"

fun kind_name :: "task_kind \<Rightarrow> string" where
  "kind_name IO = ''io''"
| "kind_name LLM = ''llm''"
| "kind_name Tool = ''tool''"
| "kind_name CPU = ''cpu''"
| "kind_name Custom = ''custom''"

definition startTaskSpan :: "(otel_call \<Rightarrow> bool) \<Rightarrow> bool \<Rightarrow> task_id \<Rightarrow> scope_id \<Rightarrow> string \<Rightarrow> task_kind \<Rightarrow> otel \<Rightarrow> otel \<times> bool" where
  "startTaskSpan ok includeIds t s name kind o1 =
     (let attributes = [(''workit.task.name'', AStr name), (''workit.task.kind'', AStr (kind_name kind))] @
            (if includeIds then [(''workit.task.id'', AStr (task_id_text t)), (''workit.scope.id'', AStr (scope_id_text s))] else []);
          (o2, good) = call_all ok [StartSpan (ot_next o1) (''workit.task.'' @ name) attributes] o1
      in if good
         then (o2\<lparr>ot_next := ot_next o1 + 1,
                  ot_spans := AList.update t \<lparr>sp_span = ot_next o1, sp_name = name, sp_kind = kind\<rparr> (ot_spans o2)\<rparr>, True)
         else (o2, False))"

definition extractLogLevel :: "jsval option \<Rightarrow> string option" where
  "extractLogLevel data =
     (case data of Some (VObj ps) \<Rightarrow> (case map_of ps ''logLevel'' of Some (VStr s) \<Rightarrow> Some s | _ \<Rightarrow> None) | _ \<Rightarrow> None)"

definition progress_attributes :: "progress_report \<Rightarrow> (string \<times> attribute) list" where
  "progress_attributes p =
     (case pr_pct p of Some q \<Rightarrow> [(''workit.progress.pct'', ANum q)] | None \<Rightarrow> []) @
     (if pr_message p \<noteq> None then [(''workit.progress.has_message'', ABool True)] else []) @
     (case extractLogLevel (pr_data p) of Some l \<Rightarrow> [(''workit.log.level'', AStr l)] | None \<Rightarrow> [])"

definition with_span :: "task_id \<Rightarrow> (nat \<Rightarrow> otel \<Rightarrow> otel \<times> bool) \<Rightarrow> otel \<Rightarrow> otel \<times> bool" where
  "with_span t f o1 = (case map_of (ot_spans o1) t of None \<Rightarrow> (o1, True) | Some st \<Rightarrow> f (sp_span st) o1)"

definition recordTaskMetrics :: "string \<Rightarrow> rat \<Rightarrow> task_kind \<Rightarrow> otel_call list" where
  "recordTaskMetrics outcome durationMs kind = [TaskCount kind outcome, TaskDuration kind outcome durationMs]"

text \<open>A terminal event: the span leaves the map, is marked, counted and ended.\<close>

definition end_task :: "(otel_call \<Rightarrow> bool) \<Rightarrow> task_id \<Rightarrow> string \<Rightarrow> rat \<Rightarrow> (nat \<Rightarrow> otel_call list) \<Rightarrow> otel \<Rightarrow> otel \<times> bool" where
  "end_task ok t outcome durationMs marks o1 =
     (case map_of (ot_spans o1) t of
        None \<Rightarrow> (o1, True)
      | Some st \<Rightarrow>
          let (o2, good) = call_all ok (marks (sp_span st) @ recordTaskMetrics outcome durationMs (sp_kind st))
                (o1\<lparr>ot_spans := AList.delete t (ot_spans o1)\<rparr>)
          in if good then (safeEnd ok (sp_span st) o2, True) else (o2, False))"

fun toException :: "(jsval \<Rightarrow> string) \<Rightarrow> err \<Rightarrow> err" where
  "toException show (Thrown (VErr n m)) = Thrown (VErr n m)"
| "toException show (Thrown v) = JsError ''Error'' (show v)"
| "toException show e = e"

definition finishTask :: "(otel_call \<Rightarrow> bool) \<Rightarrow> task_id \<Rightarrow> rat \<Rightarrow> otel \<Rightarrow> otel \<times> bool" where
  "finishTask ok t durationMs o1 = end_task ok t ''succeeded'' durationMs (\<lambda>sp. [SetStatus sp StatusOk]) o1"

definition failTask :: "(otel_call \<Rightarrow> bool) \<Rightarrow> (jsval \<Rightarrow> string) \<Rightarrow> task_id \<Rightarrow> err \<Rightarrow> rat \<Rightarrow> otel \<Rightarrow> otel \<times> bool" where
  "failTask ok show t e durationMs o1 =
     end_task ok t ''failed'' durationMs
       (\<lambda>sp. [RecordException sp (toException show e), SetStatus sp (StatusError (errorMessage show e))]) o1"

definition cancelTask :: "(otel_call \<Rightarrow> bool) \<Rightarrow> task_id \<Rightarrow> cancel_reason \<Rightarrow> rat \<Rightarrow> otel \<Rightarrow> otel \<times> bool" where
  "cancelTask ok t reason durationMs o1 =
     end_task ok t ''cancelled'' durationMs
       (\<lambda>sp. [SetAttribute sp ''workit.cancel.kind'' (AStr (kind_text reason)), SetStatus sp (StatusError (''cancelled:'' @ kind_text reason))]) o1"

definition recordProgress :: "(otel_call \<Rightarrow> bool) \<Rightarrow> task_id \<Rightarrow> progress_report \<Rightarrow> otel \<Rightarrow> otel \<times> bool" where
  "recordProgress ok t p o1 =
     with_span t (\<lambda>sp. call_all ok [AddSpanEvent sp ''workit.task.progress'' (progress_attributes p)]) o1"

definition recordTaskCleanupFailure :: "(otel_call \<Rightarrow> bool) \<Rightarrow> (jsval \<Rightarrow> string) \<Rightarrow> task_id \<Rightarrow> err \<Rightarrow> otel \<Rightarrow> otel \<times> bool" where
  "recordTaskCleanupFailure ok show t e o1 =
     with_span t (\<lambda>sp. call_all ok [AddSpanEvent sp ''workit.task.cleanup_failed'' [(''workit.error.message'', AStr (errorMessage show e))]]) o1"

definition recordTaskCleanupTimeout :: "(otel_call \<Rightarrow> bool) \<Rightarrow> task_id \<Rightarrow> rat \<Rightarrow> otel \<Rightarrow> otel \<times> bool" where
  "recordTaskCleanupTimeout ok t timeoutMs o1 =
     with_span t (\<lambda>sp. call_all ok [AddSpanEvent sp ''workit.task.cleanup_timeout'' [(''workit.cleanup.timeout_ms'', ANum timeoutMs)]]) o1"

definition recordRetrying :: "(otel_call \<Rightarrow> bool) \<Rightarrow> task_id \<Rightarrow> nat \<Rightarrow> rat \<Rightarrow> otel \<Rightarrow> otel \<times> bool" where
  "recordRetrying ok t attempt nextDelayMs o1 =
     with_span t (\<lambda>sp. call_all ok [AddSpanEvent sp ''workit.task.retrying''
       [(''workit.retry.attempt'', ANum (of_nat attempt)), (''workit.retry.next_delay_ms'', ANum nextDelayMs)]]) o1"

fun handleTaskEvent :: "(otel_call \<Rightarrow> bool) \<Rightarrow> (jsval \<Rightarrow> string) \<Rightarrow> bool \<Rightarrow> task_event \<Rightarrow> otel \<Rightarrow> otel \<times> bool" where
  "handleTaskEvent ok show ids (TaskStarted t s name kind _) o1 = startTaskSpan ok ids t s name kind o1"
| "handleTaskEvent ok show ids (TaskRetrying t attempt _ nextDelayMs _) o1 = recordRetrying ok t attempt nextDelayMs o1"
| "handleTaskEvent ok show ids (TaskProgress t p _) o1 = recordProgress ok t p o1"
| "handleTaskEvent ok show ids (TaskCleanupFailed t e _) o1 = recordTaskCleanupFailure ok show t e o1"
| "handleTaskEvent ok show ids (TaskCleanupTimeout t timeoutMs _) o1 = recordTaskCleanupTimeout ok t timeoutMs o1"
| "handleTaskEvent ok show ids (TaskSucceeded t durationMs _) o1 = finishTask ok t durationMs o1"
| "handleTaskEvent ok show ids (TaskFailed t e durationMs _) o1 = failTask ok show t e durationMs o1"
| "handleTaskEvent ok show ids (TaskCancelled t reason durationMs _) o1 = cancelTask ok t reason durationMs o1"
| "handleTaskEvent ok show ids _ o1 = (o1, True)"

lemmas otel_handler_defs = finishTask_def failTask_def cancelTask_def recordProgress_def recordTaskCleanupFailure_def
  recordTaskCleanupTimeout_def recordRetrying_def

text \<open>The listener: an event the sanitizer drops, or anything that throws, counts as dropped.\<close>

definition otel_event :: "(otel_call \<Rightarrow> bool) \<Rightarrow> (jsval \<Rightarrow> string) \<Rightarrow> (task_event \<Rightarrow> err + task_event option) option \<Rightarrow> bool \<Rightarrow>
    task_event \<Rightarrow> otel \<Rightarrow> otel" where
  "otel_event ok show sanitize ids e o1 =
     (case sanitizeTaskEvent sanitize e of
        Some e' \<Rightarrow>
          (let (o2, good) = handleTaskEvent ok show ids e' o1
           in if good then o2\<lparr>ot_exported := ot_exported o2 + 1\<rparr> else o2\<lparr>ot_dropped := ot_dropped o2 + 1\<rparr>)
      | None \<Rightarrow> o1\<lparr>ot_dropped := ot_dropped o1 + 1\<rparr>)"

definition recordScopeSummary :: "(otel_call \<Rightarrow> bool) \<Rightarrow> exported_summary \<Rightarrow> otel \<Rightarrow> otel \<times> bool" where
  "recordScopeSummary ok m o1 = call_all ok [ScopeCount (xs_outcome m), ScopeDuration (xs_outcome m) (xs_durationMs m)] o1"

definition unsubscribe_otel :: "(otel_call \<Rightarrow> bool) \<Rightarrow> otel \<Rightarrow> otel" where
  "unsubscribe_otel ok o1 = (fold (\<lambda>(t, st). safeEnd ok (sp_span st)) (ot_spans o1) o1)\<lparr>ot_spans := []\<rparr>"

definition activeSpanCount :: "otel \<Rightarrow> nat" where
  "activeSpanCount o1 = length (ot_spans o1)"

section \<open>Every span is ended once\<close>

fun ended_spans :: "otel_call list \<Rightarrow> nat list" where
  "ended_spans [] = []"
| "ended_spans (EndSpan s # cs) = s # ended_spans cs"
| "ended_spans (c # cs) = ended_spans cs"

fun started_spans :: "otel_call list \<Rightarrow> nat list" where
  "started_spans [] = []"
| "started_spans (StartSpan s n as # cs) = s # started_spans cs"
| "started_spans (c # cs) = started_spans cs"

definition live_spans :: "otel \<Rightarrow> nat list" where
  "live_spans o1 = map (sp_span \<circ> snd) (ot_spans o1)"

lemma call_all_returns [simp]:
  "call_all (\<lambda>_. True) cs o1 = (o1\<lparr>ot_calls := ot_calls o1 @ cs\<rparr>, True)"
  by (induction cs arbitrary: o1) auto

definition balanced :: "otel \<Rightarrow> bool" where
  "balanced o1 \<longleftrightarrow> mset [0..<ot_next o1] = mset (ended_spans (ot_calls o1)) + mset (live_spans o1) \<and>
     started_spans (ot_calls o1) = [0..<ot_next o1] \<and> distinct (map fst (ot_spans o1))"

text \<open>A call that neither starts nor ends a span.\<close>

fun plain_call :: "otel_call \<Rightarrow> bool" where
  "plain_call (StartSpan _ _ _) \<longleftrightarrow> False"
| "plain_call (EndSpan _) \<longleftrightarrow> False"
| "plain_call _ \<longleftrightarrow> True"

lemma spans_append [simp]:
  "ended_spans (cs @ ds) = ended_spans cs @ ended_spans ds" "started_spans (cs @ ds) = started_spans cs @ started_spans ds"
  by (induction cs rule: ended_spans.induct) simp_all

lemma plain_calls: "list_all plain_call cs \<Longrightarrow> ended_spans cs = [] \<and> started_spans cs = []"
proof (induction cs)
  case (Cons c cs)
  then show ?case by (cases c) auto
qed simp

lemma balanced_plain:
  assumes "balanced o1" and "list_all plain_call cs"
  shows "balanced (o1\<lparr>ot_calls := ot_calls o1 @ cs\<rparr>)"
  using assms(1) plain_calls [OF assms(2)] by (simp add: balanced_def live_spans_def del: mset_upt)

lemma delete_mset:
  "distinct (map fst ps) \<Longrightarrow> map_of ps t = Some st \<Longrightarrow> mset (map snd ps) = add_mset st (mset (map snd (AList.delete t ps)))"
proof (induction ps)
  case (Cons p ps)
  show ?case
  proof (cases "fst p = t")
    case True
    then have "AList.delete t ps = ps" using Cons.prems(1) by (auto simp: AList.delete_eq filter_id_conv rev_image_eqI)
    then show ?thesis using Cons.prems True by (cases p) auto
  next
    case False
    then show ?thesis using Cons by (cases p) auto
  qed
qed simp

lemma live_delete:
  assumes "balanced o1" and "map_of (ot_spans o1) t = Some st"
  shows "mset (live_spans o1) = add_mset (sp_span st) (mset (map (sp_span \<circ> snd) (AList.delete t (ot_spans o1))))"
  using arg_cong [OF delete_mset [of "ot_spans o1" t st], of "image_mset sp_span"] assms
  by (simp add: live_spans_def balanced_def multiset.map_comp)

lemma end_task_balanced:
  assumes bal: "balanced o1" and marks: "\<And>sp. list_all plain_call (marks sp)"
  shows "balanced (fst (end_task (\<lambda>_. True) t outcome durationMs marks o1))"
proof (cases "map_of (ot_spans o1) t")
  case None
  then show ?thesis using bal by (simp add: end_task_def)
next
  case (Some st)
  have "distinct (map fst (AList.delete t (ot_spans o1)))" using bal by (simp add: balanced_def distinct_delete)
  then show ?thesis
    using bal live_delete [OF bal Some] plain_calls [OF marks [of "sp_span st"]]
    by (simp add: end_task_def Some safeEnd_def balanced_def live_spans_def recordTaskMetrics_def del: mset_upt)
qed

lemma with_span_balanced:
  assumes "balanced o1" and "\<And>sp. list_all plain_call (cs sp)"
  shows "balanced (fst (with_span t (\<lambda>sp. call_all (\<lambda>_. True) (cs sp)) o1))"
  using assms balanced_plain by (auto simp: with_span_def split: option.split)

lemma update_fresh: "t \<notin> fst ` set ps \<Longrightarrow> AList.update t v ps = ps @ [(t, v)]"
  by (induction ps) auto

lemma start_balanced:
  assumes "balanced o1" and "t \<notin> fst ` set (ot_spans o1)"
  shows "balanced (fst (startTaskSpan (\<lambda>_. True) ids t s name kind o1))"
  using assms by (simp add: startTaskSpan_def balanced_def live_spans_def update_fresh del: mset_upt)

text \<open>An event changes the map of spans only by adding the task it starts or deleting one.\<close>

fun begins :: "task_event \<Rightarrow> task_id list" where
  "begins (TaskStarted t s name kind ts) = [t]"
| "begins _ = []"

lemma call_all_spans [simp]: "ot_spans (fst (call_all ok cs o1)) = ot_spans o1"
  by (induction cs arbitrary: o1) auto

lemma call_all_counts [simp]:
  "ot_exported (fst (call_all ok cs o1)) = ot_exported o1" "ot_dropped (fst (call_all ok cs o1)) = ot_dropped o1"
  by (induction cs arbitrary: o1) auto

lemma with_span_fst:
  "ot_spans (fst (with_span t (\<lambda>sp. call_all ok (cs sp)) o1)) = ot_spans o1"
  "ot_exported (fst (with_span t (\<lambda>sp. call_all ok (cs sp)) o1)) = ot_exported o1"
  "ot_dropped (fst (with_span t (\<lambda>sp. call_all ok (cs sp)) o1)) = ot_dropped o1"
  by (simp_all add: with_span_def split: option.split)

lemma end_task_fst:
  "set (ot_spans (fst (end_task ok t outcome durationMs marks o1))) \<subseteq> set (ot_spans o1)"
  "ot_exported (fst (end_task ok t outcome durationMs marks o1)) = ot_exported o1"
  "ot_dropped (fst (end_task ok t outcome durationMs marks o1)) = ot_dropped o1"
  by (auto simp: end_task_def safeEnd_def Let_def split_beta AList.delete_eq split: option.split)

lemma start_fst:
  "fst ` set (ot_spans (fst (startTaskSpan ok ids t s name kind o1))) \<subseteq> insert t (fst ` set (ot_spans o1))"
  "ot_exported (fst (startTaskSpan ok ids t s name kind o1)) = ot_exported o1"
  "ot_dropped (fst (startTaskSpan ok ids t s name kind o1)) = ot_dropped o1"
  by (auto simp: startTaskSpan_def Let_def split_beta dom_update simp del: call_all.simps)

lemma handle_fst:
  "fst ` set (ot_spans (fst (handleTaskEvent ok shw ids e o1))) \<subseteq> fst ` set (ot_spans o1) \<union> set (begins e)"
  "ot_exported (fst (handleTaskEvent ok shw ids e o1)) = ot_exported o1"
  "ot_dropped (fst (handleTaskEvent ok shw ids e o1)) = ot_dropped o1"
  using start_fst(1) [of ok ids]
  by (cases e; simp add: otel_handler_defs with_span_fst end_task_fst start_fst image_mono)+

lemma handle_returns: "snd (handleTaskEvent (\<lambda>_. True) shw ids e o1)"
  by (cases e) (simp_all add: otel_handler_defs with_span_def end_task_def startTaskSpan_def split: option.split)

lemma handle_balanced:
  assumes "balanced o1" and "set (begins e) \<inter> fst ` set (ot_spans o1) = {}"
  shows "balanced (fst (handleTaskEvent (\<lambda>_. True) shw ids e o1))"
  using assms by (cases e) (auto simp: otel_handler_defs intro!: start_balanced end_task_balanced with_span_balanced)

section \<open>The attachment over its life\<close>

text \<open>The events seen, newest last, the adapter, and whether it still listens. The engine starts a
  task once, so that a started event carries an identifier not seen before.\<close>

definition begun :: "(task_event \<Rightarrow> err + task_event option) option \<Rightarrow> task_event list \<Rightarrow> task_id set" where
  "begun sanitize es = (\<Union>e \<in> set es. case sanitizeTaskEvent sanitize e of Some e' \<Rightarrow> set (begins e') | None \<Rightarrow> {})"

inductive otel_step :: "(otel_call \<Rightarrow> bool) \<Rightarrow> (jsval \<Rightarrow> string) \<Rightarrow> (task_event \<Rightarrow> err + task_event option) option \<Rightarrow> bool \<Rightarrow>
    task_event list \<times> otel \<times> bool \<Rightarrow> task_event list \<times> otel \<times> bool \<Rightarrow> bool"
  for ok shw sanitize ids where
  hear: "begun sanitize [e] \<inter> begun sanitize es = {} \<Longrightarrow>
    otel_step ok shw sanitize ids (es, o1, True) (es @ [e], otel_event ok shw sanitize ids e o1, True)"
| stop: "otel_step ok shw sanitize ids (es, o1, True) (es, unsubscribe_otel ok o1, False)"

definition otel_init :: "task_event list \<times> otel \<times> bool \<Rightarrow> bool" where
  "otel_init s \<longleftrightarrow> s = ([], open_otel, True)"

definition otel_inv :: "(task_event \<Rightarrow> err + task_event option) option \<Rightarrow> task_event list \<times> otel \<times> bool \<Rightarrow> bool" where
  "otel_inv sanitize s \<longleftrightarrow> (case s of (es, o1, listening) \<Rightarrow>
     balanced o1 \<and> fst ` set (ot_spans o1) \<subseteq> begun sanitize es \<and> (listening \<or> ot_spans o1 = []))"

lemma begun_append [simp]: "begun sanitize (es @ [e]) = begun sanitize es \<union> begun sanitize [e]"
  by (auto simp: begun_def)

lemma balanced_counts [simp]:
  "balanced (o1\<lparr>ot_exported := n\<rparr>) = balanced o1" "balanced (o1\<lparr>ot_dropped := n\<rparr>) = balanced o1"
  by (simp_all add: balanced_def live_spans_def)

lemma end_all:
  "fold (\<lambda>(t, st). safeEnd (\<lambda>_. True) (sp_span st)) ps o1 =
     o1\<lparr>ot_calls := ot_calls o1 @ map (\<lambda>(t, st). EndSpan (sp_span st)) ps\<rparr>"
  by (induction ps arbitrary: o1) (auto simp: safeEnd_def)

lemma ends_only: "ended_spans (map (\<lambda>(t, st). EndSpan (sp_span st)) ps) = map (sp_span \<circ> snd) ps"
  "started_spans (map (\<lambda>(t, st). EndSpan (sp_span st)) ps) = []"
  by (induction ps) auto

lemma unsubscribe_balanced: "balanced o1 \<Longrightarrow> balanced (unsubscribe_otel (\<lambda>_. True) o1)"
  by (simp add: unsubscribe_otel_def end_all ends_only balanced_def live_spans_def del: mset_upt)

lemma otel_step_inv:
  assumes "otel_inv sanitize s" and "otel_step (\<lambda>_. True) shw sanitize ids s s'"
  shows "otel_inv sanitize s'"
  using assms(2,1)
proof cases
  case (hear e es o1)
  show ?thesis
  proof (cases "sanitizeTaskEvent sanitize e")
    case None
    then show ?thesis using hear assms(1) by (auto simp: otel_inv_def otel_event_def)
  next
    case (Some e')
    then have begins: "begun sanitize [e] = set (begins e')" by (simp add: begun_def)
    have "fst ` set (ot_spans o1) \<subseteq> begun sanitize es" using hear assms(1) by (simp add: otel_inv_def)
    then have "set (begins e') \<inter> fst ` set (ot_spans o1) = {}" using hear begins by blast
    then have "balanced (fst (handleTaskEvent (\<lambda>_. True) shw ids e' o1))"
      using hear assms(1) by (auto simp: otel_inv_def intro!: handle_balanced)
    then show ?thesis
      using hear assms(1) Some begins handle_fst(1) [of "\<lambda>_. True" shw ids e' o1] handle_returns [of shw ids e' o1]
      by (simp add: otel_inv_def otel_event_def Let_def split_beta) blast
  qed
next
  case (stop es o1)
  then show ?thesis using assms(1) unsubscribe_balanced by (auto simp: otel_inv_def unsubscribe_otel_def)
qed

interpretation adapter: invariant_system otel_init "otel_step (\<lambda>_. True) shw sanitize ids" "otel_inv sanitize"
proof
  show "otel_init s \<Longrightarrow> otel_inv sanitize s" for s
    by (auto simp: otel_init_def otel_inv_def open_otel_def balanced_def live_spans_def)
  show "otel_inv sanitize s \<Longrightarrow> otel_step (\<lambda>_. True) shw sanitize ids s t \<Longrightarrow> otel_inv sanitize t" for s t
    by (rule otel_step_inv)
qed

text \<open>Every event is counted once, as exported or as dropped, whatever the tracer throws.\<close>

lemma otel_event_counts:
  "ot_exported (otel_event ok shw sanitize ids e o1) + ot_dropped (otel_event ok shw sanitize ids e o1) =
     ot_exported o1 + ot_dropped o1 + 1"
  by (simp add: otel_event_def Let_def split_beta handle_fst split: option.split)

lemma safeEnd_counts [simp]:
  "ot_exported (safeEnd ok sp o1) = ot_exported o1" "ot_dropped (safeEnd ok sp o1) = ot_dropped o1"
  by (simp_all add: safeEnd_def del: call_all.simps)

lemma unsubscribe_counts:
  "ot_exported (unsubscribe_otel ok o1) = ot_exported o1" "ot_dropped (unsubscribe_otel ok o1) = ot_dropped o1"
proof -
  have all: "ot_exported (fold (\<lambda>(t, st). safeEnd ok (sp_span st)) ps o1) = ot_exported o1 \<and>
      ot_dropped (fold (\<lambda>(t, st). safeEnd ok (sp_span st)) ps o1) = ot_dropped o1" for ps
    by (induction ps arbitrary: o1) auto
  then show "ot_exported (unsubscribe_otel ok o1) = ot_exported o1" "ot_dropped (unsubscribe_otel ok o1) = ot_dropped o1"
    by (simp_all add: unsubscribe_otel_def all)
qed

definition otel_counted :: "task_event list \<times> otel \<times> bool \<Rightarrow> bool" where
  "otel_counted s \<longleftrightarrow> (case s of (es, o1, listening) \<Rightarrow> ot_exported o1 + ot_dropped o1 = length es)"

interpretation counter: invariant_system otel_init "otel_step ok shw sanitize ids" otel_counted
proof
  show "otel_init s \<Longrightarrow> otel_counted s" for s by (auto simp: otel_init_def otel_counted_def open_otel_def)
  show "otel_counted s \<Longrightarrow> otel_step ok shw sanitize ids s t \<Longrightarrow> otel_counted t" for s t
    by (auto elim!: otel_step.cases simp: otel_counted_def otel_event_counts unsubscribe_counts)
qed

text \<open>C37: While the tracer and the meter do not throw, the adapter ends every span it starts exactly once: at any
  time the spans started are the spans ended and the ones of the running tasks, each span has its own
  number, the active count is that of the latter, and after \<open>unsubscribe\<close> every span has been ended.
  Each event was counted once, exported or dropped.\<close>

theorem otel_spans_balanced:
  assumes "reachable otel_init (otel_step (\<lambda>_. True) shw sanitize ids) (es, o1, listening)"
  shows "distinct (started_spans (ot_calls o1)) \<and>
    mset (started_spans (ot_calls o1)) = mset (ended_spans (ot_calls o1)) + mset (live_spans o1) \<and>
    activeSpanCount o1 = length (started_spans (ot_calls o1)) - length (ended_spans (ot_calls o1)) \<and>
    (listening \<or> mset (ended_spans (ot_calls o1)) = mset (started_spans (ot_calls o1))) \<and>
    ot_exported o1 + ot_dropped o1 = length es"
proof (intro conjI)
  have inv: "balanced o1" "listening \<or> ot_spans o1 = []"
    using adapter.reachable_inv [OF assms] by (auto simp: otel_inv_def)
  then show "distinct (started_spans (ot_calls o1))" by (simp add: balanced_def)
  show m: "mset (started_spans (ot_calls o1)) = mset (ended_spans (ot_calls o1)) + mset (live_spans o1)"
    using inv(1) by (simp add: balanced_def)
  show "activeSpanCount o1 = length (started_spans (ot_calls o1)) - length (ended_spans (ot_calls o1))"
    using arg_cong [OF m, of size] by (simp add: activeSpanCount_def live_spans_def)
  show "listening \<or> mset (ended_spans (ot_calls o1)) = mset (started_spans (ot_calls o1))"
    using m inv(2) by (auto simp: live_spans_def)
  show "ot_exported o1 + ot_dropped o1 = length es"
    using counter.reachable_inv [OF assms] by (simp add: otel_counted_def)
qed

theorem otel_spans_balanced_witness:
  "length (started_spans (ot_calls (unsubscribe_otel (\<lambda>_. True)
     (otel_event (\<lambda>_. True) (\<lambda>_. []) None False (TaskStarted 1 0 ''a'' IO 0) open_otel)))) = 1 \<and>
   mset (ended_spans (ot_calls (unsubscribe_otel (\<lambda>_. True)
     (otel_event (\<lambda>_. True) (\<lambda>_. []) None False (TaskStarted 1 0 ''a'' IO 0) open_otel)))) =
   mset (started_spans (ot_calls (unsubscribe_otel (\<lambda>_. True)
     (otel_event (\<lambda>_. True) (\<lambda>_. []) None False (TaskStarted 1 0 ''a'' IO 0) open_otel))))"
proof -
  let ?step = "otel_step (\<lambda>_. True) (\<lambda>_. []) None False"
  let ?e = "TaskStarted 1 0 ''a'' IO 0"
  let ?o = "otel_event (\<lambda>_. True) (\<lambda>_. []) None False ?e open_otel"
  have "begun None [?e] \<inter> begun None [] = {}" by (simp add: begun_def)
  then have "?step ([], open_otel, True) ([] @ [?e], ?o, True)" by (rule otel_step.hear)
  moreover have "reachable otel_init ?step ([], open_otel, True)" by (rule reach_init) (simp add: otel_init_def)
  ultimately have "reachable otel_init ?step ([] @ [?e], ?o, True)" by (blast intro: reach_step)
  then have "reachable otel_init ?step ([] @ [?e], unsubscribe_otel (\<lambda>_. True) ?o, False)"
    by (blast intro: reach_step otel_step.stop)
  from otel_spans_balanced [OF this] show ?thesis
    by (simp add: otel_event_def sanitizeTaskEvent_def startTaskSpan_def open_otel_def unsubscribe_otel_def safeEnd_def)
qed

text \<open>A tracer whose \<open>setStatus\<close> throws: the span has left the map and nothing ends it, neither the
  terminal event nor \<open>unsubscribe\<close>.\<close>

lemma failing_status_leaks_span:
  assumes "map_of (ot_spans o1) t = Some st" and "\<not> ok (SetStatus (sp_span st) StatusOk)"
    and "distinct (map fst (ot_spans o1))"
  shows "ended_spans (ot_calls (otel_event ok shw None ids (TaskSucceeded t d ts) o1)) = ended_spans (ot_calls o1)"
    and "map_of (ot_spans (otel_event ok shw None ids (TaskSucceeded t d ts) o1)) t = None"
  using assms by (simp_all add: otel_event_def sanitizeTaskEvent_def finishTask_def end_task_def map_of_eq_None_iff AList.delete_conv')

end
