(* ===== verification/Fault.thy ===== *)
theory Fault
  imports Run_Groups Activity Analysis_Props
begin

text \<open>
  The fault harness, \<open>packages/core/src/fault/index.ts\<close>: the constructors of its scenarios, what a scenario
  does, in the timed tasks of \<open>Run_Tasks\<close> and \<open>Run_Groups\<close>, and the report it is judged by. The events,
  the snapshot and the error of the group the scenario runs in are arguments of the report, which the
  receipts of \<open>Replay\<close> and the verifiers of \<open>Analysis\<close> make. The report reads the receipt before its
  redaction, which leaves event types, outcomes and error names as they are.
\<close>

section \<open>Scenarios\<close>

datatype fault_scenario =
    CancellationStorm string nat rat rat \<comment> \<open>id, taskCount, cancelAfterMs, workerDurationMs\<close>
  | CleanupHang string rat \<comment> \<open>id, cleanupTimeoutMs\<close>
  | ProviderTimeout string rat rat \<comment> \<open>id, timeoutMs, providerLatencyMs\<close>
  | RetryExhaustion string nat rat \<comment> \<open>id, attempts, initialDelayMs\<close>

record storm_opts =
  so_id :: "string option"
  so_taskCount :: "jsnum option"
  so_cancelAfter :: "duration option"
  so_workerDuration :: "duration option"

record hang_opts =
  ho_id :: "string option"
  ho_cleanupTimeout :: "duration option"

record provider_opts =
  po_id :: "string option"
  po_timeout :: "duration option"
  po_providerLatency :: "duration option"

record exhaustion_opts =
  eo_id :: "string option"
  eo_attempts :: "jsnum option"
  eo_initialDelay :: "duration option"

definition MAX_FAULT_TASKS :: nat where
  "MAX_FAULT_TASKS = 1000"

definition MAX_FAULT_ATTEMPTS :: nat where
  "MAX_FAULT_ATTEMPTS = 1000"

definition assertPositiveInteger :: "jsnum \<Rightarrow> nat \<Rightarrow> err + nat" where
  "assertPositiveInteger v mx =
     (if \<not> is_integer v \<or> v < Fin 1 \<or> Fin (of_nat mx) < v then Inl (RangeError ''must be an integer between 1 and the maximum'')
      else Inr (num_nat v))"

definition parsePositiveDuration :: "duration \<Rightarrow> err + rat" where
  "parsePositiveDuration d =
     bind_res (parseDuration d) (\<lambda>ms. if ms \<le> 0 then Inl (RangeError ''must be greater than 0ms'') else Inr ms)"

definition cancellationStorm :: "storm_opts \<Rightarrow> err + fault_scenario" where
  "cancellationStorm opts =
     bind_res (assertPositiveInteger (or_default (so_taskCount opts) (Fin 8)) MAX_FAULT_TASKS) (\<lambda>taskCount.
     bind_res (parseDuration (or_default (so_cancelAfter opts) (DNum (Fin 1)))) (\<lambda>cancelAfterMs.
     bind_res (parsePositiveDuration (or_default (so_workerDuration opts) (DNum (Fin 1000)))) (\<lambda>workerDurationMs.
       Inr (CancellationStorm (or_default (so_id opts) ''fault:cancellation-storm'') taskCount cancelAfterMs workerDurationMs))))"

definition cleanupHang :: "hang_opts \<Rightarrow> err + fault_scenario" where
  "cleanupHang opts =
     bind_res (parsePositiveDuration (or_default (ho_cleanupTimeout opts) (DNum (Fin 5)))) (\<lambda>ms.
       Inr (CleanupHang (or_default (ho_id opts) ''fault:cleanup-hang'') ms))"

definition providerTimeout :: "provider_opts \<Rightarrow> err + fault_scenario" where
  "providerTimeout opts =
     bind_res (parsePositiveDuration (or_default (po_timeout opts) (DNum (Fin 5)))) (\<lambda>timeoutMs.
     bind_res (parsePositiveDuration (or_default (po_providerLatency opts) (DNum (Fin 50)))) (\<lambda>latencyMs.
       if latencyMs \<le> timeoutMs
       then Inl (RangeError ''providerLatency must be greater than timeout for provider_timeout evidence'')
       else Inr (ProviderTimeout (or_default (po_id opts) ''fault:provider-timeout'') timeoutMs latencyMs)))"

definition retryExhaustion :: "exhaustion_opts \<Rightarrow> err + fault_scenario" where
  "retryExhaustion opts =
     bind_res (assertPositiveInteger (or_default (eo_attempts opts) (Fin 3)) MAX_FAULT_ATTEMPTS) (\<lambda>attempts.
     bind_res (parseDuration (or_default (eo_initialDelay opts) (DNum (Fin 1)))) (\<lambda>ms.
       Inr (RetryExhaustion (or_default (eo_id opts) ''fault:retry-exhaustion'') attempts ms)))"

lemma assertPositiveInteger_ok:
  assumes "assertPositiveInteger v mx = Inr n"
  shows "v = Fin (of_nat n) \<and> 1 \<le> n \<and> n \<le> mx"
proof -
  obtain q where q: "v = Fin q" "integral q" "1 \<le> q" "q \<le> of_nat mx" "n = nat \<lfloor>q\<rfloor>"
    using assms by (cases v) (auto simp: assertPositiveInteger_def not_less split: if_splits)
  then have "of_nat (nat \<lfloor>q\<rfloor>) = q" by (intro integral_nat) auto
  with q show ?thesis by (metis of_nat_1 of_nat_le_iff)
qed

lemma parsePositiveDuration_ok: "parsePositiveDuration d = Inr ms \<Longrightarrow> 0 < ms \<and> ms \<le> of_nat MAX_TIMEOUT_MS"
  using parseDuration_range [of d] by (auto simp: parsePositiveDuration_def res_simps split: if_splits)

section \<open>What a scenario does\<close>

definition fault_sleep :: "rat \<Rightarrow> signal \<Rightarrow> rat \<Rightarrow> rat \<times> (err + unit)" where
  "fault_sleep ms sig now =
     (case sig of
        None \<Rightarrow> (now + ms, Inr ())
      | Some (ta, reason) \<Rightarrow>
          if ta \<le> now then (now, Inl reason)
          else if ta < now + ms then (ta, Inl reason) else (now + ms, Inr ()))"

definition sleeper :: "rat \<Rightarrow> unit task" where
  "sleeper ms ctx now = (Some (fault_sleep ms (cx_signal ctx) now), [])"

definition storm_reason :: cancel_reason where
  "storm_reason = RManual ''fault_cancellation_storm'' None"

text \<open>The workers under the cancellation of their scope, and the body that waits for all of them.\<close>

definition storm_workers :: "nat \<Rightarrow> rat \<Rightarrow> rat \<Rightarrow> ctx \<Rightarrow> rat \<Rightarrow> unit outcome list" where
  "storm_workers taskCount cancelAfterMs workerDurationMs ctx now =
     run_children (Some (now + cancelAfterMs, CancellationError storm_reason)) (\<lambda>_. None)
       (replicate taskCount (sleeper workerDurationMs)) ctx now"

definition executeCancellationStorm :: "nat \<Rightarrow> rat \<Rightarrow> rat \<Rightarrow> unit task" where
  "executeCancellationStorm taskCount cancelAfterMs workerDurationMs ctx now =
     group_end (now + cancelAfterMs) (storm_workers taskCount cancelAfterMs workerDurationMs ctx now) (Inr ())"

definition executeCleanupHang :: "nat \<Rightarrow> unit task" where
  "executeCleanupHang cleanup ctx now = (Some (now, Inr ()), [(now, EvDefer cleanup)])"

definition executeProviderTimeout :: "bool \<Rightarrow> rat \<Rightarrow> rat \<Rightarrow> err + unit task" where
  "executeProviderTimeout timer_first timeoutMs latencyMs = timeout timer_first (sleeper latencyMs) (DNum (Fin timeoutMs))"

definition executeRetryExhaustion :: "nat \<Rightarrow> rat \<Rightarrow> (nat \<Rightarrow> rat) \<Rightarrow> err + unit task" where
  "executeRetryExhaustion attempts delayMs rnd =
     retry (\<lambda>ctx now. (Some (now, Inl (PlainError ''fault_retry_exhausted'')), []))
       (ROpts \<lparr>ro_times = Fin (of_nat attempts), ro_backoff = None, ro_initialDelay = Some (DNum (Fin delayMs)),
          ro_maxDelay = Some (DNum (Fin delayMs)), ro_jitter = Some False, ro_retryIf = None, ro_retryBudget = None\<rparr>)
       (\<lambda>_. None) rnd"

fun cleanupTimeoutFor :: "fault_scenario \<Rightarrow> duration option" where
  "cleanupTimeoutFor (CleanupHang i ms) = Some (DNum (Fin ms))"
| "cleanupTimeoutFor _ = None"

section \<open>Verification of a scenario\<close>

datatype fault_code =
    Cleanup_timeout_not_observed | Expected_cancellation_not_observed | Expected_error_not_observed
  | Leaked_tasks | Protocol_violation | Provider_timeout_not_observed | Receipt_not_terminal
  | Retry_exhaustion_not_observed | Unexpected_error

datatype fault_fact = FCount nat | FText string

record fault_finding =
  ff_code :: fault_code
  ff_message :: string
  ff_expected :: "fault_fact option"
  ff_actual :: "fault_fact option"

definition countEvents :: "receipt_event list \<Rightarrow> (receipt_event \<Rightarrow> bool) \<Rightarrow> nat" where
  "countEvents events P = length (filter P events)"

definition fault_error :: "(jsval \<Rightarrow> string) \<Rightarrow> err \<Rightarrow> receipt_error" where
  "fault_error show e =
     (case e of
        Thrown (VErr n m) \<Rightarrow> \<lparr>er_name = n, er_message = m\<rparr>
      | Thrown v \<Rightarrow> \<lparr>er_name = typeof_text v, er_message = show v\<rparr>
      | _ \<Rightarrow> normalizeError show e)"

definition pushUnexpectedError :: "(jsval \<Rightarrow> string) \<Rightarrow> err option \<Rightarrow> fault_finding list" where
  "pushUnexpectedError show error =
     (case error of
        None \<Rightarrow> []
      | Some e \<Rightarrow> [\<lparr>ff_code = Unexpected_error,
          ff_message = ''scenario threw although the injected behavior should settle through scope evidence'',
          ff_expected = None, ff_actual = Some (FText (er_name (fault_error show e)))\<rparr>])"

definition pushExpectedErrorMissing :: "err option \<Rightarrow> fault_finding list" where
  "pushExpectedErrorMissing error =
     (if error = None
      then [\<lparr>ff_code = Expected_error_not_observed,
          ff_message = ''scenario did not throw although the injected behavior should fail the owned task'',
          ff_expected = None, ff_actual = None\<rparr>]
      else [])"

definition verifyCancellationStorm :: "(jsval \<Rightarrow> string) \<Rightarrow> nat \<Rightarrow> receipt_event list \<Rightarrow> receipt_outcome \<Rightarrow> err option \<Rightarrow> fault_finding list" where
  "verifyCancellationStorm show taskCount events outcome error =
     (let cancelled = countEvents events (\<lambda>e. re_type e = ''task:cancelled'')
      in (if cancelled < taskCount
          then [\<lparr>ff_code = Expected_cancellation_not_observed, ff_message = ''not every storm worker emitted task cancellation evidence'',
              ff_expected = Some (FCount taskCount), ff_actual = Some (FCount cancelled)\<rparr>]
          else []) @
         (if outcome \<noteq> OutCancelled
          then [\<lparr>ff_code = Expected_cancellation_not_observed, ff_message = ''scope terminal outcome was not cancelled'',
              ff_expected = Some (FText ''cancelled''), ff_actual = Some (FText (outcome_text outcome))\<rparr>]
          else []) @
         pushUnexpectedError show error)"

definition verifyCleanupHang :: "(jsval \<Rightarrow> string) \<Rightarrow> receipt_event list \<Rightarrow> err option \<Rightarrow> fault_finding list" where
  "verifyCleanupHang show events error =
     (let cleanupTimeouts = countEvents events (\<lambda>e. re_type e = ''task:cleanup_timeout'' \<or> re_type e = ''scope:cleanup_timeout'')
      in (if cleanupTimeouts < 1
          then [\<lparr>ff_code = Cleanup_timeout_not_observed, ff_message = ''cleanup timeout evidence was not emitted'',
              ff_expected = Some (FCount 1), ff_actual = Some (FCount cleanupTimeouts)\<rparr>]
          else []) @
         pushUnexpectedError show error)"

definition verifyProviderTimeout :: "receipt_event list \<Rightarrow> err option \<Rightarrow> fault_finding list" where
  "verifyProviderTimeout events error =
     (let timeoutFailures = countEvents events (\<lambda>e. re_type e = ''task:failed'' \<and> map_option er_name (re_error e) = Some ''TimeoutError'')
      in (if timeoutFailures < 1
          then [\<lparr>ff_code = Provider_timeout_not_observed, ff_message = ''timeout wrapper did not emit task failure evidence'',
              ff_expected = Some (FCount 1), ff_actual = Some (FCount timeoutFailures)\<rparr>]
          else []) @
         pushExpectedErrorMissing error)"

definition verifyRetryExhaustion :: "nat \<Rightarrow> receipt_event list \<Rightarrow> err option \<Rightarrow> fault_finding list" where
  "verifyRetryExhaustion attempts events error =
     (let retryEvents = countEvents events (\<lambda>e. re_type e = ''task:retrying'')
      in (if retryEvents \<noteq> attempts - 1
          then [\<lparr>ff_code = Retry_exhaustion_not_observed, ff_message = ''retry exhaustion evidence did not match configured attempts'',
              ff_expected = Some (FCount (attempts - 1)), ff_actual = Some (FCount retryEvents)\<rparr>]
          else []) @
         pushExpectedErrorMissing error)"

text \<open>The findings every scenario is checked for: leaked tasks, no terminal, a broken protocol.\<close>

definition carried_finding :: "string \<Rightarrow> fault_code \<Rightarrow> finding list \<Rightarrow> fault_finding list" where
  "carried_finding code fault findings =
     (case find (\<lambda>f. af_code f = code) findings of
        None \<Rightarrow> []
      | Some f \<Rightarrow> [\<lparr>ff_code = fault, ff_message = af_message f, ff_expected = None, ff_actual = None\<rparr>])"

definition verifyScenario :: "(jsval \<Rightarrow> string) \<Rightarrow> fault_scenario \<Rightarrow> receipt_event list \<Rightarrow> receipt_outcome \<Rightarrow> finding list \<Rightarrow>
    analysis_status \<Rightarrow> err option \<Rightarrow> fault_finding list" where
  "verifyScenario show scenario events outcome analysis protocol error =
     carried_finding ''leaked_tasks'' Leaked_tasks analysis @
     carried_finding ''receipt_not_terminal'' Receipt_not_terminal analysis @
     (if protocol = Fail
      then [\<lparr>ff_code = Protocol_violation, ff_message = ''receipt event stream violates the WorkIt task protocol'',
          ff_expected = None, ff_actual = None\<rparr>]
      else []) @
     (case scenario of
        CancellationStorm i taskCount c d \<Rightarrow> verifyCancellationStorm show taskCount events outcome error
      | CleanupHang i ms \<Rightarrow> verifyCleanupHang show events error
      | ProviderTimeout i ms l \<Rightarrow> verifyProviderTimeout events error
      | RetryExhaustion i attempts d \<Rightarrow> verifyRetryExhaustion attempts events error)"

section \<open>Reports\<close>

record fault_report =
  fr_scenario :: fault_scenario
  fr_pass :: bool
  fr_durationMs :: rat
  fr_receipt :: receipt
  fr_analysis :: "analysis_status \<times> finding list"
  fr_protocol :: "analysis_status \<times> finding list"
  fr_findings :: "fault_finding list"
  fr_error :: "receipt_error option"

fun scenario_id :: "fault_scenario \<Rightarrow> string" where
  "scenario_id (CancellationStorm i n c d) = i"
| "scenario_id (CleanupHang i ms) = i"
| "scenario_id (ProviderTimeout i ms l) = i"
| "scenario_id (RetryExhaustion i n d) = i"

definition fault_limitation :: string where
  "fault_limitation = ''fault_injection_is_bounded_runtime_evidence_not_deterministic_replay''"

text \<open>
  The report on a run of the scenario, which began at \<open>startedAt\<close>, gave its scope these events and this
  snapshot and threw \<open>error\<close>; \<open>now\<close> is the clock at the end. A recorder that cannot be made ends the
  body before the scenario, and the report with it.
\<close>

definition runFaultScenario :: "(jsval \<Rightarrow> string) \<Rightarrow> fault_scenario \<Rightarrow> string option \<Rightarrow> jsnum option \<Rightarrow> rat \<Rightarrow> rat \<Rightarrow>
    task_event list \<Rightarrow> scope_snapshot \<Rightarrow> err option \<Rightarrow> err + fault_report" where
  "runFaultScenario show scenario receiptId maxEvents startedAt now events snapshot error =
     (case createReceiptRecorder maxEvents of
        Inl _ \<Rightarrow> Inl (PlainError ''fault harness did not initialize a WorkIt scope'')
      | Inr recorder \<Rightarrow>
          let r = fold record_event events recorder;
              i = or_default receiptId (''fault:'' @ scenario_id scenario);
              opts = \<lparr>ro_receiptId = Some i, ro_redaction = None, ro_limitations = Some [fault_limitation], ro_attempts = None\<rparr>;
              rc = assembleReceipt show now i (rec_dropped r) (rec_events r) snapshot opts;
              protocol = verifyScopeProtocol (map (\<lambda>e. (map_option task_id_text (re_taskId e), re_type e)) (rc_events rc))
          in bind_res (analyzeReceipt (recorder_build show now i snapshot opts r)) (\<lambda>analysis.
               let findings = verifyScenario show scenario (rc_events rc) (rt_outcome (rc_terminal rc)) (snd analysis) (fst protocol) error
               in Inr \<lparr>fr_scenario = scenario, fr_pass = (findings = []), fr_durationMs = max 0 (now - startedAt),
                    fr_receipt = rc, fr_analysis = analysis, fr_protocol = protocol, fr_findings = findings,
                    fr_error = map_option (fault_error show) error\<rparr>))"

record fault_suite =
  fs_reports :: "fault_report list"
  fs_passed :: nat
  fs_failed :: nat

definition runFaultSuite :: "(fault_scenario \<Rightarrow> err + fault_report) \<Rightarrow> fault_scenario list \<Rightarrow> err + fault_suite" where
  "runFaultSuite run scenarios =
     bind_res (map_res run scenarios) (\<lambda>reports.
       let passed = length (filter fr_pass reports)
       in Inr \<lparr>fs_reports = reports, fs_passed = passed, fs_failed = length reports - passed\<rparr>)"

section \<open>The verdict\<close>

fun is_cancelled_event :: "task_event \<Rightarrow> bool" where
  "is_cancelled_event (TaskCancelled t r d ts) \<longleftrightarrow> True"
| "is_cancelled_event _ \<longleftrightarrow> False"

fun is_cleanup_timeout :: "task_event \<Rightarrow> bool" where
  "is_cleanup_timeout (TaskCleanupTimeout t ms ts) \<longleftrightarrow> True"
| "is_cleanup_timeout (ScopeCleanupTimeout s ms ts) \<longleftrightarrow> True"
| "is_cleanup_timeout _ \<longleftrightarrow> False"

fun is_timeout_failure :: "(jsval \<Rightarrow> string) \<Rightarrow> task_event \<Rightarrow> bool" where
  "is_timeout_failure shw (TaskFailed t e d ts) \<longleftrightarrow> er_name (normalizeError shw e) = ''TimeoutError''"
| "is_timeout_failure shw _ \<longleftrightarrow> False"

fun is_retrying :: "task_event \<Rightarrow> bool" where
  "is_retrying (TaskRetrying t n e d ts) \<longleftrightarrow> True"
| "is_retrying _ \<longleftrightarrow> False"

text \<open>The evidence a scenario asks for, in the events of the engine.\<close>

fun evidence :: "(jsval \<Rightarrow> string) \<Rightarrow> fault_scenario \<Rightarrow> task_event list \<Rightarrow> receipt_outcome \<Rightarrow> err option \<Rightarrow> bool" where
  "evidence shw (CancellationStorm i n c d) es outcome error \<longleftrightarrow>
     n \<le> length (filter is_cancelled_event es) \<and> outcome = OutCancelled \<and> error = None"
| "evidence shw (CleanupHang i ms) es outcome error \<longleftrightarrow> (\<exists>e \<in> set es. is_cleanup_timeout e) \<and> error = None"
| "evidence shw (ProviderTimeout i ms l) es outcome error \<longleftrightarrow> (\<exists>e \<in> set es. is_timeout_failure shw e) \<and> error \<noteq> None"
| "evidence shw (RetryExhaustion i n d) es outcome error \<longleftrightarrow> length (filter is_retrying es) = n - 1 \<and> error \<noteq> None"

lemma event_types:
  "re_type (normalizeEvent shw e) = ''task:cancelled'' \<longleftrightarrow> is_cancelled_event e"
  "(re_type (normalizeEvent shw e) = ''task:cleanup_timeout'' \<or> re_type (normalizeEvent shw e) = ''scope:cleanup_timeout'') \<longleftrightarrow>
     is_cleanup_timeout e"
  "(re_type (normalizeEvent shw e) = ''task:failed'' \<and> map_option er_name (re_error (normalizeEvent shw e)) = Some ''TimeoutError'') \<longleftrightarrow>
     is_timeout_failure shw e"
  "re_type (normalizeEvent shw e) = ''task:retrying'' \<longleftrightarrow> is_retrying e"
  by (cases e; simp add: base_event_def)+

lemma count_normalized:
  "countEvents (map (normalizeEvent shw) es) P = length (filter (\<lambda>e. P (normalizeEvent shw e)) es)"
  by (simp add: countEvents_def filter_map o_def)

lemma counted_events:
  "countEvents (map (normalizeEvent shw) es) (\<lambda>e. re_type e = ''task:cancelled'') = length (filter is_cancelled_event es)"
  "countEvents (map (normalizeEvent shw) es) (\<lambda>e. re_type e = ''task:cleanup_timeout'' \<or> re_type e = ''scope:cleanup_timeout'') =
     length (filter is_cleanup_timeout es)"
  "countEvents (map (normalizeEvent shw) es) (\<lambda>e. re_type e = ''task:failed'' \<and> map_option er_name (re_error e) = Some ''TimeoutError'') =
     length (filter (is_timeout_failure shw) es)"
  "countEvents (map (normalizeEvent shw) es) (\<lambda>e. re_type e = ''task:retrying'') = length (filter is_retrying es)"
  by (simp_all only: count_normalized event_types)

lemma counted_failures:
  "countEvents (map (normalizeEvent shw) es) (\<lambda>e. re_type e = ''task:failed'' \<and> (\<exists>z. re_error e = Some z \<and> er_name z = ''TimeoutError'')) =
     length (filter (is_timeout_failure shw) es)"
  using counted_events(3) [of shw es] by simp

lemma carried_none: "carried_finding code fault findings = [] \<longleftrightarrow> (\<forall>f \<in> set findings. af_code f \<noteq> code)"
  using find_None_iff [of "\<lambda>f. af_code f = code" findings]
  by (cases "find (\<lambda>f. af_code f = code) findings") (auto simp: carried_finding_def)

lemma pushed_none [simp]:
  "pushUnexpectedError shw error = [] \<longleftrightarrow> error = None" "pushExpectedErrorMissing error = [] \<longleftrightarrow> error \<noteq> None"
  by (auto simp: pushUnexpectedError_def pushExpectedErrorMissing_def split: option.split)

lemma verifyScenario_none:
  "verifyScenario shw sc (map (normalizeEvent shw) es) outcome analysis protocol error = [] \<longleftrightarrow>
     (\<forall>f \<in> set analysis. af_code f \<noteq> ''leaked_tasks'' \<and> af_code f \<noteq> ''receipt_not_terminal'') \<and> protocol \<noteq> Fail \<and>
     evidence shw sc es outcome error"
proof -
  have "(case sc of CancellationStorm i n c d \<Rightarrow> verifyCancellationStorm shw n (map (normalizeEvent shw) es) outcome error
      | CleanupHang i ms \<Rightarrow> verifyCleanupHang shw (map (normalizeEvent shw) es) error
      | ProviderTimeout i ms l \<Rightarrow> verifyProviderTimeout (map (normalizeEvent shw) es) error
      | RetryExhaustion i n d \<Rightarrow> verifyRetryExhaustion n (map (normalizeEvent shw) es) error) = [] \<longleftrightarrow>
    evidence shw sc es outcome error"
    by (cases sc) (auto simp: verifyCancellationStorm_def verifyCleanupHang_def verifyProviderTimeout_def verifyRetryExhaustion_def
        counted_events counted_failures Let_def filter_empty_conv)
  then show ?thesis by (auto simp: verifyScenario_def carried_none)
qed

text \<open>The events the recorder keeps.\<close>

definition kept_events :: "jsnum option \<Rightarrow> task_event list \<Rightarrow> task_event list" where
  "kept_events maxEvents events = take (num_nat (or_default maxEvents (Fin (of_nat DEFAULT_MAX_EVENTS)))) events"

lemma recorder_keeps:
  assumes "createReceiptRecorder maxEvents = Inr recorder"
  shows "rec_events (fold record_event events recorder) = kept_events maxEvents events"
proof -
  have "rec_events recorder = []" "rec_max recorder = num_nat (or_default maxEvents (Fin (of_nat DEFAULT_MAX_EVENTS)))"
    using assms by (auto simp: createReceiptRecorder_def positive_count_def res_simps split: if_splits)
  then show ?thesis by (simp add: fold_record_event kept_events_def)
qed

text \<open>
  C39: A report passes exactly when the analysis of its receipt finds neither leaked tasks nor a missing
  terminal, the stream of its events keeps the task protocol, and the events of the engine that the recorder keeps,
  the terminal outcome and the error hold the evidence the scenario asks for: as many cancelled
  tasks as workers, a cleanup timeout, a task that failed with a timeout, exactly one retry less
  than the attempts.
\<close>

theorem fault_verdict_exact:
  assumes "runFaultScenario shw sc receiptId maxEvents startedAt now events snapshot error = Inr rep"
  shows "fr_pass rep \<longleftrightarrow>
    (\<forall>f \<in> set (snd (fr_analysis rep)). af_code f \<noteq> ''leaked_tasks'' \<and> af_code f \<noteq> ''receipt_not_terminal'') \<and>
    fst (fr_protocol rep) \<noteq> Fail \<and>
    evidence shw sc (kept_events maxEvents events) (rt_outcome (rc_terminal (fr_receipt rep))) error"
proof -
  obtain recorder where r: "createReceiptRecorder maxEvents = Inr recorder"
    using assms by (auto simp: runFaultScenario_def split: sum.splits)
  from assms show ?thesis
    by (clarsimp simp only: runFaultScenario_def r sum.case Let_def bind_res_Inr sum.inject fault_report.simps rc_events_assemble
        recorder_keeps [OF r] verifyScenario_none)
qed

lemma passed_all: "length (filter P xs) = length xs \<longleftrightarrow> list_all P xs"
proof (induction xs)
  case (Cons x xs)
  have "length (filter P xs) \<noteq> Suc (length xs)" using length_filter_le [of P xs] by linarith
  with Cons show ?case by auto
qed simp

lemma fault_suite_counts:
  assumes "runFaultSuite run scenarios = Inr suite"
  shows "fs_passed suite + fs_failed suite = length scenarios \<and> (fs_failed suite = 0 \<longleftrightarrow> list_all fr_pass (fs_reports suite))"
proof -
  obtain reports where r: "map_res run scenarios = Inr reports"
      "suite = \<lparr>fs_reports = reports, fs_passed = length (filter fr_pass reports), fs_failed = length reports - length (filter fr_pass reports)\<rparr>"
    using assms by (auto simp: runFaultSuite_def bind_res_Inr Let_def)
  then have "length scenarios = length reports" by (auto simp: map_res_Inr dest: list_all2_lengthD)
  moreover have "length reports - length (filter fr_pass reports) = 0 \<longleftrightarrow> length (filter fr_pass reports) = length reports"
    using length_filter_le [of fr_pass reports] by arith
  ultimately show ?thesis using r(2) length_filter_le [of fr_pass reports] passed_all [of fr_pass reports] by (simp del: diff_is_0_eq)
qed

section \<open>The scenarios give the evidence\<close>

text \<open>What a task reports to its scope while it runs, as the events of the task.\<close>

fun reported :: "task_id \<Rightarrow> rat \<times> run_event \<Rightarrow> task_event option" where
  "reported t (ts, EvAttempt n d outcome) = Some (TaskAttempt t n d outcome ts)"
| "reported t (ts, EvRetrying n e d) = Some (TaskRetrying t n e d ts)"
| "reported t (ts, _) = None"

definition task_log :: "task_id \<Rightarrow> run_log \<Rightarrow> task_event list" where
  "task_log t lg = List.map_filter (reported t) lg"

lemma task_log_simps [simp]:
  "task_log t [] = []" "task_log t (xs @ ys) = task_log t xs @ task_log t ys"
  "task_log t ((ts, EvAttempt n d outcome) # lg) = TaskAttempt t n d outcome ts # task_log t lg"
  "task_log t ((ts, EvRetrying n e d) # lg) = TaskRetrying t n e d ts # task_log t lg"
  by (simp_all add: task_log_def List.map_filter_def)

lemma failing_loop_log:
  assumes "\<forall>i. computeRetryDelay i policy (rnd i) = Inr (delay i)" and "cx_signal ctx = None" and "\<not> cx_wr ctx"
    and "\<not> is_cancellation e" and "rp_retryIf policy = (\<lambda>_ _. True)"
  shows "attempt + n = rp_times policy + 1 \<Longrightarrow> 0 < n \<Longrightarrow>
    length (filter is_retrying (task_log t (snd (retry_loop n (scripted (\<lambda>_. 0) (\<lambda>_. Inl e)) policy (\<lambda>_. None) rnd ctx attempt now)))) =
      rp_times policy - attempt"
proof (induction n arbitrary: attempt now)
  case (Suc n)
  show ?case
  proof (cases "rp_times policy \<le> attempt")
    case True
    then show ?thesis using assms by (simp add: scripted_def Let_def attempt_log_def)
  next
    case False
    then have "rp_times policy - attempt = Suc (rp_times policy - (attempt + 1))" by simp
    then show ?thesis
      using False assms Suc.prems Suc.IH [of "attempt + 1" "now + delay attempt"]
      by (simp add: scripted_def Let_def attempt_log_def sleep_def split: prod.split) fastforce?
  qed
qed simp

text \<open>
  A retry-exhaustion scenario that the constructor accepts does what its report looks for: the task makes
  all attempts, fails with the injected error after the fixed delay between each two of them, and its
  scope's events, with whatever else happens that is no retry, satisfy the verifier.
\<close>

theorem retry_exhaustion_evidence:
  assumes "retryExhaustion opts = Inr (RetryExhaustion i attempts d)" and "cx_signal ctx = None" and "\<not> cx_wr ctx"
    and "filter is_retrying pre = []" and "filter is_retrying post = []"
  shows "\<exists>task. executeRetryExhaustion attempts d rnd = Inr task \<and>
    fst (task ctx now) = Some (now + of_nat (attempts - 1) * d, Inl (PlainError ''fault_retry_exhausted'')) \<and>
    verifyRetryExhaustion attempts (map (normalizeEvent shw) (pre @ task_log t (snd (task ctx now)) @ post))
      (Some (PlainError ''fault_retry_exhausted'')) = []"
proof -
  let ?e = "PlainError ''fault_retry_exhausted''"
  let ?task = "scripted (\<lambda>_. 0) (\<lambda>_. Inl ?e) :: unit task"
  let ?policy = "\<lparr>rp_times = attempts, rp_backoff = Exponential, rp_initialDelay = DNum (Fin d), rp_maxDelay = DNum (Fin d),
      rp_jitter = False, rp_retryIf = \<lambda>_ _. True\<rparr>"
  define delay where "delay n = min (d * (2 ^ n / 2)) d" for n :: nat
  have size: "1 \<le> attempts" "attempts \<le> 1000" and d: "0 \<le> d" "d \<le> of_nat MAX_TIMEOUT_MS"
    using assms(1) assertPositiveInteger_ok parseDuration_range
    by (force simp: retryExhaustion_def MAX_FAULT_ATTEMPTS_def bind_res_Inr)+
  have task: "(\<lambda>ctx now. (Some (now, Inl ?e), [])) = ?task" by (simp add: scripted_def fun_eq_iff)
  have delays: "\<forall>n. computeRetryDelay n ?policy (rnd n) = Inr (delay n)"
    using d by (simp add: computeRetryDelay_def computeBackoffDelay_def delay_def)
  have exec: "executeRetryExhaustion attempts d rnd = Inr (\<lambda>ctx now. retry_loop attempts ?task ?policy (\<lambda>_. None) rnd ctx 1 now)"
    using size unfolding executeRetryExhaustion_def task
    by (simp add: retry_def normalizeRetry_def validateRetryPolicy_def MAX_RETRY_ATTEMPTS_def)
  have "d \<le> d * (2 ^ n / 2)" if "1 \<le> n" for n :: nat
  proof -
    have "(2 :: rat) ^ 1 \<le> 2 ^ n" using that by (intro power_increasing) auto
    then show ?thesis using d mult_left_mono [of 1 "2 ^ n / 2" d] by simp
  qed
  then have "(\<Sum>n = 1..<attempts. delay n) = (\<Sum>n = 1..<attempts. d)" by (intro sum.cong) (auto simp: delay_def)
  then have waits: "(\<Sum>n = 1..<attempts. delay n) = of_nat (attempts - 1) * d" by simp
  have "fst (retry_loop attempts ?task ?policy (\<lambda>_. None) rnd ctx 1 now) =
      Some (now + (\<Sum>n = 1..attempts. 0) + (\<Sum>n = 1..<attempts. delay n), Inl ?e)"
    by (rule retry_loop_scripted [OF delays assms(2)]) (use size in \<open>auto simp: retry_stops_def\<close>)
  moreover have "length (filter is_retrying (task_log t (snd (retry_loop attempts ?task ?policy (\<lambda>_. None) rnd ctx 1 now)))) = attempts - 1"
    using failing_loop_log [OF delays assms(2,3), of ?e 1 attempts t now] size by simp
  ultimately show ?thesis
    using exec waits assms(4,5) by (simp add: verifyRetryExhaustion_def counted_events(4) Let_def del: map_append)
qed

definition three_attempts :: exhaustion_opts where
  "three_attempts = \<lparr>eo_id = None, eo_attempts = None, eo_initialDelay = None\<rparr>"

theorem retry_exhaustion_evidence_witness:
  "\<exists>task. executeRetryExhaustion 3 1 (\<lambda>_. 0) = Inr task \<and>
    fst (task root_ctx 7) = Some (7 + of_nat (3 - 1) * 1, Inl (PlainError ''fault_retry_exhausted'')) \<and>
    verifyRetryExhaustion 3 (map (normalizeEvent (\<lambda>_. [])) ([ScopeOpened 0 None 7] @ task_log 1 (snd (task root_ctx 7)) @ []))
      (Some (PlainError ''fault_retry_exhausted'')) = []"
proof (rule retry_exhaustion_evidence)
  show "retryExhaustion three_attempts = Inr (RetryExhaustion ''fault:retry-exhaustion'' 3 1)"
    by (simp add: retryExhaustion_def three_attempts_def assertPositiveInteger_def MAX_FAULT_ATTEMPTS_def MAX_TIMEOUT_MS_def)
qed (simp_all add: root_ctx_def)

text \<open>The provider times out after the timeout and not after its own latency.\<close>

lemma provider_timeout_evidence:
  assumes "providerTimeout opts = Inr (ProviderTimeout i ms latency)" and "cx_signal ctx = None"
  shows "\<exists>task. executeProviderTimeout timer_first ms latency = Inr task \<and>
    fst (task ctx now) = Some (now + ms, Inl (TimeoutError ms)) \<and>
    verifyProviderTimeout (map (normalizeEvent shw) (pre @ [TaskFailed t (TimeoutError ms) d ts] @ post)) (Some (TimeoutError ms)) = []"
proof -
  have ms: "0 < ms" "ms \<le> of_nat MAX_TIMEOUT_MS" "ms < latency"
    using assms(1) by (auto simp: providerTimeout_def bind_res_Inr dest: parsePositiveDuration_ok split: if_splits)
  have "executeProviderTimeout timer_first ms latency = Inr (timeout_run timer_first (sleeper latency) ms None)"
    using ms by (simp add: executeProviderTimeout_def timeout_def)
  moreover have "fst (timeout_run timer_first (sleeper latency) ms None ctx now) = Some (now + ms, Inl (TimeoutError ms))"
    using ms assms(2) by (simp add: timeout_run_def Let_def sleeper_def fault_sleep_def timeout_ctx_def any_signal_def race_timer_def)
  ultimately show ?thesis by (simp add: verifyProviderTimeout_def counted_events(3) Let_def del: map_append map_option_eq_Some)
qed

text \<open>
  A storm cancels all workers only when it comes before they end. The constructor does not compare the
  two durations: with workers that are faster than the storm none is cancelled, and the verifier
  finds the evidence missing.
\<close>

lemma storm_cancels_all:
  assumes "cancelAfterMs < workerDurationMs" and "0 \<le> cancelAfterMs"
  shows "storm_workers n cancelAfterMs workerDurationMs root_ctx now =
    replicate n (Some (now + cancelAfterMs, Inl (CancellationError storm_reason)))"
  using assms
  by (auto simp: storm_workers_def run_children_def child_ctx_def root_ctx_def any_signal_def sleeper_def fault_sleep_def Let_def
      intro!: nth_equalityI)

lemma storm_settles:
  assumes "cancelAfterMs < workerDurationMs" and "0 \<le> cancelAfterMs"
  shows "fst (executeCancellationStorm n cancelAfterMs workerDurationMs root_ctx now) = Some (now + cancelAfterMs, Inr ())"
proof -
  have "foldl max a (replicate n a) = a" for a :: rat by (induction n) auto
  then show ?thesis
    by (simp add: executeCancellationStorm_def storm_cancels_all [OF assms] group_end_def close_time_def map_replicate)
qed

lemma late_storm_cancels_none:
  assumes "workerDurationMs \<le> cancelAfterMs" and "0 < workerDurationMs"
  shows "storm_workers n cancelAfterMs workerDurationMs root_ctx now = replicate n (Some (now + workerDurationMs, Inr ()))"
  using assms
  by (auto simp: storm_workers_def run_children_def child_ctx_def root_ctx_def any_signal_def sleeper_def fault_sleep_def Let_def
      intro!: nth_equalityI)

lemma late_storm_accepted:
  "cancellationStorm \<lparr>so_id = None, so_taskCount = None, so_cancelAfter = Some (DNum (Fin 20)), so_workerDuration = Some (DNum (Fin 10))\<rparr> =
     Inr (CancellationStorm ''fault:cancellation-storm'' 8 20 10)"
  by (simp add: cancellationStorm_def assertPositiveInteger_def parsePositiveDuration_def MAX_FAULT_TASKS_def MAX_TIMEOUT_MS_def)

text \<open>A recorder limit that is no positive integer is reported as a harness without scope.\<close>

lemma bad_recorder_hides_error:
  "createReceiptRecorder maxEvents = Inl e \<Longrightarrow>
   runFaultScenario shw sc receiptId maxEvents startedAt now events snapshot error =
     Inl (PlainError ''fault harness did not initialize a WorkIt scope'')"
  by (simp add: runFaultScenario_def)

text \<open>The report of a scope tree that nests at most three deep is always made.\<close>

lemma fault_report_returns:
  assumes "createReceiptRecorder maxEvents = Inr recorder" and "nesting snapshot \<le> 3"
  shows "\<exists>rep. runFaultScenario shw sc receiptId maxEvents startedAt now events snapshot error = Inr rep"
proof -
  let ?r = "fold record_event events recorder" and ?i = "or_default receiptId (''fault:'' @ scenario_id sc)"
  let ?opts = "\<lparr>ro_receiptId = Some ?i, ro_redaction = None, ro_limitations = Some [fault_limitation], ro_attempts = None\<rparr>"
  have "ro_redaction ?opts = None" by simp
  from verifyReceipt_returns_iff [OF this, of shw now ?i "rec_dropped ?r" "rec_events ?r" snapshot
      "\<lparr>vo_requireTerminalEvent = False, vo_requireCleanupEvidence = False\<rparr>"] assms(2)
  obtain v where "verifyReceipt (buildReceipt shw now ?i (rec_dropped ?r) (rec_events ?r) snapshot ?opts)
      \<lparr>vo_requireTerminalEvent = False, vo_requireCleanupEvidence = False\<rparr> = Inr v" by (elim iffE impE) (assumption | erule exE)+
  then have "analyzeReceipt (recorder_build shw now ?i snapshot ?opts ?r) = Inr (vr_status v, vr_findings v)"
    unfolding analyzeReceipt_def recorder_build_def by (simp only: map_sum.simps)
  then show ?thesis unfolding runFaultScenario_def assms(1) Let_def by (simp only: sum.case bind_res.simps) (rule exI, rule refl)
qed

definition quiet_snapshot :: scope_snapshot where
  "quiet_snapshot = Snapshot 0 None ScClosed 0 None 0 0 1 0 [] []"

theorem fault_verdict_exact_witness:
  "\<exists>rep. runFaultScenario (\<lambda>_. []) (RetryExhaustion ''x'' 2 0) None None 0 5
       [TaskRetrying 1 2 (PlainError ''fault_retry_exhausted'') 0 1] quiet_snapshot None = Inr rep \<and> \<not> fr_pass rep"
proof -
  have "\<exists>recorder. createReceiptRecorder None = Inr recorder"
    by (simp add: createReceiptRecorder_def positive_count_def DEFAULT_MAX_EVENTS_def)
  moreover have "nesting quiet_snapshot \<le> 3" by (simp add: quiet_snapshot_def)
  ultimately obtain rep where r: "runFaultScenario (\<lambda>_. []) (RetryExhaustion ''x'' 2 0) None None 0 5
       [TaskRetrying 1 2 (PlainError ''fault_retry_exhausted'') 0 1] quiet_snapshot None = Inr rep"
    using fault_report_returns by blast
  show ?thesis using fault_verdict_exact [OF r] r by auto
qed

end
