(* ===== verification/LLM_Stream.thy ===== *)
theory LLM_Stream
  imports AI Scope Channel "HOL-Library.Sublist"
begin

text \<open>
  The streams of \<open>packages/core/src/ai/index.ts\<close>: \<open>streamLLM\<close>, a producer task that feeds a channel and a
  generator that drains it, as a state machine over the operations of \<open>Channel\<close>; and
  \<open>streamWithBackpressure\<close>, a configuration of the work builder of \<open>Work\<close> over a source that checks a signal.
\<close>

section \<open>streamLLM\<close>

text \<open>
  A step of the producer or of the consumer runs up to its next \<open>await\<close> or \<open>yield\<close>. The provider gives
  chunks, ends or throws when it pleases, the consumer resumes or returns when it pleases, and signals
  fire when they please: signal 0 is the caller's, signal 1 the one the producer's operations listen to,
  which fires with the caller's signal or with the scope of the producer. \<open>PFinished out\<close>: the
  promise of the producer's group has settled, with the error \<open>out\<close> when there is one. \<open>lm_error\<close> is
  \<open>producerError\<close>, but for a closed channel, which the producer does not pass on.
\<close>

datatype producer_state = PPulling | PSending promise | PFinished "err option"

datatype llm_result = LEnded | LReturned | LThrew err

datatype consumer_state = CReceiving promise | CSuspended | CClosing llm_result | CEnded llm_result

record 'o llm =
  lm_channel :: "'o channel"
  lm_signal :: bool
  lm_producer :: producer_state
  lm_error :: "err option"
  lm_consumer :: consumer_state
  lm_given :: "'o list"
  lm_yielded :: "'o list"

definition request_chunk :: "'o llm \<Rightarrow> 'o llm" where
  "request_chunk s =
     s\<lparr>lm_channel := receive (if lm_signal s then Some 0 else None) (lm_channel s),
       lm_consumer := CReceiving (next_promise (lm_channel s))\<rparr>"

definition fire_both :: "err \<Rightarrow> 'o channel \<Rightarrow> 'o channel" where
  "fire_both reason c = fire_abort 1 reason (fire_abort 0 reason c)"

text \<open>The first call of \<open>next\<close>; \<open>fired\<close> is the reason of a signal that has fired before.\<close>

definition streamLLM :: "bool \<Rightarrow> err option \<Rightarrow> jsnum option \<Rightarrow> err + 'o llm" where
  "streamLLM has_signal fired bufferOpt =
     bind_res (createChannel (Some (or_default bufferOpt (Fin 1)))) (\<lambda>c.
       Inr (request_chunk \<lparr>lm_channel = (case fired of None \<Rightarrow> c | Some reason \<Rightarrow> fire_both reason c),
              lm_signal = has_signal, lm_producer = PPulling, lm_error = None, lm_consumer = CSuspended,
              lm_given = [], lm_yielded = []\<rparr>))"

definition llm_stream_closed :: err where
  "llm_stream_closed = CancellationError (RManual ''llm_stream_closed'' None)"

definition provider_gives :: "'o \<Rightarrow> 'o llm \<Rightarrow> 'o llm" where
  "provider_gives v s =
     s\<lparr>lm_channel := send v (Some 1) (lm_channel s), lm_producer := PSending (next_promise (lm_channel s)),
       lm_given := lm_given s @ [v]\<rparr>"

definition provider_ends :: "'o llm \<Rightarrow> 'o llm" where
  "provider_ends s = s\<lparr>lm_channel := close None (lm_channel s), lm_producer := PFinished None\<rparr>"

definition producer_fails :: "err \<Rightarrow> 'o llm \<Rightarrow> 'o llm" where
  "producer_fails e s =
     s\<lparr>lm_channel := close (defined_error e) (lm_channel s), lm_error := defined_error e, lm_producer := PFinished (defined_error e)\<rparr>"

text \<open>The promise of the producer's \<open>send\<close> has settled.\<close>

definition producer_resumes :: "'o settlement \<Rightarrow> 'o llm \<Rightarrow> 'o llm" where
  "producer_resumes x s =
     (case x of
        SendRejected e \<Rightarrow> producer_fails e s
      | SendClosed r \<Rightarrow> s\<lparr>lm_producer := PFinished None\<rparr>
      | _ \<Rightarrow> s\<lparr>lm_producer := PPulling\<rparr>)"

definition enter_finally :: "llm_result \<Rightarrow> 'o llm \<Rightarrow> 'o llm" where
  "enter_finally r s = s\<lparr>lm_channel := close (Some llm_stream_closed) (lm_channel s), lm_consumer := CClosing r\<rparr>"

text \<open>The promise of the consumer's \<open>receive\<close> has settled.\<close>

definition consumer_resumes :: "'o settlement \<Rightarrow> 'o llm \<Rightarrow> 'o llm" where
  "consumer_resumes x s =
     (case x of
        Received v \<Rightarrow> s\<lparr>lm_yielded := lm_yielded s @ [v], lm_consumer := CSuspended\<rparr>
      | ReceivedDone None \<Rightarrow> enter_finally LEnded s
      | ReceivedDone (Some e) \<Rightarrow> enter_finally (LThrew e) s
      | ReceiveRejected e \<Rightarrow> enter_finally (LThrew e) s
      | _ \<Rightarrow> s)"

definition leave_finally :: "llm_result \<Rightarrow> err option \<Rightarrow> 'o llm \<Rightarrow> 'o llm" where
  "leave_finally r out s =
     s\<lparr>lm_consumer := CEnded (case out of Some e \<Rightarrow> if lm_error s = Some e then r else LThrew e | None \<Rightarrow> r)\<rparr>"

inductive llm_step :: "'o llm \<Rightarrow> 'o llm \<Rightarrow> bool" where
  gives: "lm_producer s = PPulling \<Longrightarrow> llm_step s (provider_gives v s)"
| ends: "lm_producer s = PPulling \<Longrightarrow> llm_step s (provider_ends s)"
| throws: "lm_producer s = PPulling \<Longrightarrow> llm_step s (producer_fails e s)"
| sent: "lm_producer s = PSending p \<Longrightarrow> (p, x) \<in> set (settled (lm_channel s)) \<Longrightarrow> llm_step s (producer_resumes x s)"
| got: "lm_consumer s = CReceiving q \<Longrightarrow> (q, x) \<in> set (settled (lm_channel s)) \<Longrightarrow> llm_step s (consumer_resumes x s)"
| asks: "lm_consumer s = CSuspended \<Longrightarrow> llm_step s (request_chunk s)"
| returns: "lm_consumer s = CSuspended \<Longrightarrow> llm_step s (enter_finally LReturned s)"
| leaves: "lm_consumer s = CClosing r \<Longrightarrow> lm_producer s = PFinished out \<Longrightarrow> llm_step s (leave_finally r out s)"
| aborts: "reason \<noteq> Thrown VUndef \<Longrightarrow> llm_step s (s\<lparr>lm_channel := fire_both reason (lm_channel s)\<rparr>)"
| cancels: "reason \<noteq> Thrown VUndef \<Longrightarrow> llm_step s (s\<lparr>lm_channel := fire_abort 1 reason (lm_channel s)\<rparr>)"

section \<open>The channel with one sender and one receiver\<close>

lemma send_open:
  assumes "queues_ok c" and "\<not> isClosed c" and "signal_reason sig c = None" and "senders c = []"
  shows "send v sig c =
    (case receivers c of
       r # rs \<Rightarrow> settle (next_promise c) (Sent v) (settle (rcv_id r) (Received v)
         (c\<lparr>receivers := rs, next_promise := next_promise c + 1\<rparr>))
     | [] \<Rightarrow>
         if length (buffer c) < capacity c
         then settle (next_promise c) (Sent v) (c\<lparr>buffer := buffer c @ [v], next_promise := next_promise c + 1\<rparr>)
         else c\<lparr>senders := [\<lparr>snd_id = next_promise c, snd_value = v, snd_signal = sig\<rparr>], next_promise := next_promise c + 1\<rparr>)"
  using assms
  by (cases "receivers c") (simp_all add: send_def pump_def pump_loops settle_def queues_ok_def)

lemma receive_open:
  assumes "queues_ok c" and "\<not> isClosed c" and "signal_reason sig c = None" and "receivers c = []"
    and "senders c = [] \<or> (\<exists>s. senders c = [s])"
  shows "receive sig c =
    (case buffer c of
       [] \<Rightarrow> c\<lparr>receivers := [\<lparr>rcv_id = next_promise c, rcv_signal = sig\<rparr>], next_promise := next_promise c + 1\<rparr>
     | v # vs \<Rightarrow>
         (case senders c of
            [] \<Rightarrow> settle (next_promise c) (Received v) (c\<lparr>buffer := vs, next_promise := next_promise c + 1\<rparr>)
          | s # ss \<Rightarrow> settle (snd_id s) (Sent (snd_value s)) (settle (next_promise c) (Received v)
              (c\<lparr>buffer := vs @ [snd_value s], senders := [], next_promise := next_promise c + 1\<rparr>))))"
  using assms
  by (cases "buffer c"; cases "senders c") (auto simp: receive_def pump_def pump_loops settle_def queues_ok_def)

lemma close_open:
  assumes "queues_ok c" and "\<not> isClosed c" and "senders c = [] \<or> (\<exists>s. senders c = [s])" and "receivers c = [] \<or> (\<exists>r. receivers c = [r])"
  shows "close e c =
    (case senders c of
       s # ss \<Rightarrow> settle (snd_id s) (SendClosed e) (c\<lparr>senders := [], isClosed := True, closeReason := e\<rparr>)
     | [] \<Rightarrow>
         (case receivers c of
            r # rs \<Rightarrow> settle (rcv_id r) (ReceivedDone e) (c\<lparr>receivers := [], isClosed := True, closeReason := e\<rparr>)
          | [] \<Rightarrow> c\<lparr>isClosed := True, closeReason := e\<rparr>))"
  using assms
  by (cases "senders c"; cases "receivers c") (auto simp: close_def pump_def pump_loops settle_def queues_ok_def)

section \<open>Invariant\<close>

fun producer_ok :: "'o channel \<Rightarrow> 'o list \<Rightarrow> producer_state \<Rightarrow> bool" where
  "producer_ok c given PPulling \<longleftrightarrow> senders c = [] \<and> given = accepted c"
| "producer_ok c given (PSending p) \<longleftrightarrow>
     (\<exists>s. senders c = [s] \<and> snd_id s = p \<and> given = accepted c @ [snd_value s]) \<or>
     senders c = [] \<and>
       ((\<exists>v. (p, Sent v) \<in> set (settled c)) \<and> given = accepted c \<or>
        (\<exists>e. (p, SendRejected e) \<in> set (settled c) \<and> e \<noteq> Thrown VUndef) \<and> (\<exists>v. given = accepted c @ [v]) \<or>
        (\<exists>r. (p, SendClosed r) \<in> set (settled c)) \<and> isClosed c \<and> (\<exists>v. given = accepted c @ [v]))"
| "producer_ok c given (PFinished out) \<longleftrightarrow> senders c = [] \<and> isClosed c \<and> (given = accepted c \<or> (\<exists>v. given = accepted c @ [v]))"

text \<open>What holds once the generator has left its loop, by result.\<close>

definition left_ok :: "'o channel \<Rightarrow> llm_result \<Rightarrow> bool" where
  "left_ok c r \<longleftrightarrow> receivers c = [] \<and> isClosed c \<and> (r = LEnded \<longrightarrow> buffer c = [] \<and> closeReason c = None)"

fun consumer_ok :: "'o channel \<Rightarrow> 'o list \<Rightarrow> consumer_state \<Rightarrow> bool" where
  "consumer_ok c yielded (CReceiving q) \<longleftrightarrow>
     (\<exists>r. receivers c = [r] \<and> rcv_id r = q \<and> delivered c = yielded) \<or>
     receivers c = [] \<and>
       ((\<exists>v. (q, Received v) \<in> set (settled c) \<and> delivered c = yielded @ [v]) \<or>
        (q, ReceivedDone (closeReason c)) \<in> set (settled c) \<and> isClosed c \<and> buffer c = [] \<and> delivered c = yielded \<or>
        (\<exists>e. (q, ReceiveRejected e) \<in> set (settled c)) \<and> delivered c = yielded)"
| "consumer_ok c yielded CSuspended \<longleftrightarrow> receivers c = [] \<and> delivered c = yielded"
| "consumer_ok c yielded (CClosing r) \<longleftrightarrow> left_ok c r \<and> delivered c = yielded"
| "consumer_ok c yielded (CEnded r) \<longleftrightarrow> left_ok c r \<and> delivered c = yielded"

text \<open>A channel is closed without a reason only by a producer that has sent all it was given.\<close>

definition plain_close :: "'o channel \<Rightarrow> 'o list \<Rightarrow> producer_state \<Rightarrow> bool" where
  "plain_close c given pst \<longleftrightarrow> isClosed c \<and> closeReason c = None \<longrightarrow> (\<exists>out. pst = PFinished out) \<and> given = accepted c"

definition no_undefined :: "'o channel \<Rightarrow> bool" where
  "no_undefined c \<longleftrightarrow> (\<forall>sig. aborted c sig \<noteq> Some (Thrown VUndef))"

definition llm_inv :: "nat \<Rightarrow> 'o llm \<Rightarrow> bool" where
  "llm_inv n s \<longleftrightarrow>
     channel_inv (lm_channel s) \<and> no_undefined (lm_channel s) \<and> capacity (lm_channel s) = n \<and>
     producer_ok (lm_channel s) (lm_given s) (lm_producer s) \<and> consumer_ok (lm_channel s) (lm_yielded s) (lm_consumer s) \<and>
     plain_close (lm_channel s) (lm_given s) (lm_producer s) \<and>
     lm_error s = (case lm_producer s of PFinished out \<Rightarrow> out | _ \<Rightarrow> None) \<and>
     (\<forall>r. lm_consumer s = CEnded r \<longrightarrow> (\<exists>out. lm_producer s = PFinished out))"

lemma producer_one: "producer_ok c given pst \<Longrightarrow> senders c = [] \<or> (\<exists>s. senders c = [s])"
  by (cases pst) auto

lemma consumer_one: "consumer_ok c yielded cons \<Longrightarrow> receivers c = [] \<or> (\<exists>r. receivers c = [r])"
  by (cases cons) (auto simp: left_ok_def)

text \<open>A promise settles once.\<close>

lemma settled_once:
  assumes "channel_inv c" and "(p, x) \<in> set (settled c)" and "(p, y) \<in> set (settled c)"
  shows "x = y"
  using assms eq_key_imp_eq_value [of "settled c" p x y] by (simp add: channel_inv_def promises_ok_def)

lemma queued_not_settled:
  assumes "channel_inv c" and "(p, x) \<in> set (settled c)"
  shows "s \<in> set (senders c) \<Longrightarrow> snd_id s \<noteq> p" and "r \<in> set (receivers c) \<Longrightarrow> rcv_id r \<noteq> p"
proof -
  have "(snd_id ` set (senders c) \<union> rcv_id ` set (receivers c)) \<inter> fst ` set (settled c) = {}"
    using assms(1) by (simp add: channel_inv_def promises_ok_def open_promises_def) blast
  moreover have "p \<in> fst ` set (settled c)" using assms(2) by (rule image_eqI [rotated]) simp
  ultimately show "s \<in> set (senders c) \<Longrightarrow> snd_id s \<noteq> p" "r \<in> set (receivers c) \<Longrightarrow> rcv_id r \<noteq> p" by auto
qed

lemma closed_queues: "channel_inv c \<Longrightarrow> isClosed c \<Longrightarrow> senders c = [] \<and> receivers c = []"
  by (auto simp: channel_inv_def queues_ok_def)

lemmas channel_view = accepted_def delivered_def map_filter_append List.map_filter_simps

text \<open>Each operation of the channel keeps the view of the other side.\<close>

lemma settle_new_simps [simp]:
  "senders (settle_new x c) = senders c" "receivers (settle_new x c) = receivers c" "buffer (settle_new x c) = buffer c"
  "isClosed (settle_new x c) = isClosed c" "closeReason (settle_new x c) = closeReason c" "aborted (settle_new x c) = aborted c"
  "settled (settle_new x c) = settled c @ [(next_promise c, x)]"
  by (simp_all add: settle_new_def)

lemma settle_new_views [simp]:
  "accepted (settle_new x c) = accepted c @ (case x of Sent v \<Rightarrow> [v] | _ \<Rightarrow> [])"
  "delivered (settle_new x c) = delivered c @ (case x of Received v \<Rightarrow> [v] | _ \<Rightarrow> [])"
  by (simp_all add: settle_new_def accepted_def delivered_def settle_def map_filter_append List.map_filter_simps split: settlement.split)

lemma views_update [simp]:
  "accepted (c\<lparr>senders := ss\<rparr>) = accepted c" "accepted (c\<lparr>receivers := rs\<rparr>) = accepted c" "accepted (c\<lparr>buffer := vs\<rparr>) = accepted c"
  "accepted (c\<lparr>next_promise := n\<rparr>) = accepted c" "accepted (c\<lparr>isClosed := b\<rparr>) = accepted c" "accepted (c\<lparr>closeReason := e\<rparr>) = accepted c"
  "delivered (c\<lparr>senders := ss\<rparr>) = delivered c" "delivered (c\<lparr>receivers := rs\<rparr>) = delivered c" "delivered (c\<lparr>buffer := vs\<rparr>) = delivered c"
  "delivered (c\<lparr>next_promise := n\<rparr>) = delivered c" "delivered (c\<lparr>isClosed := b\<rparr>) = delivered c" "delivered (c\<lparr>closeReason := e\<rparr>) = delivered c"
  by (simp_all add: accepted_def delivered_def)

lemma send_keeps_producer:
  assumes inv: "channel_inv c" and nu: "no_undefined c" and pst: "producer_ok c given PPulling"
  shows "producer_ok (send v sig c) (given @ [v]) (PSending (next_promise c))"
proof -
  have q: "queues_ok c" and s: "senders c = []" and g: "given = accepted c" using inv pst by (auto simp: channel_inv_def)
  show ?thesis
  proof (cases "isClosed c")
    case True
    then show ?thesis using s g by (auto simp: send_def)
  next
    case opened: False
    show ?thesis
    proof (cases "signal_reason sig c")
      case None
      then show ?thesis
        using send_open [OF q opened None s] g s by (auto split: list.split)
    next
      case (Some e)
      then have "e \<noteq> Thrown VUndef" using nu by (auto simp: no_undefined_def signal_reason_def bind_eq_Some_conv)
      then show ?thesis using Some opened s g by (auto simp: send_def)
    qed
  qed
qed

lemma send_keeps_consumer:
  assumes inv: "channel_inv c" and pst: "senders c = []" and cons: "consumer_ok c yielded con"
  shows "consumer_ok (send v sig c) yielded con"
proof -
  have q: "queues_ok c" using inv by (auto simp: channel_inv_def)
  show ?thesis
  proof (cases "isClosed c")
    case True
    then show ?thesis using cons by (cases con) (auto simp: send_def left_ok_def split: settlement.splits)
  next
    case opened: False
    show ?thesis
    proof (cases "signal_reason sig c")
      case None
      show ?thesis
        using send_open [OF q opened None pst] cons opened consumer_one [OF cons]
        by (cases con) (auto simp: left_ok_def split: list.split settlement.splits)
    next
      case (Some e)
      then show ?thesis using opened cons by (cases con) (auto simp: send_def left_ok_def split: settlement.splits)
    qed
  qed
qed

lemma receive_keeps_consumer:
  assumes inv: "channel_inv c" and snds: "senders c = [] \<or> (\<exists>s. senders c = [s])" and cons: "consumer_ok c yielded CSuspended"
  shows "consumer_ok (receive sig c) yielded (CReceiving (next_promise c))"
proof -
  have q: "queues_ok c" and r: "receivers c = []" and d: "delivered c = yielded" using inv cons by (auto simp: channel_inv_def)
  show ?thesis
  proof (cases "signal_reason sig c")
    case (Some e)
    then show ?thesis using r d by (auto simp: receive_def)
  next
    case None
    show ?thesis
    proof (cases "isClosed c")
      case True
      then have "senders c = []" using closed_queues [OF inv] by simp
      then show ?thesis
        using None True r d by (cases "buffer c") (auto simp: receive_def pump_def pump_loops)
    next
      case False
      show ?thesis
        using receive_open [OF q False None r snds] r d snds by (auto split: list.split)
    qed
  qed
qed

lemma receive_keeps_producer:
  assumes inv: "channel_inv c" and r: "receivers c = []" and pok: "producer_ok c given pst"
  shows "producer_ok (receive sig c) given pst"
proof -
  have q: "queues_ok c" using inv by (auto simp: channel_inv_def)
  note snds = producer_one [OF pok]
  show ?thesis
  proof (cases "signal_reason sig c")
    case (Some e)
    then show ?thesis using pok by (cases pst) (auto simp: receive_def split: settlement.splits)
  next
    case None
    show ?thesis
    proof (cases "isClosed c")
      case True
      then have "senders c = []" using closed_queues [OF inv] by simp
      then show ?thesis
        using None True r pok by (cases "buffer c"; cases pst) (auto simp: receive_def pump_def pump_loops split: settlement.splits)
    next
      case False
      show ?thesis
        using receive_open [OF q False None r snds] pok
        by (cases pst) (auto split: list.split settlement.splits)
    qed
  qed
qed

lemma close_keeps_consumer:
  assumes inv: "channel_inv c" and snds: "senders c = [] \<or> (\<exists>s. senders c = [s])" and cons: "consumer_ok c yielded con"
  shows "consumer_ok (close e c) yielded con"
proof (cases "isClosed c")
  case True
  then show ?thesis using cons by (simp add: close_def)
next
  case False
  have q: "queues_ok c" using inv by (auto simp: channel_inv_def)
  show ?thesis
    using close_open [OF q False snds consumer_one [OF cons]] q cons False
    by (cases con) (auto simp: left_ok_def queues_ok_def split: list.split settlement.splits)
qed

lemma close_keeps_producer:
  assumes inv: "channel_inv c" and rcvs: "receivers c = [] \<or> (\<exists>r. receivers c = [r])" and pok: "producer_ok c given pst"
  shows "producer_ok (close e c) given pst"
proof (cases "isClosed c")
  case True
  then show ?thesis using pok by (simp add: close_def)
next
  case False
  have q: "queues_ok c" using inv by (auto simp: channel_inv_def)
  show ?thesis
    using close_open [OF q False producer_one [OF pok] rcvs] pok False
    by (cases pst) (auto split: list.split settlement.splits)
qed

lemma abort_views [simp]:
  "accepted (fire_abort sig e c) = accepted c" "delivered (fire_abort sig e c) = delivered c"
  "isClosed (fire_abort sig e c) = isClosed c" "closeReason (fire_abort sig e c) = closeReason c"
  "buffer (fire_abort sig e c) = buffer c"
  by (simp_all add: fire_abort_def accepted_def delivered_def map_filter_append)

lemma abort_keeps_producer:
  assumes pok: "producer_ok c given pst" and e: "e \<noteq> Thrown VUndef"
  shows "producer_ok (fire_abort sig e c) given pst"
proof (cases "aborted c sig")
  case (Some a)
  then show ?thesis using pok by (simp add: fire_abort_def)
next
  case fires: None
  have settled: "set (settled c) \<subseteq> set (settled (fire_abort sig e c))" by (auto simp: fire_abort_def)
  have rest: "senders (fire_abort sig e c) = filter (\<lambda>s. snd_signal s \<noteq> Some sig) (senders c)"
    using fires by (simp add: fire_abort_def)
  show ?thesis
  proof (cases "\<exists>s. senders c = [s] \<and> snd_signal s = Some sig")
    case True
    then obtain s where s: "senders c = [s]" "snd_signal s = Some sig" by blast
    then have "(snd_id s, SendRejected e) \<in> set (settled (fire_abort sig e c))" using fires by (simp add: fire_abort_def)
    moreover have "senders (fire_abort sig e c) = []" using rest s by simp
    ultimately show ?thesis using pok s e by (cases pst) auto
  next
    case False
    then have "senders (fire_abort sig e c) = senders c" using rest producer_one [OF pok] by auto
    then show ?thesis using pok settled by (cases pst) auto
  qed
qed

lemma abort_keeps_consumer:
  assumes cons: "consumer_ok c yielded con"
  shows "consumer_ok (fire_abort sig e c) yielded con"
proof (cases "aborted c sig")
  case (Some a)
  then show ?thesis using cons by (simp add: fire_abort_def)
next
  case fires: None
  have settled: "set (settled c) \<subseteq> set (settled (fire_abort sig e c))" by (auto simp: fire_abort_def)
  have rest: "receivers (fire_abort sig e c) = filter (\<lambda>r. rcv_signal r \<noteq> Some sig) (receivers c)"
    using fires by (simp add: fire_abort_def)
  show ?thesis
  proof (cases "\<exists>r. receivers c = [r] \<and> rcv_signal r = Some sig")
    case True
    then obtain r where r: "receivers c = [r]" "rcv_signal r = Some sig" by blast
    then have "(rcv_id r, ReceiveRejected e) \<in> set (settled (fire_abort sig e c))" using fires by (simp add: fire_abort_def)
    moreover have "receivers (fire_abort sig e c) = []" using rest r by simp
    ultimately show ?thesis using cons r by (cases con) (auto simp: left_ok_def)
  next
    case False
    then have "receivers (fire_abort sig e c) = receivers c" using rest consumer_one [OF cons] by auto
    then show ?thesis using cons settled by (cases con) (auto simp: left_ok_def)
  qed
qed

text \<open>No operation changes the capacity, only \<open>fire_abort\<close> the signals.\<close>

lemma pump_fixed [simp]: "capacity (pump c) = capacity c" "aborted (pump c) = aborted c"
proof -
  have b: "capacity (pump_buffered c) = capacity c \<and> aborted (pump_buffered c) = aborted c" for c :: "'a channel"
    by (induction c rule: pump_buffered.induct) (subst (1 2) pump_buffered.simps, simp split: list.split)
  have s: "capacity (pump_senders c) = capacity c \<and> aborted (pump_senders c) = aborted c" for c :: "'a channel"
    by (induction c rule: pump_senders.induct) (subst (1 2) pump_senders.simps, simp split: list.split)
  have d: "capacity (pump_done c) = capacity c \<and> aborted (pump_done c) = aborted c" for c :: "'a channel"
    by (induction c rule: pump_done.induct) (subst (1 2) pump_done.simps, simp split: list.split)
  show "capacity (pump c) = capacity c" "aborted (pump c) = aborted c" using b s d by (simp_all add: pump_def)
qed

lemma reject_fixed [simp]: "capacity (reject_senders e ss c) = capacity c" "aborted (reject_senders e ss c) = aborted c"
  by (induction e ss c rule: reject_senders.induct) simp_all

lemma ops_fixed [simp]:
  "capacity (send v sig c) = capacity c" "aborted (send v sig c) = aborted c"
  "capacity (receive sig c) = capacity c" "aborted (receive sig c) = aborted c"
  "capacity (close e c) = capacity c" "aborted (close e c) = aborted c" "capacity (fire_abort k reason c) = capacity c"
  by (auto simp: send_def receive_def close_def fire_abort_def settle_new_def split: option.split)

lemma no_undefined_ops:
  "no_undefined (send v sig c) = no_undefined c" "no_undefined (receive sig c) = no_undefined c" "no_undefined (close e c) = no_undefined c"
  "no_undefined c \<Longrightarrow> reason \<noteq> Thrown VUndef \<Longrightarrow> no_undefined (fire_abort k reason c)"
  by (auto simp: no_undefined_def fire_abort_def)

section \<open>Every step keeps the invariant\<close>

lemma isClosed_pump [simp]: "isClosed (pump c) = isClosed c" "closeReason (pump c) = closeReason c"
proof -
  have b: "isClosed (pump_buffered c) = isClosed c \<and> closeReason (pump_buffered c) = closeReason c" for c :: "'a channel"
    by (induction c rule: pump_buffered.induct) (subst (1 2) pump_buffered.simps, simp split: list.split)
  have s: "isClosed (pump_senders c) = isClosed c \<and> closeReason (pump_senders c) = closeReason c" for c :: "'a channel"
    by (induction c rule: pump_senders.induct) (subst (1 2) pump_senders.simps, simp split: list.split)
  have d: "isClosed (pump_done c) = isClosed c \<and> closeReason (pump_done c) = closeReason c" for c :: "'a channel"
    by (induction c rule: pump_done.induct) (subst (1 2) pump_done.simps, simp split: list.split)
  show "isClosed (pump c) = isClosed c" "closeReason (pump c) = closeReason c" using b s d by (simp_all add: pump_def)
qed

lemma close_state [simp]:
  "isClosed (send v sig c) = isClosed c" "closeReason (send v sig c) = closeReason c"
  "isClosed (receive sig c) = isClosed c" "closeReason (receive sig c) = closeReason c"
  by (auto simp: send_def receive_def split: option.split)

lemma isClosed_reject [simp]: "isClosed (reject_senders e ss c) = isClosed c" "closeReason (reject_senders e ss c) = closeReason c"
  by (induction e ss c rule: reject_senders.induct) simp_all

lemma close_closes [simp]: "isClosed (close e c)" "closeReason (close e c) = (if isClosed c then closeReason c else e)"
  by (simp_all add: close_def)

lemma llm_invE:
  assumes "llm_inv n s"
  obtains "channel_inv (lm_channel s)" and "no_undefined (lm_channel s)" and "capacity (lm_channel s) = n"
    and "producer_ok (lm_channel s) (lm_given s) (lm_producer s)" and "consumer_ok (lm_channel s) (lm_yielded s) (lm_consumer s)"
    and "plain_close (lm_channel s) (lm_given s) (lm_producer s)"
    and "lm_error s = (case lm_producer s of PFinished out \<Rightarrow> out | _ \<Rightarrow> None)"
    and "\<forall>r. lm_consumer s = CEnded r \<longrightarrow> (\<exists>out. lm_producer s = PFinished out)"
  using assms unfolding llm_inv_def by blast

lemma provider_gives_inv:
  assumes inv: "llm_inv n s" and p: "lm_producer s = PPulling"
  shows "llm_inv n (provider_gives v s)"
  using inv
proof (rule llm_invE)
  assume c: "channel_inv (lm_channel s)" "no_undefined (lm_channel s)" "capacity (lm_channel s) = n"
    and pr: "producer_ok (lm_channel s) (lm_given s) (lm_producer s)" and co: "consumer_ok (lm_channel s) (lm_yielded s) (lm_consumer s)"
    and pl: "plain_close (lm_channel s) (lm_given s) (lm_producer s)"
    and err: "lm_error s = (case lm_producer s of PFinished out \<Rightarrow> out | _ \<Rightarrow> None)"
    and rest: "\<forall>r. lm_consumer s = CEnded r \<longrightarrow> (\<exists>out. lm_producer s = PFinished out)"
  have snds: "senders (lm_channel s) = []" using pr p by simp
  have "producer_ok (send v (Some 1) (lm_channel s)) (lm_given s @ [v]) (PSending (next_promise (lm_channel s)))"
    using send_keeps_producer [OF c(1,2)] pr p by simp
  moreover have "plain_close (send v (Some 1) (lm_channel s)) (lm_given s @ [v]) (PSending (next_promise (lm_channel s)))"
    using pl p by (auto simp: plain_close_def)
  ultimately show ?thesis
    using c send_inv [OF c(1)] send_keeps_consumer [OF c(1) snds co] rest err p
    by (simp add: llm_inv_def provider_gives_def no_undefined_ops)
qed

lemma producer_stops_inv:
  assumes inv: "llm_inv n s" and snds: "senders (lm_channel s) = []"
    and given: "lm_given s = accepted (lm_channel s) \<or> e \<noteq> None \<and> (\<exists>v. lm_given s = accepted (lm_channel s) @ [v])"
  shows "llm_inv n (s\<lparr>lm_channel := close e (lm_channel s), lm_error := out, lm_producer := PFinished out\<rparr>)"
  using inv
proof (rule llm_invE)
  assume c: "channel_inv (lm_channel s)" "no_undefined (lm_channel s)" "capacity (lm_channel s) = n"
    and pr: "producer_ok (lm_channel s) (lm_given s) (lm_producer s)" and co: "consumer_ok (lm_channel s) (lm_yielded s) (lm_consumer s)"
    and pl: "plain_close (lm_channel s) (lm_given s) (lm_producer s)"
  let ?c = "close e (lm_channel s)"
  have "producer_ok (lm_channel s) (accepted (lm_channel s)) PPulling" using snds by simp
  from close_keeps_producer [OF c(1) consumer_one [OF co] this]
  have acc: "senders ?c = []" "accepted ?c = accepted (lm_channel s)" by auto
  have "plain_close ?c (lm_given s) (PFinished out)"
    using given pl acc by (auto simp: plain_close_def)
  then show ?thesis
    using c close_inv [OF c(1)] close_keeps_consumer [OF c(1) disjI1 [OF snds] co] acc given
    by (auto simp: llm_inv_def no_undefined_ops)
qed

lemma producer_resumes_inv:
  assumes inv: "llm_inv n s" and p: "lm_producer s = PSending p" and x: "(p, x) \<in> set (settled (lm_channel s))"
  shows "llm_inv n (producer_resumes x s)"
  using inv
proof (rule llm_invE)
  assume c: "channel_inv (lm_channel s)" "no_undefined (lm_channel s)" "capacity (lm_channel s) = n"
    and pr: "producer_ok (lm_channel s) (lm_given s) (lm_producer s)" and co: "consumer_ok (lm_channel s) (lm_yielded s) (lm_consumer s)"
    and pl: "plain_close (lm_channel s) (lm_given s) (lm_producer s)"
    and err: "lm_error s = (case lm_producer s of PFinished out \<Rightarrow> out | _ \<Rightarrow> None)"
    and rest: "\<forall>r. lm_consumer s = CEnded r \<longrightarrow> (\<exists>out. lm_producer s = PFinished out)"
  have none: "senders (lm_channel s) = []"
    using pr p queued_not_settled(1) [OF c(1) x] by auto
  consider (Sent) v where "x = Sent v" "lm_given s = accepted (lm_channel s)"
    | (Rejected) e v where "x = SendRejected e" "e \<noteq> Thrown VUndef" "lm_given s = accepted (lm_channel s) @ [v]"
    | (Closed) r v where "x = SendClosed r" "isClosed (lm_channel s)" "lm_given s = accepted (lm_channel s) @ [v]"
    using pr p none settled_once [OF c(1) x] by auto
  then show ?thesis
  proof cases
    case Sent
    then show ?thesis
      using c co none pl rest err p by (simp add: producer_resumes_def llm_inv_def plain_close_def)
  next
    case Rejected
    then have "defined_error e = Some e" by (simp add: defined_error_def)
    then show ?thesis
      using producer_stops_inv [OF inv none, of "Some e" "Some e"] Rejected
      by (simp add: producer_resumes_def producer_fails_def)
  next
    case Closed
    then show ?thesis
      using c co none pl rest err p
      by (auto simp: producer_resumes_def llm_inv_def plain_close_def)
  qed
qed

lemma enter_finally_inv:
  assumes inv: "llm_inv n s" and rcvs: "receivers (lm_channel s) = []" and yielded: "delivered (lm_channel s) = lm_yielded s"
    and ended: "r = LEnded \<longrightarrow> isClosed (lm_channel s) \<and> buffer (lm_channel s) = [] \<and> closeReason (lm_channel s) = None"
  shows "llm_inv n (enter_finally r s)"
  using inv
proof (rule llm_invE)
  assume c: "channel_inv (lm_channel s)" "no_undefined (lm_channel s)" "capacity (lm_channel s) = n"
    and pr: "producer_ok (lm_channel s) (lm_given s) (lm_producer s)"
    and pl: "plain_close (lm_channel s) (lm_given s) (lm_producer s)"
    and err: "lm_error s = (case lm_producer s of PFinished out \<Rightarrow> out | _ \<Rightarrow> None)"
  let ?c = "close (Some llm_stream_closed) (lm_channel s)"
  have cl: "?c = lm_channel s" if "isClosed (lm_channel s)" using that by (simp add: close_def)
  have "consumer_ok ?c (lm_yielded s) CSuspended"
    using close_keeps_consumer [OF c(1) producer_one [OF pr], of "lm_yielded s" CSuspended] rcvs yielded by simp
  then have "consumer_ok ?c (lm_yielded s) (CClosing r)"
    using ended cl by (auto simp: left_ok_def)
  moreover have "plain_close ?c (lm_given s) (lm_producer s)"
    using pl cl by (auto simp: plain_close_def split: if_splits)
  ultimately show ?thesis
    using c close_inv [OF c(1)] close_keeps_producer [OF c(1) disjI1 [OF rcvs] pr] err
    by (simp add: llm_inv_def enter_finally_def no_undefined_ops)
qed

lemma consumer_resumes_inv:
  assumes inv: "llm_inv n s" and q: "lm_consumer s = CReceiving q" and x: "(q, x) \<in> set (settled (lm_channel s))"
  shows "llm_inv n (consumer_resumes x s)"
  using inv
proof (rule llm_invE)
  assume c: "channel_inv (lm_channel s)" "no_undefined (lm_channel s)" "capacity (lm_channel s) = n"
    and pr: "producer_ok (lm_channel s) (lm_given s) (lm_producer s)" and co: "consumer_ok (lm_channel s) (lm_yielded s) (lm_consumer s)"
    and pl: "plain_close (lm_channel s) (lm_given s) (lm_producer s)"
    and err: "lm_error s = (case lm_producer s of PFinished out \<Rightarrow> out | _ \<Rightarrow> None)"
  have none: "receivers (lm_channel s) = []"
    using co q queued_not_settled(2) [OF c(1) x] by auto
  consider (Received) v where "x = Received v" "delivered (lm_channel s) = lm_yielded s @ [v]"
    | (Done) r where "x = ReceivedDone r" "delivered (lm_channel s) = lm_yielded s" "isClosed (lm_channel s)"
        "buffer (lm_channel s) = []" "closeReason (lm_channel s) = r"
    | (Rejected) e where "x = ReceiveRejected e" "delivered (lm_channel s) = lm_yielded s"
    using co q none settled_once [OF c(1) x] by auto
  then show ?thesis
  proof cases
    case Received
    then show ?thesis using c pr pl err none by (simp add: consumer_resumes_def llm_inv_def)
  next
    case (Done r)
    show ?thesis
      using enter_finally_inv [OF inv none Done(2), of "case r of None \<Rightarrow> LEnded | Some e \<Rightarrow> LThrew e"] Done
      by (cases r) (simp_all add: consumer_resumes_def)
  next
    case Rejected
    then show ?thesis using enter_finally_inv [OF inv none Rejected(2)] by (simp add: consumer_resumes_def)
  qed
qed

lemma request_chunk_inv:
  assumes inv: "llm_inv n s" and q: "lm_consumer s = CSuspended"
  shows "llm_inv n (request_chunk s)"
  using inv
proof (rule llm_invE)
  assume c: "channel_inv (lm_channel s)" "no_undefined (lm_channel s)" "capacity (lm_channel s) = n"
    and pr: "producer_ok (lm_channel s) (lm_given s) (lm_producer s)" and co: "consumer_ok (lm_channel s) (lm_yielded s) (lm_consumer s)"
    and pl: "plain_close (lm_channel s) (lm_given s) (lm_producer s)"
    and err: "lm_error s = (case lm_producer s of PFinished out \<Rightarrow> out | _ \<Rightarrow> None)"
  let ?sig = "if lm_signal s then Some 0 else None" and ?given = "accepted (lm_channel s)"
  have r: "receivers (lm_channel s) = []" using co q by simp
  have acc: "accepted (receive ?sig (lm_channel s)) = ?given" if "\<exists>out. lm_producer s = PFinished out"
  proof -
    have "producer_ok (lm_channel s) ?given PPulling" using pr that by auto
    from receive_keeps_producer [OF c(1) r this] show ?thesis by simp
  qed
  then have "plain_close (receive ?sig (lm_channel s)) (lm_given s) (lm_producer s)"
    using pl by (auto simp: plain_close_def)
  moreover have "consumer_ok (receive ?sig (lm_channel s)) (lm_yielded s) (CReceiving (next_promise (lm_channel s)))"
  proof (rule receive_keeps_consumer [OF c(1) producer_one [OF pr]])
    show "consumer_ok (lm_channel s) (lm_yielded s) CSuspended" using co q by simp
  qed
  ultimately show ?thesis
    using c receive_inv [OF c(1)] receive_keeps_producer [OF c(1) r pr] err
    by (simp add: llm_inv_def request_chunk_def no_undefined_ops)
qed

lemma fire_inv:
  assumes inv: "llm_inv n s" and reason: "reason \<noteq> Thrown VUndef"
  shows "llm_inv n (s\<lparr>lm_channel := fire_abort k reason (lm_channel s)\<rparr>)"
  using inv abort_keeps_producer [OF _ reason] abort_keeps_consumer fire_abort_inv no_undefined_ops(4) [OF _ reason]
  by (auto simp: llm_inv_def plain_close_def)

lemma leave_finally_inv:
  assumes "llm_inv n s" and "lm_consumer s = CClosing r" and "lm_producer s = PFinished out"
  shows "llm_inv n (leave_finally r out s) \<and> lm_consumer (leave_finally r out s) = CEnded r"
  using assms by (auto simp: llm_inv_def leave_finally_def split: option.split)

lemma llm_step_inv: "llm_step s t \<Longrightarrow> llm_inv n s \<Longrightarrow> llm_inv n t"
proof (induction rule: llm_step.induct)
  case (gives s v)
  then show ?case by (intro provider_gives_inv)
next
  case (ends s)
  then have "senders (lm_channel s) = []" "lm_given s = accepted (lm_channel s)" "lm_error s = None" by (auto simp: llm_inv_def)
  with producer_stops_inv [OF ends.prems, of None None] show ?case by (cases s) (simp add: provider_ends_def)
next
  case (throws s e)
  then have "senders (lm_channel s) = []" "lm_given s = accepted (lm_channel s)" by (auto simp: llm_inv_def)
  with producer_stops_inv [OF throws.prems, of "defined_error e" "defined_error e"] show ?case by (simp add: producer_fails_def)
next
  case (sent s p x)
  then show ?case by (intro producer_resumes_inv)
next
  case (got s q x)
  then show ?case by (intro consumer_resumes_inv)
next
  case (asks s)
  then show ?case by (intro request_chunk_inv)
next
  case (returns s)
  then show ?case by (intro enter_finally_inv) (auto simp: llm_inv_def)
next
  case (leaves s r out)
  then show ?case using leave_finally_inv by blast
next
  case (aborts reason s)
  then show ?case using fire_inv [OF fire_inv] by (fastforce simp: fire_both_def)
next
  case (cancels reason s)
  then show ?case by (intro fire_inv)
qed

section \<open>What the consumer sees\<close>

lemma streamLLM_inv:
  assumes "streamLLM has_signal fired bufferOpt = Inr s" and "fired \<noteq> Some (Thrown VUndef)"
  shows "llm_inv (num_nat (or_default bufferOpt (Fin 1))) s"
proof -
  obtain c where c: "createChannel (Some (or_default bufferOpt (Fin 1))) = Inr c"
    and s: "s = request_chunk \<lparr>lm_channel = (case fired of None \<Rightarrow> c | Some reason \<Rightarrow> fire_both reason c),
              lm_signal = has_signal, lm_producer = PPulling, lm_error = None, lm_consumer = CSuspended,
              lm_given = [], lm_yielded = []\<rparr>"
    using assms(1) by (auto simp: streamLLM_def bind_res_Inr)
  let ?s = "\<lparr>lm_channel = c, lm_signal = has_signal, lm_producer = PPulling, lm_error = None, lm_consumer = CSuspended,
              lm_given = [], lm_yielded = []\<rparr>"
  have fresh: "senders c = []" "receivers c = []" "settled c = []" "aborted c = Map.empty" "\<not> isClosed c"
      "capacity c = num_nat (or_default bufferOpt (Fin 1))"
    using c by (auto simp: createChannel_def Let_def split: if_splits)
  have inv: "llm_inv (num_nat (or_default bufferOpt (Fin 1))) ?s"
    using fresh channel_init_inv [of c] c
    by (auto simp: llm_inv_def channel_init_def no_undefined_def plain_close_def accepted_def delivered_def List.map_filter_simps)
  have "llm_inv (num_nat (or_default bufferOpt (Fin 1))) (?s\<lparr>lm_channel := case fired of None \<Rightarrow> c | Some reason \<Rightarrow> fire_both reason c\<rparr>)"
  proof (cases fired)
    case (Some reason)
    then show ?thesis using assms(2) fire_inv [OF fire_inv [OF inv, of reason 0], of reason 1] by (simp add: fire_both_def)
  qed (use inv in simp)
  then show ?thesis unfolding s by (intro request_chunk_inv) simp_all
qed

definition llm_init :: "bool \<Rightarrow> err option \<Rightarrow> jsnum option \<Rightarrow> 'o llm \<Rightarrow> bool" where
  "llm_init has_signal fired bufferOpt s \<longleftrightarrow> fired \<noteq> Some (Thrown VUndef) \<and> streamLLM has_signal fired bufferOpt = Inr s"

interpretation llm: invariant_system "llm_init has_signal fired bufferOpt" llm_step "llm_inv (num_nat (or_default bufferOpt (Fin 1)))"
  by unfold_locales (auto simp: llm_init_def streamLLM_inv intro: llm_step_inv)

text \<open>
  C35: However the provider, the consumer and the signals interleave, the consumer sees the chunks the provider
  gave, in order and without a gap; the provider is never more than the buffer and two chunks ahead;
  a stream that ends by itself has shown all chunks; and a stream that has ended left no producer
  running behind.
\<close>

theorem llm_stream_faithful:
  assumes "reachable (llm_init has_signal fired bufferOpt) llm_step s"
  shows "prefix (lm_yielded s) (lm_given s) \<and>
    length (lm_given s) \<le> length (lm_yielded s) + num_nat (or_default bufferOpt (Fin 1)) + 2 \<and>
    (lm_consumer s \<in> {CClosing LEnded, CEnded LEnded} \<longrightarrow> lm_yielded s = lm_given s) \<and>
    (\<forall>r. lm_consumer s = CEnded r \<longrightarrow> (\<exists>out. lm_producer s = PFinished out))"
proof -
  let ?n = "num_nat (or_default bufferOpt (Fin 1))"
  have "llm_inv ?n s" by (rule llm.reachable_inv [OF assms])
  then show ?thesis
  proof (rule llm_invE)
    assume c: "channel_inv (lm_channel s)" "capacity (lm_channel s) = ?n"
      and pr: "producer_ok (lm_channel s) (lm_given s) (lm_producer s)" and co: "consumer_ok (lm_channel s) (lm_yielded s) (lm_consumer s)"
      and pl: "plain_close (lm_channel s) (lm_given s) (lm_producer s)"
      and rest: "\<forall>r. lm_consumer s = CEnded r \<longrightarrow> (\<exists>out. lm_producer s = PFinished out)"
    have acc: "accepted (lm_channel s) = delivered (lm_channel s) @ buffer (lm_channel s)" "length (buffer (lm_channel s)) \<le> ?n"
      using c by (simp_all add: channel_inv_def fifo_def queues_ok_def)
    have given: "lm_given s = accepted (lm_channel s) \<or> (\<exists>v. lm_given s = accepted (lm_channel s) @ [v])"
      using pr by (cases "lm_producer s") auto
    have del: "delivered (lm_channel s) = lm_yielded s \<or> (\<exists>v. delivered (lm_channel s) = lm_yielded s @ [v])"
      using co by (cases "lm_consumer s") (auto split: settlement.splits)
    have "prefix (lm_yielded s) (lm_given s)" using acc(1) given del by (auto simp: prefix_def)
    moreover have "length (lm_given s) \<le> length (lm_yielded s) + ?n + 2" using acc given del by auto
    moreover have "lm_yielded s = lm_given s" if "lm_consumer s \<in> {CClosing LEnded, CEnded LEnded}"
    proof -
      have "isClosed (lm_channel s)" "buffer (lm_channel s) = []" "closeReason (lm_channel s) = None" "delivered (lm_channel s) = lm_yielded s"
        using co that by (auto simp: left_ok_def)
      then show ?thesis using acc(1) pl by (simp add: plain_close_def)
    qed
    ultimately show ?thesis using rest by blast
  qed
qed

lemmas llm_defs = request_chunk_def provider_gives_def provider_ends_def consumer_resumes_def enter_finally_def
  send_def receive_def close_def signal_reason_def pump_def pump_loops settle_def

definition llm_start :: "nat llm" where
  "llm_start = \<lparr>lm_channel = \<lparr>capacity = 1, buffer = [], senders = [], receivers = [\<lparr>rcv_id = 0, rcv_signal = None\<rparr>],
     closeReason = None, isClosed = False, aborted = Map.empty, next_promise = 1, settled = []\<rparr>,
     lm_signal = False, lm_producer = PPulling, lm_error = None, lm_consumer = CReceiving 0, lm_given = [], lm_yielded = []\<rparr>"

lemma llm_start_init: "llm_init False None None llm_start"
  by (simp add: llm_init_def streamLLM_def createChannel_def llm_start_def llm_defs)

theorem llm_stream_faithful_witness:
  "lm_given (provider_gives 7 llm_start) = [7] \<and>
   lm_consumer (consumer_resumes (Received 7) (provider_gives 7 llm_start)) = CSuspended \<and>
   prefix (lm_yielded (consumer_resumes (Received 7) (provider_gives 7 llm_start)))
     (lm_given (consumer_resumes (Received 7) (provider_gives 7 llm_start)))"
proof -
  let ?run = "reachable (llm_init False None None) llm_step" and ?s = "provider_gives 7 llm_start"
  have "?run llm_start" by (rule reach_init) (rule llm_start_init)
  then have "?run ?s" by (rule reach_step) (rule llm_step.gives, simp add: llm_start_def)
  then have "?run (consumer_resumes (Received 7) ?s)"
    by (rule reach_step) (rule llm_step.got [of _ 0], simp_all add: llm_start_def llm_defs)
  then have "prefix (lm_yielded (consumer_resumes (Received 7) ?s)) (lm_given (consumer_resumes (Received 7) ?s))"
    using llm_stream_faithful by blast
  then show ?thesis by (simp add: provider_gives_def consumer_resumes_def llm_start_def)
qed

text \<open>
  A consumer that returns early closes the channel but fires no signal: the provider is not told, and the
  generator leaves its \<open>finally\<close> only after the provider has given another chunk, ended or thrown.
\<close>

lemma early_return_fires_nothing: "aborted (lm_channel (enter_finally r s)) = aborted (lm_channel s)"
  by (simp add: enter_finally_def)

lemma early_return_waits:
  assumes "llm_step s t" and "lm_consumer s = CClosing r" and "lm_producer s = PPulling"
  shows "(lm_consumer t = CClosing r \<and> lm_producer t = PPulling \<and> lm_given t = lm_given s) \<or>
    (\<exists>v. t = provider_gives v s) \<or> t = provider_ends s \<or> (\<exists>e. t = producer_fails e s)"
  using assms by (cases rule: llm_step.cases) auto

section \<open>streamWithBackpressure\<close>

text \<open>
  The function is called as a \<open>map\<close> of the work builder, under the caller's signal as well as the task's.
  The source is read until the signal fires: \<open>arrivals\<close> are its items with the times they arrive at,
  \<open>ends\<close> the time it is exhausted, \<open>async\<close> says whether it is an asynchronous one, which the signal
  interrupts while it is waited for; the other is only looked at between items.
\<close>

definition guarded_call :: "signal \<Rightarrow> ('v \<Rightarrow> 'v Run_Tasks.task) \<Rightarrow> 'v \<Rightarrow> 'v Run_Tasks.task" where
  "guarded_call sig fn input ctx now =
     (let both = any_signal (cx_signal ctx) sig
      in case throwIfAborted both now of
           Some e \<Rightarrow> (Some (now, Inl e), [])
         | None \<Rightarrow> fn input (ctx\<lparr>cx_signal := both\<rparr>) now)"

fun read_source :: "bool \<Rightarrow> signal \<Rightarrow> rat \<Rightarrow> (rat \<times> 'v) list \<Rightarrow> (err + 'v) list" where
  "read_source async sig ends [] =
     (if async then (case throwIfAborted sig ends of Some e \<Rightarrow> [Inl e] | None \<Rightarrow> []) else [])"
| "read_source async sig ends ((t, x) # rest) =
     (case throwIfAborted sig t of Some e \<Rightarrow> [Inl e] | None \<Rightarrow> Inr x # read_source async sig ends rest)"

definition abortableIterable :: "bool \<Rightarrow> signal \<Rightarrow> rat \<Rightarrow> rat \<Rightarrow> (rat \<times> 'v) list \<Rightarrow> (err + 'v) list" where
  "abortableIterable async sig now ends arrivals =
     (case throwIfAborted sig now of Some e \<Rightarrow> [Inl e] | None \<Rightarrow> read_source async sig ends arrivals)"

definition streamWithBackpressure :: "jsnum option \<Rightarrow> jsnum option \<Rightarrow> duration option \<Rightarrow> signal \<Rightarrow> ('v \<Rightarrow> 'v Run_Tasks.task) \<Rightarrow>
    bool \<Rightarrow> rat \<Rightarrow> rat \<Rightarrow> (rat \<times> 'v) list \<Rightarrow> err + 'v work_config \<times> (err + 'v) list" where
  "streamWithBackpressure concurrency retryOpt timeoutOpt sig fn async now ends arrivals =
     bind_res (inParallel (or_default concurrency (Fin 4)) empty_config) (\<lambda>cfg.
       Inr (add_transform (TMap (guarded_call sig fn)) (cfg\<lparr>wc_retry := map_option RTimes retryOpt, wc_timeout := timeoutOpt\<rparr>),
            case sig of None \<Rightarrow> map (\<lambda>(t, x). Inr x) arrivals | Some _ \<Rightarrow> abortableIterable async sig now ends arrivals))"

text \<open>What is read are the items that arrive before the signal fires, and nothing after its error.\<close>

lemma read_source_until_abort:
  assumes "sorted (map fst arrivals)" and "\<forall>(t, x) \<in> set arrivals. now \<le> t" and "sig = Some (ta, e)"
  shows "\<exists>end. abortableIterable async sig now ends arrivals = map (\<lambda>(t, x). Inr x) (filter (\<lambda>(t, x). t < ta) arrivals) @ end \<and>
    end \<in> {[], [Inl e]} \<and> (end = [] \<longrightarrow> (\<forall>(t, x) \<in> set arrivals. t < ta))"
proof -
  have "\<exists>end. read_source async sig ends arrivals = map (\<lambda>(t, x). Inr x) (filter (\<lambda>(t, x). t < ta) arrivals) @ end \<and>
      end \<in> {[], [Inl e]} \<and> (end = [] \<longrightarrow> (\<forall>(t, x) \<in> set arrivals. t < ta))" if "sorted (map fst arrivals)"
    using that
  proof (induction arrivals)
    case Nil
    then show ?case using assms(3) by (auto simp: throwIfAborted_def)
  next
    case (Cons p arrivals)
    obtain t x where p: "p = (t, x)" by (cases p)
    show ?case
    proof (cases "ta \<le> t")
      case True
      then have "filter (\<lambda>(t, x). t < ta) (p # arrivals) = []" using Cons.prems p by (fastforce simp: filter_empty_conv)
      then show ?thesis using True p assms(3) by (simp add: throwIfAborted_def)
    next
      case False
      with Cons show ?thesis using p assms(3) by (auto simp: throwIfAborted_def)
    qed
  qed
  moreover have "filter (\<lambda>(t, x). t < ta) arrivals = []" if "ta \<le> now"
    using that assms(2) by (fastforce simp: filter_empty_conv)
  ultimately show ?thesis
    using assms by (auto simp: abortableIterable_def throwIfAborted_def)
qed

end
