(* ===== verification/Run_Scopes.thy ===== *)
theory Run_Scopes
  imports Scope_Props Run_Tasks
begin

text \<open>
  The part of \<open>packages/core/src/run/index.ts\<close> that touches the scope engine directly: \<open>scope\<close>,
  \<open>background\<close>, \<open>detached\<close>, \<open>supervise\<close> (its choice of a scope; the restart loop is in \<open>Run_Tasks\<close>)
  and the \<open>context\<close> namespace.

  \<open>AsyncLocalStorage\<close> is the argument \<open>current\<close>, the scope the caller runs in, if any. An operation
  that creates a handle returns its number beside the task body the engine runs, because the body
  is a wrapper around the caller's; \<open>sync\<close> is the error the caller's body throws before its first
  \<open>await\<close>. A wrapper is an \<open>async\<close> function, so what it wraps never settles inside \<open>spawn\<close>.
\<close>

definition named_task :: "string \<Rightarrow> task_opts" where
  "named_task n = \<lparr>to_name = Some n, to_kind = None, to_meta = None, to_key = None,
     to_cleanupTimeout = None, to_shortcut = False\<rparr>"

section \<open>scope and background\<close>

text \<open>
  \<open>scope\<close> is a group whose body spawns one task that runs in it. The result is the new scope with
  what \<open>spawn\<close> gave: an error it throws is the error of the group's body.
\<close>

definition run_scope :: "scope_id option \<Rightarrow> scope_opts \<Rightarrow> world \<Rightarrow> (err + scope_id \<times> (err + task_id)) \<times> world" where
  "run_scope current opts w =
     (case open_scope current opts w of
        (Inl e, w1) \<Rightarrow> (Inl e, w1)
      | (Inr s, w1) \<Rightarrow>
          (case spawn s (named_task (or_default (so_name opts) ''scope-body'')) False None w1 of
             (Inl e, w2) \<Rightarrow> (Inr (s, Inl e), group_body_failed s e w2)
           | (Inr t, w2) \<Rightarrow> (Inr (s, Inr t), w2)))"

definition background :: "scope_id option \<Rightarrow> err option \<Rightarrow> world \<Rightarrow> (err + task_id) \<times> world" where
  "background current sync w =
     (case current of
        None \<Rightarrow> (Inl (PlainError ''requires an active WorkIt scope''), w)
      | Some s \<Rightarrow> spawn s (named_task ''background'') True sync w)"

section \<open>detached and supervise\<close>

datatype lifetime = Unbounded | AtMost duration \<comment> \<open>\<open>maxLifetime\<close>: \<open>false\<close> or a duration\<close>

record detached_opts =
  do_name :: "string option"
  do_maxLifetime :: "lifetime option"
  do_cleanupTimeout :: "duration option"

definition DEFAULT_DETACHED_MAX_LIFETIME_MS :: rat where
  "DEFAULT_DETACHED_MAX_LIFETIME_MS = 300000"

definition detached_root :: "detached_opts \<Rightarrow> scope_opts" where
  "detached_root opts = \<lparr>so_name = Some (or_default (do_name opts) ''detached''), so_deadline = None,
     so_context = None, so_cleanupTimeout = do_cleanupTimeout opts\<rparr>"

definition detached_body :: "bool \<Rightarrow> 'v Run_Tasks.task \<Rightarrow> detached_opts \<Rightarrow> err + 'v Run_Tasks.task" where
  "detached_body timer_first task opts =
     (case or_default (do_maxLifetime opts) (AtMost (DNum (Fin DEFAULT_DETACHED_MAX_LIFETIME_MS))) of
        Unbounded \<Rightarrow> Inr task
      | AtMost d \<Rightarrow> timeout timer_first task d)"

definition detached_sync :: "detached_opts \<Rightarrow> err option \<Rightarrow> err option" where
  "detached_sync opts sync = (if do_maxLifetime opts = Some Unbounded then sync else None)"

text \<open>The root scope, the handle and the body, in the order the code makes them.\<close>

definition detached :: "bool \<Rightarrow> 'v Run_Tasks.task \<Rightarrow> detached_opts \<Rightarrow> err option \<Rightarrow> world \<Rightarrow>
    (err + scope_id \<times> task_id \<times> 'v Run_Tasks.task) \<times> world" where
  "detached timer_first task opts sync w =
     (case open_scope None (detached_root opts) w of
        (Inl e, w1) \<Rightarrow> (Inl e, w1)
      | (Inr s, w1) \<Rightarrow>
          (case detached_body timer_first task opts of
             Inl e \<Rightarrow> (Inl e, w1)
           | Inr body \<Rightarrow>
               (case spawn s (named_task (or_default (do_name opts) ''detached'')) False (detached_sync opts sync) w1 of
                  (Inl e, w2) \<Rightarrow> (Inl e, w2)
                | (Inr t, w2) \<Rightarrow> (Inr (s, t, body), w2))))"

text \<open>\<open>handle.finally(() => root.close())\<close>: the callback, once the handle has settled.\<close>

definition detached_settled :: "scope_id \<Rightarrow> task_id \<Rightarrow> world \<Rightarrow> world" where
  "detached_settled s t w = (if t_phase (task_of w t) = TDone then close_scope s w else w)"

definition default_detached :: detached_opts where
  "default_detached = \<lparr>do_name = None, do_maxLifetime = None, do_cleanupTimeout = None\<rparr>"

text \<open>The supervised body is one task of the current scope, or else a detached one.\<close>

definition supervise_handle :: "bool \<Rightarrow> 'v Run_Tasks.task \<Rightarrow> supervise_opts \<Rightarrow> (nat \<Rightarrow> rat) \<Rightarrow> scope_id option \<Rightarrow> world \<Rightarrow>
    (err + scope_id \<times> task_id \<times> 'v Run_Tasks.task) \<times> world" where
  "supervise_handle timer_first task opts rnd current w =
     (case supervise task opts rnd (clock w) of
        Inl e \<Rightarrow> (Inl e, w)
      | Inr supervised \<Rightarrow>
          (case current of
             None \<Rightarrow> detached timer_first supervised default_detached None w
           | Some s \<Rightarrow>
               (case spawn s (named_task ''supervised'') False None w of
                  (Inl e, w1) \<Rightarrow> (Inl e, w1)
                | (Inr t, w1) \<Rightarrow> (Inr (s, t, supervised), w1))))"

section \<open>context\<close>

definition context_current :: "scope_id option \<Rightarrow> world \<Rightarrow> bag" where
  "context_current current w = (case current of None \<Rightarrow> [] | Some s \<Rightarrow> sc_context (scope_of w s))"

text \<open>\<open>with\<close>: a group with the extended bag; the value is checked before the scope is opened.\<close>

definition context_with :: "scope_id option \<Rightarrow> context_key \<Rightarrow> ctx_value \<Rightarrow> world \<Rightarrow> (err + scope_id) \<times> world" where
  "context_with current k v w =
     (case bag_with (budgets w) (context_current current w) k v of
        Inl e \<Rightarrow> (Inl e, w)
      | Inr (b, cs) \<Rightarrow>
          open_scope current \<lparr>so_name = None, so_deadline = None, so_context = Some b, so_cleanupTimeout = None\<rparr>
            (w\<lparr>budgets := cs\<rparr>))"

definition context_get :: "scope_id option \<Rightarrow> context_key \<Rightarrow> world \<Rightarrow> ctx_value option" where
  "context_get current k w = bag_get (budgets w) (context_current current w) k"

text \<open>\<open>budget\<close> copies the three fields; a key that holds no budget is outside its type.\<close>

definition context_budget :: "scope_id option \<Rightarrow> context_key \<Rightarrow> world \<Rightarrow> budget_state option" where
  "context_budget current k w =
     (case context_get current k w of
        Some (CBudget s) \<Rightarrow> Some \<lparr>bud_limit = bud_limit s, bud_spent = bud_spent s, bud_unit = bud_unit s\<rparr>
      | _ \<Rightarrow> None)"

section \<open>Every operation is a run of the engine\<close>

abbreviation current_ok :: "scope_id option \<Rightarrow> world \<Rightarrow> bool" where
  "current_ok current w \<equiv> (case current of None \<Rightarrow> True | Some s \<Rightarrow> scopes w s \<noteq> None)"

lemma open_reachable:
  assumes "engine_reachable w" and "current_ok p w" and "so_context opts = None"
    and "open_scope p opts w = (r, w')"
  shows "engine_reachable w'"
  using reachable_op [OF assms(1), of "OpOpen p opts"] assms(2-4) by simp

lemma spawn_reachable:
  assumes "engine_reachable w" and "scopes w s \<noteq> None" and "spawn s opts bg sync w = (r, w')"
  shows "engine_reachable w'"
  using reachable_op [OF assms(1), of "OpSpawn s opts bg sync"] assms(2,3) by simp

text \<open>What a scope and a task are when they are made.\<close>

lemma scope_of_next [simp]: "scope_of (w\<lparr>next_id := n\<rparr>) = scope_of w"
  by (simp add: scope_of_def fun_eq_iff)

lemma new_scope_next [simp]: "new_scope p opts ms (w\<lparr>next_id := n\<rparr>) = new_scope p opts ms w"
  by (simp add: new_scope_def split: option.split)

lemma new_task_next [simp]: "new_task s opts bg ms (w\<lparr>next_id := n\<rparr>) = new_task s opts bg ms w"
  by (simp add: new_task_def)

lemma open_root:
  assumes "open_scope None opts w = (Inr s, w')" and "so_deadline opts = None"
  shows "s = next_id w + 1" and "next_id w' = s" and "tasks w' = tasks w" and "clock w' = clock w"
    and "\<exists>ms. scopes w' = (scopes w)(s \<mapsto> new_scope None opts ms w)"
  using assms by (auto simp: open_scope_def Let_def split: sum.splits)

lemma open_scope_exists: "open_scope p opts w = (Inr s, w') \<Longrightarrow> scopes w' s \<noteq> None"
  by (cases p) (auto simp: open_scope_def Let_def deadline_def split: sum.splits if_splits)

lemma spawn_keeps_scopes: "spawn s opts bg None w = (r, w') \<Longrightarrow> scopes w d \<noteq> None \<Longrightarrow> scopes w' d \<noteq> None"
  by (auto simp: spawn_def Let_def split: sum.splits option.splits if_splits)

lemma open_child:
  assumes "open_scope (Some p) opts w = (Inr s, w')" and "so_deadline opts = None" and "scopes w p \<noteq> None"
    and "scopes w s = None"
  shows "\<exists>ms. scopes w' s = Some (new_scope (Some p) opts ms w)"
    and "sc_context (scope_of w' p) = sc_context (scope_of w p)"
proof -
  have ne: "p \<noteq> s" using assms(3,4) by auto
  have "\<exists>ms. scopes w' = (scopes w)(s \<mapsto> new_scope (Some p) opts ms w,
      p \<mapsto> (scope_of w p)\<lparr>sc_children := sc_children (scope_of w p) @ [s]\<rparr>)"
    using assms ne by (auto simp: open_scope_def Let_def scope_of_def fun_eq_iff split: sum.splits)
  then show "\<exists>ms. scopes w' s = Some (new_scope (Some p) opts ms w)"
    and "sc_context (scope_of w' p) = sc_context (scope_of w p)"
    using ne by (auto simp: scope_of_def)
qed

lemma spawn_new:
  assumes "spawn s opts bg None w = (Inr t, w')" and "to_key opts = None"
  shows "t = next_id w + 1" and "\<exists>ms. tasks w' = (tasks w)(t \<mapsto> new_task s opts bg ms w)"
    and "scopes w' = (scopes w)(s := map_option (\<lambda>sc. sc\<lparr>sc_tasks := sc_tasks sc @ [t]\<rparr>) (scopes w s))"
  using assms
  by (auto simp: spawn_def Let_def spawn_checks_def split: sum.splits option.splits if_splits)

section \<open>Detached and background work\<close>

lemma detached_bodyE:
  assumes "detached timer_first task opts sync w = (Inr (s, t, body), w')"
  obtains w1 where "open_scope None (detached_root opts) w = (Inr s, w1)"
    and "detached_body timer_first task opts = Inr body"
    and "spawn s (named_task (or_default (do_name opts) ''detached'')) False (detached_sync opts sync) w1 = (Inr t, w')"
  using assms by (auto simp: detached_def split: prod.splits sum.splits)

lemma detached_reachable:
  assumes "engine_reachable w"
  shows "engine_reachable (snd (detached timer_first task opts sync w))"
proof (cases "open_scope None (detached_root opts) w")
  case (Pair r w1)
  have r1: "engine_reachable w1" by (rule open_reachable [OF assms _ _ Pair]) (simp_all add: detached_root_def)
  have "scopes w1 s \<noteq> None" if "r = Inr s" for s
    using open_root(5) [of "detached_root opts" w s w1] Pair that by (auto simp: detached_root_def)
  then show ?thesis
    using r1 by (auto simp: detached_def Pair split: sum.split prod.split intro: spawn_reachable)
qed

lemma cancel_elsewhere:
  assumes "engine_reachable w" and "tasks w t = Some tk" and "\<not> below_id w d (t_scope tk)" and "scopes w d \<noteq> None"
  shows "t_signal (task_of (snd (cancel d arg w)) t) = t_signal tk"
proof (cases "sc_state (scope_of w d) = ScRunning \<and> tag_check arg = None")
  case True
  obtain sc where sc: "scopes w d = Some sc" using assms(4) by blast
  have "scope_inv w d sc" by (rule engine_invD(1) [OF engine.reachable_inv [OF assms(1)] sc])
  with True sc have run: "sc_state sc = ScRunning" "\<not> sc_closingEmitted sc" by (auto simp: scope_inv_def scope_local_def)
  show ?thesis
    using cancel_reasoned_eq(2) [OF sc run, of "arg_reason arg"] True assms(2,3)
    by (simp add: cancel_def task_of_def abort_scopes)
qed (use assms(2) in \<open>auto simp: cancel_def split: option.split\<close>)

text \<open>
  C19: A detached task lives in a root scope of its own: it is not aborted when it starts, no
  cancellation of a scope that existed before reaches it, and without \<open>maxLifetime: false\<close> its body
  settles within the given lifetime, or within five minutes.
\<close>

theorem detached_independent:
  assumes "engine_reachable w" and "detached timer_first task opts None w = (Inr (s, t, body), w')"
    and "scopes w d \<noteq> None"
  shows "engine_reachable w' \<and> scopes w s = None \<and> tasks w t = None \<and> t_scope (task_of w' t) = s \<and>
    sc_ancestors (scope_of w' s) = [] \<and> t_signal (task_of w' t) = None \<and>
    t_signal (task_of (snd (cancel d arg w')) t) = None \<and>
    (case or_default (do_maxLifetime opts) (AtMost (DNum (Fin 300000))) of
       Unbounded \<Rightarrow> body = task
     | AtMost dur \<Rightarrow> \<exists>ms u r. parseDuration dur = Inr ms \<and> fst (body ctx now) = Some (u, r) \<and> u \<le> now + ms)"
proof -
  note inv = engine.reachable_inv [OF assms(1)]
  obtain w1 where o': "open_scope None (detached_root opts) w = (Inr s, w1)"
    and b: "detached_body timer_first task opts = Inr body"
    and sp: "spawn s (named_task (or_default (do_name opts) ''detached'')) False None w1 = (Inr t, w')"
    using assms(2) by (auto elim!: detached_bodyE simp: detached_sync_def)
  have dl: "so_deadline (detached_root opts) = None" by (simp add: detached_root_def)
  note root = open_root [OF o' dl]
  obtain ms where s1: "scopes w1 = (scopes w)(s \<mapsto> new_scope None (detached_root opts) ms w)" using root(5) by blast
  have k: "to_key (named_task n) = None" for n by (simp add: named_task_def)
  note new = spawn_new [OF sp k]
  obtain ms' where t': "tasks w' t = Some (new_task s (named_task (or_default (do_name opts) ''detached'')) False ms' w1)"
    using new(2) by auto
  have so: "scope_of w1 s = new_scope None (detached_root opts) ms w" using s1 by (simp add: scope_of_def)
  have fresh: "scopes w s = None" "tasks w t = None"
    using engine_ids [OF inv] root(1,2) new(1) by auto
  have s': "\<exists>sc. scopes w' s = Some sc \<and> sc_ancestors sc = []" using new(3) s1 by (auto simp: new_scope_def)
  then have anc: "sc_ancestors (scope_of w' s) = []" by auto
  have tk: "t_scope (task_of w' t) = s" "t_signal (task_of w' t) = None"
    using t' so by (simp_all add: task_of_def new_task_def new_scope_def)
  have ds: "d \<noteq> s" using assms(3) fresh by auto
  have d': "scopes w' d \<noteq> None" using new(3) s1 assms(3) ds by auto
  have re: "engine_reachable w'"
    using detached_reachable [OF assms(1), of timer_first task opts None] assms(2) by simp
  have c: "t_signal (task_of (snd (cancel d arg w')) t) = None"
    using cancel_elsewhere [OF re t', of d arg] s' ds tk t' d' by (auto simp: new_task_def below_id_def below_def)
  have bd: "case or_default (do_maxLifetime opts) (AtMost (DNum (Fin 300000))) of
       Unbounded \<Rightarrow> body = task
     | AtMost dur \<Rightarrow> \<exists>ms u r. parseDuration dur = Inr ms \<and> fst (body ctx now) = Some (u, r) \<and> u \<le> now + ms"
  proof (cases "or_default (do_maxLifetime opts) (AtMost (DNum (Fin 300000)))")
    case (AtMost dur)
    then have "timeout timer_first task dur = Inr body"
      using b by (simp add: detached_body_def DEFAULT_DETACHED_MAX_LIFETIME_MS_def)
    then obtain m where m: "parseDuration dur = Inr m" "body = timeout_run timer_first task m None"
      by (auto simp: timeout_def res_simps)
    obtain u r where "fst (body ctx now) = Some (u, r)"
      using race_timer_total by (metis m(2) timeout_run_relative)
    moreover from this have "u \<le> now + timer_delay m"
      unfolding m(2) timeout_run_relative by (auto simp: race_timer_def split: option.splits if_splits)
    ultimately show ?thesis using m(1) timer_delay_shorter [of m] by (auto simp: AtMost)
  qed (use b in \<open>simp add: detached_body_def DEFAULT_DETACHED_MAX_LIFETIME_MS_def\<close>)
  show ?thesis using re fresh tk anc c bd by blast
qed

lemma detached_succeeds:
  assumes "detached_body timer_first task opts = Inr body" and "do_cleanupTimeout opts = None"
    and "do_name opts = None"
  shows "\<exists>s t w'. detached timer_first task opts sync w = (Inr (s, t, body), w')"
proof -
  obtain w1 where o': "open_scope None (detached_root opts) w = (Inr (next_id w + 1), w1)"
    using assms(2) by (auto simp: open_scope_def Let_def detached_root_def duration_or_def)
  obtain ms where "scopes w1 (next_id w + 1) = Some (new_scope None (detached_root opts) ms w)"
    using open_root(5) [OF o'] by (auto simp: detached_root_def)
  then show ?thesis
    using assms o'
    by (auto simp: detached_def spawn_def spawn_checks_def named_task_def assertBoundedString_def new_scope_def Let_def
        duration_or_def MAX_TASK_NAME_LENGTH_def)
qed

lemma detached_independent_witness:
  "\<exists>s t body w'. detached True (slow_task 400000) default_detached None family = (Inr (s, t, body), w') \<and>
     t_signal (task_of (snd (cancel 1 (Tag ''stop'') w')) t) = None \<and>
     (\<exists>u r. fst (body root_ctx 0) = Some (u, r) \<and> u \<le> 300000)"
proof -
  have p: "parseDuration (DNum (Fin 300000)) = Inr 300000" by (simp add: MAX_TIMEOUT_MS_def)
  then obtain body where "detached_body True (slow_task 400000) default_detached = Inr body"
    by (auto simp: detached_body_def default_detached_def DEFAULT_DETACHED_MAX_LIFETIME_MS_def timeout_def res_simps)
  then obtain s t w' where d: "detached True (slow_task 400000) default_detached None family = (Inr (s, t, body), w')"
    using detached_succeeds [of True "slow_task 400000" default_detached body None family]
    by (auto simp: default_detached_def)
  have "scopes family 1 = None \<longleftrightarrow> False" by code_simp
  then show ?thesis
    using detached_independent [OF family_reachable d, of 1 "Tag ''stop''" root_ctx 0] d p
    by (auto simp: default_detached_def)
qed

text \<open>
  The root scope is opened before the lifetime and the name are checked: when one of them is
  refused the caller gets the error and the root stays open, idle and empty, with no handle that
  would ever close it.
\<close>

lemma detached_leaks_root:
  assumes "detached_body timer_first task opts = Inl e \<or>
      (\<exists>n. do_name opts = Some n \<and> (n = [] \<or> MAX_TASK_NAME_LENGTH < length n))"
    and "do_cleanupTimeout opts = None"
  shows "\<exists>e' sc w'. detached timer_first task opts sync w = (Inl e', w') \<and> scopes w' (next_id w + 1) = Some sc \<and>
    sc_state sc = ScRunning \<and> sc_phase sc = CIdle \<and> sc_tasks sc = [] \<and> sc_ancestors sc = [] \<and>
    history w' = history w @ [(next_id w + 1, ScopeOpened (next_id w + 1) None (clock w))]"
proof -
  obtain w1 where o': "open_scope None (detached_root opts) w = (Inr (next_id w + 1), w1)"
    and h: "history w1 = history w @ [(next_id w + 1, ScopeOpened (next_id w + 1) None (clock w))]"
    using assms(2) by (auto simp: open_scope_def Let_def detached_root_def duration_or_def)
  obtain ms where sc: "scopes w1 (next_id w + 1) = Some (new_scope None (detached_root opts) ms w)"
    using open_root(5) [OF o'] by (auto simp: detached_root_def)
  have "\<exists>e'. detached timer_first task opts sync w = (Inl e', w1)"
    using assms(1) o' sc
    by (auto simp: detached_def spawn_def spawn_checks_def named_task_def assertBoundedString_def new_scope_def Let_def
        split: sum.split)
  then show ?thesis using sc h by (auto simp: new_scope_def)
qed

text \<open>A background task that fails leaves the state and the failure of every scope as they are.\<close>

lemma background_failure_isolated:
  assumes "tasks w t = Some tk" and "t_background tk"
  shows "sc_state (scope_of (settle_body t r w) s) = sc_state (scope_of w s) \<and>
    sc_failure (scope_of (settle_body t r w) s) = sc_failure (scope_of w s)"
  using assms by (auto simp: settle_body_def Let_def next_task_cleanup_scopes split: sum.split)

lemma background_spawns:
  assumes "background current None w = (Inr t, w')"
  shows "\<exists>s tk. current = Some s \<and> tasks w' t = Some tk \<and> t_scope tk = s \<and> t_background tk"
  using assms spawn_new(2) [of _ "named_task ''background''" True w t w']
  by (cases current) (fastforce simp: background_def named_task_def new_task_def)+

section \<open>scope, supervise and context\<close>

lemma run_scope_reachable:
  assumes "engine_reachable w" and "current_ok current w" and "so_context opts = None"
  shows "engine_reachable (snd (run_scope current opts w))"
proof (cases "open_scope current opts w")
  case (Pair r w1)
  have r1: "engine_reachable w1" by (rule open_reachable [OF assms Pair])
  have s: "scopes w1 s \<noteq> None" if "r = Inr s" for s
    using Pair that open_scope_exists by blast
  have fail: "engine_reachable (group_body_failed s e w2)"
    if "engine_reachable w2" "scopes w2 s \<noteq> None" for s e w2
    using reachable_op [OF that(1), of "OpGroupFailed s e"] that(2) by simp
  have sp: "engine_reachable w2 \<and> scopes w2 s \<noteq> None" if "r = Inr s" "spawn s o' False None w1 = (q, w2)" for s q w2 o'
    using spawn_reachable [OF r1 s [OF that(1)] that(2)] spawn_keeps_scopes [OF that(2)] s [OF that(1)] by blast
  show ?thesis using r1 sp fail by (auto simp: run_scope_def Pair split: sum.split prod.split)
qed

text \<open>
  \<open>context.with\<close> opens a child of the current scope whose bag reads the new value for the key and
  what the current scope reads for every other key; the current scope keeps its own bag.
\<close>

lemma context_with_scope:
  assumes "engine_reachable w" and "scopes w p \<noteq> None"
    and "bag_with (budgets w) (sc_context (scope_of w p)) k v = Inr (b, cs)"
    and "context_with (Some p) k v w = (Inr s, w')"
  shows "context_current (Some s) w' = b \<and> context_current (Some p) w' = context_current (Some p) w \<and>
    sc_ancestors (scope_of w' s) = p # sc_ancestors (scope_of w p)"
proof -
  let ?o = "\<lparr>so_name = None, so_deadline = None, so_context = Some b, so_cleanupTimeout = None\<rparr>"
  have o': "open_scope (Some p) ?o (w\<lparr>budgets := cs\<rparr>) = (Inr s, w')"
    using assms(3,4) by (simp add: context_with_def context_current_def)
  have sn: "s = next_id w + 1" using o' by (auto simp: open_scope_def Let_def duration_or_def)
  have so: "scope_of (w\<lparr>budgets := cs\<rparr>) = scope_of w" by (simp add: scope_of_def fun_eq_iff)
  have f: "scopes (w\<lparr>budgets := cs\<rparr>) s = None"
    using engine_ids(1) [OF engine.reachable_inv [OF assms(1)]] sn by simp
  show ?thesis
    using open_child [OF o' _ _ f] assms(2) by (auto simp: context_current_def new_scope_def so)
qed

end
