(* ===== verification/Runtime_Stubs.thy ===== *)
theory Runtime_Stubs
  imports Json
begin

text \<open>
  The package entries, \<open>packages/core/src/index.ts\<close> and the subpath entries, against the module that
  replaces them outside of Node, \<open>packages/core/src/runtime/unsupported.ts\<close>: \<open>package.json\<close> resolves
  seven entries to it. A path is an export with the members that follow it (\<open>run\<close>, \<open>context\<close>, \<open>get\<close>).
  Types vanish at run time and are left out; so is the fixed rest of the stubs' message.
\<close>

datatype stub =
    Unsupported string \<comment> \<open>a function or class that throws, with the name it was made with\<close>
  | StubError string \<comment> \<open>an error class\<close>
  | StubKey string string \<comment> \<open>the name and unit of a budget key\<close>
  | StubNamespace "(string \<times> stub) list"

definition unsupportedFunction :: "string \<Rightarrow> stub" where
  "unsupportedFunction apiName = Unsupported apiName"

definition unsupportedClass :: "string \<Rightarrow> stub" where
  "unsupportedClass apiName = Unsupported apiName"

definition budgetKey :: "string \<Rightarrow> string \<Rightarrow> stub" where
  "budgetKey name unit = StubKey name unit"

definition UnsupportedRuntimeError :: "string \<Rightarrow> err" where
  "UnsupportedRuntimeError apiName = Thrown (VErr ''UnsupportedRuntimeError''
     (apiName @ '' is unavailable in this WorkIt runtime.''))"

definition stub_run :: "(string \<times> stub) list" where
  "stub_run =
     map (\<lambda>n. (n, unsupportedFunction (''run.'' @ n)))
       [''all'', ''allSettled'', ''any'', ''race'', ''series'', ''pool'', ''timeout'', ''deadline'', ''retry'',
        ''hedge'', ''fallback'', ''circuitBreaker'', ''group'', ''scope'', ''background'', ''detached'', ''supervise'']
     @ [(''context'', StubNamespace (map (\<lambda>n. (n, unsupportedFunction (''run.context.'' @ n)))
          [''current'', ''with'', ''get'', ''budget'']))]"

definition stub_exports :: "(string \<times> stub) list" where
  "stub_exports =
     map (\<lambda>n. (n, StubError n))
       [''UnsupportedRuntimeError'', ''CancellationError'', ''TimeoutError'', ''BudgetExceededError'',
        ''WorkAggregateError'', ''BadBatchError'']
     @ map (\<lambda>(n, u). (n, budgetKey n u))
       [(''CostBudget'', ''usd''), (''TelemetryBudget'', ''events''), (''TokenBudget'', ''tokens''),
        (''LatencyBudget'', ''ms''), (''OpenAITokens'', ''tokens'')]
     @ map (\<lambda>n. (n, unsupportedFunction n))
       [''group'', ''getCurrentScope'', ''renderTree'', ''createContextKey'', ''createBudget'']
     @ [(''ContextBagImpl'', unsupportedClass ''ContextBagImpl'')]
     @ map (\<lambda>n. (n, unsupportedFunction n))
       [''work'', ''embedAll'', ''embedAllBisection'', ''streamWithBackpressure'', ''transcribeStream'', ''wrapAI'',
        ''offload'', ''firstAcceptable'', ''classifyWorkItFailure'']
     @ [(''run'', StubNamespace stub_run)]"

section \<open>Using an export\<close>

text \<open>Following a path; \<open>None\<close> is a missing property, as which a missing export shows up in a bundle.\<close>

fun lookup_path :: "(string \<times> stub) list \<Rightarrow> string list \<Rightarrow> stub option" where
  "lookup_path ns [] = None"
| "lookup_path ns [n] = map_of ns n"
| "lookup_path ns (n # path) =
     (case map_of ns n of Some (StubNamespace inner) \<Rightarrow> lookup_path inner path | _ \<Rightarrow> None)"

text \<open>What a call of the path throws, when it throws.\<close>

definition call_path :: "(string \<times> stub) list \<Rightarrow> string list \<Rightarrow> err option" where
  "call_path ns path =
     (case lookup_path ns path of
        Some (Unsupported apiName) \<Rightarrow> Some (UnsupportedRuntimeError apiName)
      | Some (StubError _) \<Rightarrow> None
      | _ \<Rightarrow> Some (TypeError ''is not a function''))"

section \<open>The entries in Node\<close>

text \<open>The functions and the constants of each entry that \<open>package.json\<close> gives the stubs as default.\<close>

definition run_members :: "string list list" where
  "run_members =
     map (\<lambda>n. [''run'', n])
       [''all'', ''allSettled'', ''any'', ''race'', ''series'', ''pool'', ''timeout'', ''uncancellable'', ''deadline'',
        ''retry'', ''hedge'', ''fallback'', ''bracket'', ''circuitBreaker'', ''group'', ''scope'', ''background'',
        ''detached'', ''supervise'']
     @ map (\<lambda>n. [''run'', ''context'', n]) [''current'', ''with'', ''get'', ''budget'']"

definition index_exports :: "string list list" where
  "index_exports =
     map (\<lambda>n. [n]) [''group'', ''getCurrentScope'', ''work'', ''renderTree'', ''createContextKey'', ''createBudget'',
       ''ContextBagImpl'', ''CancellationError'', ''TimeoutError'', ''BudgetExceededError'', ''WorkAggregateError'',
       ''CostBudget'', ''TelemetryBudget'', ''TokenBudget'', ''LatencyBudget''] @ run_members"

definition ai_exports :: "string list list" where
  "ai_exports = map (\<lambda>n. [n]) [''OpenAITokens'', ''AgentToolCalls'', ''AgentCapabilityError'', ''BadBatchError'', ''wrapAI'',
     ''runAgent'', ''embedAll'', ''embedAllBisection'', ''transcribeStream'', ''streamWithBackpressure'', ''streamLLM'']"

definition activity_exports :: "string list list" where
  "activity_exports = map (\<lambda>n. [n]) [''ActivityConflictError'', ''ActivityNotRunnableError'', ''ActivitySerializationError'',
     ''createMemoryActivityStore'', ''createFileActivityStore'', ''runActivity'']"

definition candidates_exports :: "string list list" where
  "candidates_exports = map (\<lambda>n. [n]) [''classifyWorkItFailure'', ''firstAcceptable'']"

definition fault_exports :: "string list list" where
  "fault_exports = map (\<lambda>n. [n]) [''cancellationStorm'', ''cleanupHang'', ''providerTimeout'', ''retryExhaustion'',
     ''runFaultScenario'', ''runFaultSuite'']"

definition ledger_exports :: "string list list" where
  "ledger_exports = map (\<lambda>n. [n]) [''ReceiptLedgerConflictError'', ''createMemoryReceiptLedger'',
     ''createSqliteReceiptLedger'', ''createPostgresReceiptLedger'', ''createFileReceiptLedger'']"

definition worker_exports :: "string list list" where
  "worker_exports = [[''offload'']]"

definition missing_exports :: "string list list \<Rightarrow> string list list" where
  "missing_exports exports = filter (\<lambda>path. lookup_path stub_exports path = None) exports"

section \<open>What the boundary covers\<close>

fun stub_paths :: "string list \<Rightarrow> string \<times> stub \<Rightarrow> (string list \<times> string) list" where
  "stub_paths pre (n, Unsupported api) = [(pre @ [n], api)]"
| "stub_paths pre (n, StubNamespace ns) = concat (map (stub_paths (pre @ [n])) ns)"
| "stub_paths pre (n, _) = []"

text \<open>Every stub throws the error that names the path it stands at.\<close>

lemma stubs_name_their_path:
  "list_all (\<lambda>(path, api). call_path stub_exports path = Some (UnsupportedRuntimeError (join ''.'' path)))
     (concat (map (stub_paths []) stub_exports))"
  by code_simp

text \<open>
  What the stubs leave out of the entries they stand for is exactly this: two members of \<open>run\<close>, four
  exports of the AI entry, and all of the activity, fault and ledger entries. Calling one of them
  outside of Node throws a \<open>TypeError\<close>, where the documentation promises the explicit error.
\<close>

lemma unsupported_boundary_gaps:
  "missing_exports index_exports = [[''run'', ''uncancellable''], [''run'', ''bracket'']] \<and>
   missing_exports ai_exports = [[''AgentToolCalls''], [''AgentCapabilityError''], [''runAgent''], [''streamLLM'']] \<and>
   missing_exports activity_exports = activity_exports \<and> missing_exports fault_exports = fault_exports \<and>
   missing_exports ledger_exports = ledger_exports \<and> missing_exports candidates_exports = [] \<and>
   missing_exports worker_exports = []"
  by code_simp

lemma missing_export_call:
  "path \<in> set (missing_exports exports) \<Longrightarrow>
     path \<in> set exports \<and> call_path stub_exports path = Some (TypeError ''is not a function'')"
  by (simp add: missing_exports_def call_path_def)

end
