(* ===== verification/Spec2Isabelle.thy ===== *)
theory Spec2Isabelle
  imports Time_Policy_Props Channel Context_Bag Scope_Props Scope_Budget Run_Groups Breaker Analysis_Props Snapshot_Views
    Ledger_Props Activity_Props Plan_Soundness Candidates_Props Exporter_Props Worker_Props Work_Props Work_Stream AI_Props Resources Contracts Otel Fault LLM_Stream Run_Scopes Runtime_Stubs
begin

text \<open>
  A verification development for WorkIt, the structured-concurrency library for TypeScript under
  \<open>packages/core/src\<close>: every module of the library is modelled, from the source.

  \<^bold>\<open>The program.\<close> At the centre is the scope engine (\<open>engine/scope.ts\<close>): a scope owns tasks and child
  scopes, cancels them together, and does not finish before they have settled and its cleanups have
  run. Each scope has a bag of context values with budgets (\<open>engine/context.ts\<close>) and a bus that tells
  observers its events (\<open>engine/event-bus.ts\<close>). The \<open>run\<close> namespace (\<open>run/index.ts\<close>) composes tasks
  (\<open>timeout\<close>, \<open>retry\<close>, \<open>hedge\<close>, \<dots>) and groups of tasks (\<open>all\<close>, \<open>race\<close>, \<open>pool\<close>, \<dots>) over it;
  \<open>time-policy\<close> bounds the time of such a composition before it runs. On these stand the work builder,
  candidate selection, worker offload, the AI helpers, the resource bags and the contracts. Another
  half of the library observes: receipts are built from the events and the snapshot of a scope
  (\<open>replay\<close>), verified (\<open>analysis\<close>), kept in ledgers (\<open>ledger\<close>), and exported (\<open>observability\<close>, \<open>otel\<close>);
  \<open>activity\<close> makes an operation durable by recording it, and \<open>fault\<close> judges faulty runs by their receipts.

  \<^bold>\<open>Theories and sources.\<close> A theory \<open>X\<close> holds the data and operations, \<open>X_Props\<close> what they guarantee;
  definitions keep the names of the functions they translate.

  \<^item> \<open>WI_Prelude\<close>: numbers, values, errors and cancel reasons (\<open>types/index.ts\<close>), results that may be
    errors, reachable states of a step relation and the locale \<open>invariant_system\<close>. \<open>Json\<close>: the use of JSON.
  \<^item> \<open>Duration\<close>, \<open>Retry\<close> (\<open>engine/duration.ts\<close>, \<open>engine/retry.ts\<close>): parsing, policies, delays and \<open>sleep\<close>.
  \<^item> \<open>Context_Bag\<close>, \<open>Events\<close>, \<open>Event_Bus\<close>: overlays and budget cells, the event union, and dispatch through
    the chain of buses with the telemetry budget as its gate.
  \<^item> \<open>Scope\<close> (\<open>engine/scope.ts\<close>): the record \<open>world\<close> holds every scope, task, bus and budget cell; each
    synchronous stretch of the engine is a function on it, and \<open>engine_step\<close> is any of them, in any order.
    \<open>Scope_Inv\<close> proves the invariant of all reachable worlds, \<open>Scope_Props\<close> that cancellation reaches
    what is below, that a failure cancels the siblings, that each lifecycle event comes once, that \<open>close\<close>
    waits for owned work and that cleanups run in reverse; \<open>Scope_Budget\<close> what charges do.
  \<^item> \<open>Run_Tasks\<close>, \<open>Run_Groups\<close>, \<open>Breaker\<close>, \<open>Run_Scopes\<close> (\<open>run/index.ts\<close>): a task is a function of its context
    and start time to the time and result it settles with; wrappers and groups map tasks to such
    functions. The circuit breaker, whose state outlives a call, is a step relation. \<open>Run_Scopes\<close> has
    the operations that use the engine directly (\<open>scope\<close>, \<open>background\<close>, \<open>detached\<close>, \<open>context\<close>).
  \<^item> \<open>Time_Policy\<close>: the planner. Its lemmas say when a policy is accepted and that its saturating
    arithmetic is exact below the cut; \<open>Plan_Soundness\<close> relates it to the wrappers: a composition of
    attempts that keep their durations settles within the planned bound.
  \<^item> \<open>Channel\<close> (\<open>channel/index.ts\<close>): senders, receivers and buffer with the settlements of their promises;
    nothing is lost, duplicated or reordered.
  \<^item> \<open>Work\<close>, \<open>Work_Stream\<close> (\<open>work/index.ts\<close>): the batch run over \<open>run_pool\<close> and the loop of \<open>stream\<close> as a
    machine; \<open>Candidates\<close>: selection, whose evidence is a run of the abstract \<open>search_trace\<close>;
    \<open>Worker\<close>: the structured-clone check and the offload protocol; \<open>AI\<close> and \<open>LLM_Stream\<close>: batches with
    bisection, the agent's log, and \<open>streamLLM\<close> over the operations of \<open>Channel\<close>; \<open>Resources\<close> and
    \<open>Contracts\<close>: lazy and shared acquisition, and the brand of a task.
  \<^item> \<open>Replay\<close>, \<open>Analysis\<close>, \<open>Snapshot_Views\<close> (\<open>replay\<close>, \<open>analysis\<close>, \<open>engine/tree.ts\<close>, \<open>diagnostics\<close>): receipts
    are plain objects, because redaction may replace any part of them and the verifiers read what is left.
  \<^item> \<open>Ledger\<close>, \<open>Activity\<close>: the stores, whole operations and also one step for each file operation, so that
    processes interleave. \<open>Exporter\<close>, \<open>Otel\<close>: the bounded export queue and the span adapter as machines.
    \<open>Fault\<close>: the scenarios, in the tasks of \<open>Run_Tasks\<close>, and the verdict over \<open>Replay\<close> and \<open>Analysis\<close>.
  \<^item> \<open>Runtime_Stubs\<close> (\<open>index.ts\<close>, \<open>runtime/unsupported.ts\<close>): what the package exports outside of Node.

  \<^bold>\<open>Interfaces.\<close> \<open>invariant_system\<close> (initial states, steps, invariant) is interpreted on every step relation:
  the engine, the channel, the breaker, streams, the LLM stream, agents, exports, the span adapter, resources,
  contracts, file appends and activity calls. \<open>keyed_store\<close> is the law of a lookup after an update (bags and
  their flattening). \<open>receipt_ledger\<close> and \<open>durable_ledger\<close> are the contract of a ledger; the memory and the
  file ledger are interpretations, and a \<open>sql_client\<close> that behaves as its statements say gives two more
  by \<open>sublocale\<close>, with a table as its concrete instance. \<open>activity_store\<close> and \<open>durable_activity_store\<close>
  are the contract of the activity stores: the file store is durable, the memory store is not, because
  it evicts. Each durable ledger refines one finite map.

  \<^bold>\<open>Conventions.\<close> An operation that may throw returns \<open>Inl\<close> of the error, with the state it leaves, because
  some operations change the state before they throw. Times and finite numbers are exact rationals with
  the special values of IEEE numbers beside them; rounding is not modelled, except where the code
  rounds itself (\<open>toFixed\<close>, \<open>Math.floor\<close>). Messages of errors keep their fixed part. Clocks, random
  numbers, SHA-256, \<open>String(value)\<close>, the SQL client, the tracer, the provider, the worker thread and every
  callback of the application are arguments. A promise is the number of the call that made it, and its
  settlement an entry of a log. The environment chooses when and in which order things settle.

  \<^bold>\<open>Bounds and fuel.\<close> Three functions carry a bound that the code does not have. \<open>retry_loop\<close> gets the number
  of attempts of the policy, which the loop's own test reaches first; \<open>supervise_loop\<close> gets
  \<open>maxRestarts + 1\<close>, likewise; \<open>scope_status_tree\<close> gets one more than the number of identifiers drawn, and
  a child has a greater identifier than its parent (\<open>status_total\<close>). The walk of the clone check is bounded
  by the size of the object store, and never runs out (\<open>Worker_Props\<close>). All other loops end by a
  measure, or are step relations that need not end: that a stream may then loop for ever is a theorem
  of \<open>Work_Stream\<close>.

  \<^bold>\<open>Lemmas that show less than promised.\<close> Where the code does not do what a comment or a document says, the
  behaviour is proved as the code has it, next to the property it limits: for example
  \<open>scope_closes_before_its_tasks\<close>, \<open>invalid_deadline_leaks_child\<close>, \<open>race_rejects_with_losers_error\<close>,
  \<open>cancelled_probe_wedges_breaker\<close>, \<open>file_append_race\<close>, \<open>evicted_claim_runs_twice\<close>,
  \<open>detached_leaks_root\<close> and \<open>unsupported_boundary_gaps\<close>.

  \<^bold>\<open>Not modelled.\<close> The observations the fault harness collects for its own report, the loading of the
  OpenTelemetry peer, stack traces, the text of file paths beyond what the ledgers compare, the moment
  of garbage collection (\<open>WeakMap\<close> entries are kept), and the type-level half of the contracts, which
  exists at compile time only. Outside of the library: its release scripts and benchmarks, the samples and
  examples, and the site under \<open>apps\<close>. They build, call or describe the library, and hold no logic of it.
\<close>

end
